(* ===== verification/Wgo_Prelude.thy ===== *)
theory Wgo_Prelude
  imports Main "HOL-Library.Word" "HOL-Library.AList" "HOL-Library.Multiset"
begin

text \<open>
  Shared vocabulary of the development: the Go integers, durations and instants that the client
  uses, Go maps as association lists, and the generic facts on lists and maps that the component
  theories rest on.

  \<^item> A Go integer of width \<open>w\<close> is an \<open>int\<close>; where an operation can leave the width the model writes
    the two's complement wrap-around out with \<open>i32\<close> or \<open>i64\<close>.
  \<^item> Go's \<open>/\<close> and \<open>%\<close> truncate towards zero: \<open>go_div\<close> and \<open>go_mod\<close>.
  \<^item> A \<open>time.Duration\<close> is a number of nanoseconds; a \<open>time.Time\<close> is the number of nanoseconds since
    the Unix epoch, and the zero \<open>time.Time{}\<close> is 1 January of year 1. \<open>time_sub\<close> is
    \<open>Time.Sub\<close>, which saturates at the ends of the \<open>Duration\<close> range.
  \<^item> A Go map is an association list with distinct keys. Its order stands for the iteration order
    that Go leaves open; theorems about code that ranges over a map hold for every such order.
\<close>

named_theorems gomap_simps \<open>look-ups in Go maps after updates and deletions\<close>
named_theorems go_int_simps \<open>arithmetic of Go's fixed width integers within range\<close>

type_synonym node_id = int
type_synonym topic = string
type_synonym partition = int
type_synonym topicPartition = "topic \<times> partition"
type_synonym duration = int
type_synonym instant = int
type_synonym uuid = "128 word"
type_synonym ('k, 'v) gomap = "('k \<times> 'v) list"

section \<open>Go integers\<close>

definition i32 :: "int \<Rightarrow> int" where
  "i32 n = (n + 2 ^ 31) mod 2 ^ 32 - 2 ^ 31"

definition i64 :: "int \<Rightarrow> int" where
  "i64 n = (n + 2 ^ 63) mod 2 ^ 64 - 2 ^ 63"

definition go_div :: "int \<Rightarrow> int \<Rightarrow> int" where
  "go_div a b = sgn a * sgn b * (\<bar>a\<bar> div \<bar>b\<bar>)"

definition go_mod :: "int \<Rightarrow> int \<Rightarrow> int" where
  "go_mod a b = a - b * go_div a b"

lemma i32_id [go_int_simps]: "- (2 ^ 31) \<le> n \<Longrightarrow> n < 2 ^ 31 \<Longrightarrow> i32 n = n"
  by (simp add: i32_def)

lemma i64_id [go_int_simps]: "- (2 ^ 63) \<le> n \<Longrightarrow> n < 2 ^ 63 \<Longrightarrow> i64 n = n"
  by (simp add: i64_def)

lemma i32_range: "- (2 ^ 31) \<le> i32 n \<and> i32 n < 2 ^ 31"
  by (simp add: i32_def)

lemma i64_range: "- (2 ^ 63) \<le> i64 n \<and> i64 n < 2 ^ 63"
  by (simp add: i64_def)

lemma go_div_nonneg [go_int_simps]: "0 \<le> a \<Longrightarrow> 0 < b \<Longrightarrow> go_div a b = a div b"
  by (cases "a = 0") (simp_all add: go_div_def)

lemma go_mod_nonneg [go_int_simps]: "0 \<le> a \<Longrightarrow> 0 < b \<Longrightarrow> go_mod a b = a mod b"
  by (simp add: go_mod_def go_div_nonneg minus_mult_div_eq_mod)

lemma go_mod_bounds: "0 < b \<Longrightarrow> - b < go_mod a b \<and> go_mod a b < b"
proof -
  assume b: "0 < b"
  have "\<bar>a\<bar> - b * (\<bar>a\<bar> div b) = \<bar>a\<bar> mod b" by (simp add: minus_mult_div_eq_mod)
  moreover have "0 \<le> \<bar>a\<bar> mod b" "\<bar>a\<bar> mod b < b" using b by simp_all
  ultimately have "0 \<le> \<bar>a\<bar> - b * (\<bar>a\<bar> div b)" "\<bar>a\<bar> - b * (\<bar>a\<bar> div b) < b" by simp_all
  moreover have "go_mod a b = sgn a * (\<bar>a\<bar> - b * (\<bar>a\<bar> div b))"
    using b by (simp add: go_mod_def go_div_def right_diff_distrib abs_mult_sgn ac_simps)
  ultimately show ?thesis using b by (cases "a = 0"; cases "0 < a") (simp_all add: sgn_if)
qed

section \<open>Instants and durations\<close>

abbreviation (input) millisecond :: duration where "millisecond \<equiv> 1000000"
abbreviation (input) second :: duration where "second \<equiv> 1000000000"

definition zero_time :: instant where
  "zero_time = - 62135596800 * second"

definition max_duration :: duration where "max_duration = 2 ^ 63 - 1"
definition min_duration :: duration where "min_duration = - (2 ^ 63)"

definition time_sub :: "instant \<Rightarrow> instant \<Rightarrow> duration" where
  "time_sub t u = max min_duration (min max_duration (t - u))"

lemma time_sub_ge_iff: "min_duration < d \<Longrightarrow> d \<le> max_duration \<Longrightarrow> d \<le> time_sub t u \<longleftrightarrow> d \<le> t - u"
  by (auto simp: time_sub_def)

section \<open>Decimal numerals\<close>

fun digits :: "nat \<Rightarrow> string" where
  "digits n = (if n < 10 then [char_of (48 + n)] else digits (n div 10) @ [char_of (48 + n mod 10)])"

text \<open>The \<open>%d\<close> of a number.\<close>

definition decimal :: "int \<Rightarrow> string" where
  "decimal n = (if n < 0 then CHR ''-'' # digits (nat (- n)) else digits (nat n))"

section \<open>Go maps\<close>

lemma map_of_update [gomap_simps, simp]:
  "map_of (AList.update k v m) j = (if j = k then Some v else map_of m j)"
  by (simp add: AList.update_conv)

lemma map_of_delete [gomap_simps, simp]:
  "map_of (AList.delete k m) j = (if j = k then None else map_of m j)"
  by (simp add: AList.delete_conv)

lemma map_of_eq_None_iff_keys: "map_of m k = None \<longleftrightarrow> k \<notin> fst ` set m"
  by (simp add: map_of_eq_None_iff)

lemma keys_update [simp]: "fst ` set (AList.update k v m) = insert k (fst ` set m)"
  using AList.dom_update [of k v m] by (simp add: dom_map_of_conv_image_fst)

lemma keys_delete [simp]: "fst ` set (AList.delete k m) = fst ` set m - {k}"
  by (auto simp: AList.delete_eq)

lemma distinct_keys_update [intro, simp]:
  "distinct (map fst m) \<Longrightarrow> distinct (map fst (AList.update k v m))"
  by (rule AList.distinct_update)

lemma distinct_keys_delete [intro, simp]:
  "distinct (map fst m) \<Longrightarrow> distinct (map fst (AList.delete k m))"
  by (rule AList.distinct_delete)

text \<open>Reading a missing key of a Go map yields the zero value of the element type.\<close>

definition get_or :: "'v \<Rightarrow> ('k, 'v) gomap \<Rightarrow> 'k \<Rightarrow> 'v" where
  "get_or d m k = (case map_of m k of Some v \<Rightarrow> v | None \<Rightarrow> d)"

lemma get_or_update [gomap_simps, simp]:
  "get_or d (AList.update k v m) j = (if j = k then v else get_or d m j)"
  by (simp add: get_or_def)

lemma map_of_mset_eq:
  assumes "mset xs = mset ys" and "distinct (map fst xs)"
  shows "map_of xs = map_of ys"
proof -
  have "set xs = set ys" using assms(1) by (rule mset_eq_setD)
  moreover have "distinct (map fst ys)"
    using assms by (metis mset_eq_imp_distinct_iff mset_map)
  ultimately show ?thesis using assms(2) by (simp add: map_of_inject_set)
qed

section \<open>Lists\<close>

lemma take_eq_take_of_le: "m \<le> n \<Longrightarrow> take m (take n xs) = take m xs"
  by (simp add: min_absorb1)

lemma sum_list_map_mset:
  "mset xs = mset ys \<Longrightarrow> sum_list (map f xs) = (sum_list (map f ys) :: int)"
  by (metis mset_map sum_mset_sum_list)

lemma length_filter_mset: "mset xs = mset ys \<Longrightarrow> length (filter P xs) = length (filter P ys)"
  by (metis mset_filter size_mset)

lemma sorted_less_distinct: "sorted_wrt (<) (xs :: int list) \<Longrightarrow> distinct xs"
  by (simp add: strict_sorted_iff)

lemma length_filter_map_filter:
  "length (filter P (map f (filter Q xs))) = length (filter (\<lambda>x. Q x \<and> P (f x)) xs)"
  by (induction xs) auto

lemma length_filter_mono: "(\<And>x. P x \<Longrightarrow> Q x) \<Longrightarrow> length (filter P xs) \<le> length (filter Q xs)"
  by (induction xs) auto


section \<open>Grouping by key\<close>

text \<open>
  The client groups items by a key in three places with the same idiom: a map from the key to the
  items in arrival order, and a slice of the keys in the order of their first item.
\<close>

definition first_seen :: "'k list \<Rightarrow> 'k list" where
  "first_seen ks = rev (remdups (rev ks))"

definition group_step :: "('a \<Rightarrow> 'k) \<Rightarrow> 'k list \<times> ('k, 'a list) gomap \<Rightarrow> 'a \<Rightarrow> 'k list \<times> ('k, 'a list) gomap" where
  "group_step key g x =
     (let (order, groups) = g
      in (if map_of groups (key x) = None then order @ [key x] else order,
          AList.update (key x) (get_or [] groups (key x) @ [x]) groups))"

definition group_by :: "('a \<Rightarrow> 'k) \<Rightarrow> 'a list \<Rightarrow> 'k list \<times> ('k, 'a list) gomap" where
  "group_by key xs = foldl (group_step key) ([], []) xs"

lemma first_seen_simps [simp]:
  "first_seen [] = []" "first_seen (ks @ [k]) = first_seen ks @ (if k \<in> set ks then [] else [k])"
  by (simp_all add: first_seen_def)

lemma set_first_seen [simp]: "set (first_seen ks) = set ks"
  by (simp add: first_seen_def)

lemma distinct_first_seen [simp]: "distinct (first_seen ks)"
  by (simp add: first_seen_def)

lemma first_seen_distinct: "distinct ks \<Longrightarrow> first_seen ks = ks"
  by (simp add: first_seen_def distinct_remdups_id)

lemma filter_key_Nil: "k \<notin> key ` set xs \<Longrightarrow> filter (\<lambda>x. key x = k) xs = []"
  by (auto simp: filter_empty_conv)

lemma group_by_eq:
  "fst (group_by key xs) = first_seen (map key xs)"
  "map_of (snd (group_by key xs)) k = (if k \<in> key ` set xs then Some (filter (\<lambda>x. key x = k) xs) else None)"
proof (induction xs arbitrary: k rule: rev_induct)
  case Nil
  { case 1 show ?case by (simp add: group_by_def) }
  { case 2 show ?case by (simp add: group_by_def) }
next
  case (snoc x xs)
  have s: "group_by key (xs @ [x]) = group_step key (group_by key xs) x" by (simp add: group_by_def)
  have g: "get_or [] (snd (group_by key xs)) (key x) = filter (\<lambda>y. key y = key x) xs"
    using snoc(2) [of "key x"] by (simp add: get_or_def filter_key_Nil)
  { case 1 show ?case using snoc(1) snoc(2) [of "key x"] unfolding s group_step_def
      by (auto split: prod.split) }
  { case 2 show ?case using g snoc(2) unfolding s group_step_def
      by (auto simp: filter_key_Nil split: prod.splits) }
qed

lemma get_or_group_by [simp]: "get_or [] (snd (group_by key xs)) k = filter (\<lambda>x. key x = k) xs"
  by (simp add: get_or_def group_by_eq(2) filter_key_Nil)

text \<open>Every item is in exactly one class of a partition by key, in particular in exactly one group.\<close>

lemma mset_concat_classes:
  assumes "distinct ks" "key ` set xs \<subseteq> set ks"
  shows "mset (concat (map (\<lambda>k. filter (\<lambda>x. key x = k) xs) ks)) = mset xs"
proof -
  have "mset (concat (map (\<lambda>k. filter (\<lambda>x. key x = k) xs) ks)) = filter_mset (\<lambda>x. key x \<in> set ks) (mset xs)"
    using assms(1)
  proof (induction ks)
    case (Cons k ks)
    have "k \<notin> set ks" using Cons.prems by simp
    then have "filter_mset (\<lambda>x. key x \<in> set (k # ks)) (mset xs) =
        filter_mset (\<lambda>x. key x = k) (mset xs) + filter_mset (\<lambda>x. key x \<in> set ks) (mset xs)"
      by (induction xs) auto
    then show ?case using Cons by simp
  qed simp
  moreover have "filter_mset (\<lambda>x. key x \<in> set ks) (mset xs) = mset xs"
    using assms(2) by (auto simp: filter_mset_eq_conv)
  ultimately show ?thesis by simp
qed

lemma mset_concat_groups:
  "mset (concat (map (\<lambda>k. filter (\<lambda>x. key x = k) xs) (first_seen (map key xs)))) = mset xs"
  by (rule mset_concat_classes) simp_all

lemma foldl_invariant:
  assumes "\<And>a x. x \<in> set xs \<Longrightarrow> P a \<Longrightarrow> P (f a x)" and "P a"
  shows "P (foldl f a xs)"
  using assms by (induction xs arbitrary: a) simp_all

lemma in_keysI: "(k, v) \<in> set m \<Longrightarrow> k \<in> fst ` set m"
  by (rule image_eqI [of _ _ "(k, v)"]) simp_all

lemma set_update_subset: "set (AList.update k v m) \<subseteq> insert (k, v) (set m)"
  by (induction m) auto

lemma set_delete_subset: "set (AList.delete k m) \<subseteq> set m"
  by (auto simp: AList.delete_eq)


definition gomap_all :: "('k \<Rightarrow> 'v \<Rightarrow> bool) \<Rightarrow> ('k, 'v) gomap \<Rightarrow> bool" where
  "gomap_all P m \<longleftrightarrow> (\<forall>(k, v)\<in>set m. P k v)"

lemma gomap_all_simps [simp]:
  "gomap_all P []" "gomap_all P ((k, v) # m) \<longleftrightarrow> P k v \<and> gomap_all P m"
  by (simp_all add: gomap_all_def)

lemma gomap_all_update [simp]: "P k v \<Longrightarrow> gomap_all P m \<Longrightarrow> gomap_all P (AList.update k v m)"
  using set_update_subset [of k v m] unfolding gomap_all_def by fast

lemma gomap_all_delete [simp]: "gomap_all P m \<Longrightarrow> gomap_all P (AList.delete k m)"
  using set_delete_subset [of k m] unfolding gomap_all_def by fast

lemma gomap_allD: "gomap_all P m \<Longrightarrow> (k, v) \<in> set m \<Longrightarrow> P k v"
  by (auto simp: gomap_all_def)

end
