(* ===== verification/Partition_Assignment.thy ===== *)
theory Partition_Assignment
  imports Wgo_Prelude
begin

text \<open>
  \<open>pkg/wgo/partition_assignment.go\<close>: the routing options of a partition and the default strategy,
  an immutable snapshot of the agent pool that puts the leader first and then walks the other
  agents in an order derived from a hash of the topic and the partition.

  The 64-bit xxhash digest is third-party code: it is the parameter \<open>xxh\<close>, a function of the
  bytes written to the digest, and no theorem here depends on which function it is.
  The theory states the contract of a strategy as the locale \<open>assignment_strategy\<close> and discharges
  it for the default strategy.
\<close>

section \<open>Agents, states and outcomes\<close>

datatype AgentState = AgentStateHealthy | AgentStateDemoted

record Agent =
  NodeID :: node_id
  State :: AgentState

definition cloneWithState :: "Agent \<Rightarrow> AgentState \<Rightarrow> Agent" where
  "cloneWithState a state = a\<lparr>State := state\<rparr>"

datatype routeOutcome =
    routeUnclassified
  | routeLeader
  | routeStandIn
  | routeMissEmptyPool
  | routeMissUnknownTopic
  | routeMissNoLeader
  | routeMissOutOfRange

type_synonym candidates_fun = "topic \<Rightarrow> partition \<Rightarrow> int \<Rightarrow> Agent list \<times> routeOutcome"
type_synonym hash_fun = "8 word list \<Rightarrow> 64 word"

section \<open>The default strategy\<close>

record DefaultPartitionAssignmentStrategy =
  st_agents :: "node_id list"
  st_leaders :: "(topicPartition, node_id) gomap"
  st_knownTopics :: "topic set"
  st_noLeader :: "topicPartition set"
  st_partitionCounts :: "(topic, int) gomap"

definition newDefaultPartitionAssignmentStrategy ::
  "node_id list \<Rightarrow> (topicPartition, node_id) gomap \<Rightarrow> topic set \<Rightarrow> topicPartition set
   \<Rightarrow> (topic, int) gomap \<Rightarrow> DefaultPartitionAssignmentStrategy" where
  "newDefaultPartitionAssignmentStrategy ags lds topicsWithNoLiveLeader nl counts =
     \<lparr>st_agents = ags,
      st_leaders = lds,
      st_knownTopics = fold (\<lambda>e known. insert (fst (fst e)) known) lds topicsWithNoLiveLeader,
      st_noLeader = nl,
      st_partitionCounts = counts\<rparr>"

text \<open>\<open>binary.LittleEndian.PutUint32\<close> of the partition after the bytes of the topic name.\<close>

definition le32_bytes :: "int \<Rightarrow> 8 word list" where
  "le32_bytes n =
     (let w = (word_of_int n :: 32 word)
      in [ucast w, ucast (drop_bit 8 w), ucast (drop_bit 16 w), ucast (drop_bit 24 w)])"

definition hashTopicPartition :: "hash_fun \<Rightarrow> topic \<Rightarrow> partition \<Rightarrow> 64 word" where
  "hashTopicPartition xxh topic part =
     xxh (map (\<lambda>c. word_of_nat (of_char c)) topic @ le32_bytes part)"

fun nthNonLeader_loop :: "node_id list \<Rightarrow> node_id \<Rightarrow> nat \<Rightarrow> nat \<Rightarrow> node_id" where
  "nthNonLeader_loop [] leader idx seen = 0"
| "nthNonLeader_loop (i # is) leader idx seen =
     (if i = leader then nthNonLeader_loop is leader idx seen
      else if seen = idx then i
      else nthNonLeader_loop is leader idx (Suc seen))"

definition nthNonLeader :: "node_id list \<Rightarrow> node_id \<Rightarrow> nat \<Rightarrow> node_id" where
  "nthNonLeader ags leader idx = nthNonLeader_loop ags leader idx 0"

text \<open>The loop that appends the alternates, one per offset, until the list is full.\<close>

function walkNonLeaders ::
  "node_id list \<Rightarrow> node_id \<Rightarrow> nat \<Rightarrow> nat \<Rightarrow> nat \<Rightarrow> nat \<Rightarrow> Agent list \<Rightarrow> Agent list" where
  "walkNonLeaders ags leader nonLeaderCount start maxCandidates offset out =
     (if offset < nonLeaderCount \<and> length out < maxCandidates
      then walkNonLeaders ags leader nonLeaderCount start maxCandidates (Suc offset)
             (out @ [\<lparr>NodeID = nthNonLeader ags leader ((start + offset) mod nonLeaderCount),
                      State = AgentStateHealthy\<rparr>])
      else out)"
  by pat_completeness auto
termination
  by (relation "measure (\<lambda>(ags, leader, n, start, m, offset, out). n - offset)") auto

declare walkNonLeaders.simps [simp del]

definition expandCandidates ::
  "64 word \<Rightarrow> node_id list \<Rightarrow> node_id \<Rightarrow> int \<Rightarrow> Agent list" where
  "expandCandidates h ags leader maxCandidates =
     (let out = [\<lparr>NodeID = leader, State = AgentStateHealthy\<rparr>];
          nonLeaderCount = length ags - 1
      in if maxCandidates = 1 then out
         else if nonLeaderCount = 0 then out
         else walkNonLeaders ags leader nonLeaderCount (unat h mod nonLeaderCount)
                (nat maxCandidates) 0 out)"

definition candidatesWithRoute ::
  "hash_fun \<Rightarrow> DefaultPartitionAssignmentStrategy \<Rightarrow> candidates_fun" where
  "candidatesWithRoute xxh s topic part maxCandidates =
     (if maxCandidates \<le> 0 then ([], routeUnclassified)
      else case map_of (st_leaders s) (topic, part) of
        Some leader \<Rightarrow>
          (expandCandidates (hashTopicPartition xxh topic part) (st_agents s) leader
             maxCandidates, routeLeader)
      | None \<Rightarrow>
          if (topic, part) \<in> st_noLeader s then ([], routeMissNoLeader)
          else if st_agents s = [] then ([], routeMissEmptyPool)
          else if topic \<notin> st_knownTopics s
          then (case map_of (st_partitionCounts s) topic of
                  Some n \<Rightarrow> if part < 0 \<or> n \<le> part then ([], routeMissOutOfRange)
                            else ([], routeMissUnknownTopic)
                | None \<Rightarrow> ([], routeMissUnknownTopic))
          else if part < 0 \<or> get_or 0 (st_partitionCounts s) topic \<le> part
          then ([], routeMissOutOfRange)
          else
            let h = hashTopicPartition xxh topic part;
                leader = st_agents s ! (unat h mod length (st_agents s))
            in (expandCandidates h (st_agents s) leader maxCandidates, routeStandIn))"

definition Candidates ::
  "hash_fun \<Rightarrow> DefaultPartitionAssignmentStrategy \<Rightarrow> topic \<Rightarrow> partition \<Rightarrow> int \<Rightarrow> Agent list" where
  "Candidates xxh s topic part maxCandidates =
     fst (candidatesWithRoute xxh s topic part maxCandidates)"

text \<open>
  \<open>LazyPartitionAssignmentStrategy\<close> resolves the current strategy at every look-up: \<open>resolve\<close> reads
  it from the state \<open>w\<close> the pool is in at that moment.
\<close>

definition lazy_candidatesWithRoute ::
  "('w \<Rightarrow> candidates_fun) \<Rightarrow> 'w \<Rightarrow> candidates_fun" where
  "lazy_candidatesWithRoute resolve w topic part maxCandidates =
     resolve w topic part maxCandidates"

text \<open>
  \<open>candidatesOf\<close>: a strategy that implements \<open>routeClassifier\<close> reports its outcome; any other is
  asked for its candidates and the outcome stays unclassified.
\<close>

datatype strategy_impl =
    Classifying candidates_fun
  | Plain "topic \<Rightarrow> partition \<Rightarrow> int \<Rightarrow> Agent list"

fun candidatesOf :: "strategy_impl \<Rightarrow> candidates_fun" where
  "candidatesOf (Classifying f) topic part maxCandidates = f topic part maxCandidates"
| "candidatesOf (Plain f) topic part maxCandidates =
     (f topic part maxCandidates, routeUnclassified)"

section \<open>Well-formed snapshots\<close>

text \<open>What a snapshot built by a Metadata refresh satisfies.\<close>

definition wf_strategy :: "DefaultPartitionAssignmentStrategy \<Rightarrow> bool" where
  "wf_strategy s \<longleftrightarrow>
     sorted_wrt (<) (st_agents s) \<and> snd ` set (st_leaders s) \<subseteq> set (st_agents s)"

section \<open>The walk over the non-leaders\<close>

lemma nthNonLeader_loop_eq:
  "seen \<le> idx \<Longrightarrow> idx - seen < length (filter (\<lambda>i. i \<noteq> leader) ags) \<Longrightarrow>
   nthNonLeader_loop ags leader idx seen = filter (\<lambda>i. i \<noteq> leader) ags ! (idx - seen)"
  by (induction ags leader idx seen rule: nthNonLeader_loop.induct) (auto simp: nth_Cons' Suc_diff_le)

lemma nthNonLeader_eq:
  "idx < length (filter (\<lambda>i. i \<noteq> leader) ags) \<Longrightarrow>
   nthNonLeader ags leader idx = filter (\<lambda>i. i \<noteq> leader) ags ! idx"
  by (simp add: nthNonLeader_def nthNonLeader_loop_eq)

lemma walkNonLeaders_eq:
  "walkNonLeaders ags leader n start m offset out =
     out @ map (\<lambda>k. \<lparr>NodeID = nthNonLeader ags leader ((start + k) mod n), State = AgentStateHealthy\<rparr>)
             [offset..<min n (offset + (m - length out))]"
proof (induction ags leader n start m offset out rule: walkNonLeaders.induct)
  case (1 ags leader n start m offset out)
  show ?case
  proof (cases "offset < n \<and> length out < m")
    case True
    define k where "k = m - Suc (length out)"
    have k: "m - length out = Suc k" using True by (simp add: k_def Suc_diff_Suc)
    then have "[offset..<min n (offset + (m - length out))] =
        offset # [Suc offset..<min n (Suc offset + (m - Suc (length out)))]"
      using True by (simp add: k_def [symmetric] upt_conv_Cons)
    then show ?thesis using 1 True by (simp add: walkNonLeaders.simps [of ags leader n start m offset])
  next
    case False
    then have "walkNonLeaders ags leader n start m offset out = out"
      by (subst walkNonLeaders.simps) (simp only: if_False)
    moreover have "min n (offset + (m - length out)) \<le> offset" using False by auto
    ultimately show ?thesis by simp
  qed
qed

lemma length_filter_neq:
  assumes "distinct xs" and "x \<in> set xs"
  shows "length (filter (\<lambda>i. i \<noteq> x) xs) = length xs - 1"
proof -
  have "filter (\<lambda>i. i \<noteq> x) xs = removeAll x xs" by (induction xs) auto
  then show ?thesis using assms
    by (simp add: length_remove1 flip: distinct_remove1_removeAll)
qed

lemma map_rotate_upt:
  "start < length xs \<Longrightarrow> n \<le> length xs \<Longrightarrow>
   map (\<lambda>k. xs ! ((start + k) mod length xs)) [0..<n] = take n (rotate start xs)"
  by (rule nth_equalityI) (simp_all add: nth_rotate)

text \<open>
  The candidate order in closed form: the leader, then the other agents in ascending order,
  rotated by the hash.
\<close>

definition candidate_order :: "64 word \<Rightarrow> node_id list \<Rightarrow> node_id \<Rightarrow> node_id list" where
  "candidate_order h ags leader =
     leader # rotate (unat h mod (length ags - 1)) (filter (\<lambda>i. i \<noteq> leader) ags)"

abbreviation healthy_agent :: "node_id \<Rightarrow> Agent" where
  "healthy_agent i \<equiv> \<lparr>NodeID = i, State = AgentStateHealthy\<rparr>"

lemma expandCandidates_eq:
  assumes "distinct ags" and "leader \<in> set ags" and "0 < m"
  shows "expandCandidates h ags leader m =
     map healthy_agent (take (nat m) (candidate_order h ags leader))"
proof -
  let ?nl = "filter (\<lambda>i. i \<noteq> leader) ags" and ?n = "length ags - 1"
  have len: "length ?nl = ?n" using assms(1,2) by (rule length_filter_neq)
  consider "m = 1" | "m \<noteq> 1" "?n = 0" | "m \<noteq> 1" "0 < ?n" by blast
  then show ?thesis
  proof cases
    case 1
    then show ?thesis by (simp add: expandCandidates_def candidate_order_def)
  next
    case 2
    then have "?nl = []" using len by simp
    then show ?thesis
      using 2 assms(3) by (simp add: expandCandidates_def candidate_order_def take_Cons')
  next
    case 3
    let ?s = "unat h mod ?n"
    have idx: "(?s + k) mod ?n < length ?nl" for k using 3 len by simp
    have "map (\<lambda>k. nthNonLeader ags leader ((?s + k) mod ?n)) [0..<min ?n (nat m - 1)] =
        map (\<lambda>k. ?nl ! ((?s + k) mod length ?nl)) [0..<min ?n (nat m - 1)]"
      by (rule map_cong) (simp_all only: nthNonLeader_eq [OF idx] len)
    also have "\<dots> = take (min ?n (nat m - 1)) (rotate ?s ?nl)"
      using 3 len by (intro map_rotate_upt) simp_all
    finally have "map (\<lambda>k. nthNonLeader ags leader ((?s + k) mod ?n)) [0..<min ?n (nat m - 1)] =
        take (min ?n (nat m - 1)) (rotate ?s ?nl)" .
    moreover have "take (min ?n (nat m - 1)) (rotate ?s ?nl) = take (nat m - 1) (rotate ?s ?nl)"
      using len by (simp add: min_def)
    ultimately have "map healthy_agent
        (map (\<lambda>k. nthNonLeader ags leader ((?s + k) mod ?n)) [0..<min ?n (nat m - 1)]) =
        map healthy_agent (take (nat m - 1) (rotate ?s ?nl))" by (simp only:)
    moreover have "expandCandidates h ags leader m = healthy_agent leader # map healthy_agent
        (map (\<lambda>k. nthNonLeader ags leader ((?s + k) mod ?n)) [0..<min ?n (nat m - 1)])"
      using 3 by (simp add: expandCandidates_def walkNonLeaders_eq Let_def comp_def del: mod_add_left_eq)
    moreover have "take (nat m) (candidate_order h ags leader) =
        leader # take (nat m - 1) (rotate ?s ?nl)"
      using assms(3) by (simp add: candidate_order_def take_Cons')
    ultimately show ?thesis by (simp only: list.map)
  qed
qed


section \<open>The contract of a strategy\<close>

text \<open>
  What the Demoter, the Hedger and the client rely on: a look-up never returns more entries than
  asked for, no agent twice and none outside the pool; every entry is healthy; and a longer look-up
  extends a shorter one with the same classification.
\<close>

locale assignment_strategy =
  fixes cands :: "'s \<Rightarrow> candidates_fun"
    and pool :: "'s \<Rightarrow> node_id set"
    and invar :: "'s \<Rightarrow> bool"
  assumes cands_nonpos: "m \<le> 0 \<Longrightarrow> fst (cands s topic part m) = []"
    and cands_prefix: "invar s \<Longrightarrow> 0 < m \<Longrightarrow> m \<le> n \<Longrightarrow>
      fst (cands s topic part m) = take (nat m) (fst (cands s topic part n))"
    and cands_route: "invar s \<Longrightarrow> 0 < m \<Longrightarrow> 0 < n \<Longrightarrow>
      snd (cands s topic part m) = snd (cands s topic part n)"
    and cands_pool: "invar s \<Longrightarrow> NodeID ` set (fst (cands s topic part m)) \<subseteq> pool s"
    and cands_distinct: "invar s \<Longrightarrow> distinct (map NodeID (fst (cands s topic part m)))"
    and cands_healthy: "invar s \<Longrightarrow> a \<in> set (fst (cands s topic part m)) \<Longrightarrow> State a = AgentStateHealthy"
begin

lemma cands_length: "invar s \<Longrightarrow> length (fst (cands s topic part m)) \<le> nat m"
proof (cases "0 < m")
  case True
  assume "invar s"
  then have "fst (cands s topic part m) = take (nat m) (fst (cands s topic part m))"
    using True by (intro cands_prefix) auto
  then show ?thesis by (metis length_take min.cobounded2)
qed (simp add: cands_nonpos)

text \<open>A look-up that came back short has returned every agent the strategy has to offer.\<close>

lemma cands_short:
  assumes "invar s" and "0 < m" and "m \<le> n" and "length (fst (cands s topic part m)) < nat m"
  shows "fst (cands s topic part n) = fst (cands s topic part m)"
proof -
  have "fst (cands s topic part m) = take (nat m) (fst (cands s topic part n))"
    using assms(1-3) by (rule cands_prefix)
  then show ?thesis using assms(4) by (simp add: min_def split: if_splits)
qed

lemma cands_empty_iff:
  assumes "invar s" and "0 < m" and "0 < n"
  shows "fst (cands s topic part m) = [] \<longleftrightarrow> fst (cands s topic part n) = []"
proof -
  have "fst (cands s topic part m) = [] \<longleftrightarrow> fst (cands s topic part n) = []" if "0 < m" "m \<le> n" for m n
    using cands_prefix [OF assms(1) that] that by simp
  then show ?thesis using assms(2,3) linear [of m n] by blast
qed

end

lemma candidate_order_set:
  assumes "distinct ags" and "leader \<in> set ags"
  shows "distinct (candidate_order h ags leader)" and "set (candidate_order h ags leader) = set ags"
  using assms by (auto simp: candidate_order_def)

text \<open>
  The lead agent of a look-up: the named leader, or for a routable partition without one the
  stand-in that the hash picks from the live agents; \<open>None\<close> when there is no route.
\<close>

definition lead_agent ::
  "hash_fun \<Rightarrow> DefaultPartitionAssignmentStrategy \<Rightarrow> topic \<Rightarrow> partition \<Rightarrow> node_id option" where
  "lead_agent xxh s topic part =
     (case map_of (st_leaders s) (topic, part) of
        Some leader \<Rightarrow> Some leader
      | None \<Rightarrow>
          if (topic, part) \<notin> st_noLeader s \<and> st_agents s \<noteq> [] \<and> topic \<in> st_knownTopics s \<and>
             0 \<le> part \<and> part < get_or 0 (st_partitionCounts s) topic
          then Some (st_agents s ! (unat (hashTopicPartition xxh topic part) mod length (st_agents s)))
          else None)"

lemma wf_strategy_distinct: "wf_strategy s \<Longrightarrow> distinct (st_agents s)"
  by (simp add: wf_strategy_def sorted_less_distinct)

lemma lead_agent_in_pool: "wf_strategy s \<Longrightarrow> lead_agent xxh s topic part = Some l \<Longrightarrow> l \<in> set (st_agents s)"
  by (force simp: lead_agent_def wf_strategy_def dest: map_of_SomeD split: option.splits if_splits)

text \<open>Look-ups in closed form: the first \<open>m\<close> entries of one order that does not depend on \<open>m\<close>.\<close>

lemma candidates_closed_form:
  assumes "wf_strategy s" and "0 < m"
  shows "fst (candidatesWithRoute xxh s topic part m) =
    (case lead_agent xxh s topic part of
       None \<Rightarrow> []
     | Some l \<Rightarrow> map healthy_agent (take (nat m)
         (candidate_order (hashTopicPartition xxh topic part) (st_agents s) l)))"
proof (cases "lead_agent xxh s topic part")
  case None
  then show ?thesis using assms(2)
    by (auto simp: candidatesWithRoute_def lead_agent_def Let_def split: option.splits if_splits)
next
  case (Some l)
  then have "fst (candidatesWithRoute xxh s topic part m) =
      expandCandidates (hashTopicPartition xxh topic part) (st_agents s) l m"
    using assms(2)
    by (auto simp: candidatesWithRoute_def lead_agent_def Let_def split: option.splits if_splits)
  then show ?thesis
    using Some expandCandidates_eq [OF wf_strategy_distinct [OF assms(1)] lead_agent_in_pool [OF assms(1) Some] assms(2)]
    by simp
qed

lemma candidates_nonpos:
  "m \<le> 0 \<Longrightarrow> candidatesWithRoute xxh s topic part m = ([], routeUnclassified)"
  by (simp add: candidatesWithRoute_def)

lemma candidates_route_eq:
  "0 < m \<Longrightarrow> 0 < n \<Longrightarrow>
   snd (candidatesWithRoute xxh s topic part m) = snd (candidatesWithRoute xxh s topic part n)"
  by (auto simp: candidatesWithRoute_def Let_def split: option.splits)

lemma candidates_in_pool:
  assumes "wf_strategy s"
  shows "NodeID ` set (fst (candidatesWithRoute xxh s topic part m)) \<subseteq> set (st_agents s)"
proof (cases "0 < m \<and> lead_agent xxh s topic part \<noteq> None")
  case True
  then obtain l where l: "lead_agent xxh s topic part = Some l" by blast
  show ?thesis
    using candidate_order_set(2) [OF wf_strategy_distinct [OF assms] lead_agent_in_pool [OF assms l]]
    using assms True l by (auto simp: candidates_closed_form dest!: in_set_takeD)
next
  case False
  then show ?thesis using assms
    by (cases "0 < m") (auto simp: candidates_closed_form candidates_nonpos)
qed

lemma candidates_distinct:
  assumes "wf_strategy s"
  shows "distinct (map NodeID (fst (candidatesWithRoute xxh s topic part m)))"
proof (cases "0 < m \<and> lead_agent xxh s topic part \<noteq> None")
  case True
  then obtain l where l: "lead_agent xxh s topic part = Some l" by blast
  show ?thesis
    using candidate_order_set(1) [OF wf_strategy_distinct [OF assms] lead_agent_in_pool [OF assms l]]
    using assms True l by (simp add: candidates_closed_form comp_def)
next
  case False
  then show ?thesis using assms
    by (cases "0 < m") (auto simp: candidates_closed_form candidates_nonpos)
qed

interpretation default_strategy:
  assignment_strategy "candidatesWithRoute xxh" "\<lambda>s. set (st_agents s)" wf_strategy for xxh
proof (unfold_locales, goal_cases)
  case (1 m s topic part)
  then show ?case by (simp add: candidates_nonpos)
next
  case (2 s m n topic part)
  then show ?case by (auto simp: candidates_closed_form take_map split: option.splits)
next
  case (3 s m n topic part)
  then show ?case by (intro candidates_route_eq)
next
  case (4 s topic part m)
  then show ?case by (rule candidates_in_pool)
next
  case (5 s topic part m)
  then show ?case by (rule candidates_distinct)
next
  case (6 s a topic part m)
  then show ?case
    by (cases "0 < m") (auto simp: candidates_closed_form candidates_nonpos split: option.splits)
qed


section \<open>Properties\<close>

text \<open>
  C13: for a partition with a named leader, a look-up of \<open>m\<close> candidates on a snapshot built by a
  refresh returns the leader followed by the other agents in ascending order, rotated by the hash
  of topic and partition, cut after \<open>m\<close> entries, all healthy, and reports the leader route.
\<close>

theorem leader_first_then_hash_walk:
  assumes "wf_strategy s" and "map_of (st_leaders s) (topic, part) = Some leader" and "0 < m"
  shows "candidatesWithRoute xxh s topic part m =
    (map healthy_agent (take (nat m) (leader #
       rotate (unat (hashTopicPartition xxh topic part) mod (length (st_agents s) - 1))
         (filter (\<lambda>i. i \<noteq> leader) (st_agents s)))), routeLeader)"
proof -
  have "lead_agent xxh s topic part = Some leader" using assms(2) by (simp add: lead_agent_def)
  then have "fst (candidatesWithRoute xxh s topic part m) =
      map healthy_agent (take (nat m)
        (candidate_order (hashTopicPartition xxh topic part) (st_agents s) leader))"
    using candidates_closed_form [OF assms(1,3)] by simp
  moreover have "snd (candidatesWithRoute xxh s topic part m) = routeLeader"
    using assms(2,3) by (simp add: candidatesWithRoute_def)
  ultimately show ?thesis by (simp add: candidate_order_def prod_eq_iff)
qed

definition example_strategy :: DefaultPartitionAssignmentStrategy where
  "example_strategy =
     newDefaultPartitionAssignmentStrategy [1, 2, 3, 4] [((''t'', 0), 1), ((''t'', 1), 3)] {} {(''t'', 2)}
       [(''t'', 4)]"

theorem leader_first_then_hash_walk_witness:
  "candidatesWithRoute (\<lambda>_. 4) example_strategy ''t'' 0 3 =
     (map healthy_agent [1, 3, 4], routeLeader)"
proof -
  have "wf_strategy example_strategy" "map_of (st_leaders example_strategy) (''t'', 0) = Some 1"
    by (simp_all add: example_strategy_def newDefaultPartitionAssignmentStrategy_def wf_strategy_def)
  then have "candidatesWithRoute (\<lambda>_. 4) example_strategy ''t'' 0 3 =
    (map healthy_agent (take (nat 3) (1 #
       rotate (unat (hashTopicPartition (\<lambda>_. 4) ''t'' 0) mod (length (st_agents example_strategy) - 1))
         (filter (\<lambda>i. i \<noteq> 1) (st_agents example_strategy)))), routeLeader)"
    by (rule leader_first_then_hash_walk) simp
  also have "\<dots> = (map healthy_agent [1, 3, 4], routeLeader)" by code_simp
  finally show ?thesis .
qed

text \<open>
  On a snapshot built by a refresh, a look-up for a routable partition that asks for at least
  as many candidates as there are agents returns every live agent exactly once, and a shorter
  look-up returns a prefix of it with the same classification.
\<close>

lemma lookup_enumerates_pool:
  assumes "wf_strategy s" and "fst (candidatesWithRoute xxh s topic part 1) \<noteq> []"
    and "int (length (st_agents s)) \<le> n" and "0 < m" and "m \<le> n"
  shows "mset (map NodeID (fst (candidatesWithRoute xxh s topic part n))) = mset (st_agents s) \<and>
    candidatesWithRoute xxh s topic part m =
      (take (nat m) (fst (candidatesWithRoute xxh s topic part n)),
       snd (candidatesWithRoute xxh s topic part n))"
proof -
  obtain l where l: "lead_agent xxh s topic part = Some l"
    using assms(1,2) candidates_closed_form [OF assms(1), of 1] by (auto split: option.splits)
  let ?o = "candidate_order (hashTopicPartition xxh topic part) (st_agents s) l"
  have "distinct ?o" "set ?o = set (st_agents s)"
    using candidate_order_set [OF wf_strategy_distinct [OF assms(1)] lead_agent_in_pool [OF assms(1) l]] .
  then have o: "mset ?o = mset (st_agents s)"
    using wf_strategy_distinct [OF assms(1)] by (simp add: set_eq_iff_mset_eq_distinct)
  then have "length ?o = length (st_agents s)" by (rule mset_eq_length)
  moreover have "map NodeID (fst (candidatesWithRoute xxh s topic part n)) = take (nat n) ?o"
    using assms(1,4,5) l by (simp add: candidates_closed_form comp_def)
  ultimately have "mset (map NodeID (fst (candidatesWithRoute xxh s topic part n))) = mset (st_agents s)"
    using o assms(3) by simp
  moreover have "fst (candidatesWithRoute xxh s topic part m) =
      take (nat m) (fst (candidatesWithRoute xxh s topic part n))"
    using assms(1,4,5) by (rule default_strategy.cands_prefix)
  moreover have "snd (candidatesWithRoute xxh s topic part m) = snd (candidatesWithRoute xxh s topic part n)"
    using assms(4,5) by (intro candidates_route_eq) auto
  ultimately show ?thesis by (simp add: prod_eq_iff)
qed

text \<open>
  Every look-up for at least one candidate is classified, and the classification says what the
  snapshot holds: a leader or a stand-in route comes with candidates, each miss with none, and a
  stand-in is used only for an existing partition of a known topic that Metadata did not report as
  leaderless, and only an agent of the snapshot stands in.
\<close>

theorem route_outcome_classified:
  assumes "0 < m"
  shows "case snd (candidatesWithRoute xxh s topic part m) of
      routeLeader \<Rightarrow>
        (\<exists>l. map_of (st_leaders s) (topic, part) = Some l \<and>
           hd (fst (candidatesWithRoute xxh s topic part m)) = healthy_agent l) \<and>
        fst (candidatesWithRoute xxh s topic part m) \<noteq> []
    | routeStandIn \<Rightarrow>
        map_of (st_leaders s) (topic, part) = None \<and> (topic, part) \<notin> st_noLeader s \<and>
        topic \<in> st_knownTopics s \<and> 0 \<le> part \<and> part < get_or 0 (st_partitionCounts s) topic \<and>
        fst (candidatesWithRoute xxh s topic part m) \<noteq> [] \<and>
        NodeID (hd (fst (candidatesWithRoute xxh s topic part m))) \<in> set (st_agents s)
    | routeMissNoLeader \<Rightarrow>
        fst (candidatesWithRoute xxh s topic part m) = [] \<and> (topic, part) \<in> st_noLeader s
    | routeMissEmptyPool \<Rightarrow>
        fst (candidatesWithRoute xxh s topic part m) = [] \<and> st_agents s = []
    | routeMissOutOfRange \<Rightarrow>
        fst (candidatesWithRoute xxh s topic part m) = [] \<and>
        (part < 0 \<or> get_or 0 (st_partitionCounts s) topic \<le> part)
    | routeMissUnknownTopic \<Rightarrow>
        fst (candidatesWithRoute xxh s topic part m) = [] \<and> topic \<notin> st_knownTopics s
    | routeUnclassified \<Rightarrow> False"
proof -
  have expand: "expandCandidates h ags l m \<noteq> []" "hd (expandCandidates h ags l m) = healthy_agent l" for h ags l
    by (simp_all add: expandCandidates_def walkNonLeaders_eq Let_def)
  show ?thesis
  proof (cases "map_of (st_leaders s) (topic, part)")
    case (Some l)
    then show ?thesis using assms by (simp add: candidatesWithRoute_def expand)
  next
    case None
    then show ?thesis using assms
      by (simp add: candidatesWithRoute_def expand Let_def get_or_def split: option.splits)
  qed
qed

theorem route_outcome_classified_witness:
  "candidatesWithRoute (\<lambda>_. 4) example_strategy ''t'' 2 1 = ([], routeMissNoLeader) \<and>
   (''t'', 2) \<in> st_noLeader example_strategy"
  using route_outcome_classified
    [where m = 1 and xxh = "\<lambda>_. 4" and s = example_strategy and topic = "''t''" and part = 2]
  by (simp add: candidatesWithRoute_def example_strategy_def newDefaultPartitionAssignmentStrategy_def)

text \<open>
  The order of the alternates of a partition depends on the size of the whole pool. When an
  agent that is neither the leader nor an alternate in use joins, the secondary of the partition
  moves to another agent, although the leader and the old secondary are both still there.
\<close>

theorem secondary_moves_when_unrelated_agent_joins:
  "map NodeID (Candidates (\<lambda>_. 4)
     (newDefaultPartitionAssignmentStrategy [1, 2, 3, 4] [((''t'', 0), 1)] {} {} [(''t'', 1)]) ''t'' 0 2)
     = [1, 3] \<and>
   map NodeID (Candidates (\<lambda>_. 4)
     (newDefaultPartitionAssignmentStrategy [1, 2, 3, 4, 5] [((''t'', 0), 1)] {} {} [(''t'', 1)]) ''t'' 0 2)
     = [1, 2]"
  by code_simp

end
