(* ===== verification/Go_Errors.thy ===== *)
theory Go_Errors
  imports Wgo_Prelude
begin

text \<open>
  Go error values as the client meets them, and the standard library's \<open>errors.Is\<close>,
  \<open>errors.As\<close> and \<open>errors.Unwrap\<close> over them. Sentinel values, which Go compares by
  pointer, are constructors; \<open>Kerr\<close> is the \<open>*kerr.Error\<close> of a Kafka error code. The Kafka
  table (\<open>vendor/github.com/twmb/franz-go/pkg/kerr/kerr.go\<close>) has exactly one value per code from
  -1 to 133, zero excluded.
\<close>

datatype fmt_arg = FStr string | FInt int

datatype goerror =
    GoError string                        \<comment> \<open>\<open>errors.New\<close>\<close>
  | GoErrorf string "fmt_arg list"        \<comment> \<open>\<open>fmt.Errorf\<close> without \<open>%w\<close>: format and arguments\<close>
  | Canceled                              \<comment> \<open>\<open>context.Canceled\<close>\<close>
  | DeadlineExceeded                      \<comment> \<open>\<open>context.DeadlineExceeded\<close>\<close>
  | ErrRecordTimeout                      \<comment> \<open>\<open>kgo.ErrRecordTimeout\<close>\<close>
  | ErrClientClosed                       \<comment> \<open>\<open>kgo.ErrClientClosed\<close>\<close>
  | Kerr int                              \<comment> \<open>\<open>*kerr.Error\<close>, by code\<close>
  | OpError string bool goerror           \<comment> \<open>\<open>*net.OpError\<close>: Op, Timeout(), Err\<close>
  | TLSError string                       \<comment> \<open>a \<open>crypto/tls\<close> or \<open>crypto/x509\<close> error value\<close>
  | TLSWrapError string goerror           \<comment> \<open>the two of them that unwrap to a cause\<close>
  | WireError goerror                     \<comment> \<open>\<open>*wireError\<close>\<close>
  | Errorf string goerror string          \<comment> \<open>\<open>fmt.Errorf\<close> with one \<open>%w\<close>\<close>
  | Errorf2 goerror goerror               \<comment> \<open>\<open>fmt.Errorf("%w: %w", a, b)\<close>\<close>

text \<open>\<open>errors.Is\<close> and \<open>errors.As\<close> walk the wrapped errors depth first, the error itself first.\<close>

primrec error_tree :: "goerror \<Rightarrow> goerror list" where
  "error_tree (GoError s) = [GoError s]"
| "error_tree (GoErrorf f as) = [GoErrorf f as]"
| "error_tree Canceled = [Canceled]"
| "error_tree DeadlineExceeded = [DeadlineExceeded]"
| "error_tree ErrRecordTimeout = [ErrRecordTimeout]"
| "error_tree ErrClientClosed = [ErrClientClosed]"
| "error_tree (Kerr c) = [Kerr c]"
| "error_tree (OpError op tmo e) = OpError op tmo e # error_tree e"
| "error_tree (TLSError k) = [TLSError k]"
| "error_tree (TLSWrapError k e) = TLSWrapError k e # error_tree e"
| "error_tree (WireError e) = WireError e # error_tree e"
| "error_tree (Errorf pre e post) = Errorf pre e post # error_tree e"
| "error_tree (Errorf2 a b) = Errorf2 a b # error_tree a @ error_tree b"

definition errors_Is :: "goerror \<Rightarrow> goerror \<Rightarrow> bool" where
  "errors_Is err target \<longleftrightarrow> target \<in> set (error_tree err)"

definition errors_As :: "(goerror \<Rightarrow> 'a option) \<Rightarrow> goerror \<Rightarrow> 'a option" where
  "errors_As as err = (case List.map_filter as (error_tree err) of [] \<Rightarrow> None | x # _ \<Rightarrow> Some x)"

text \<open>\<open>errors.Unwrap\<close> does not open an error that wraps two.\<close>

fun errors_Unwrap :: "goerror \<Rightarrow> goerror option" where
  "errors_Unwrap (OpError op tmo e) = Some e"
| "errors_Unwrap (TLSWrapError k e) = Some e"
| "errors_Unwrap (WireError e) = Some e"
| "errors_Unwrap (Errorf pre e post) = Some e"
| "errors_Unwrap _ = None"

section \<open>Kafka error codes\<close>

fun as_kerr :: "goerror \<Rightarrow> int option" where
  "as_kerr (Kerr c) = Some c"
| "as_kerr _ = None"

definition kerr_Retriable :: "int \<Rightarrow> bool" where
  "kerr_Retriable code \<longleftrightarrow> code \<in> set [2, 3, 5, 6, 7, 8, 9, 13, 14, 15, 16, 19, 20, 41, 56, 70, 71, 72,
     74, 75, 78, 80, 83, 84, 88, 89, 100, 103, 106, 133]"

abbreviation (input) UnknownServerError :: int where "UnknownServerError \<equiv> -1"
abbreviation (input) RequestTimedOut :: int where "RequestTimedOut \<equiv> 7"
abbreviation (input) BrokerNotAvailable :: int where "BrokerNotAvailable \<equiv> 8"
abbreviation (input) MessageTooLarge :: int where "MessageTooLarge \<equiv> 10"
abbreviation (input) NetworkException :: int where "NetworkException \<equiv> 13"

definition kerr_code :: "int \<Rightarrow> bool" where
  "kerr_code code \<longleftrightarrow> - 1 \<le> code \<and> code \<le> 133 \<and> code \<noteq> 0"

definition ErrorForCode :: "int \<Rightarrow> goerror option" where
  "ErrorForCode code =
     (if code = 0 then None
      else if kerr_code code then Some (Kerr code)
      else Some (Kerr UnknownServerError))"

definition kerr_IsRetriable :: "goerror \<Rightarrow> bool" where
  "kerr_IsRetriable err = (case errors_As as_kerr err of Some c \<Rightarrow> kerr_Retriable c | None \<Rightarrow> False)"

text \<open>Every \<open>*kerr.Error\<close> inside an error is one of the table's values.\<close>

definition wf_error :: "goerror \<Rightarrow> bool" where
  "wf_error err \<longleftrightarrow> (\<forall>e\<in>set (error_tree err). case as_kerr e of Some c \<Rightarrow> kerr_code c | None \<Rightarrow> True)"

section \<open>Lemmas\<close>

lemma error_tree_self [simp]: "err \<in> set (error_tree err)"
  by (cases err) auto

lemma errors_Is_refl [simp]: "errors_Is err err"
  by (simp add: errors_Is_def)

lemma errors_Is_wrap [simp]:
  "errors_Is (Errorf pre e post) t \<longleftrightarrow> t = Errorf pre e post \<or> errors_Is e t"
  "errors_Is (Errorf2 a b) t \<longleftrightarrow> t = Errorf2 a b \<or> errors_Is a t \<or> errors_Is b t"
  "errors_Is (WireError e) t \<longleftrightarrow> t = WireError e \<or> errors_Is e t"
  by (auto simp: errors_Is_def)

lemma errors_Is_leaf [simp]:
  "errors_Is (GoError s) t \<longleftrightarrow> t = GoError s"
  "errors_Is (GoErrorf f as) t \<longleftrightarrow> t = GoErrorf f as"
  "errors_Is Canceled t \<longleftrightarrow> t = Canceled"
  "errors_Is DeadlineExceeded t \<longleftrightarrow> t = DeadlineExceeded"
  "errors_Is ErrRecordTimeout t \<longleftrightarrow> t = ErrRecordTimeout"
  "errors_Is ErrClientClosed t \<longleftrightarrow> t = ErrClientClosed"
  "errors_Is (Kerr c) t \<longleftrightarrow> t = Kerr c"
  by (auto simp: errors_Is_def)

lemma errors_As_None: "errors_As f err = None \<longleftrightarrow> (\<forall>e\<in>set (error_tree err). f e = None)"
proof -
  have "List.map_filter f xs = [] \<longleftrightarrow> (\<forall>e\<in>set xs. f e = None)" for xs
    by (induction xs) (auto simp: List.map_filter_simps split: option.splits)
  from this [of "error_tree err"] show ?thesis
    by (cases "List.map_filter f (error_tree err)") (simp_all add: errors_As_def)
qed

lemma errors_As_SomeD: "errors_As f err = Some x \<Longrightarrow> \<exists>e\<in>set (error_tree err). f e = Some x"
proof -
  assume "errors_As f err = Some x"
  then have "x \<in> set (List.map_filter f (error_tree err))" by (auto simp: errors_As_def split: list.splits)
  then show ?thesis by (auto simp: List.map_filter_def)
qed

lemma errors_As_leaf [simp]:
  "errors_As as_kerr (Kerr c) = Some c"
  "errors_As as_kerr Canceled = None"
  "errors_As as_kerr DeadlineExceeded = None"
  "errors_As as_kerr (GoError s) = None"
  "errors_As as_kerr (GoErrorf f as) = None"
  "errors_As as_kerr ErrRecordTimeout = None"
  by (simp_all add: errors_As_def List.map_filter_simps)

lemma errors_As_Errorf2 [simp]:
  "errors_As as_kerr (Errorf2 a b) = (case errors_As as_kerr a of Some c \<Rightarrow> Some c | None \<Rightarrow> errors_As as_kerr b)"
proof -
  have "List.map_filter f (xs @ ys) = List.map_filter f xs @ List.map_filter f ys"
    for f :: "goerror \<Rightarrow> int option" and xs ys by (simp add: List.map_filter_def)
  then show ?thesis
    by (simp add: errors_As_def List.map_filter_simps split: list.splits)
qed

lemma wf_error_kerr: "wf_error err \<Longrightarrow> errors_As as_kerr err = Some c \<Longrightarrow> kerr_code c"
  by (drule errors_As_SomeD) (auto simp: wf_error_def)

lemma kerr_code_nonzero [simp]: "kerr_code 0 \<longleftrightarrow> False"
  by (simp add: kerr_code_def)

lemma kerr_IsRetriable_Kerr [simp]: "kerr_IsRetriable (Kerr c) = kerr_Retriable c"
  by (simp add: kerr_IsRetriable_def)

lemma ErrorForCode_None [simp]: "ErrorForCode c = None \<longleftrightarrow> c = 0"
  by (simp add: ErrorForCode_def)

lemma ErrorForCode_Some: "ErrorForCode c = Some e \<Longrightarrow> \<exists>k. e = Kerr k \<and> kerr_code k"
  by (auto simp: ErrorForCode_def kerr_code_def split: if_splits)

end
