(* ===== verification/Agent_Pool.thy ===== *)
theory Agent_Pool
  imports Partition_Assignment Go_Errors
begin

text \<open>
  \<open>pkg/wgo/agentpool.go\<close>: the snapshot of agents, topic UUIDs and leaders that every Metadata
  refresh replaces. The Metadata fetch itself is franz-go's and comes in as its result, an error or
  a response. The atomic pointer swap of the snapshot is one state update.
\<close>

section \<open>The Metadata response\<close>

record MetadataResponseTopicPartition =
  mp_Partition :: partition
  mp_Leader :: node_id

record MetadataResponseTopic =
  mt_Topic :: "topic option"
  mt_ErrorCode :: int
  mt_TopicID :: uuid
  mt_Partitions :: "MetadataResponseTopicPartition list"

record MetadataResponse =
  md_Brokers :: "node_id list"
  md_Topics :: "MetadataResponseTopic list"

section \<open>Building the leader map\<close>

record leaderDrops =
  ld_Count :: int
  ld_Topic :: topic
  ld_Partition :: partition
  ld_NodeID :: node_id

definition no_drops :: leaderDrops where
  "no_drops = \<lparr>ld_Count = 0, ld_Topic = [], ld_Partition = 0, ld_NodeID = 0\<rparr>"

text \<open>The maps under construction, with the counters of the topic being read.\<close>

record build =
  b_leaders :: "(topicPartition, node_id) gomap"
  b_topicIDs :: "(topic, uuid) gomap"
  b_noLiveLeader :: "topic set"
  b_noLeader :: "topicPartition set"
  b_partitionCounts :: "(topic, int) gomap"
  b_dropped :: leaderDrops
  b_kept :: int
  b_excluded :: int
  b_maxPartition :: int

definition init_build :: build where
  "init_build = \<lparr>b_leaders = [], b_topicIDs = [], b_noLiveLeader = {}, b_noLeader = {},
     b_partitionCounts = [], b_dropped = no_drops, b_kept = 0, b_excluded = 0, b_maxPartition = -1\<rparr>"

definition count_drop :: "topic \<Rightarrow> MetadataResponseTopicPartition \<Rightarrow> leaderDrops \<Rightarrow> leaderDrops" where
  "count_drop name part d =
     (let d' = (if ld_Count d = 0
                then d\<lparr>ld_Topic := name, ld_Partition := mp_Partition part, ld_NodeID := mp_Leader part\<rparr>
                else d)
      in d'\<lparr>ld_Count := ld_Count d' + 1\<rparr>)"

definition scan_partition ::
  "node_id set \<Rightarrow> topic \<Rightarrow> build \<Rightarrow> MetadataResponseTopicPartition \<Rightarrow> build" where
  "scan_partition agentSet name b part =
     (let b = b\<lparr>b_maxPartition := (if b_maxPartition b < mp_Partition part then mp_Partition part
                                    else b_maxPartition b)\<rparr>
      in if mp_Leader part < 0
         then b\<lparr>b_noLeader := insert (name, mp_Partition part) (b_noLeader b)\<rparr>
         else if mp_Leader part \<notin> agentSet
         then b\<lparr>b_dropped := count_drop name part (b_dropped b), b_excluded := b_excluded b + 1\<rparr>
         else b\<lparr>b_kept := b_kept b + 1,
                b_leaders := AList.update (name, mp_Partition part) (mp_Leader part) (b_leaders b)\<rparr>)"

definition scan_topic ::
  "node_id set \<Rightarrow> (topic, uuid) gomap \<Rightarrow> build \<Rightarrow> MetadataResponseTopic \<Rightarrow> build" where
  "scan_topic agentSet prevTopicIDs b t =
     (case mt_Topic t of
        None \<Rightarrow> b
      | Some name \<Rightarrow>
          if mt_ErrorCode t \<noteq> 0
          then (case map_of prevTopicIDs name of
                  Some i \<Rightarrow> b\<lparr>b_topicIDs := AList.update name i (b_topicIDs b)\<rparr>
                | None \<Rightarrow> b)
          else
            let b = b\<lparr>b_topicIDs := AList.update name (mt_TopicID t) (b_topicIDs b),
                      b_kept := 0, b_excluded := 0, b_maxPartition := -1\<rparr>;
                b = foldl (scan_partition agentSet name) b (mt_Partitions t);
                b = b\<lparr>b_partitionCounts :=
                        AList.update name (i32 (b_maxPartition b + 1)) (b_partitionCounts b)\<rparr>
            in if 0 < b_excluded b \<and> b_kept b = 0
               then b\<lparr>b_noLiveLeader := insert name (b_noLiveLeader b)\<rparr>
               else b)"

definition buildLeadersAndTopicIDs ::
  "MetadataResponseTopic list \<Rightarrow> node_id set \<Rightarrow> (topic, uuid) gomap \<Rightarrow> build" where
  "buildLeadersAndTopicIDs respTopics agentSet prevTopicIDs =
     foldl (scan_topic agentSet prevTopicIDs) init_build respTopics"

section \<open>Membership differences\<close>

fun diffRemovedAgents :: "node_id list \<Rightarrow> node_id set \<Rightarrow> node_id list" where
  "diffRemovedAgents [] newSet = []"
| "diffRemovedAgents (i # old) newSet =
     (if i \<notin> newSet then i # diffRemovedAgents old newSet else diffRemovedAgents old newSet)"

text \<open>The merge of two sorted lists; the two suffixes stand for the indices \<open>i\<close> and \<open>j\<close>.\<close>

fun diffAgentMembership_loop ::
  "node_id list \<Rightarrow> node_id list \<Rightarrow> nat \<Rightarrow> nat \<Rightarrow> nat \<times> nat" where
  "diffAgentMembership_loop (a # old) (b # new) added removed =
     (if a = b then diffAgentMembership_loop old new added removed
      else if a < b then diffAgentMembership_loop old (b # new) added (Suc removed)
      else diffAgentMembership_loop (a # old) new (Suc added) removed)"
| "diffAgentMembership_loop old new added removed = (added + length new, removed + length old)"

definition diffAgentMembership :: "node_id list \<Rightarrow> node_id list \<Rightarrow> nat \<times> nat" where
  "diffAgentMembership old new = diffAgentMembership_loop old new 0 0"

section \<open>The pool\<close>

record poolState =
  p_agents :: "node_id list"
  p_topicIDs :: "(topic, uuid) gomap"
  p_strategy :: DefaultPartitionAssignmentStrategy

definition NewAgentPool :: poolState where
  "NewAgentPool = \<lparr>p_agents = [], p_topicIDs = [],
     p_strategy = newDefaultPartitionAssignmentStrategy [] [] {} {} []\<rparr>"

definition refresh ::
  "poolState \<Rightarrow> goerror + MetadataResponse \<Rightarrow> poolState \<times> (goerror + node_id list \<times> leaderDrops)" where
  "refresh p fetched =
     (case fetched of
        Inl err \<Rightarrow> (p, Inl (Errorf ''fetching metadata: '' err ''''))
      | Inr meta \<Rightarrow>
          let newAgents = sort (md_Brokers meta);
              agentSet = set newAgents;
              b = buildLeadersAndTopicIDs (md_Topics meta) agentSet (p_topicIDs p);
              removed = diffRemovedAgents (p_agents p) agentSet
          in (\<lparr>p_agents = newAgents, p_topicIDs = b_topicIDs b,
               p_strategy = newDefaultPartitionAssignmentStrategy newAgents (b_leaders b)
                 (b_noLiveLeader b) (b_noLeader b) (b_partitionCounts b)\<rparr>,
              Inr (removed, b_dropped b)))"

definition TopicID :: "poolState \<Rightarrow> topic \<Rightarrow> uuid option" where
  "TopicID p topic = map_of (p_topicIDs p) topic"

section \<open>What the loops compute\<close>

lemma knownTopics_new:
  "st_knownTopics (newDefaultPartitionAssignmentStrategy ags lds nolive nl counts) =
     nolive \<union> (fst \<circ> fst) ` set lds"
proof -
  have "fold (\<lambda>e known. insert (fst (fst e)) known) lds A = A \<union> (fst \<circ> fst) ` set lds"
    for A and lds :: "(topicPartition, node_id) gomap"
    by (induction lds arbitrary: A) auto
  then show ?thesis by (simp add: newDefaultPartitionAssignmentStrategy_def)
qed

lemma new_strategy_simps [simp]:
  "st_agents (newDefaultPartitionAssignmentStrategy ags lds nolive nl counts) = ags"
  "st_leaders (newDefaultPartitionAssignmentStrategy ags lds nolive nl counts) = lds"
  "st_noLeader (newDefaultPartitionAssignmentStrategy ags lds nolive nl counts) = nl"
  "st_partitionCounts (newDefaultPartitionAssignmentStrategy ags lds nolive nl counts) = counts"
  by (simp_all add: newDefaultPartitionAssignmentStrategy_def)

lemma diffRemovedAgents_eq: "diffRemovedAgents old newSet = filter (\<lambda>i. i \<notin> newSet) old"
  by (induction old newSet rule: diffRemovedAgents.induct) auto

lemma diffAgentMembership_loop_eq:
  assumes "sorted_wrt (<) old" and "sorted_wrt (<) new"
  shows "diffAgentMembership_loop old new added removed =
    (added + card (set new - set old), removed + card (set old - set new))"
  using assms
proof (induction old new added removed rule: diffAgentMembership_loop.induct)
  case (1 a old b new added removed)
  consider "a = b" | "a < b" | "b < a" by linarith
  then show ?case
  proof cases
    case 1
    then have "set (b # new) - set (a # old) = set new - set old"
      "set (a # old) - set (b # new) = set old - set new"
      using "1.prems" by auto
    then show ?thesis using 1 "1.IH"(1) "1.prems" by simp
  next
    case 2
    then have "a \<notin> set (b # new)" using "1.prems" by auto
    then have "set (b # new) - set (a # old) = set (b # new) - set old"
      "set (a # old) - set (b # new) = insert a (set old - set (b # new))" by auto
    moreover have "a \<notin> set old - set (b # new)" using "1.prems" by auto
    ultimately show ?thesis using 2 "1.IH"(2) "1.prems" by simp
  next
    case 3
    then have "b \<notin> set (a # old)" using "1.prems" by auto
    then have "set (a # old) - set (b # new) = set (a # old) - set new"
      "set (b # new) - set (a # old) = insert b (set new - set (a # old))" by auto
    moreover have "b \<notin> set new - set (a # old)" using "1.prems" by auto
    ultimately show ?thesis using 3 "1.IH"(3) "1.prems" by simp
  qed
qed (auto simp: distinct_card sorted_less_distinct)

section \<open>One topic's partitions\<close>

abbreviation named_live :: "node_id set \<Rightarrow> MetadataResponseTopicPartition \<Rightarrow> bool" where
  "named_live agentSet x \<equiv> 0 \<le> mp_Leader x \<and> mp_Leader x \<in> agentSet"

abbreviation named_dead :: "node_id set \<Rightarrow> MetadataResponseTopicPartition \<Rightarrow> bool" where
  "named_dead agentSet x \<equiv> 0 \<le> mp_Leader x \<and> mp_Leader x \<notin> agentSet"

lemma count_drop_Count [simp]: "ld_Count (count_drop name part d) = ld_Count d + 1"
  by (simp add: count_drop_def Let_def)

lemma scan_partition_simps [simp]:
  "b_topicIDs (scan_partition A name b x) = b_topicIDs b"
  "b_noLiveLeader (scan_partition A name b x) = b_noLiveLeader b"
  "b_partitionCounts (scan_partition A name b x) = b_partitionCounts b"
  "b_kept (scan_partition A name b x) = b_kept b + (if named_live A x then 1 else 0)"
  "b_excluded (scan_partition A name b x) = b_excluded b + (if named_dead A x then 1 else 0)"
  "ld_Count (b_dropped (scan_partition A name b x)) =
     ld_Count (b_dropped b) + (if named_dead A x then 1 else 0)"
  "b_maxPartition (scan_partition A name b x) = max (b_maxPartition b) (mp_Partition x)"
  "b_noLeader (scan_partition A name b x) =
     (if mp_Leader x < 0 then insert (name, mp_Partition x) (b_noLeader b) else b_noLeader b)"
  "b_leaders (scan_partition A name b x) =
     (if named_live A x then AList.update (name, mp_Partition x) (mp_Leader x) (b_leaders b) else b_leaders b)"
  by (auto simp: scan_partition_def Let_def)

lemma fold_scan_partition_simps [simp]:
  "b_topicIDs (foldl (scan_partition A name) b xs) = b_topicIDs b"
  "b_noLiveLeader (foldl (scan_partition A name) b xs) = b_noLiveLeader b"
  "b_partitionCounts (foldl (scan_partition A name) b xs) = b_partitionCounts b"
  "b_kept (foldl (scan_partition A name) b xs) = b_kept b + int (length (filter (named_live A) xs))"
  "b_excluded (foldl (scan_partition A name) b xs) = b_excluded b + int (length (filter (named_dead A) xs))"
  "ld_Count (b_dropped (foldl (scan_partition A name) b xs)) =
     ld_Count (b_dropped b) + int (length (filter (named_dead A) xs))"
  "b_noLeader (foldl (scan_partition A name) b xs) =
     b_noLeader b \<union> {(name, mp_Partition x) | x. x \<in> set xs \<and> mp_Leader x < 0}"
  by (induction xs arbitrary: b) (auto simp del: split_paired_Ex)

lemma fold_scan_partition_max:
  "b_maxPartition b \<le> b_maxPartition (foldl (scan_partition A name) b xs)"
  "x \<in> set xs \<Longrightarrow> mp_Partition x \<le> b_maxPartition (foldl (scan_partition A name) b xs)"
  "b_maxPartition (foldl (scan_partition A name) b xs) \<in> insert (b_maxPartition b) (mp_Partition ` set xs)"
proof -
  show le: "b_maxPartition b \<le> b_maxPartition (foldl (scan_partition A name) b xs)" for b xs
  proof (induction xs arbitrary: b)
    case (Cons y ys)
    show ?case using Cons [of "scan_partition A name b y"] by simp
  qed simp
  show "x \<in> set xs \<Longrightarrow> mp_Partition x \<le> b_maxPartition (foldl (scan_partition A name) b xs)"
  proof (induction xs arbitrary: b)
    case (Cons y ys)
    then show ?case using le [of "scan_partition A name b y" ys] by auto
  qed simp
  show "b_maxPartition (foldl (scan_partition A name) b xs) \<in> insert (b_maxPartition b) (mp_Partition ` set xs)"
  proof (induction xs arbitrary: b)
    case (Cons y ys)
    show ?case using Cons [of "scan_partition A name b y"] by (auto simp: max_def split: if_splits)
  qed simp
qed

text \<open>With distinct partition indices the leader map holds exactly the live named leaders.\<close>

lemma fold_scan_partition_leaders:
  assumes "distinct (map mp_Partition xs)"
  shows "map_of (b_leaders (foldl (scan_partition A name) b xs)) (t, p) =
    (if t = name \<and> (\<exists>x\<in>set xs. mp_Partition x = p \<and> named_live A x)
     then map_of (map (\<lambda>x. (mp_Partition x, mp_Leader x)) xs) p
     else map_of (b_leaders b) (t, p))"
  using assms
proof (induction xs arbitrary: b)
  case (Cons y ys)
  then have "map_of (b_leaders (foldl (scan_partition A name) (scan_partition A name b y) ys)) (t, p) =
    (if t = name \<and> (\<exists>x\<in>set ys. mp_Partition x = p \<and> named_live A x)
     then map_of (map (\<lambda>x. (mp_Partition x, mp_Leader x)) ys) p
     else map_of (b_leaders (scan_partition A name b y)) (t, p))" by simp
  moreover have "mp_Partition x \<noteq> mp_Partition y" if "x \<in> set ys" for x
    using Cons.prems that by simp (metis imageI)
  ultimately show ?case by (cases "p = mp_Partition y") auto
qed simp

lemma snd_set_update: "snd ` set (AList.update k v m) \<subseteq> insert v (snd ` set m)"
  by (induction m) auto

lemma fold_scan_partition_range:
  "snd ` set (b_leaders (foldl (scan_partition A name) b xs)) \<subseteq> snd ` set (b_leaders b) \<union> A"
proof (induction xs arbitrary: b)
  case (Cons y ys)
  have "snd ` set (b_leaders (scan_partition A name b y)) \<subseteq> snd ` set (b_leaders b) \<union> A"
    using snd_set_update [of "(name, mp_Partition y)" "mp_Leader y" "b_leaders b"] by auto
  then show ?case unfolding foldl_Cons using Cons [of "scan_partition A name b y"] by blast
qed simp

section \<open>The whole response\<close>

text \<open>The state a topic's partitions are read from.\<close>

abbreviation open_topic :: "MetadataResponseTopic \<Rightarrow> topic \<Rightarrow> build \<Rightarrow> build" where
  "open_topic x name b \<equiv> b\<lparr>b_topicIDs := AList.update name (mt_TopicID x) (b_topicIDs b),
     b_kept := 0, b_excluded := 0, b_maxPartition := -1\<rparr>"

lemma scan_topic_fields:
  assumes "mt_Topic x = Some name" and "mt_ErrorCode x = 0"
  shows "b_leaders (scan_topic A prev b x) =
      b_leaders (foldl (scan_partition A name) (open_topic x name b) (mt_Partitions x))"
    and "b_noLeader (scan_topic A prev b x) =
      b_noLeader b \<union> {(name, mp_Partition y) | y. y \<in> set (mt_Partitions x) \<and> mp_Leader y < 0}"
    and "ld_Count (b_dropped (scan_topic A prev b x)) =
      ld_Count (b_dropped b) + int (length (filter (named_dead A) (mt_Partitions x)))"
    and "b_partitionCounts (scan_topic A prev b x) = AList.update name
      (i32 (b_maxPartition (foldl (scan_partition A name) (open_topic x name b) (mt_Partitions x)) + 1))
      (b_partitionCounts b)"
    and "b_topicIDs (scan_topic A prev b x) = AList.update name (mt_TopicID x) (b_topicIDs b)"
    and "b_noLiveLeader (scan_topic A prev b x) =
      (if filter (named_dead A) (mt_Partitions x) \<noteq> [] \<and> filter (named_live A) (mt_Partitions x) = []
       then insert name (b_noLiveLeader b) else b_noLiveLeader b)"
  using assms by (simp_all add: scan_topic_def Let_def)

lemma scan_topic_skip:
  assumes "mt_Topic x = None \<or> mt_ErrorCode x \<noteq> 0"
  shows "b_leaders (scan_topic A prev b x) = b_leaders b"
    and "b_noLeader (scan_topic A prev b x) = b_noLeader b"
    and "b_dropped (scan_topic A prev b x) = b_dropped b"
    and "b_partitionCounts (scan_topic A prev b x) = b_partitionCounts b"
    and "b_noLiveLeader (scan_topic A prev b x) = b_noLiveLeader b"
  using assms by (auto simp: scan_topic_def split: option.splits)

lemma scan_topic_range:
  "snd ` set (b_leaders (scan_topic A prev b x)) \<subseteq> snd ` set (b_leaders b) \<union> A"
proof (cases "mt_Topic x = None \<or> mt_ErrorCode x \<noteq> 0")
  case True
  then show ?thesis by (simp add: scan_topic_skip)
next
  case False
  then obtain name where "mt_Topic x = Some name" "mt_ErrorCode x = 0" by auto
  then show ?thesis
    using fold_scan_partition_range [of A name "open_topic x name b"] by (simp add: scan_topic_fields)
qed

lemma build_range: "snd ` set (b_leaders (buildLeadersAndTopicIDs ts A prev)) \<subseteq> A"
proof -
  have "snd ` set (b_leaders (foldl (scan_topic A prev) b ts)) \<subseteq> snd ` set (b_leaders b) \<union> A" for b
  proof (induction ts arbitrary: b)
    case (Cons x ts)
    show ?case
      unfolding foldl_Cons using Cons [of "scan_topic A prev b x"] scan_topic_range [of A prev b x] by blast
  qed simp
  from this [of init_build] show ?thesis by (simp add: buildLeadersAndTopicIDs_def init_build_def)
qed

text \<open>What the maps say about one topic, and that other topics leave it alone.\<close>

definition topic_view :: "build \<Rightarrow> topic \<Rightarrow>
  (partition \<rightharpoonup> node_id) \<times> partition set \<times> bool \<times> int option \<times> uuid option" where
  "topic_view b t =
     (\<lambda>p. map_of (b_leaders b) (t, p), {p. (t, p) \<in> b_noLeader b}, t \<in> b_noLiveLeader b,
      map_of (b_partitionCounts b) t, map_of (b_topicIDs b) t)"

lemma fold_scan_partition_leaders_other:
  "t \<noteq> name \<Longrightarrow> map_of (b_leaders (foldl (scan_partition A name) b xs)) (t, p) = map_of (b_leaders b) (t, p)"
  by (induction xs arbitrary: b) auto

lemma scan_topic_view_other:
  "mt_Topic x \<noteq> Some t \<Longrightarrow> topic_view (scan_topic A prev b x) t = topic_view b t"
  by (auto simp: scan_topic_def topic_view_def Let_def fold_scan_partition_leaders_other split: option.splits)

lemma fold_scan_topic_view_other:
  "Some t \<notin> mt_Topic ` set xs \<Longrightarrow> topic_view (foldl (scan_topic A prev) b xs) t = topic_view b t"
proof (induction xs arbitrary: b)
  case (Cons x xs)
  then have "topic_view (foldl (scan_topic A prev) (scan_topic A prev b x) xs) t =
      topic_view (scan_topic A prev b x) t" by simp
  then show ?case using Cons.prems scan_topic_view_other [of x t] by fastforce
qed simp

text \<open>
  A response as the protocol specifies it: no topic twice, no partition index twice within a topic,
  and indices that leave room for the count, which is one past the highest index.
\<close>

definition sane_topics :: "MetadataResponseTopic list \<Rightarrow> bool" where
  "sane_topics ts \<longleftrightarrow>
     distinct (filter (\<lambda>n. n \<noteq> None) (map mt_Topic ts)) \<and>
     (\<forall>x\<in>set ts. distinct (map mp_Partition (mt_Partitions x)) \<and>
        (\<forall>y\<in>set (mt_Partitions x). 0 \<le> mp_Partition y \<and> mp_Partition y < 2 ^ 31 - 1))"

lemma init_build_view [simp]: "topic_view init_build t = (\<lambda>_. None, {}, False, None, None)"
  by (simp add: topic_view_def init_build_def)

lemma build_view:
  assumes "sane_topics ts" and "x \<in> set ts" and "mt_Topic x = Some t"
  obtains b where "topic_view (buildLeadersAndTopicIDs ts A prev) t = topic_view (scan_topic A prev b x) t"
    and "topic_view b t = (\<lambda>_. None, {}, False, None, None)"
proof -
  obtain pre post where ts: "ts = pre @ x # post" using assms(2) by (meson split_list)
  then have "distinct (filter (\<lambda>n. n \<noteq> None) (map mt_Topic (pre @ x # post)))"
    using assms(1) by (simp only: sane_topics_def)
  then have "Some t \<notin> mt_Topic ` set pre" "Some t \<notin> mt_Topic ` set post"
    using assms(3) by auto
  then have "topic_view (buildLeadersAndTopicIDs ts A prev) t =
      topic_view (scan_topic A prev (foldl (scan_topic A prev) init_build pre) x) t"
    "topic_view (foldl (scan_topic A prev) init_build pre) t = (\<lambda>_. None, {}, False, None, None)"
    by (simp_all add: buildLeadersAndTopicIDs_def ts fold_scan_topic_view_other init_build_view)
  then show thesis by (rule that)
qed

lemma map_of_partition:
  "distinct (map mp_Partition ys) \<Longrightarrow> y \<in> set ys \<Longrightarrow>
   map_of (map (\<lambda>x. (mp_Partition x, mp_Leader x)) ys) (mp_Partition y) = Some (mp_Leader y)"
  by (rule map_of_is_SomeI) (auto simp: comp_def)

lemma map_of_partition_unique:
  "distinct (map mp_Partition ys) \<Longrightarrow> y \<in> set ys \<Longrightarrow> z \<in> set ys \<Longrightarrow> mp_Partition z = mp_Partition y \<Longrightarrow> z = y"
  by (metis distinct_map inj_on_def)

text \<open>The view of a topic that Metadata returned without an error.\<close>

lemma build_view_ok:
  assumes "sane_topics ts" and "x \<in> set ts" and "mt_Topic x = Some t" and "mt_ErrorCode x = 0"
    and "y \<in> set (mt_Partitions x)" and b: "b = buildLeadersAndTopicIDs ts A prev"
  shows "map_of (b_leaders b) (t, mp_Partition y) = (if named_live A y then Some (mp_Leader y) else None)"
    and "(t, mp_Partition y) \<in> b_noLeader b \<longleftrightarrow> mp_Leader y < 0"
    and "named_dead A y \<Longrightarrow> t \<in> b_noLiveLeader b \<or> (\<exists>p l. map_of (b_leaders b) (t, p) = Some l)"
    and "mp_Partition y < get_or 0 (b_partitionCounts b) t"
proof -
  have d: "distinct (map mp_Partition (mt_Partitions x))"
    and r: "z \<in> set (mt_Partitions x) \<Longrightarrow> 0 \<le> mp_Partition z \<and> mp_Partition z < 2 ^ 31 - 1" for z
    using assms(1,2) by (auto simp: sane_topics_def)
  obtain b0 where v: "topic_view b t = topic_view (scan_topic A prev b0 x) t"
    and v0: "topic_view b0 t = (\<lambda>_. None, {}, False, None, None)"
    using build_view [OF assms(1-3)] unfolding b by blast
  note f = scan_topic_fields [OF assms(3,4), of A prev b0]
  let ?m = "b_maxPartition (foldl (scan_partition A t) (open_topic x t b0) (mt_Partitions x))"
  have lead: "map_of (b_leaders b) (t, mp_Partition z) = (if named_live A z then Some (mp_Leader z) else None)"
    if z: "z \<in> set (mt_Partitions x)" for z
  proof -
    have "map_of (b_leaders b) (t, mp_Partition z) =
        map_of (b_leaders (scan_topic A prev b0 x)) (t, mp_Partition z)"
      using v by (simp add: topic_view_def fun_eq_iff)
    moreover have "(\<exists>w\<in>set (mt_Partitions x). mp_Partition w = mp_Partition z \<and> named_live A w) \<longleftrightarrow> named_live A z"
      using map_of_partition_unique [OF d z] z by blast
    moreover have "map_of (b_leaders b0) (t, mp_Partition z) = None"
      using v0 by (simp add: topic_view_def fun_eq_iff)
    ultimately show ?thesis
      using map_of_partition [OF d z] by (simp add: f fold_scan_partition_leaders [OF d])
  qed
  then show "map_of (b_leaders b) (t, mp_Partition y) = (if named_live A y then Some (mp_Leader y) else None)"
    using assms(5) .
  have "(t, q) \<in> b_noLeader b \<longleftrightarrow> (t, q) \<in> b_noLeader (scan_topic A prev b0 x)" "(t, q) \<notin> b_noLeader b0" for q
    using v v0 by (auto simp: topic_view_def set_eq_iff)
  then have "(t, mp_Partition y) \<in> b_noLeader b \<longleftrightarrow>
      (\<exists>z\<in>set (mt_Partitions x). mp_Partition z = mp_Partition y \<and> mp_Leader z < 0)"
    by (simp add: f) metis
  then show "(t, mp_Partition y) \<in> b_noLeader b \<longleftrightarrow> mp_Leader y < 0"
    using assms(5) map_of_partition_unique [OF d assms(5)] by blast
  show "t \<in> b_noLiveLeader b \<or> (\<exists>p l. map_of (b_leaders b) (t, p) = Some l)" if "named_dead A y"
  proof (cases "filter (named_live A) (mt_Partitions x)")
    case Nil
    then have "t \<in> b_noLiveLeader (scan_topic A prev b0 x)"
      using assms(5) that by (auto simp: f filter_empty_conv)
    then show ?thesis using v by (simp add: topic_view_def)
  next
    case (Cons z zs)
    then have "z \<in> set (mt_Partitions x)" "named_live A z" by (auto simp: filter_eq_Cons_iff)
    then have "map_of (b_leaders b) (t, mp_Partition z) = Some (mp_Leader z)" using lead [of z] by simp
    then show ?thesis by blast
  qed
  have "mp_Partition y \<le> ?m" using assms(5) by (rule fold_scan_partition_max)
  moreover have "- 1 \<le> ?m" using fold_scan_partition_max(1) [of "open_topic x t b0"] by simp
  moreover have "?m < 2 ^ 31 - 1"
    using fold_scan_partition_max(3) [of A t "open_topic x t b0" "mt_Partitions x"] r by auto
  moreover have "get_or 0 (b_partitionCounts b) t = i32 (?m + 1)"
    using v by (simp add: topic_view_def f get_or_def)
  ultimately show "mp_Partition y < get_or 0 (b_partitionCounts b) t" by (simp add: i32_id)
qed

section \<open>Properties\<close>

definition pool_inv :: "poolState \<Rightarrow> bool" where
  "pool_inv p \<longleftrightarrow> wf_strategy (p_strategy p) \<and> st_agents (p_strategy p) = p_agents p"

lemma pool_inv_new: "pool_inv NewAgentPool"
  by (simp add: pool_inv_def NewAgentPool_def wf_strategy_def)

lemma refresh_pool_inv:
  assumes "\<And>meta. fetched = Inr meta \<Longrightarrow> distinct (md_Brokers meta)" and "pool_inv p"
  shows "pool_inv (fst (refresh p fetched))"
proof (cases fetched)
  case (Inl e)
  then show ?thesis using assms(2) by (simp add: refresh_def)
next
  case (Inr meta)
  have "sorted_wrt (<) (sort (md_Brokers meta))" using assms(1) Inr by (simp add: strict_sorted_iff)
  then show ?thesis
    using Inr build_range [of "md_Topics meta" "set (sort (md_Brokers meta))" "p_topicIDs p"]
    by (simp add: refresh_def Let_def pool_inv_def wf_strategy_def)
qed

text \<open>
  Whatever sequence of fetch results the refreshes see, failures included, the pool's snapshot
  stays coherent: its agent list is strictly ascending, the strategy was built from that same
  list, and every leader it names is one of those agents.
\<close>

lemma pool_snapshot_coherent:
  assumes "\<forall>meta. Inr meta \<in> set fetches \<longrightarrow> distinct (md_Brokers meta)"
  shows "pool_inv (foldl (\<lambda>p f. fst (refresh p f)) NewAgentPool fetches)"
proof -
  have "pool_inv p \<Longrightarrow> pool_inv (foldl (\<lambda>p f. fst (refresh p f)) p fetches)" for p
    using assms
  proof (induction fetches arbitrary: p)
    case (Cons f fs)
    have "pool_inv (fst (refresh p f))"
      using Cons.prems by (intro refresh_pool_inv) auto
    then show ?case using Cons by simp
  qed simp
  then show ?thesis using pool_inv_new by blast
qed

definition example_meta :: MetadataResponse where
  "example_meta = \<lparr>md_Brokers = [3, 1, 2], md_Topics =
     [\<lparr>mt_Topic = Some ''a'', mt_ErrorCode = 0, mt_TopicID = 7, mt_Partitions =
        [\<lparr>mp_Partition = 0, mp_Leader = 2\<rparr>, \<lparr>mp_Partition = 1, mp_Leader = 9\<rparr>, \<lparr>mp_Partition = 2, mp_Leader = -1\<rparr>]\<rparr>,
      \<lparr>mt_Topic = Some ''b'', mt_ErrorCode = 5, mt_TopicID = 0, mt_Partitions = []\<rparr>]\<rparr>"

text \<open>
  C14: routing right after a refresh follows the response. For a partition that Metadata lists under
  an error-free topic: a leader among the brokers is the first candidate; a leader below zero
  leaves the partition unroutable; a leader missing from a non-empty broker list is replaced by a
  live agent.
\<close>

theorem routing_after_refresh:
  assumes "sane_topics (md_Topics meta)" and "distinct (md_Brokers meta)" and "x \<in> set (md_Topics meta)"
    and "mt_Topic x = Some t" and "mt_ErrorCode x = 0" and "y \<in> set (mt_Partitions x)" and "0 < m"
    and "md_Brokers meta \<noteq> []"
  shows "let s = p_strategy (fst (refresh p (Inr meta)));
             (agents, route) = candidatesWithRoute xxh s t (mp_Partition y) m
         in if mp_Leader y < 0 then agents = [] \<and> route = routeMissNoLeader
            else if mp_Leader y \<in> set (md_Brokers meta)
            then hd agents = healthy_agent (mp_Leader y) \<and> agents \<noteq> [] \<and> route = routeLeader
            else NodeID (hd agents) \<in> set (md_Brokers meta) \<and> agents \<noteq> [] \<and> route = routeStandIn"
proof -
  let ?A = "set (sort (md_Brokers meta))"
  let ?b = "buildLeadersAndTopicIDs (md_Topics meta) ?A (p_topicIDs p)"
  let ?s = "p_strategy (fst (refresh p (Inr meta)))"
  note v = build_view_ok [OF assms(1,3,4,5,6) refl, of ?A "p_topicIDs p"]
  have s: "st_leaders ?s = b_leaders ?b" "st_noLeader ?s = b_noLeader ?b"
    "st_partitionCounts ?s = b_partitionCounts ?b" "st_agents ?s = sort (md_Brokers meta)"
    "st_knownTopics ?s = b_noLiveLeader ?b \<union> (fst \<circ> fst) ` set (b_leaders ?b)"
    by (simp_all add: refresh_def Let_def knownTopics_new)
  have len: "sort (md_Brokers meta) \<noteq> []" using assms(8) by (metis set_empty set_sort)
  have nonneg: "0 \<le> mp_Partition y" using assms(1,3,6) by (auto simp: sane_topics_def)
  have known: "t \<in> st_knownTopics ?s" if "named_dead ?A y"
    using v(3) [OF that] by (fastforce simp: s dest: map_of_SomeD intro: rev_image_eqI)
  have expand: "expandCandidates h ags l m \<noteq> []" "hd (expandCandidates h ags l m) = healthy_agent l" for h ags l
    by (simp_all add: expandCandidates_def walkNonLeaders_eq Let_def)
  have pick: "sort (md_Brokers meta) ! (k mod length (sort (md_Brokers meta))) \<in> set (md_Brokers meta)" for k
    using len by (metis length_greater_0_conv mod_less_divisor nth_mem set_sort)
  show ?thesis
    using v(1,2,4) known len nonneg assms(7) pick
    by (auto simp: candidatesWithRoute_def s expand Let_def simp del: length_sort)
qed

theorem routing_after_refresh_witness:
  "snd (candidatesWithRoute (\<lambda>_. 4) (p_strategy (fst (refresh NewAgentPool (Inr example_meta)))) ''a'' 1 2)
     = routeStandIn"
proof -
  let ?x = "hd (md_Topics example_meta)"
  have "sane_topics (md_Topics example_meta)" "distinct (md_Brokers example_meta)"
    "?x \<in> set (md_Topics example_meta)" "mt_Topic ?x = Some ''a''" "mt_ErrorCode ?x = 0"
    "mt_Partitions ?x ! 1 \<in> set (mt_Partitions ?x)" "(0::int) < 2" "md_Brokers example_meta \<noteq> []"
    by (simp_all add: example_meta_def sane_topics_def)
  note r = routing_after_refresh [OF this, where p = NewAgentPool and xxh = "\<lambda>_. 4"]
  have "mt_Partitions ?x ! 1 = \<lparr>mp_Partition = 1, mp_Leader = 9\<rparr>" "9 \<notin> set (md_Brokers example_meta)"
    by (simp_all add: example_meta_def)
  then show ?thesis using r by (simp add: Let_def split_beta)
qed

text \<open>The number of excluded leaders over the whole response.\<close>

abbreviation excluded_leaders :: "node_id set \<Rightarrow> MetadataResponseTopic \<Rightarrow> int" where
  "excluded_leaders A x \<equiv> if mt_Topic x \<noteq> None \<and> mt_ErrorCode x = 0
     then int (length (filter (named_dead A) (mt_Partitions x))) else 0"

lemma build_dropped_Count:
  "ld_Count (b_dropped (buildLeadersAndTopicIDs ts A prev)) = (\<Sum>x\<leftarrow>ts. excluded_leaders A x)"
proof -
  have step: "ld_Count (b_dropped (scan_topic A prev b x)) = ld_Count (b_dropped b) + excluded_leaders A x"
    for b x
  proof (cases "mt_Topic x = None \<or> mt_ErrorCode x \<noteq> 0")
    case True
    then show ?thesis by (auto simp: scan_topic_skip)
  next
    case False
    then show ?thesis by (auto simp: scan_topic_fields)
  qed
  have "ld_Count (b_dropped (foldl (scan_topic A prev) b ts)) =
      ld_Count (b_dropped b) + (\<Sum>x\<leftarrow>ts. excluded_leaders A x)" for b
  proof (induction ts arbitrary: b)
    case (Cons x ts)
    show ?case unfolding foldl_Cons using Cons [of "scan_topic A prev b x"] step [of b x] by simp
  qed simp
  then show ?thesis by (simp add: buildLeadersAndTopicIDs_def init_build_def no_drops_def)
qed

text \<open>
  What a refresh reports to the client. The removed list is exactly the previous agents that
  the brokers no longer name, in their old order, and the drop count is the number of partitions
  of error-free topics whose named leader is no broker. The membership counts that the client
  derives from the two agent lists are the sizes of the two set differences. A failed fetch reports
  the wrapped error and leaves the snapshot as it was.
\<close>

theorem refresh_report_exact:
  assumes "pool_inv p" and "distinct (md_Brokers meta)"
  shows "(\<exists>removed dropped. snd (refresh p (Inr meta)) = Inr (removed, dropped) \<and>
      removed = filter (\<lambda>i. i \<notin> set (md_Brokers meta)) (p_agents p) \<and>
      ld_Count dropped = (\<Sum>x\<leftarrow>md_Topics meta. excluded_leaders (set (md_Brokers meta)) x) \<and>
      diffAgentMembership (p_agents p) (p_agents (fst (refresh p (Inr meta)))) =
        (card (set (md_Brokers meta) - set (p_agents p)), length removed)) \<and>
    refresh p (Inl err) = (p, Inl (Errorf ''fetching metadata: '' err []))"
proof -
  have s: "sorted_wrt (<) (p_agents p)" using assms(1) by (auto simp: pool_inv_def wf_strategy_def)
  moreover have "sorted_wrt (<) (sort (md_Brokers meta))" using assms(2) by (simp add: strict_sorted_iff)
  moreover have "length (filter (\<lambda>i. i \<notin> set (md_Brokers meta)) (p_agents p)) =
      card (set (p_agents p) - set (md_Brokers meta))"
    using s by (metis distinct_card distinct_filter set_minus_filter_out sorted_less_distinct set_diff_eq set_filter)
  ultimately show ?thesis
    by (simp add: refresh_def Let_def diffRemovedAgents_eq build_dropped_Count diffAgentMembership_def
        diffAgentMembership_loop_eq)
qed

theorem refresh_report_exact_witness:
  "diffAgentMembership [] (p_agents (fst (refresh NewAgentPool (Inr example_meta)))) = (3, 0)"
proof -
  have "set (md_Brokers example_meta) = {1, 2, 3}" "distinct (md_Brokers example_meta)" "p_agents NewAgentPool = []"
    by (auto simp: example_meta_def NewAgentPool_def)
  then show ?thesis
    using refresh_report_exact [where p = NewAgentPool and meta = example_meta and err = Canceled] pool_inv_new
    by auto
qed

text \<open>
  A topic that Metadata answers with an error keeps the UUID it had, if any, and has no leader,
  no known partition and no stand-in in the new snapshot: every look-up of it is an unknown-topic
  miss, which asks for an on-demand refresh instead of picking an agent from stale leaders.
\<close>

theorem errored_topic_keeps_uuid_and_misses:
  assumes "sane_topics (md_Topics meta)" and "x \<in> set (md_Topics meta)"
    and "mt_Topic x = Some t" and "mt_ErrorCode x \<noteq> 0" and "md_Brokers meta \<noteq> []" and "0 < m"
  shows "let p' = fst (refresh p (Inr meta))
    in TopicID p' t = TopicID p t \<and> candidatesWithRoute xxh (p_strategy p') t part m = ([], routeMissUnknownTopic)"
proof -
  let ?A = "set (md_Brokers meta)"
  let ?b = "buildLeadersAndTopicIDs (md_Topics meta) ?A (p_topicIDs p)"
  obtain b0 where v: "topic_view ?b t = topic_view (scan_topic ?A (p_topicIDs p) b0 x) t"
    and v0: "topic_view b0 t = (\<lambda>_. None, {}, False, None, None)"
    using build_view [OF assms(1-3)] by blast
  have "topic_view (scan_topic ?A (p_topicIDs p) b0 x) t = (\<lambda>_. None, {}, False, None, map_of (p_topicIDs p) t)"
    using assms(3,4) v0 by (auto simp: scan_topic_def topic_view_def split: option.splits)
  with v have view: "topic_view ?b t = (\<lambda>_. None, {}, False, None, map_of (p_topicIDs p) t)" by simp
  then have "(t, q) \<notin> fst ` set (b_leaders ?b)" for q
    by (simp add: topic_view_def fun_eq_iff map_of_eq_None_iff)
  then have "t \<notin> (fst \<circ> fst) ` set (b_leaders ?b)" by force
  moreover have "sort (md_Brokers meta) \<noteq> []" using assms(5) by (metis set_empty set_sort)
  ultimately show ?thesis
    using view assms(6)
    by (auto simp: refresh_def Let_def TopicID_def topic_view_def candidatesWithRoute_def knownTopics_new
        fun_eq_iff set_eq_iff)
qed

theorem errored_topic_keeps_uuid_and_misses_witness:
  "TopicID (fst (refresh (NewAgentPool\<lparr>p_topicIDs := [(''b'', 11)]\<rparr>) (Inr example_meta))) ''b'' = Some 11"
  using errored_topic_keeps_uuid_and_misses [where meta = example_meta and x = "md_Topics example_meta ! 1"
      and t = "''b''" and p = "NewAgentPool\<lparr>p_topicIDs := [(''b'', 11)]\<rparr>" and m = 1]
  by (simp add: example_meta_def sane_topics_def Let_def TopicID_def)

end
