(* ===== verification/Go_Float.thy ===== *)
theory Go_Float
  imports Wgo_Prelude Complex_Main "HOL-Library.Log_Nat"
begin

text \<open>
  Go's \<open>float64\<close> as the client uses it. A finite \<open>float64\<close> is the rational number it denotes, and
  every arithmetic operation is the exact operation followed by \<open>f64\<close>, the IEEE 754 rounding to
  the nearest binary64 number, ties to even, with gradual underflow below the smallest normal
  number. Overflow to an infinity is left out: every operand here is a ratio of request counts, a
  latency in milliseconds or a configured factor. The facts the components use are that rounding
  is monotone, keeps the sign and fixes zero and one.
\<close>

section \<open>Rounding to binary64\<close>

text \<open>\<open>floor_log2 x\<close> is the exponent of the binade of a positive \<open>x\<close>.\<close>

definition floor_log2 :: "rat \<Rightarrow> int" where
  "floor_log2 x =
     (let (p, q) = quotient_of x; e = bitlen p - bitlen q
      in if 2 powi e \<le> x then e else e - 1)"

text \<open>The unit in the last place of the binade, with the subnormal floor \<open>2\<close> to the \<open>-1074\<close>.\<close>

definition ulp :: "rat \<Rightarrow> rat" where
  "ulp x = 2 powi (max (floor_log2 x - 52) (- 1074))"

definition round_half_even :: "rat \<Rightarrow> int" where
  "round_half_even x =
     (let n = \<lfloor>x\<rfloor>; r = x - of_int n
      in if r < 1 / 2 then n else if 1 / 2 < r then n + 1 else if even n then n else n + 1)"

definition f64 :: "rat \<Rightarrow> rat" where
  "f64 x = (if x = 0 then 0 else sgn x * (of_int (round_half_even (\<bar>x\<bar> / ulp \<bar>x\<bar>)) * ulp \<bar>x\<bar>))"

definition f64_of_int :: "int \<Rightarrow> rat" where "f64_of_int n = f64 (of_int n)"
definition f64_div :: "rat \<Rightarrow> rat \<Rightarrow> rat" where "f64_div x y = f64 (x / y)"
definition f64_mul :: "rat \<Rightarrow> rat \<Rightarrow> rat" where "f64_mul x y = f64 (x * y)"

text \<open>Go's conversion of a \<open>float64\<close> to an integer drops the fraction.\<close>

definition int_of_f64 :: "rat \<Rightarrow> int" where
  "int_of_f64 x = (if 0 \<le> x then \<lfloor>x\<rfloor> else \<lceil>x\<rceil>)"

section \<open>The binade of a number\<close>

lemma bitlen_powi_bounds:
  assumes "0 < p"
  shows "2 powi (bitlen p - 1) \<le> (of_int p :: rat)" and "of_int p < (2 powi bitlen p :: rat)"
proof -
  have b: "2 ^ nat (bitlen p - 1) \<le> p" "p < 2 ^ nat (bitlen p)"
    using bitlen_bounds [of p] assms by simp_all
  then have r: "of_int (2 ^ nat (bitlen p - 1)) \<le> (of_int p :: rat)"
    "(of_int p :: rat) < of_int (2 ^ nat (bitlen p))"
    by (simp_all only: of_int_le_iff of_int_less_iff)
  have pos: "1 \<le> bitlen p" using bitlen_ge_iff_power [of 1 p] assms by simp
  show "2 powi (bitlen p - 1) \<le> (of_int p :: rat)"
    using r(1) pos by (simp add: power_int_def)
  show "of_int p < (2 powi bitlen p :: rat)"
    using r(2) pos by (simp add: power_int_def)
qed

lemma floor_log2_bounds:
  assumes "0 < x"
  shows "2 powi floor_log2 x \<le> x" and "x < 2 powi (floor_log2 x + 1)"
proof -
  obtain p q where pq: "quotient_of x = (p, q)" by (cases "quotient_of x")
  have q: "0 < q" using pq by (rule quotient_of_denom_pos)
  have x: "x = of_int p / of_int q" using pq by (rule quotient_of_div)
  have p: "0 < p" using assms q by (simp add: x zero_less_divide_iff)
  let ?e = "bitlen p - bitlen q"
  have qb: "2 powi (bitlen q - 1) \<le> (of_int q :: rat)" "of_int q < (2 powi bitlen q :: rat)"
    and pb: "2 powi (bitlen p - 1) \<le> (of_int p :: rat)" "of_int p < (2 powi bitlen p :: rat)"
    using bitlen_powi_bounds p q by auto
  have "x < 2 powi bitlen p / 2 powi (bitlen q - 1)"
    unfolding x using pb qb q p by (intro frac_less) auto
  then have up: "x < 2 powi (?e + 1)" by (simp add: power_int_diff power_int_add)
  have "2 powi (bitlen p - 1) / 2 powi bitlen q \<le> x"
    unfolding x using pb qb q p by (intro frac_le) auto
  then have lo: "2 powi (?e - 1) \<le> x"
    by (simp add: power_int_diff power_int_add field_simps)
  have "floor_log2 x = (if 2 powi ?e \<le> x then ?e else ?e - 1)"
    by (simp add: floor_log2_def pq)
  then show "2 powi floor_log2 x \<le> x" "x < 2 powi (floor_log2 x + 1)"
    using up lo by auto
qed

lemma floor_log2_mono:
  assumes "0 < x" and "x \<le> y"
  shows "floor_log2 x \<le> floor_log2 y"
proof (rule ccontr)
  assume "\<not> floor_log2 x \<le> floor_log2 y"
  then have "floor_log2 y + 1 \<le> floor_log2 x" by simp
  then have "(2 :: rat) powi (floor_log2 y + 1) \<le> 2 powi floor_log2 x" by (intro power_int_increasing) auto
  also have "\<dots> \<le> x" using assms(1) by (rule floor_log2_bounds)
  also have "\<dots> \<le> y" by (rule assms(2))
  also have "\<dots> < 2 powi (floor_log2 y + 1)" using assms by (intro floor_log2_bounds) simp
  finally show False by simp
qed

lemma floor_log2_unique:
  assumes "2 powi e \<le> x" and "x < 2 powi (e + 1)"
  shows "floor_log2 x = e"
proof -
  have x: "0 < x" using assms(1) by (rule less_le_trans [rotated]) simp
  note b = floor_log2_bounds [OF x]
  have "(2 :: rat) powi e < 2 powi (floor_log2 x + 1)" "(2 :: rat) powi floor_log2 x < 2 powi (e + 1)"
    using assms b by linarith+
  then have "e < floor_log2 x + 1" "floor_log2 x < e + 1"
    by (metis not_le power_int_increasing one_le_numeral)+
  then show ?thesis by simp
qed

section \<open>Rounding is monotone\<close>

lemma ulp_pos [simp]: "0 < ulp x"
  by (simp add: ulp_def)

lemma round_half_even_bounds: "\<lfloor>x\<rfloor> \<le> round_half_even x \<and> round_half_even x \<le> \<lfloor>x\<rfloor> + 1"
  by (simp add: round_half_even_def Let_def)

lemma round_half_even_of_int [simp]: "round_half_even (of_int n) = n"
  by (simp add: round_half_even_def)

lemma round_half_even_mono:
  assumes "x \<le> y"
  shows "round_half_even x \<le> round_half_even y"
proof (cases "\<lfloor>x\<rfloor> = \<lfloor>y\<rfloor>")
  case True
  then show ?thesis using assms by (auto simp: round_half_even_def Let_def)
next
  case False
  then have "\<lfloor>x\<rfloor> + 1 \<le> \<lfloor>y\<rfloor>" using assms floor_mono [of x y] by linarith
  then show ?thesis using round_half_even_bounds [of x] round_half_even_bounds [of y] by linarith
qed

lemma round_half_even_le: "x \<le> of_int n \<Longrightarrow> round_half_even x \<le> n"
  using round_half_even_mono [of x "of_int n"] by simp

lemma round_half_even_ge: "of_int n \<le> x \<Longrightarrow> n \<le> round_half_even x"
  using round_half_even_mono [of "of_int n" x] by simp

text \<open>Within one binade the rounded value stays between the binade's ends.\<close>

lemma ulp_mult_le:
  assumes "0 < x"
  shows "x / ulp x < 2 ^ 53"
proof -
  have "x < 2 powi (floor_log2 x + 1)" using assms by (rule floor_log2_bounds)
  also have "\<dots> = 2 ^ 53 * 2 powi (floor_log2 x - 52)" by (simp add: power_int_diff power_int_add)
  also have "\<dots> \<le> 2 ^ 53 * ulp x" by (simp add: ulp_def power_int_increasing)
  finally show ?thesis by (simp add: pos_divide_less_eq)
qed

lemma f64_0 [simp]: "f64 0 = 0"
  by (simp add: f64_def)

lemma f64_pos_eq: "0 < x \<Longrightarrow> f64 x = of_int (round_half_even (x / ulp x)) * ulp x"
  by (simp add: f64_def)

lemma f64_minus: "f64 (- x) = - f64 x"
  by (simp add: f64_def)

lemma f64_nonneg: "0 \<le> x \<Longrightarrow> 0 \<le> f64 x"
  using round_half_even_ge [of 0 "x / ulp x"] ulp_pos [of x]
  by (cases "x = 0") (simp_all add: f64_pos_eq zero_le_mult_iff less_imp_le)

text \<open>A number of the form \<open>m * 2^k\<close> with at most 53 significant bits is its own rounding.\<close>

lemma f64_exact:
  assumes "0 < x" and "x / ulp x = of_int m"
  shows "f64 x = x"
proof -
  have "f64 x = of_int m * ulp x" using assms by (simp add: f64_pos_eq)
  also have "\<dots> = x" using assms(2) by (metis nonzero_divide_eq_eq order_less_irrefl ulp_pos)
  finally show ?thesis .
qed

lemma f64_powi:
  assumes "- 1022 \<le> e"
  shows "f64 (2 powi e) = 2 powi e"
proof (rule f64_exact)
  have "floor_log2 (2 powi e) = e" by (rule floor_log2_unique) (simp_all add: power_int_add)
  then have "2 powi e / ulp (2 powi e) = (2 :: rat) powi e / 2 powi (e - 52)"
    using assms by (simp add: ulp_def)
  also have "\<dots> = of_int (2 ^ 52)" by (simp add: power_int_diff)
  finally show "2 powi e / ulp (2 powi e) = of_int (2 ^ 52)" .
qed simp

lemma f64_mono_pos:
  assumes "0 < x" and "x \<le> y"
  shows "f64 x \<le> f64 y"
proof (cases "ulp x = ulp y")
  case True
  have "round_half_even (x / ulp y) \<le> round_half_even (y / ulp y)"
    using assms(2) by (intro round_half_even_mono divide_right_mono) (simp_all add: less_imp_le)
  then show ?thesis using assms True by (simp add: f64_pos_eq)
next
  case False
  let ?b = "(2 :: rat) powi floor_log2 y"
  have le: "floor_log2 x \<le> floor_log2 y" using assms by (rule floor_log2_mono)
  have y: "0 < y" using assms by simp
  from False le have lt: "floor_log2 x < floor_log2 y"
    by (cases "floor_log2 x = floor_log2 y") (simp_all add: ulp_def)
  from False le have sub: "- 1074 < floor_log2 y - 52"
    by (auto simp: ulp_def max_def split: if_splits)
  have uy: "ulp y = 2 powi (floor_log2 y - 52)" using sub by (simp add: ulp_def)
  have "?b / ulp y = of_int (2 ^ 52)" by (simp add: uy power_int_diff)
  moreover have "?b / ulp y \<le> y / ulp y"
    using floor_log2_bounds(1) [OF y] by (intro divide_right_mono) (simp_all add: less_imp_le)
  ultimately have "2 ^ 52 \<le> round_half_even (y / ulp y)" by (intro round_half_even_ge) simp
  then have "(of_int (2 ^ 52) :: rat) \<le> of_int (round_half_even (y / ulp y))"
    by (simp only: of_int_le_iff)
  then have "2 ^ 52 * ulp y \<le> f64 y" using y by (simp add: f64_pos_eq)
  then have hi: "?b \<le> f64 y" by (simp add: uy power_int_diff)
  have ux: "ulp x * 2 \<le> ulp y"
    using lt sub by (simp add: ulp_def max_def power_int_increasing flip: power_int_add_1)
  have "round_half_even (x / ulp x) \<le> 2 ^ 53"
    using ulp_mult_le [OF assms(1)] by (intro round_half_even_le) simp
  then have "of_int (round_half_even (x / ulp x)) \<le> (of_int (2 ^ 53) :: rat)"
    by (simp only: of_int_le_iff)
  then have "f64 x \<le> 2 ^ 53 * ulp x" using assms(1) by (simp add: f64_pos_eq)
  also have "\<dots> \<le> 2 ^ 52 * ulp y" using ux by simp
  also have "\<dots> = ?b" by (simp add: uy power_int_diff)
  finally show ?thesis using hi by simp
qed

lemma f64_mono: "x \<le> y \<Longrightarrow> f64 x \<le> f64 y"
proof -
  assume le: "x \<le> y"
  consider "0 < x" | "x \<le> 0" "0 \<le> y" | "y < 0" by linarith
  then show ?thesis
  proof cases
    case 1
    then show ?thesis using le by (rule f64_mono_pos)
  next
    case 2
    then show ?thesis using f64_nonneg [of "- x"] f64_nonneg [of y] by (simp add: f64_minus)
  next
    case 3
    then have "f64 (- y) \<le> f64 (- x)" using le by (intro f64_mono_pos) simp_all
    then show ?thesis by (simp add: f64_minus)
  qed
qed

lemma f64_1 [simp]: "f64 1 = 1"
  using f64_powi [of 0] by simp

lemma f64_of_int_0 [simp]: "f64_of_int 0 = 0"
  by (simp add: f64_of_int_def)

lemma f64_of_int_1 [simp]: "f64_of_int 1 = 1"
  by (simp add: f64_of_int_def)

lemma f64_of_int_mono: "m \<le> n \<Longrightarrow> f64_of_int m \<le> f64_of_int n"
  by (simp add: f64_of_int_def f64_mono)

lemma f64_of_int_pos: "0 < n \<Longrightarrow> 0 < f64_of_int n"
  using f64_of_int_mono [of 1 n] by simp

text \<open>A ratio of counts \<open>0 \<le> m \<le> n\<close> stays within the unit interval after rounding.\<close>

lemma f64_ratio_range:
  assumes "0 \<le> m" and "m \<le> n" and "0 < n"
  shows "0 \<le> f64_div (f64_of_int m) (f64_of_int n)"
    and "f64_div (f64_of_int m) (f64_of_int n) \<le> 1"
proof -
  have n: "0 < f64_of_int n" using assms(3) by (rule f64_of_int_pos)
  have m: "0 \<le> f64_of_int m" using f64_of_int_mono [OF assms(1)] by simp
  have "f64_of_int m / f64_of_int n \<le> 1"
    using n f64_of_int_mono [OF assms(2)] by simp
  then show "f64_div (f64_of_int m) (f64_of_int n) \<le> 1"
    unfolding f64_div_def using f64_mono [of _ 1] by simp
  show "0 \<le> f64_div (f64_of_int m) (f64_of_int n)"
    unfolding f64_div_def using m n by (intro f64_nonneg) simp
qed

text \<open>Integers up to \<open>2 ^ 53\<close> are represented exactly.\<close>

lemma f64_of_int_exact:
  assumes "0 \<le> n" "n \<le> 2 ^ 53"
  shows "f64_of_int n = of_int n"
proof (cases "n = 0 \<or> n = 2 ^ 53")
  case True
  then show ?thesis using f64_powi [of 53] by (auto simp: f64_of_int_def power_int_def)
next
  case False
  let ?e = "max (floor_log2 (of_int n) - 52) (- 1074)"
  have n: "0 < n" "n < 2 ^ 53" using assms False by auto
  have "floor_log2 (of_int n) \<le> 52"
  proof (rule ccontr)
    assume "\<not> floor_log2 (of_int n) \<le> 52"
    then have "(2 :: rat) powi 53 \<le> 2 powi floor_log2 (of_int n)" by (intro power_int_increasing) auto
    also have "\<dots> \<le> of_int n" using floor_log2_bounds(1) [of "of_int n"] n by simp
    finally have "(2 ^ 53 :: rat) \<le> of_int n" by (simp add: power_int_def)
    then have "(2 ^ 53 :: int) \<le> n" by (metis of_int_le_iff of_int_numeral of_int_power)
    then show False using n by simp
  qed
  then have "?e \<le> 0" by simp
  then have "inverse ((2 :: rat) powi ?e) = of_int (2 ^ nat (- ?e))" by (auto simp: power_int_def power_one_over)
  then have "of_int n / ulp (of_int n) = of_int (n * 2 ^ nat (- ?e))"
    unfolding ulp_def divide_inverse by (simp only: of_int_mult)
  from f64_exact [OF _ this] n show ?thesis by (simp add: f64_of_int_def)
qed

end
