(* ===== verification/Agent_Stats.thy ===== *)
theory Agent_Stats
  imports Go_Float Go_Errors
begin

text \<open>
  \<open>pkg/wgo/agent_stats_tracker.go\<close>: per-agent request outcomes in a ring of six ten-second
  buckets, the agent view and the cluster-wide view computed from it. Each method holds its locks
  for its whole critical section, so it is one atomic step on the tracker's map. Counts are
  unbounded; the two products with \<open>time.Millisecond\<close> keep Go's wrap-around. The main results are
  that the ring answers every query as the exact sliding window would, and that the cluster view
  does not depend on Go's map order and agrees with the agent views it summarises.
\<close>

section \<open>State\<close>

abbreviation (input) numStatsBuckets :: nat where "numStatsBuckets \<equiv> 6"
abbreviation (input) bucketDurationNs :: int where "bucketDurationNs \<equiv> 10000000000"
abbreviation (input) minFilledBuckets :: int where "minFilledBuckets \<equiv> 2"

record averageAgentStatsBucket =
  epochStart :: int
  successfulLatencySumMs :: int
  successfulLatencyCount :: int
  faultyCount :: int

definition zero_bucket :: averageAgentStatsBucket where
  "zero_bucket = \<lparr>epochStart = 0, successfulLatencySumMs = 0, successfulLatencyCount = 0, faultyCount = 0\<rparr>"

type_synonym averageAgentStats = "averageAgentStatsBucket list"
type_synonym AverageAgentStatsTracker = "(node_id, averageAgentStats) gomap"

definition new_agent_stats :: averageAgentStats where
  "new_agent_stats = replicate numStatsBuckets zero_bucket"

definition NewAverageAgentStatsTracker :: AverageAgentStatsTracker where
  "NewAverageAgentStatsTracker = []"

section \<open>Recording\<close>

definition bucketIndex :: "int \<Rightarrow> int" where
  "bucketIndex nowNs =
     (let idx = go_mod (go_div nowNs bucketDurationNs) (int numStatsBuckets)
      in if idx < 0 then idx + int numStatsBuckets else idx)"

definition getOrCreate :: "AverageAgentStatsTracker \<Rightarrow> node_id \<Rightarrow> AverageAgentStatsTracker \<times> averageAgentStats" where
  "getOrCreate t nodeID =
     (case map_of t nodeID of
        Some s \<Rightarrow> (t, s)
      | None \<Rightarrow> (AList.update nodeID new_agent_stats t, new_agent_stats))"

definition record_outcome :: "averageAgentStatsBucket \<Rightarrow> duration \<Rightarrow> goerror option \<Rightarrow> averageAgentStatsBucket" where
  "record_outcome b latency err =
     (if err = None
      then b\<lparr>successfulLatencySumMs := successfulLatencySumMs b + go_div latency millisecond,
             successfulLatencyCount := successfulLatencyCount b + 1\<rparr>
      else b\<lparr>faultyCount := faultyCount b + 1\<rparr>)"

definition track_buckets :: "averageAgentStats \<Rightarrow> int \<Rightarrow> duration \<Rightarrow> goerror option \<Rightarrow> averageAgentStats" where
  "track_buckets s nowNs latency err =
     (let epoch = go_div nowNs bucketDurationNs * bucketDurationNs;
          idx = nat (bucketIndex nowNs);
          b = s ! idx;
          b = (if epochStart b \<noteq> epoch
               then b\<lparr>epochStart := epoch, successfulLatencySumMs := 0, successfulLatencyCount := 0,
                      faultyCount := 0\<rparr>
               else b)
      in s[idx := record_outcome b latency err])"

definition TrackAgentRequest ::
  "AverageAgentStatsTracker \<Rightarrow> instant \<Rightarrow> node_id \<Rightarrow> duration \<Rightarrow> goerror option \<Rightarrow> AverageAgentStatsTracker" where
  "TrackAgentRequest t now nodeID latency err =
     (if (case err of Some e \<Rightarrow> errors_Is e Canceled | None \<Rightarrow> False) then t
      else let (t', s) = getOrCreate t nodeID
           in AList.update nodeID (track_buckets s now latency err) t')"

definition PurgeAgents :: "AverageAgentStatsTracker \<Rightarrow> node_id list \<Rightarrow> AverageAgentStatsTracker" where
  "PurgeAgents t nodeIDs = (if nodeIDs = [] then t else foldl (\<lambda>t i. AList.delete i t) t nodeIDs)"

section \<open>One agent's view\<close>

record averageAgentStatsSnapshot =
  successfulRequestsLatencySumMs :: int
  successfulRequestsLatencyCount :: int
  faultyRequestsCount :: int
  filledBuckets :: int

definition zero_snapshot :: averageAgentStatsSnapshot where
  "zero_snapshot = \<lparr>successfulRequestsLatencySumMs = 0, successfulRequestsLatencyCount = 0,
     faultyRequestsCount = 0, filledBuckets = 0\<rparr>"

definition totalRequestsCount :: "averageAgentStatsSnapshot \<Rightarrow> int" where
  "totalRequestsCount s = successfulRequestsLatencyCount s + faultyRequestsCount s"

definition snapshot_bucket :: "int \<Rightarrow> averageAgentStatsSnapshot \<Rightarrow> averageAgentStatsBucket \<Rightarrow> averageAgentStatsSnapshot" where
  "snapshot_bucket cutoff snap b =
     (if successfulLatencyCount b + faultyCount b = 0 \<or> epochStart b < cutoff then snap
      else \<lparr>successfulRequestsLatencySumMs = successfulRequestsLatencySumMs snap + successfulLatencySumMs b,
            successfulRequestsLatencyCount = successfulRequestsLatencyCount snap + successfulLatencyCount b,
            faultyRequestsCount = faultyRequestsCount snap + faultyCount b,
            filledBuckets = filledBuckets snap + 1\<rparr>)"

definition snapshot :: "averageAgentStats \<Rightarrow> int \<Rightarrow> averageAgentStatsSnapshot" where
  "snapshot s nowNs =
     (let currentEpoch = go_div nowNs bucketDurationNs * bucketDurationNs;
          cutoff = currentEpoch - (int numStatsBuckets - 1) * bucketDurationNs
      in foldl (snapshot_bucket cutoff) zero_snapshot s)"

record AgentStats =
  Latency :: duration
  ErrorRate :: rat
  RequestCount :: int

definition toAgentStats :: "averageAgentStatsSnapshot \<Rightarrow> AgentStats" where
  "toAgentStats s =
     (let lat = (if 0 < successfulRequestsLatencyCount s
                 then i64 (go_div (successfulRequestsLatencySumMs s) (successfulRequestsLatencyCount s) * millisecond)
                 else 0);
          total = totalRequestsCount s;
          rate = (if 0 < total then f64_div (f64_of_int (faultyRequestsCount s)) (f64_of_int total) else 0)
      in \<lparr>Latency = lat, ErrorRate = rate, RequestCount = total\<rparr>)"

definition AgentStats_of :: "AverageAgentStatsTracker \<Rightarrow> instant \<Rightarrow> node_id \<Rightarrow> AgentStats option" where
  "AgentStats_of t now nodeID =
     (case map_of t nodeID of
        None \<Rightarrow> None
      | Some s \<Rightarrow>
          let snap = snapshot s now
          in if filledBuckets snap < minFilledBuckets then None else Some (toAgentStats snap))"

section \<open>The cluster's view\<close>

record ClusterStats =
  BaselineLatency :: duration
  SlowThreshold :: duration
  SlowFraction :: rat
  SlowContributorsCount :: int
  BaselineErrorRate :: rat
  FaultyThreshold :: rat
  AvgRequestsPerAgent :: int
  FaultyFraction :: rat
  FaultyContributorsCount :: int

definition zero_ClusterStats :: ClusterStats where
  "zero_ClusterStats = \<lparr>BaselineLatency = 0, SlowThreshold = 0, SlowFraction = 0, SlowContributorsCount = 0,
     BaselineErrorRate = 0, FaultyThreshold = 0, AvgRequestsPerAgent = 0, FaultyFraction = 0,
     FaultyContributorsCount = 0\<rparr>"

definition errorRateMinRequests :: "ClusterStats \<Rightarrow> int" where
  "errorRateMinRequests stats =
     (if FaultyThreshold stats \<le> 0 then 0
      else let base = \<lceil>f64_div 1 (FaultyThreshold stats)\<rceil>;
               base = (if base < 1 then 1 else base)
           in if base \<le> AvgRequestsPerAgent stats then base else min base minFilledBuckets)"

text \<open>The loop variables of \<open>ClusterStats\<close>; \<open>errorStats\<close> holds (requests, faulty) pairs.\<close>

record cluster_sums =
  agentAverageLatenciesMs :: "int list"
  observedAgentsCount :: int
  qualifiedAgentsCount :: int
  observedTotalRequests :: int
  qualifiedLatencySumMs :: int
  qualifiedTotalRequests :: int
  qualifiedTotalFaulty :: int
  qualifiedErrorStats :: "(int \<times> int) list"

definition zero_sums :: cluster_sums where
  "zero_sums = \<lparr>agentAverageLatenciesMs = [], observedAgentsCount = 0, qualifiedAgentsCount = 0,
     observedTotalRequests = 0, qualifiedLatencySumMs = 0, qualifiedTotalRequests = 0,
     qualifiedTotalFaulty = 0, qualifiedErrorStats = []\<rparr>"

definition cluster_visit :: "cluster_sums \<Rightarrow> averageAgentStatsSnapshot \<Rightarrow> cluster_sums" where
  "cluster_visit c snap =
     (let requests = totalRequestsCount snap
      in if requests = 0 then c
         else
           let c = c\<lparr>observedAgentsCount := observedAgentsCount c + 1,
                     observedTotalRequests := observedTotalRequests c + requests\<rparr>
           in if filledBuckets snap < minFilledBuckets then c
              else
                let c = c\<lparr>qualifiedAgentsCount := qualifiedAgentsCount c + 1,
                          qualifiedTotalRequests := qualifiedTotalRequests c + requests,
                          qualifiedTotalFaulty := qualifiedTotalFaulty c + faultyRequestsCount snap,
                          qualifiedErrorStats := qualifiedErrorStats c @ [(requests, faultyRequestsCount snap)]\<rparr>
                in if 0 < successfulRequestsLatencyCount snap
                   then let avg = go_div (successfulRequestsLatencySumMs snap) (successfulRequestsLatencyCount snap)
                        in c\<lparr>qualifiedLatencySumMs := qualifiedLatencySumMs c + avg,
                             agentAverageLatenciesMs := agentAverageLatenciesMs c @ [avg]\<rparr>
                   else c)"

definition cluster_view :: "cluster_sums \<Rightarrow> rat \<Rightarrow> rat \<Rightarrow> ClusterStats option" where
  "cluster_view c slowMultiplier faultyThreshold =
     (if qualifiedAgentsCount c = 0 \<or> qualifiedAgentsCount c * 2 < observedAgentsCount c then None
      else
        let lats = agentAverageLatenciesMs c;
            baselineLatencyMs = (if lats \<noteq> [] then go_div (qualifiedLatencySumMs c) (int (length lats)) else 0);
            slowThresholdMs = int_of_f64 (f64_mul (f64_of_int baselineLatencyMs) slowMultiplier);
            baselineErrorRate =
              (if 0 < qualifiedTotalRequests c
               then f64_div (f64_of_int (qualifiedTotalFaulty c)) (f64_of_int (qualifiedTotalRequests c)) else 0);
            avgRequestsPerAgent = go_div (observedTotalRequests c) (observedAgentsCount c);
            minErrorRateRequests = errorRateMinRequests
              (zero_ClusterStats\<lparr>FaultyThreshold := faultyThreshold, AvgRequestsPerAgent := avgRequestsPerAgent\<rparr>);
            faultyAgentsCount = int (length (filter (\<lambda>(requests, faulty).
              minErrorRateRequests \<le> requests \<and>
              faultyThreshold < f64_div (f64_of_int faulty) (f64_of_int requests)) (qualifiedErrorStats c)));
            slowFraction =
              (if lats \<noteq> []
               then f64_div (f64_of_int (int (length (filter (\<lambda>l. slowThresholdMs < l) lats))))
                      (f64_of_int (int (length lats)))
               else 0);
            faultyFraction =
              (if 0 < observedAgentsCount c
               then f64_div (f64_of_int faultyAgentsCount) (f64_of_int (observedAgentsCount c)) else 0)
        in Some \<lparr>BaselineLatency = i64 (baselineLatencyMs * millisecond),
                 SlowThreshold = i64 (slowThresholdMs * millisecond),
                 SlowFraction = slowFraction, SlowContributorsCount = int (length lats),
                 BaselineErrorRate = baselineErrorRate, FaultyThreshold = faultyThreshold,
                 AvgRequestsPerAgent = avgRequestsPerAgent, FaultyFraction = faultyFraction,
                 FaultyContributorsCount = observedAgentsCount c\<rparr>)"

definition ClusterStats_of ::
  "AverageAgentStatsTracker \<Rightarrow> instant \<Rightarrow> rat \<Rightarrow> rat \<Rightarrow> ClusterStats option" where
  "ClusterStats_of t now slowMultiplier faultyThreshold =
     cluster_view (foldl (\<lambda>c e. cluster_visit c (snapshot (snd e) now)) zero_sums t)
       slowMultiplier faultyThreshold"

section \<open>The exact sliding window\<close>

text \<open>
  The specification keeps every outcome: per agent, the log of the requests tracked since it was
  last purged. The window at \<open>now\<close> is the part of the log in the current ten-second slice and the
  five before it.
\<close>

datatype stat_op = Track instant node_id duration "goerror option" | Purge "node_id list"

type_synonym request = "instant \<times> duration \<times> goerror option"

abbreviation caller_canceled :: "goerror option \<Rightarrow> bool" where
  "caller_canceled err \<equiv> (case err of Some e \<Rightarrow> errors_Is e Canceled | None \<Rightarrow> False)"

fun run_op :: "AverageAgentStatsTracker \<Rightarrow> stat_op \<Rightarrow> AverageAgentStatsTracker" where
  "run_op t (Track now n latency err) = TrackAgentRequest t now n latency err"
| "run_op t (Purge ns) = PurgeAgents t ns"

fun log_op :: "node_id \<Rightarrow> request list \<Rightarrow> stat_op \<Rightarrow> request list" where
  "log_op n l (Track now m latency err) = (if m = n \<and> \<not> caller_canceled err then l @ [(now, latency, err)] else l)"
| "log_op n l (Purge ns) = (if n \<in> set ns then [] else l)"

definition time_slice :: "request \<Rightarrow> int" where "time_slice r = fst r div bucketDurationNs"

definition window :: "request list \<Rightarrow> instant \<Rightarrow> request list" where
  "window l now = filter (\<lambda>r. now div bucketDurationNs - 5 \<le> time_slice r) l"

abbreviation latency_ms :: "request \<Rightarrow> int" where
  "latency_ms r \<equiv> (if snd (snd r) = None then go_div (fst (snd r)) millisecond else 0)"
abbreviation ok_count :: "request \<Rightarrow> int" where "ok_count r \<equiv> (if snd (snd r) = None then 1 else 0)"
abbreviation fault_count :: "request \<Rightarrow> int" where "fault_count r \<equiv> (if snd (snd r) = None then 0 else 1)"

definition window_snapshot :: "request list \<Rightarrow> instant \<Rightarrow> averageAgentStatsSnapshot" where
  "window_snapshot l now =
     (let w = window l now
      in \<lparr>successfulRequestsLatencySumMs = (\<Sum>r\<leftarrow>w. latency_ms r),
          successfulRequestsLatencyCount = (\<Sum>r\<leftarrow>w. ok_count r),
          faultyRequestsCount = (\<Sum>r\<leftarrow>w. fault_count r),
          filledBuckets = int (card (time_slice ` set w))\<rparr>)"

section \<open>The ring refines the window\<close>

abbreviation in_slot :: "nat \<Rightarrow> request list \<Rightarrow> request list" where
  "in_slot i l \<equiv> filter (\<lambda>r. time_slice r mod 6 = int i) l"

text \<open>The bucket holds the sums over the requests of slice \<open>k\<close>.\<close>

definition holds_slice :: "averageAgentStatsBucket \<Rightarrow> int \<Rightarrow> request list \<Rightarrow> bool" where
  "holds_slice b k rs \<longleftrightarrow> (let w = filter (\<lambda>r. time_slice r = k) rs
     in b = \<lparr>epochStart = k * bucketDurationNs, successfulLatencySumMs = (\<Sum>r\<leftarrow>w. latency_ms r),
             successfulLatencyCount = (\<Sum>r\<leftarrow>w. ok_count r), faultyCount = (\<Sum>r\<leftarrow>w. fault_count r)\<rparr>)"

text \<open>Slot \<open>i\<close> holds exactly the requests of the newest slice that landed in it.\<close>

definition slot_ok :: "instant \<Rightarrow> request list \<Rightarrow> nat \<Rightarrow> averageAgentStatsBucket \<Rightarrow> bool" where
  "slot_ok T l i b \<longleftrightarrow>
     (\<exists>k. k \<le> T div bucketDurationNs \<and> holds_slice b k (in_slot i l) \<and> (\<forall>r\<in>set (in_slot i l). time_slice r \<le> k) \<and>
        (in_slot i l \<noteq> [] \<longrightarrow> (\<exists>r\<in>set (in_slot i l). time_slice r = k)))"

definition ring_ok :: "instant \<Rightarrow> request list \<Rightarrow> averageAgentStats \<Rightarrow> bool" where
  "ring_ok T l s \<longleftrightarrow> 0 \<le> T \<and> length s = 6 \<and> (\<forall>r\<in>set l. 0 \<le> fst r \<and> fst r \<le> T) \<and> (\<forall>i<6. slot_ok T l i (s ! i))"

lemma bucketIndex_range: "0 \<le> bucketIndex n \<and> bucketIndex n < 6"
  using go_mod_bounds [of 6 "go_div n bucketDurationNs"] by (auto simp: bucketIndex_def Let_def)

lemma bucketIndex_nonneg: "0 \<le> n \<Longrightarrow> bucketIndex n = n div bucketDurationNs mod 6"
  by (simp add: bucketIndex_def go_int_simps Let_def pos_imp_zdiv_nonneg_iff)

lemma ring_ok_new: "0 \<le> T \<Longrightarrow> ring_ok T [] new_agent_stats"
  by (auto simp: ring_ok_def slot_ok_def holds_slice_def new_agent_stats_def zero_bucket_def pos_imp_zdiv_nonneg_iff
      intro!: exI [of _ 0])

lemma slot_ok_later: "slot_ok T l i b \<Longrightarrow> T \<le> T' \<Longrightarrow> slot_ok T' l i b"
  unfolding slot_ok_def by (meson order_trans zdiv_mono1 zero_less_numeral)

lemma ring_ok_later: "ring_ok T l s \<Longrightarrow> T \<le> T' \<Longrightarrow> ring_ok T' l s"
  unfolding ring_ok_def by (meson order_trans slot_ok_later)

lemma slot_ok_track:
  assumes "slot_ok T l i b" and "T \<le> now" and "now div bucketDurationNs mod 6 = int i"
    and b': "b' = (if epochStart b \<noteq> now div bucketDurationNs * bucketDurationNs
               then b\<lparr>epochStart := now div bucketDurationNs * bucketDurationNs, successfulLatencySumMs := 0,
                      successfulLatencyCount := 0, faultyCount := 0\<rparr> else b)"
  shows "slot_ok now (l @ [(now, latency, err)]) i (record_outcome b' latency err)"
proof -
  let ?K = "now div bucketDurationNs" and ?rs = "in_slot i l"
  from assms(1) obtain k where k: "k \<le> T div bucketDurationNs" "holds_slice b k ?rs" "\<forall>r\<in>set ?rs. time_slice r \<le> k"
    unfolding slot_ok_def by blast
  have le: "k \<le> ?K" using k(1) zdiv_mono1 [OF assms(2), of bucketDurationNs] by simp
  have new: "time_slice (now, latency, err) = ?K" by (simp add: time_slice_def)
  then have slot: "in_slot i (l @ [(now, latency, err)]) = ?rs @ [(now, latency, err)]"
    using assms(3) by simp
  have "holds_slice b' ?K ?rs"
  proof (cases "k = ?K")
    case True
    then show ?thesis using k(2) by (simp add: b' holds_slice_def Let_def)
  next
    case False
    have "time_slice r \<noteq> ?K" if "r \<in> set ?rs" for r using bspec [OF k(3) that] False le by linarith
    then have "filter (\<lambda>r. time_slice r = ?K) ?rs = []" unfolding filter_empty_conv by blast
    moreover have "epochStart b \<noteq> ?K * bucketDurationNs" using k(2) False by (simp add: holds_slice_def Let_def)
    ultimately show ?thesis by (simp add: b' holds_slice_def)
  qed
  then have "holds_slice (record_outcome b' latency err) ?K (?rs @ [(now, latency, err)])"
    unfolding holds_slice_def Let_def filter_append using new
    by (cases err) (simp_all add: record_outcome_def)
  moreover have "\<forall>r\<in>set (?rs @ [(now, latency, err)]). time_slice r \<le> ?K"
    using k(3) le new by (simp del: split_paired_All) (metis order_trans)
  moreover have "\<exists>r\<in>set (?rs @ [(now, latency, err)]). time_slice r = ?K" using new by simp
  ultimately show ?thesis
    unfolding slot_ok_def slot by blast
qed

lemma ring_ok_track:
  assumes "ring_ok T l s" and "T \<le> now"
  shows "ring_ok now (l @ [(now, latency, err)]) (track_buckets s now latency err)"
proof -
  let ?j = "nat (bucketIndex now)"
  have now: "0 \<le> now" and s: "length s = 6" using assms by (simp_all add: ring_ok_def)
  have j: "?j < 6" "int ?j = now div bucketDurationNs mod 6"
    using bucketIndex_range [of now] bucketIndex_nonneg [OF now] by auto
  have "slot_ok now (l @ [(now, latency, err)]) i (track_buckets s now latency err ! i)" if i: "i < 6" for i
  proof (cases "i = ?j")
    case True
    have "slot_ok T l i (s ! i)" using assms(1) i by (simp add: ring_ok_def)
    from slot_ok_track [OF this assms(2) _ refl, of latency err] show ?thesis
      using True j s now by (simp add: track_buckets_def Let_def go_int_simps split: if_split_asm)
  next
    case False
    then have "now div bucketDurationNs mod 6 \<noteq> int i" unfolding j(2) [symmetric] by linarith
    then have same: "in_slot i (l @ [(now, latency, err)]) = in_slot i l" by (simp add: time_slice_def)
    have "slot_ok now l i (s ! i)" using assms i slot_ok_later by (auto simp: ring_ok_def)
    moreover have "track_buckets s now latency err ! i = s ! i"
      using False by (simp add: track_buckets_def Let_def)
    ultimately show ?thesis unfolding slot_ok_def same by simp
  qed
  then show ?thesis
    using assms now by (auto simp: ring_ok_def track_buckets_def Let_def)
qed

lemma ring_slice_unique:
  "(k :: int) mod 6 = s mod 6 \<Longrightarrow> s \<le> k \<Longrightarrow> k \<le> K \<Longrightarrow> K - 5 \<le> s \<longleftrightarrow> K - 5 \<le> k \<and> s = k"
proof -
  assume "k mod 6 = s mod 6" and le: "s \<le> k" "k \<le> K"
  then have "6 dvd k - s" by (simp add: mod_eq_dvd_iff)
  then have "k - s < 6 \<Longrightarrow> k = s" using le(1) zdvd_not_zless [of "k - s" 6] by linarith
  then show ?thesis using le by linarith
qed

text \<open>Within the window a slot's requests are those of its bucket's slice, or none.\<close>

lemma slot_window:
  assumes "slot_ok T l i b" and "T \<le> now"
  shows "snapshot_bucket (now div bucketDurationNs * bucketDurationNs - 5 * bucketDurationNs) snap b =
    (let w = in_slot i (window l now)
     in \<lparr>successfulRequestsLatencySumMs = successfulRequestsLatencySumMs snap + (\<Sum>r\<leftarrow>w. latency_ms r),
         successfulRequestsLatencyCount = successfulRequestsLatencyCount snap + (\<Sum>r\<leftarrow>w. ok_count r),
         faultyRequestsCount = faultyRequestsCount snap + (\<Sum>r\<leftarrow>w. fault_count r),
         filledBuckets = filledBuckets snap + int (card (time_slice ` set w))\<rparr>)"
proof -
  let ?K = "now div bucketDurationNs" and ?w = "in_slot i (window l now)" and ?rs = "in_slot i l"
  from assms(1) obtain k where k: "k \<le> T div bucketDurationNs" "holds_slice b k ?rs" "\<forall>r\<in>set ?rs. time_slice r \<le> k"
    "?rs \<noteq> [] \<longrightarrow> (\<exists>r\<in>set ?rs. time_slice r = k)"
    unfolding slot_ok_def by blast
  have le: "k \<le> ?K" using k(1) zdiv_mono1 [OF assms(2), of bucketDurationNs] by simp
  have iff: "?K - 5 \<le> time_slice r \<longleftrightarrow> ?K - 5 \<le> k \<and> time_slice r = k" if r: "r \<in> set ?rs" for r
  proof -
    have "?rs \<noteq> []" using r by (metis empty_iff list.set(1))
    then obtain r' where "r' \<in> set ?rs" "time_slice r' = k" using k(4) by blast
    then have "k mod 6 = time_slice r mod 6" using r by simp
    then show ?thesis using bspec [OF k(3) r] le by (rule ring_slice_unique)
  qed
  have w: "?w = (if ?K - 5 \<le> k then filter (\<lambda>r. time_slice r = k) ?rs else [])"
  proof -
    have "?w = filter (\<lambda>r. ?K - 5 \<le> time_slice r) ?rs" by (simp add: window_def conj_commute)
    also have "\<dots> = filter (\<lambda>r. ?K - 5 \<le> k \<and> time_slice r = k) ?rs" by (rule filter_cong) (simp_all only: iff)
    finally show ?thesis by simp
  qed
  have total: "(\<Sum>r\<leftarrow>xs. ok_count r) + (\<Sum>r\<leftarrow>xs. fault_count r) = int (length xs)" for xs
    by (induction xs) auto
  have one: "card (time_slice ` set (filter (\<lambda>r. time_slice r = k) ?rs)) = 1" if "filter (\<lambda>r. time_slice r = k) ?rs \<noteq> []"
  proof -
    have "time_slice ` set (filter (\<lambda>r. time_slice r = k) ?rs) = {k}"
      using that by (auto simp: filter_empty_conv)
    then show ?thesis by simp
  qed
  have "epochStart b < ?K * bucketDurationNs - 5 * bucketDurationNs \<longleftrightarrow> \<not> ?K - 5 \<le> k"
    using k(2) by (auto simp: holds_slice_def Let_def)
  then show ?thesis
    unfolding w snapshot_bucket_def
    using k(2) total [of "filter (\<lambda>r. time_slice r = k) ?rs"] one
    by (cases "filter (\<lambda>r. time_slice r = k) ?rs = []"; cases "?K - 5 \<le> k") (simp_all add: holds_slice_def Let_def)
qed

lemma snapshot_prefix:
  assumes "ring_ok T l s" and "T \<le> now" and "n \<le> 6"
  shows "foldl (snapshot_bucket (now div bucketDurationNs * bucketDurationNs - 5 * bucketDurationNs)) zero_snapshot (take n s) =
    (let w = filter (\<lambda>r. time_slice r mod 6 < int n) (window l now)
     in \<lparr>successfulRequestsLatencySumMs = (\<Sum>r\<leftarrow>w. latency_ms r), successfulRequestsLatencyCount = (\<Sum>r\<leftarrow>w. ok_count r),
         faultyRequestsCount = (\<Sum>r\<leftarrow>w. fault_count r), filledBuckets = int (card (time_slice ` set w))\<rparr>)"
  using assms(3)
proof (induction n)
  case 0
  have "filter (\<lambda>r. time_slice r mod 6 < 0) xs = []" for xs by (simp add: filter_empty_conv not_less)
  then show ?case by (simp add: zero_snapshot_def)
next
  case (Suc n)
  let ?W = "window l now"
  let ?A = "filter (\<lambda>r. time_slice r mod 6 < int n) ?W" and ?B = "in_slot n ?W"
  let ?C = "filter (\<lambda>r. time_slice r mod 6 < int (Suc n)) ?W"
  have sums: "(\<Sum>r\<leftarrow>filter (\<lambda>r. time_slice r mod 6 < int (Suc n)) xs. f r) =
      (\<Sum>r\<leftarrow>filter (\<lambda>r. time_slice r mod 6 < int n) xs. f r) + (\<Sum>r\<leftarrow>in_slot n xs. f r)"
    for f :: "request \<Rightarrow> int" and xs by (induction xs) auto
  have "set ?C = set ?A \<union> set ?B" by auto
  then have "time_slice ` set ?C = time_slice ` set ?A \<union> time_slice ` set ?B" by (simp only: image_Un)
  moreover have "time_slice ` set ?A \<inter> time_slice ` set ?B = {}" by auto
  ultimately have card: "card (time_slice ` set ?C) = card (time_slice ` set ?A) + card (time_slice ` set ?B)"
    by (simp only: card_Un_disjoint finite_imageI finite_set)
  have ring: "length s = 6" "slot_ok T l n (s ! n)" using assms(1) Suc.prems by (simp_all add: ring_ok_def)
  have "take (Suc n) s = take n s @ [s ! n]" using Suc.prems ring(1) by (simp add: take_Suc_conv_app_nth)
  moreover have IH: "n \<le> 6" using Suc.prems by simp
  ultimately show ?case
    unfolding Let_def sums card
    by (simp only: foldl_append foldl_Cons foldl_Nil Suc.IH [OF IH] slot_window [OF ring(2) assms(2)] Let_def
        averageAgentStatsSnapshot.simps of_nat_add)
qed

lemma snapshot_refines:
  assumes "ring_ok T l s" and "T \<le> now"
  shows "snapshot s now = window_snapshot l now"
proof -
  have "0 \<le> now" "take 6 s = s" using assms by (simp_all add: ring_ok_def)
  moreover have "filter (\<lambda>r. time_slice r mod 6 < int 6) (window l now) = window l now" by simp
  ultimately show ?thesis
    using snapshot_prefix [OF assms, of 6]
    by (simp only: snapshot_def Let_def window_snapshot_def go_div_nonneg zero_less_numeral
        of_nat_numeral le_refl) (simp only: diff_numeral_special mult.commute of_nat_numeral; simp)
qed

fun op_times :: "stat_op list \<Rightarrow> instant list" where
  "op_times [] = []"
| "op_times (Track now n latency err # ops) = now # op_times ops"
| "op_times (Purge ns # ops) = op_times ops"

definition run_ops :: "stat_op list \<Rightarrow> AverageAgentStatsTracker" where
  "run_ops ops = foldl run_op NewAverageAgentStatsTracker ops"

definition request_log :: "stat_op list \<Rightarrow> node_id \<Rightarrow> request list" where
  "request_log ops n = foldl (log_op n) [] ops"

abbreviation stats_of :: "AverageAgentStatsTracker \<Rightarrow> node_id \<Rightarrow> averageAgentStats" where
  "stats_of t n \<equiv> get_or new_agent_stats t n"

lemma stats_of_track:
  "stats_of (TrackAgentRequest t now m latency err) n =
     (if m = n \<and> \<not> caller_canceled err then track_buckets (stats_of t n) now latency err else stats_of t n)"
  by (auto simp: TrackAgentRequest_def getOrCreate_def get_or_def split: option.splits)

lemma map_of_PurgeAgents [simp]: "map_of (PurgeAgents t ns) n = (if n \<in> set ns then None else map_of t n)"
proof -
  have "map_of (foldl (\<lambda>t i. AList.delete i t) t ns) n = (if n \<in> set ns then None else map_of t n)"
    by (induction ns arbitrary: t) auto
  then show ?thesis by (simp add: PurgeAgents_def)
qed

lemma stats_of_purge: "stats_of (PurgeAgents t ns) n = (if n \<in> set ns then new_agent_stats else stats_of t n)"
  by (simp add: get_or_def)

lemma fold_run_op_ring_ok:
  assumes "sorted (T # op_times ops @ [now])" and "ring_ok T l (stats_of t n)"
  shows "ring_ok now (foldl (log_op n) l ops) (stats_of (foldl run_op t ops) n)"
  using assms
proof (induction ops arbitrary: T l t)
  case Nil
  then show ?case by (simp add: ring_ok_later)
next
  case (Cons x ops)
  show ?case
  proof (cases x)
    case (Track u m latency err)
    have "ring_ok u (log_op n l x) (stats_of (run_op t x) n)"
      using Cons.prems ring_ok_track [of T l "stats_of t n" u] ring_ok_later [of T l "stats_of t n" u]
      by (auto simp: Track stats_of_track)
    then show ?thesis using Cons.IH [of u] Cons.prems(1) by (simp add: Track)
  next
    case (Purge ns)
    have "0 \<le> T" using Cons.prems(2) by (simp add: ring_ok_def)
    then have "ring_ok T (log_op n l x) (stats_of (run_op t x) n)"
      using Cons.prems(2) ring_ok_new by (simp add: Purge stats_of_purge)
    then show ?thesis using Cons.IH [of T] Cons.prems(1) by (simp add: Purge)
  qed
qed

lemma run_ops_ring_ok:
  "sorted (0 # op_times ops @ [now]) \<Longrightarrow> ring_ok now (request_log ops n) (stats_of (run_ops ops) n)"
  unfolding run_ops_def request_log_def
  by (rule fold_run_op_ring_ok [where T = 0]) (simp_all add: NewAverageAgentStatsTracker_def get_or_def ring_ok_new)

lemma snapshot_new_agent_stats: "filledBuckets (snapshot new_agent_stats now) = 0"
proof -
  have "foldl (snapshot_bucket c) zero_snapshot new_agent_stats = zero_snapshot" for c
    by (simp add: new_agent_stats_def zero_bucket_def snapshot_bucket_def numeral_eq_Suc)
  then show ?thesis by (simp add: snapshot_def Let_def zero_snapshot_def)
qed

lemma AgentStats_of_stats_of:
  "AgentStats_of t now n = (let snap = snapshot (stats_of t n) now
     in if filledBuckets snap < 2 then None else Some (toAgentStats snap))"
  by (simp add: AgentStats_of_def get_or_def snapshot_new_agent_stats Let_def split: option.split)

section \<open>Properties of the agent view\<close>

text \<open>
  C6: the ring of six reusable buckets answers every query as a tracker that remembers everything.
  For any history of tracked requests and purges with a clock that does not run backwards, the
  statistics of an agent are exactly those of its uncancelled requests since its last purge that
  fall into the current ten-second slice or the five before, and they are withheld exactly when
  those requests fill fewer than two slices.
\<close>

theorem ring_is_sliding_window:
  assumes "sorted (0 # op_times ops @ [now])"
  shows "AgentStats_of (run_ops ops) now n =
    (let snap = window_snapshot (request_log ops n) now
     in if card (time_slice ` set (window (request_log ops n) now)) < 2 then None else Some (toAgentStats snap))"
  using snapshot_refines [OF run_ops_ring_ok [OF assms] order_refl, of n]
  by (simp add: AgentStats_of_stats_of window_snapshot_def Let_def)

definition example_ops :: "stat_op list" where
  "example_ops =
     [Track (1 * second) 7 (30 * millisecond) None, Track (12 * second) 7 (50 * millisecond) None,
      Track (13 * second) 7 0 (Some Canceled), Track (25 * second) 7 0 (Some DeadlineExceeded),
      Track (26 * second) 8 (5 * millisecond) None, Track (62 * second) 7 (70 * millisecond) None]"

theorem ring_is_sliding_window_witness:
  "AgentStats_of (run_ops example_ops) (65 * second) 7 =
     Some \<lparr>Latency = 60 * millisecond, ErrorRate = f64_div 1 (f64_of_int 3), RequestCount = 3\<rparr>"
  using ring_is_sliding_window [where ops = example_ops and now = "65 * second" and n = 7]
  by (simp add: example_ops_def request_log_def window_def window_snapshot_def time_slice_def toAgentStats_def
      totalRequestsCount_def go_int_simps Let_def card_insert_if)

section \<open>The cluster view in closed form\<close>

abbreviation observed :: "averageAgentStatsSnapshot \<Rightarrow> bool" where "observed s \<equiv> totalRequestsCount s \<noteq> 0"
abbreviation qualifies :: "averageAgentStatsSnapshot \<Rightarrow> bool" where
  "qualifies s \<equiv> observed s \<and> 2 \<le> filledBuckets s"
abbreviation measured :: "averageAgentStatsSnapshot \<Rightarrow> bool" where
  "measured s \<equiv> qualifies s \<and> 0 < successfulRequestsLatencyCount s"

definition averageLatencyMs :: "averageAgentStatsSnapshot \<Rightarrow> int" where
  "averageLatencyMs s = go_div (successfulRequestsLatencySumMs s) (successfulRequestsLatencyCount s)"

abbreviation error_stat :: "averageAgentStatsSnapshot \<Rightarrow> int \<times> int" where
  "error_stat s \<equiv> (totalRequestsCount s, faultyRequestsCount s)"

lemma fold_cluster_visit:
  "foldl cluster_visit c snaps =
     \<lparr>agentAverageLatenciesMs = agentAverageLatenciesMs c @ map averageLatencyMs (filter measured snaps),
      observedAgentsCount = observedAgentsCount c + int (length (filter observed snaps)),
      qualifiedAgentsCount = qualifiedAgentsCount c + int (length (filter qualifies snaps)),
      observedTotalRequests = observedTotalRequests c + (\<Sum>s\<leftarrow>filter observed snaps. totalRequestsCount s),
      qualifiedLatencySumMs = qualifiedLatencySumMs c + (\<Sum>s\<leftarrow>filter measured snaps. averageLatencyMs s),
      qualifiedTotalRequests = qualifiedTotalRequests c + (\<Sum>s\<leftarrow>filter qualifies snaps. totalRequestsCount s),
      qualifiedTotalFaulty = qualifiedTotalFaulty c + (\<Sum>s\<leftarrow>filter qualifies snaps. faultyRequestsCount s),
      qualifiedErrorStats = qualifiedErrorStats c @ map error_stat (filter qualifies snaps)\<rparr>"
proof (induction snaps arbitrary: c)
  case Nil
  then show ?case by simp
next
  case (Cons s snaps)
  show ?case unfolding foldl_Cons Cons
    by (cases "observed s"; cases "2 \<le> filledBuckets s"; cases "0 < successfulRequestsLatencyCount s")
      (simp_all add: cluster_visit_def averageLatencyMs_def [symmetric] Let_def not_less)
qed

lemma ClusterStats_of_fold:
  "ClusterStats_of t now mul thr = cluster_view (foldl cluster_visit zero_sums (map (\<lambda>e. snapshot (snd e) now) t)) mul thr"
proof -
  have "foldl (\<lambda>c e. cluster_visit c (snapshot (snd e) now)) c t =
      foldl cluster_visit c (map (\<lambda>e. snapshot (snd e) now) t)" for c
    by (induction t arbitrary: c) auto
  then show ?thesis by (simp add: ClusterStats_of_def)
qed

text \<open>Two loop results that agree up to the order of their lists give the same view.\<close>

lemma cluster_view_perm:
  assumes "mset (agentAverageLatenciesMs c) = mset (agentAverageLatenciesMs c')"
    and "mset (qualifiedErrorStats c) = mset (qualifiedErrorStats c')"
    and "cluster_sums.truncate (c\<lparr>agentAverageLatenciesMs := [], qualifiedErrorStats := []\<rparr>) =
      cluster_sums.truncate (c'\<lparr>agentAverageLatenciesMs := [], qualifiedErrorStats := []\<rparr>)"
  shows "cluster_view c mul thr = cluster_view c' mul thr"
proof -
  have "length (agentAverageLatenciesMs c) = length (agentAverageLatenciesMs c')"
    using assms(1) by (rule mset_eq_length)
  moreover have "agentAverageLatenciesMs c = [] \<longleftrightarrow> agentAverageLatenciesMs c' = []"
    using assms(1) by (metis mset_zero_iff)
  moreover have "length (filter P (agentAverageLatenciesMs c)) = length (filter P (agentAverageLatenciesMs c'))" for P
    using assms(1) by (rule length_filter_mset)
  moreover have "length (filter P (qualifiedErrorStats c)) = length (filter P (qualifiedErrorStats c'))" for P
    using assms(2) by (rule length_filter_mset)
  moreover have "observedAgentsCount c = observedAgentsCount c'" "qualifiedAgentsCount c = qualifiedAgentsCount c'"
    "observedTotalRequests c = observedTotalRequests c'" "qualifiedLatencySumMs c = qualifiedLatencySumMs c'"
    "qualifiedTotalRequests c = qualifiedTotalRequests c'" "qualifiedTotalFaulty c = qualifiedTotalFaulty c'"
    using assms(3) by (simp_all add: cluster_sums.truncate_def)
  ultimately show ?thesis unfolding cluster_view_def Let_def by (simp only:)
qed

section \<open>Properties of the cluster view\<close>

text \<open>
  C16: the cluster view does not depend on the order in which Go happens to iterate the map of
  agents: any two orders of the same entries give the same statistics.
\<close>

theorem cluster_stats_order_independent:
  assumes "mset t = mset t'"
  shows "ClusterStats_of t now mul thr = ClusterStats_of t' now mul thr"
proof -
  let ?s = "map (\<lambda>e. snapshot (snd e) now) t" and ?s' = "map (\<lambda>e. snapshot (snd e) now) t'"
  have m: "mset ?s = mset ?s'" using assms by simp
  then have f: "mset (filter P ?s) = mset (filter P ?s')" for P by simp
  show ?thesis
    unfolding ClusterStats_of_fold
    by (rule cluster_view_perm)
      (simp_all only: fold_cluster_visit zero_sums_def cluster_sums.simps append_Nil mset_map f
        length_filter_mset [OF m] sum_list_map_mset [OF f] cluster_sums.truncate_def)
qed

theorem cluster_stats_order_independent_witness:
  "ClusterStats_of (run_ops example_ops) (65 * second) 3 (1 / 2) =
     ClusterStats_of (rev (run_ops example_ops)) (65 * second) 3 (1 / 2)"
  using cluster_stats_order_independent [where t = "run_ops example_ops" and t' = "rev (run_ops example_ops)"]
  by simp

section \<open>Agreement of the cluster view with the agent views\<close>

definition sane_snapshot :: "averageAgentStatsSnapshot \<Rightarrow> bool" where
  "sane_snapshot s \<longleftrightarrow> 0 \<le> successfulRequestsLatencyCount s \<and> 0 \<le> faultyRequestsCount s \<and>
     filledBuckets s \<le> totalRequestsCount s"

lemma window_snapshot_sane: "sane_snapshot (window_snapshot l now)"
proof -
  let ?w = "window l now"
  have "0 \<le> (\<Sum>r\<leftarrow>xs. ok_count r)" "0 \<le> (\<Sum>r\<leftarrow>xs. fault_count r)"
    "(\<Sum>r\<leftarrow>xs. ok_count r) + (\<Sum>r\<leftarrow>xs. fault_count r) = int (length xs)" for xs
    by (induction xs) auto
  moreover have "card (time_slice ` set ?w) \<le> length ?w"
    by (meson card_image_le card_length finite_set order_trans)
  ultimately show ?thesis by (simp add: sane_snapshot_def window_snapshot_def totalRequestsCount_def Let_def)
qed

lemma run_ops_distinct: "distinct (map fst (run_ops ops))"
proof -
  have del: "distinct (map fst (foldl (\<lambda>t i. AList.delete i t) t ns))"
    if "distinct (map fst t)" for t :: AverageAgentStatsTracker and ns
    using that by (induction ns arbitrary: t) auto
  have "distinct (map fst (run_op t x))" if "distinct (map fst t)" for t x
    using that del by (cases x) (auto simp: TrackAgentRequest_def getOrCreate_def PurgeAgents_def split: option.splits)
  then have "distinct (map fst t) \<Longrightarrow> distinct (map fst (foldl run_op t ops))" for t
    by (induction ops arbitrary: t) auto
  then show ?thesis by (simp add: run_ops_def NewAverageAgentStatsTracker_def)
qed

lemma run_ops_snapshot:
  assumes "sorted (0 # op_times ops @ [now])" and "(n, s) \<in> set (run_ops ops)"
  shows "snapshot s now = window_snapshot (request_log ops n) now"
proof -
  have "stats_of (run_ops ops) n = s"
    using assms(2) run_ops_distinct [of ops] by (simp add: get_or_def)
  then show ?thesis using snapshot_refines [OF run_ops_ring_ok [OF assms(1)] order_refl, of n] by simp
qed

text \<open>Counting the entries of a map is counting its keys.\<close>

lemma length_filter_keys:
  assumes "distinct (map fst t)"
  shows "length (filter P (map (\<lambda>e. f (snd e)) t)) = card {n. \<exists>s. map_of t n = Some s \<and> P (f s)}"
proof -
  have "{n. \<exists>s. map_of t n = Some s \<and> P (f s)} = fst ` set (filter (\<lambda>e. P (f (snd e))) t)"
    using assms by (force simp: map_of_eq_Some_iff)
  moreover have "distinct (map fst (filter (\<lambda>e. P (f (snd e))) t))"
    using assms by (rule distinct_map_filter)
  ultimately show ?thesis
    using distinct_card [of "map fst (filter (\<lambda>e. P (f (snd e))) t)"] by (simp add: filter_map comp_def)
qed

text \<open>The two tests that the hedger and the demoter apply to an agent's statistics.\<close>

definition is_faulty :: "ClusterStats \<Rightarrow> AgentStats \<Rightarrow> bool" where
  "is_faulty cs st \<longleftrightarrow> errorRateMinRequests cs \<le> RequestCount st \<and> FaultyThreshold cs < ErrorRate st"

definition is_slow :: "ClusterStats \<Rightarrow> AgentStats \<Rightarrow> bool" where
  "is_slow cs st \<longleftrightarrow> SlowThreshold cs < Latency st"

lemma cluster_view_fields:
  assumes "cluster_view c mul thr = Some cs"
  shows "FaultyThreshold cs = thr"
    and "AvgRequestsPerAgent cs = go_div (observedTotalRequests c) (observedAgentsCount c)"
    and "FaultyContributorsCount cs = observedAgentsCount c"
    and "SlowContributorsCount cs = int (length (agentAverageLatenciesMs c))"
    and "0 < observedAgentsCount c \<Longrightarrow> FaultyFraction cs = f64_div (f64_of_int (int (length (filter (\<lambda>(requests, faulty).
            errorRateMinRequests cs \<le> requests \<and>
            thr < f64_div (f64_of_int faulty) (f64_of_int requests)) (qualifiedErrorStats c)))))
          (f64_of_int (observedAgentsCount c))"
    and "qualifiedAgentsCount c \<noteq> 0" and "observedAgentsCount c \<le> qualifiedAgentsCount c * 2"
    and "BaselineErrorRate cs = (if 0 < qualifiedTotalRequests c
               then f64_div (f64_of_int (qualifiedTotalFaulty c)) (f64_of_int (qualifiedTotalRequests c)) else 0)"
  using assms by (auto simp: cluster_view_def Let_def errorRateMinRequests_def split: if_split_asm)

lemma run_ops_sane:
  "sorted (0 # op_times ops @ [now]) \<Longrightarrow> map_of (run_ops ops) n = Some s \<Longrightarrow> sane_snapshot (snapshot s now)"
  using run_ops_snapshot [of ops now n s] window_snapshot_sane by (metis map_of_SomeD)

lemma cluster_sums_run_ops:
  "ClusterStats_of t now mul thr = cluster_view
     \<lparr>agentAverageLatenciesMs = map averageLatencyMs (filter measured (map (\<lambda>e. snapshot (snd e) now) t)),
      observedAgentsCount = int (length (filter observed (map (\<lambda>e. snapshot (snd e) now) t))),
      qualifiedAgentsCount = int (length (filter qualifies (map (\<lambda>e. snapshot (snd e) now) t))),
      observedTotalRequests = (\<Sum>s\<leftarrow>filter observed (map (\<lambda>e. snapshot (snd e) now) t). totalRequestsCount s),
      qualifiedLatencySumMs = (\<Sum>s\<leftarrow>filter measured (map (\<lambda>e. snapshot (snd e) now) t). averageLatencyMs s),
      qualifiedTotalRequests = (\<Sum>s\<leftarrow>filter qualifies (map (\<lambda>e. snapshot (snd e) now) t). totalRequestsCount s),
      qualifiedTotalFaulty = (\<Sum>s\<leftarrow>filter qualifies (map (\<lambda>e. snapshot (snd e) now) t). faultyRequestsCount s),
      qualifiedErrorStats = map error_stat (filter qualifies (map (\<lambda>e. snapshot (snd e) now) t))\<rparr> mul thr"
  unfolding ClusterStats_of_fold fold_cluster_visit by (simp add: zero_sums_def)

lemma AgentStats_of_Some:
  "AgentStats_of t now n = Some st \<longleftrightarrow>
     (\<exists>s. map_of t n = Some s \<and> 2 \<le> filledBuckets (snapshot s now) \<and> st = toAgentStats (snapshot s now))"
  by (auto simp: AgentStats_of_def Let_def split: option.splits)

lemma window_nonempty_iff:
  assumes "sorted (0 # op_times ops @ [now])"
  shows "window (request_log ops n) now \<noteq> [] \<longleftrightarrow> (\<exists>s. map_of (run_ops ops) n = Some s \<and> observed (snapshot s now))"
proof -
  have "(\<Sum>r\<leftarrow>xs. ok_count r) + (\<Sum>r\<leftarrow>xs. fault_count r) = int (length xs)" for xs
    by (induction xs) auto
  then have "window (request_log ops n) now \<noteq> [] \<longleftrightarrow> observed (window_snapshot (request_log ops n) now)"
    by (simp add: window_snapshot_def totalRequestsCount_def Let_def)
  also have "window_snapshot (request_log ops n) now = snapshot (stats_of (run_ops ops) n) now"
    by (rule snapshot_refines [OF run_ops_ring_ok [OF assms] order_refl, symmetric])
  also have "observed (snapshot (stats_of (run_ops ops) n) now) \<longleftrightarrow>
      (\<exists>s. map_of (run_ops ops) n = Some s \<and> observed (snapshot s now))"
  proof (cases "map_of (run_ops ops) n")
    case None
    have "foldl (snapshot_bucket c) zero_snapshot new_agent_stats = zero_snapshot" for c
      by (simp add: new_agent_stats_def zero_bucket_def snapshot_bucket_def numeral_eq_Suc)
    then show ?thesis
      using None by (simp add: get_or_def snapshot_def Let_def zero_snapshot_def totalRequestsCount_def)
  qed (simp add: get_or_def)
  finally show ?thesis .
qed

text \<open>How many agents are observed, representative, or representative with a property.\<close>

lemma count_observed:
  assumes "sorted (0 # op_times ops @ [now])"
  shows "length (filter observed (map (\<lambda>e. snapshot (snd e) now) (run_ops ops))) =
    card {n. window (request_log ops n) now \<noteq> []}"
  unfolding window_nonempty_iff [OF assms]
  by (rule length_filter_keys [OF run_ops_distinct, of _ "\<lambda>s. snapshot s now"])

lemma count_qualifies:
  assumes "sorted (0 # op_times ops @ [now])"
  shows "length (filter (\<lambda>s. qualifies s \<and> P (toAgentStats s)) (map (\<lambda>e. snapshot (snd e) now) (run_ops ops))) =
    card {n. \<exists>st. AgentStats_of (run_ops ops) now n = Some st \<and> P st}"
proof -
  have "{n. \<exists>st. AgentStats_of (run_ops ops) now n = Some st \<and> P st} =
      {n. \<exists>s. map_of (run_ops ops) n = Some s \<and> qualifies (snapshot s now) \<and> P (toAgentStats (snapshot s now))}"
    using run_ops_sane [OF assms] by (fastforce simp: AgentStats_of_Some sane_snapshot_def)
  then show ?thesis using length_filter_keys [OF run_ops_distinct [of ops], of "\<lambda>s. qualifies s \<and> P (toAgentStats s)" "\<lambda>s. snapshot s now"] by simp
qed

lemma faulty_test:
  "sane_snapshot s \<Longrightarrow> qualifies s \<Longrightarrow> is_faulty cs (toAgentStats s) \<longleftrightarrow>
     errorRateMinRequests cs \<le> totalRequestsCount s \<and>
     FaultyThreshold cs < f64_div (f64_of_int (faultyRequestsCount s)) (f64_of_int (totalRequestsCount s))"
  by (auto simp: is_faulty_def toAgentStats_def Let_def sane_snapshot_def)

text \<open>The fields of a published view over the snapshots it was computed from.\<close>

abbreviation snapshots :: "AverageAgentStatsTracker \<Rightarrow> instant \<Rightarrow> averageAgentStatsSnapshot list" where
  "snapshots t now \<equiv> map (\<lambda>e. snapshot (snd e) now) t"

lemmas ClusterStats_fields = cluster_view_fields [where mul = mul and thr = thr for mul thr,
  OF trans [OF cluster_sums_run_ops [symmetric]], unfolded cluster_sums.simps]

lemma run_ops_sane_set:
  "sorted (0 # op_times ops @ [now]) \<Longrightarrow> s \<in> set (snapshots (run_ops ops) now) \<Longrightarrow> sane_snapshot s"
  using run_ops_sane [of ops now] run_ops_distinct [of ops] by fastforce

lemma count_faulty:
  assumes "sorted (0 # op_times ops @ [now])"
  shows "length (filter (\<lambda>(requests, faulty). errorRateMinRequests cs \<le> requests \<and>
        FaultyThreshold cs < f64_div (f64_of_int faulty) (f64_of_int requests))
        (map error_stat (filter qualifies (snapshots (run_ops ops) now)))) =
      card {n. \<exists>st. AgentStats_of (run_ops ops) now n = Some st \<and> is_faulty cs st}"
proof -
  have "filter (\<lambda>s. qualifies s \<and> errorRateMinRequests cs \<le> totalRequestsCount s \<and>
        FaultyThreshold cs < f64_div (f64_of_int (faultyRequestsCount s)) (f64_of_int (totalRequestsCount s)))
        (snapshots (run_ops ops) now) =
      filter (\<lambda>s. qualifies s \<and> is_faulty cs (toAgentStats s)) (snapshots (run_ops ops) now)"
    using run_ops_sane_set [OF assms] faulty_test by (intro filter_cong refl) metis
  then show ?thesis
    unfolding length_filter_map_filter prod.case
    using count_qualifies [OF assms, of "is_faulty cs"] by (simp only: conj_assoc)
qed

lemma qualified_rate_range:
  assumes "\<forall>s\<in>set xs. sane_snapshot s"
  shows "0 \<le> (\<Sum>s\<leftarrow>filter qualifies xs. faultyRequestsCount s)"
    and "(\<Sum>s\<leftarrow>filter qualifies xs. faultyRequestsCount s) \<le> (\<Sum>s\<leftarrow>filter qualifies xs. totalRequestsCount s)"
  using assms by (induction xs) (auto simp: sane_snapshot_def totalRequestsCount_def)

lemma FaultyFraction_counts:
  assumes "sorted (0 # op_times ops @ [now])" and "ClusterStats_of (run_ops ops) now mul thr = Some cs"
  shows "FaultyFraction cs =
      f64_div (f64_of_int (int (card {n. \<exists>st. AgentStats_of (run_ops ops) now n = Some st \<and> is_faulty cs st})))
              (f64_of_int (FaultyContributorsCount cs))"
    and "0 < FaultyContributorsCount cs"
proof -
  let ?snaps = "snapshots (run_ops ops) now"
  note f = ClusterStats_fields [OF assms(2)]
  have "length (filter qualifies ?snaps) \<le> length (filter observed ?snaps)" by (rule length_filter_mono) simp
  then have pos: "0 < int (length (filter observed ?snaps))" using f(6) by linarith
  then show "0 < FaultyContributorsCount cs" by (simp only: f(3))
  show "FaultyFraction cs =
      f64_div (f64_of_int (int (card {n. \<exists>st. AgentStats_of (run_ops ops) now n = Some st \<and> is_faulty cs st})))
              (f64_of_int (FaultyContributorsCount cs))"
    using f(5) [OF pos] count_faulty [OF assms(1), of cs] by (simp only: f(1,3))
qed



text \<open>Latencies within an hour stay exact through the averages and the threshold.\<close>

abbreviation (input) hour_ms :: int where "hour_ms \<equiv> 3600000"

fun bounded_op :: "stat_op \<Rightarrow> bool" where
  "bounded_op (Track now n latency err) \<longleftrightarrow> 0 \<le> latency \<and> latency \<le> 3600 * second"
| "bounded_op (Purge ns) \<longleftrightarrow> True"

definition bounded_log :: "request list \<Rightarrow> bool" where
  "bounded_log l \<longleftrightarrow> (\<forall>r\<in>set l. 0 \<le> latency_ms r \<and> latency_ms r \<le> hour_ms)"

lemma log_op_bounded: "bounded_op x \<Longrightarrow> bounded_log l \<Longrightarrow> bounded_log (log_op n l x)"
  by (cases x) (auto simp: bounded_log_def go_int_simps pos_imp_zdiv_nonneg_iff)

lemma request_log_bounded:
  assumes "\<forall>x\<in>set ops. bounded_op x"
  shows "bounded_log (request_log ops n)"
proof -
  have "bounded_log (foldl (log_op n) l ops)" if "bounded_log l" for l
    using assms that by (induction ops arbitrary: l) (simp_all add: log_op_bounded)
  moreover have "bounded_log []" by (simp add: bounded_log_def)
  ultimately show ?thesis unfolding request_log_def by blast
qed

lemma averageLatencyMs_bounded:
  assumes "bounded_log l" and "s = window_snapshot l now"
    and "0 < successfulRequestsLatencyCount s"
  shows "0 \<le> averageLatencyMs s \<and> averageLatencyMs s \<le> hour_ms"
proof -
  let ?w = "window l now"
  have "0 \<le> (\<Sum>r\<leftarrow>xs. latency_ms r) \<and> (\<Sum>r\<leftarrow>xs. latency_ms r) \<le> hour_ms * (\<Sum>r\<leftarrow>xs. ok_count r)"
    if "\<forall>r\<in>set xs. 0 \<le> latency_ms r \<and> latency_ms r \<le> hour_ms" for xs
    using that by (induction xs) auto
  moreover have "\<forall>r\<in>set ?w. 0 \<le> latency_ms r \<and> latency_ms r \<le> hour_ms" using assms(1) by (simp add: window_def bounded_log_def)
  ultimately have "0 \<le> successfulRequestsLatencySumMs s"
    "successfulRequestsLatencySumMs s \<le> hour_ms * successfulRequestsLatencyCount s"
    by (simp_all add: assms(2) window_snapshot_def Let_def)
  then show ?thesis
    using assms(3) zdiv_mono1 [of "successfulRequestsLatencySumMs s" "hour_ms * successfulRequestsLatencyCount s"
        "successfulRequestsLatencyCount s"]
    by (simp add: averageLatencyMs_def go_div_nonneg pos_imp_zdiv_nonneg_iff)
qed

lemma run_ops_average_bounded:
  assumes "sorted (0 # op_times ops @ [now])" and "\<forall>x\<in>set ops. bounded_op x"
    and "s \<in> set (snapshots (run_ops ops) now)" and "0 < successfulRequestsLatencyCount s"
  shows "0 \<le> averageLatencyMs s \<and> averageLatencyMs s \<le> hour_ms"
proof -
  obtain n b where "(n, b) \<in> set (run_ops ops)" "s = snapshot b now" using assms(3) by auto
  then have "s = window_snapshot (request_log ops n) now" using run_ops_snapshot [OF assms(1)] by simp
  then show ?thesis using averageLatencyMs_bounded request_log_bounded [OF assms(2)] assms(4) by blast
qed

text \<open>The slow threshold in milliseconds, for a baseline within an hour.\<close>

lemma slow_threshold_bounded:
  assumes "0 \<le> base" and "base \<le> hour_ms" and "0 \<le> mul" and "mul \<le> 1000"
  shows "0 \<le> int_of_f64 (f64_mul (f64_of_int base) mul) \<and> int_of_f64 (f64_mul (f64_of_int base) mul) \<le> 3600000000"
proof -
  have "0 \<le> f64_of_int base" using assms(1) f64_of_int_mono [of 0 base] by simp
  moreover have "f64_of_int hour_ms = 3600000" by code_simp
  then have "f64_of_int base \<le> 3600000" using f64_of_int_mono [OF assms(2)] by simp
  ultimately have "0 \<le> f64_of_int base * mul" "f64_of_int base * mul \<le> 3600000 * 1000"
    using assms(3,4) mult_mono [of "f64_of_int base" 3600000 mul 1000] by simp_all
  moreover have "f64 3600000000 = 3600000000" by code_simp
  ultimately have "0 \<le> f64_mul (f64_of_int base) mul" "f64_mul (f64_of_int base) mul \<le> 3600000000"
    using f64_mono [of "f64_of_int base * mul" 3600000000] f64_nonneg by (simp_all add: f64_mul_def)
  then show ?thesis by (simp add: int_of_f64_def floor_le_iff)
qed

lemma cluster_view_slow_fields:
  assumes "cluster_view c mul thr = Some cs"
  shows "\<exists>base. base = (if agentAverageLatenciesMs c \<noteq> []
            then go_div (qualifiedLatencySumMs c) (int (length (agentAverageLatenciesMs c))) else 0) \<and>
      SlowThreshold cs = i64 (int_of_f64 (f64_mul (f64_of_int base) mul) * millisecond) \<and>
      SlowFraction cs = (if agentAverageLatenciesMs c \<noteq> [] then f64_div
        (f64_of_int (int (length (filter (\<lambda>l. int_of_f64 (f64_mul (f64_of_int base) mul) < l) (agentAverageLatenciesMs c)))))
        (f64_of_int (int (length (agentAverageLatenciesMs c)))) else 0)"
  using assms by (auto simp: cluster_view_def Let_def split: if_split_asm)

lemmas ClusterStats_slow_fields = cluster_view_slow_fields [where mul = mul and thr = thr for mul thr,
  OF trans [OF cluster_sums_run_ops [symmetric]], unfolded cluster_sums.simps]

lemma mean_bounded:
  assumes "\<forall>x\<in>set xs. 0 \<le> x \<and> x \<le> (h :: int)" and "xs \<noteq> []"
  shows "0 \<le> go_div (sum_list xs) (int (length xs)) \<and> go_div (sum_list xs) (int (length xs)) \<le> h"
proof -
  have "0 \<le> sum_list xs \<and> sum_list xs \<le> h * int (length xs)"
    using assms(1) by (induction xs) (auto simp: distrib_left)
  then show ?thesis
    using assms(2) zdiv_mono1 [of "sum_list xs" "h * int (length xs)" "int (length xs)"]
    by (simp add: go_div_nonneg pos_imp_zdiv_nonneg_iff)
qed

text \<open>
  The slow fraction counts exactly the agents whose published latency exceeds the published
  threshold, over the agents that have a successful request, when latencies stay within an hour and
  the multiplier between one and a thousand (so that no product leaves 64 bits). It is zero when
  no agent has a measurable latency.
\<close>

theorem cluster_slow_fraction_exact:
  assumes "sorted (0 # op_times ops @ [now])" and "\<forall>x\<in>set ops. bounded_op x" and "1 \<le> mul" and "mul \<le> 1000"
    and "ClusterStats_of (run_ops ops) now mul thr = Some cs"
  shows "SlowFraction cs =
    (if SlowContributorsCount cs = 0 then 0
     else f64_div (f64_of_int (int (card {n. \<exists>st. AgentStats_of (run_ops ops) now n = Some st \<and> is_slow cs st})))
       (f64_of_int (SlowContributorsCount cs)))"
proof -
  let ?snaps = "snapshots (run_ops ops) now"
  let ?lats = "map averageLatencyMs (filter measured ?snaps)"
  obtain base where base: "base = (if ?lats \<noteq> [] then go_div (sum_list ?lats) (int (length ?lats)) else 0)"
    and thr: "SlowThreshold cs = i64 (int_of_f64 (f64_mul (f64_of_int base) mul) * millisecond)"
    and frac: "SlowFraction cs = (if ?lats \<noteq> [] then f64_div
        (f64_of_int (int (length (filter (\<lambda>l. int_of_f64 (f64_mul (f64_of_int base) mul) < l) ?lats))))
        (f64_of_int (int (length ?lats))) else 0)"
    using ClusterStats_slow_fields [OF assms(5)] by blast
  define slow where "slow = int_of_f64 (f64_mul (f64_of_int base) mul)"
  have bounded: "0 \<le> averageLatencyMs s \<and> averageLatencyMs s \<le> hour_ms"
    if "s \<in> set ?snaps" "0 < successfulRequestsLatencyCount s" for s
    using run_ops_average_bounded [OF assms(1,2)] that by blast
  have "0 \<le> base \<and> base \<le> hour_ms"
  proof (cases "?lats = []")
    case False
    then show ?thesis unfolding base using bounded mean_bounded [of ?lats hour_ms] by auto
  qed (simp add: base)
  then have slow: "0 \<le> slow" "slow \<le> 3600000000"
    using slow_threshold_bounded [of base mul] assms(3,4) by (simp_all add: slow_def)
  have "is_slow cs (toAgentStats s) \<longleftrightarrow> 0 < successfulRequestsLatencyCount s \<and> slow < averageLatencyMs s"
    if "s \<in> set ?snaps" for s
    using bounded [OF that] slow
    by (auto simp: is_slow_def toAgentStats_def thr slow_def [symmetric] averageLatencyMs_def [symmetric] Let_def i64_id)
  then have "filter (\<lambda>s. measured s \<and> slow < averageLatencyMs s) ?snaps =
      filter (\<lambda>s. qualifies s \<and> is_slow cs (toAgentStats s)) ?snaps"
    by (intro filter_cong refl) auto
  then have "length (filter (\<lambda>l. slow < l) ?lats) =
      card {n. \<exists>st. AgentStats_of (run_ops ops) now n = Some st \<and> is_slow cs st}"
    unfolding length_filter_map_filter using count_qualifies [OF assms(1), of "is_slow cs"] by (simp only: conj_assoc)
  moreover have "SlowContributorsCount cs = int (length ?lats)" by (rule ClusterStats_fields(4) [OF assms(5)])
  ultimately show ?thesis
    using frac by (simp only: slow_def of_nat_eq_0_iff length_0_conv split: if_split) blast
qed

theorem cluster_slow_fraction_exact_witness:
  "SlowFraction (the (ClusterStats_of (run_ops example_ops) (65 * second) 3 (1 / 4))) =
     f64_div (f64_of_int (int (card {n. \<exists>st. AgentStats_of (run_ops example_ops) (65 * second) n = Some st \<and>
       is_slow (the (ClusterStats_of (run_ops example_ops) (65 * second) 3 (1 / 4))) st}))) (f64_of_int 1)"
proof -
  let ?cs = "the (ClusterStats_of (run_ops example_ops) (65 * second) 3 (1 / 4))"
  have "sorted (0 # op_times example_ops @ [65 * second])" "\<forall>x\<in>set example_ops. bounded_op x"
    by (simp_all add: example_ops_def)
  moreover have "ClusterStats_of (run_ops example_ops) (65 * second) 3 (1 / 4) = Some ?cs"
    and "SlowContributorsCount ?cs = 1" by code_simp+
  ultimately show ?thesis
    using cluster_slow_fraction_exact [where ops = example_ops and now = "65 * second" and mul = 3 and thr = "1 / 4" and cs = ?cs]
    by simp
qed

end
