(* ===== verification/Cached_Stats.thy ===== *)
theory Cached_Stats
  imports Agent_Stats
begin

text \<open>
  \<open>pkg/wgo/cached_agent_stats_tracker.go\<close>: the cache of cluster views in front of the tracker, and
  \<open>observed_agent_stats_tracker.go\<close>, which only adds gauges. The interface
  \<open>AgentStatsTracker\<close> is a locale that both trackers satisfy. A second part splits
  \<open>ClusterStats\<close> and \<open>PurgeAgents\<close> at their lock boundaries and shows, for every
  interleaving, that a view computed before a purge does not outlive it in the cache.
\<close>

section \<open>The tracker interface\<close>

locale agent_stats_tracker =
  fixes track :: "'t \<Rightarrow> instant \<Rightarrow> node_id \<Rightarrow> duration \<Rightarrow> goerror option \<Rightarrow> 't"
    and purge :: "'t \<Rightarrow> node_id list \<Rightarrow> 't"
    and agent_stats :: "'t \<Rightarrow> instant \<Rightarrow> node_id \<Rightarrow> AgentStats option"
    and cluster_stats :: "'t \<Rightarrow> instant \<Rightarrow> rat \<Rightarrow> rat \<Rightarrow> 't \<times> ClusterStats option"
  assumes purge_agent_stats: "agent_stats (purge t ns) now n = (if n \<in> set ns then None else agent_stats t now n)"
    and track_other: "m \<noteq> n \<Longrightarrow> agent_stats (track t u m latency err) now n = agent_stats t now n"
    and track_canceled: "errors_Is e Canceled \<Longrightarrow> track t u m latency (Some e) = t"
    and cluster_stats_agent_stats: "agent_stats (fst (cluster_stats t u mul thr)) now n = agent_stats t now n"
begin

text \<open>What the client does to a tracker between two looks at an agent.\<close>

fun client_op :: "'t \<Rightarrow> stat_op + instant \<times> rat \<times> rat \<Rightarrow> 't" where
  "client_op t (Inl (Track u m latency err)) = track t u m latency err"
| "client_op t (Inl (Purge ns)) = purge t ns"
| "client_op t (Inr (u, mul, thr)) = fst (cluster_stats t u mul thr)"

fun observes :: "node_id \<Rightarrow> stat_op + instant \<times> rat \<times> rat \<Rightarrow> bool" where
  "observes n (Inl (Track u m latency err)) \<longleftrightarrow> m = n \<and> \<not> caller_canceled err"
| "observes n _ \<longleftrightarrow> False"

lemma client_op_unobserved:
  assumes "\<not> observes n x"
  shows "agent_stats (client_op t x) now n = agent_stats t now n \<or> agent_stats (client_op t x) now n = None"
proof (cases x)
  case (Inl y)
  show ?thesis
  proof (cases y)
    case (Track u m latency err)
    then have "m \<noteq> n \<or> caller_canceled err" using assms Inl by simp
    moreover have "track t u m latency err = t" if "caller_canceled err"
      using that track_canceled by (cases err) auto
    ultimately show ?thesis using Inl Track track_other by auto
  qed (simp add: Inl purge_agent_stats)
next
  case (Inr y)
  then show ?thesis by (cases y) (simp add: cluster_stats_agent_stats)
qed

text \<open>An agent that was purged has no statistics until a request of it is tracked again.\<close>

lemma purged_until_observed:
  assumes "n \<in> set ns" and "\<forall>x\<in>set xs. \<not> observes n x"
  shows "agent_stats (foldl client_op (purge t ns) xs) now n = None"
proof -
  have "agent_stats t now n = None \<Longrightarrow> agent_stats (foldl client_op t xs) now n = None" for t
    using assms(2)
  proof (induction xs arbitrary: t)
    case (Cons x xs)
    have "agent_stats (client_op t x) now n = None" using client_op_unobserved [of n x t now] Cons.prems by auto
    then show ?case using Cons by simp
  qed simp
  then show ?thesis using assms(1) by (simp add: purge_agent_stats)
qed

end

lemma AgentStats_of_purge: "AgentStats_of (PurgeAgents t ns) now n = (if n \<in> set ns then None else AgentStats_of t now n)"
  by (simp add: AgentStats_of_def)

lemma AgentStats_of_track_other: "m \<noteq> n \<Longrightarrow> AgentStats_of (TrackAgentRequest t u m latency err) now n = AgentStats_of t now n"
  by (simp add: AgentStats_of_stats_of stats_of_track)

lemma TrackAgentRequest_canceled: "errors_Is e Canceled \<Longrightarrow> TrackAgentRequest t u m latency (Some e) = t"
  by (simp add: TrackAgentRequest_def)

interpretation average_tracker: agent_stats_tracker TrackAgentRequest PurgeAgents AgentStats_of
  "\<lambda>t u mul thr. (t, ClusterStats_of t u mul thr)"
  by unfold_locales (simp_all add: AgentStats_of_purge AgentStats_of_track_other TrackAgentRequest_canceled)

section \<open>The gauges\<close>

text \<open>
  The production client puts \<open>ObservedAgentStatsTracker\<close> between the cache and the averaging
  tracker: it forwards every call and sets the gauges from each cluster view. Without a view only
  the availability gauge changes.
\<close>

record cluster_gauges =
  clusterStatsAvailable :: rat
  clusterSlowFraction :: rat
  clusterSlowContributors :: rat
  clusterFaultyFraction :: rat
  clusterFaultyContributors :: rat

definition zero_gauges :: cluster_gauges where
  "zero_gauges = \<lparr>clusterStatsAvailable = 0, clusterSlowFraction = 0, clusterSlowContributors = 0,
     clusterFaultyFraction = 0, clusterFaultyContributors = 0\<rparr>"

definition observeClusterStats :: "cluster_gauges \<Rightarrow> ClusterStats option \<Rightarrow> cluster_gauges" where
  "observeClusterStats m stats =
     (case stats of
        None \<Rightarrow> m\<lparr>clusterStatsAvailable := 0\<rparr>
      | Some st \<Rightarrow> \<lparr>clusterStatsAvailable = 1, clusterSlowFraction = SlowFraction st,
                   clusterSlowContributors = f64_of_int (SlowContributorsCount st),
                   clusterFaultyFraction = FaultyFraction st,
                   clusterFaultyContributors = f64_of_int (FaultyContributorsCount st)\<rparr>)"

record ObservedAgentStatsTracker =
  o_inner :: AverageAgentStatsTracker
  o_metrics :: cluster_gauges

definition NewObservedAgentStatsTracker :: "AverageAgentStatsTracker \<Rightarrow> ObservedAgentStatsTracker" where
  "NewObservedAgentStatsTracker inner = \<lparr>o_inner = inner, o_metrics = zero_gauges\<rparr>"

definition observed_TrackAgentRequest ::
  "ObservedAgentStatsTracker \<Rightarrow> instant \<Rightarrow> node_id \<Rightarrow> duration \<Rightarrow> goerror option \<Rightarrow> ObservedAgentStatsTracker" where
  "observed_TrackAgentRequest w now nodeID latency err =
     w\<lparr>o_inner := TrackAgentRequest (o_inner w) now nodeID latency err\<rparr>"

definition observed_AgentStats :: "ObservedAgentStatsTracker \<Rightarrow> instant \<Rightarrow> node_id \<Rightarrow> AgentStats option" where
  "observed_AgentStats w now nodeID = AgentStats_of (o_inner w) now nodeID"

definition observed_PurgeAgents :: "ObservedAgentStatsTracker \<Rightarrow> node_id list \<Rightarrow> ObservedAgentStatsTracker" where
  "observed_PurgeAgents w nodeIDs = w\<lparr>o_inner := PurgeAgents (o_inner w) nodeIDs\<rparr>"

definition observed_ClusterStats ::
  "ObservedAgentStatsTracker \<Rightarrow> instant \<Rightarrow> rat \<Rightarrow> rat \<Rightarrow> ObservedAgentStatsTracker \<times> ClusterStats option" where
  "observed_ClusterStats w now slowMultiplier faultyThreshold =
     (let stats = ClusterStats_of (o_inner w) now slowMultiplier faultyThreshold
      in (w\<lparr>o_metrics := observeClusterStats (o_metrics w) stats\<rparr>, stats))"

interpretation observed_tracker: agent_stats_tracker observed_TrackAgentRequest observed_PurgeAgents
  observed_AgentStats observed_ClusterStats
  by unfold_locales
    (simp_all add: observed_AgentStats_def observed_PurgeAgents_def observed_TrackAgentRequest_def
      observed_ClusterStats_def AgentStats_of_purge AgentStats_of_track_other TrackAgentRequest_canceled Let_def)

section \<open>The cache\<close>

type_synonym clusterStatsCacheKey = "rat \<times> rat"

record clusterStatsCacheEntry =
  e_result :: "ClusterStats option"
  computedAt :: instant

record CachedAgentStatsTracker =
  c_inner :: ObservedAgentStatsTracker
  cacheTTL :: duration
  c_cache :: "(clusterStatsCacheKey, clusterStatsCacheEntry) gomap"
  cachePurgeGen :: nat

definition NewCachedAgentStatsTracker :: "ObservedAgentStatsTracker \<Rightarrow> duration \<Rightarrow> CachedAgentStatsTracker" where
  "NewCachedAgentStatsTracker inner ttl = \<lparr>c_inner = inner, cacheTTL = ttl, c_cache = [], cachePurgeGen = 0\<rparr>"

definition cached_TrackAgentRequest ::
  "CachedAgentStatsTracker \<Rightarrow> instant \<Rightarrow> node_id \<Rightarrow> duration \<Rightarrow> goerror option \<Rightarrow> CachedAgentStatsTracker" where
  "cached_TrackAgentRequest w now nodeID latency err =
     w\<lparr>c_inner := observed_TrackAgentRequest (c_inner w) now nodeID latency err\<rparr>"

definition cached_AgentStats :: "CachedAgentStatsTracker \<Rightarrow> instant \<Rightarrow> node_id \<Rightarrow> AgentStats option" where
  "cached_AgentStats w now nodeID = observed_AgentStats (c_inner w) now nodeID"

text \<open>The two critical sections of \<open>PurgeAgents\<close>.\<close>

definition purge_inner :: "CachedAgentStatsTracker \<Rightarrow> node_id list \<Rightarrow> CachedAgentStatsTracker" where
  "purge_inner w nodeIDs = w\<lparr>c_inner := observed_PurgeAgents (c_inner w) nodeIDs\<rparr>"

definition purge_clear :: "CachedAgentStatsTracker \<Rightarrow> CachedAgentStatsTracker" where
  "purge_clear w = w\<lparr>c_cache := [], cachePurgeGen := cachePurgeGen w + 1\<rparr>"

definition cached_PurgeAgents :: "CachedAgentStatsTracker \<Rightarrow> node_id list \<Rightarrow> CachedAgentStatsTracker" where
  "cached_PurgeAgents w nodeIDs = purge_clear (purge_inner w nodeIDs)"

definition cache_lookup ::
  "CachedAgentStatsTracker \<Rightarrow> clusterStatsCacheKey \<Rightarrow> instant \<Rightarrow> clusterStatsCacheEntry option" where
  "cache_lookup w key now =
     (case map_of (c_cache w) key of
        None \<Rightarrow> None
      | Some entry \<Rightarrow> if cacheTTL w \<le> time_sub now (computedAt entry) then None else Some entry)"

definition cache_commit ::
  "CachedAgentStatsTracker \<Rightarrow> nat \<Rightarrow> clusterStatsCacheKey \<Rightarrow> clusterStatsCacheEntry \<Rightarrow> CachedAgentStatsTracker" where
  "cache_commit w gen key entry =
     (if cachePurgeGen w = gen then w\<lparr>c_cache := AList.update key entry (c_cache w)\<rparr> else w)"

definition cached_ClusterStats ::
  "CachedAgentStatsTracker \<Rightarrow> instant \<Rightarrow> rat \<Rightarrow> rat \<Rightarrow> CachedAgentStatsTracker \<times> ClusterStats option" where
  "cached_ClusterStats w now slowMultiplier faultyThreshold =
     (let key = (slowMultiplier, faultyThreshold)
      in case cache_lookup w key now of
           Some entry \<Rightarrow> (w, e_result entry)
         | None \<Rightarrow>
             (case cache_lookup w key now of
                Some entry \<Rightarrow> (w, e_result entry)
              | None \<Rightarrow>
                  let gen = cachePurgeGen w;
                      (inner, stats) = observed_ClusterStats (c_inner w) now slowMultiplier faultyThreshold
                  in (cache_commit (w\<lparr>c_inner := inner\<rparr>) gen key \<lparr>e_result = stats, computedAt = now\<rparr>, stats)))"

lemma cached_ClusterStats_inner [simp]: "o_inner (c_inner (fst (cached_ClusterStats w now mul thr))) = o_inner (c_inner w)"
  by (simp add: cached_ClusterStats_def cache_commit_def observed_ClusterStats_def Let_def split: option.split)

interpretation cached_tracker: agent_stats_tracker cached_TrackAgentRequest cached_PurgeAgents cached_AgentStats
  cached_ClusterStats
  by unfold_locales
    (simp_all add: cached_TrackAgentRequest_def cached_PurgeAgents_def cached_AgentStats_def purge_inner_def
      purge_clear_def observed_tracker.purge_agent_stats observed_tracker.track_other
      observed_tracker.track_canceled observed_AgentStats_def [of "c_inner (fst _)"], simp add: observed_AgentStats_def)

section \<open>Interleavings\<close>

text \<open>
  Goroutines interleave at the lock boundaries. \<open>s_compute\<close> is the one goroutine that holds
  \<open>refreshMu\<close> past its second look-up: its key, time and generation, then its result. Each running
  \<open>PurgeAgents\<close> is between its inner purge and its clearing of the cache; its entry in
  \<open>s_purging\<close> is the set of agents it removed that no request has been tracked for since.
  \<open>s_gone\<close> collects these agents for the purges that returned.
\<close>

record compute =
  k_key :: clusterStatsCacheKey
  k_now :: instant
  k_gen :: nat
  k_result :: "ClusterStats option option"

record cache_system =
  s_w :: CachedAgentStatsTracker
  s_compute :: "compute option"
  s_purging :: "node_id set list"
  s_gone :: "node_id set"

definition start_system :: "CachedAgentStatsTracker \<Rightarrow> cache_system" where
  "start_system w = \<lparr>s_w = w, s_compute = None, s_purging = [], s_gone = {}\<rparr>"

inductive cache_step :: "cache_system \<Rightarrow> cache_system \<Rightarrow> bool" where
  track: "cache_step s (s\<lparr>s_w := cached_TrackAgentRequest (s_w s) now n latency err,
      s_purging := map (\<lambda>A. A - {n}) (s_purging s), s_gone := s_gone s - {n}\<rparr>)"
| purge_begin: "cache_step s (s\<lparr>s_w := purge_inner (s_w s) ns, s_purging := set ns # s_purging s\<rparr>)"
| purge_end: "s_purging s = As @ A # Bs \<Longrightarrow>
    cache_step s (s\<lparr>s_w := purge_clear (s_w s), s_purging := As @ Bs, s_gone := s_gone s \<union> A\<rparr>)"
| miss: "s_compute s = None \<Longrightarrow> cache_lookup (s_w s) key now = None \<Longrightarrow>
    cache_step s (s\<lparr>s_compute := Some \<lparr>k_key = key, k_now = now, k_gen = cachePurgeGen (s_w s), k_result = None\<rparr>\<rparr>)"
| compute: "s_compute s = Some k \<Longrightarrow> k_result k = None \<Longrightarrow>
    observed_ClusterStats (c_inner (s_w s)) (k_now k) (fst (k_key k)) (snd (k_key k)) = (inner, stats) \<Longrightarrow>
    cache_step s (s\<lparr>s_w := (s_w s)\<lparr>c_inner := inner\<rparr>, s_compute := Some (k\<lparr>k_result := Some stats\<rparr>)\<rparr>)"
| commit: "s_compute s = Some k \<Longrightarrow> k_result k = Some stats \<Longrightarrow>
    cache_step s (s\<lparr>s_w := cache_commit (s_w s) (k_gen k) (k_key k) \<lparr>e_result = stats, computedAt = k_now k\<rparr>,
      s_compute := None\<rparr>)"

inductive_cases cache_stepE: "cache_step s s'"

text \<open>\<open>result\<close> is a view of some tracker that holds nothing about the agents in \<open>gone\<close>.\<close>

definition view_without :: "node_id set \<Rightarrow> clusterStatsCacheKey \<Rightarrow> instant \<Rightarrow> ClusterStats option \<Rightarrow> bool" where
  "view_without gone key now result \<longleftrightarrow>
     (\<exists>t. result = ClusterStats_of t now (fst key) (snd key) \<and> (\<forall>n\<in>gone. map_of t n = None))"

lemma view_without_mono: "view_without A key now r \<Longrightarrow> B \<subseteq> A \<Longrightarrow> view_without B key now r"
  unfolding view_without_def by blast

definition cache_sys_inv :: "cache_system \<Rightarrow> bool" where
  "cache_sys_inv s \<longleftrightarrow>
     (\<forall>n\<in>s_gone s \<union> \<Union>(set (s_purging s)). map_of (o_inner (c_inner (s_w s))) n = None) \<and>
     (\<forall>key e. map_of (c_cache (s_w s)) key = Some e \<longrightarrow> view_without (s_gone s) key (computedAt e) (e_result e)) \<and>
     (\<forall>k. s_compute s = Some k \<longrightarrow> k_gen k \<le> cachePurgeGen (s_w s) \<and>
        (k_gen k = cachePurgeGen (s_w s) \<longrightarrow>
          (\<forall>r. k_result k = Some r \<longrightarrow> view_without (s_gone s) (k_key k) (k_now k) r)))"

lemma map_of_TrackAgentRequest_SomeD:
  "map_of (TrackAgentRequest t now m latency err) n = Some y \<Longrightarrow> n = m \<or> map_of t n = Some y"
  by (auto simp: TrackAgentRequest_def getOrCreate_def split: option.splits if_splits)

lemma cache_sys_inv_step:
  assumes "cache_step s s'" and "cache_sys_inv s"
  shows "cache_sys_inv s'"
  using assms(1)
proof cases
  case (track n now latency err)
  then show ?thesis
    using assms(2) view_without_mono [where A = "s_gone s" and B = "s_gone s - {n}"]
    by (auto simp: cache_sys_inv_def cached_TrackAgentRequest_def observed_TrackAgentRequest_def
        dest!: map_of_TrackAgentRequest_SomeD) (metis UnI2 UnionI option.distinct(1))
next
  case (purge_begin ns)
  then show ?thesis
    using assms(2) by (auto simp: cache_sys_inv_def purge_inner_def observed_PurgeAgents_def)
next
  case (purge_end As A Bs)
  then show ?thesis
    using assms(2) by (auto simp: cache_sys_inv_def purge_clear_def)
next
  case (miss key now)
  then show ?thesis using assms(2) by (simp add: cache_sys_inv_def)
next
  case (compute k inner stats)
  have "view_without (s_gone s) (k_key k) (k_now k) stats"
    using assms(2) compute(4) by (auto simp: view_without_def cache_sys_inv_def observed_ClusterStats_def Let_def)
  then show ?thesis
    using compute assms(2) by (auto simp: cache_sys_inv_def observed_ClusterStats_def Let_def)
next
  case (commit k stats)
  then show ?thesis using assms(2) by (auto simp: cache_sys_inv_def cache_commit_def)
qed

lemma cache_sys_inv_start: "c_cache w = [] \<Longrightarrow> cache_sys_inv (start_system w)"
  by (simp add: cache_sys_inv_def start_system_def)

section \<open>Properties\<close>


definition example_cached :: CachedAgentStatsTracker where
  "example_cached = NewCachedAgentStatsTracker (NewObservedAgentStatsTracker (run_ops example_ops)) second"

text \<open>Agent 7 is purged, then a view for multiplier 3 and threshold one quarter is computed and cached.\<close>

definition example_run :: cache_system where
  "example_run =
     (let w = purge_clear (purge_inner example_cached [7]);
          (inner, stats) = observed_ClusterStats (c_inner w) (65 * second) 3 (1 / 4)
      in \<lparr>s_w = cache_commit (w\<lparr>c_inner := inner\<rparr>) 1 (3, 1 / 4) \<lparr>e_result = stats, computedAt = 65 * second\<rparr>,
          s_compute = None, s_purging = [], s_gone = {7}\<rparr>)"

lemma example_run_reachable: "cache_step\<^sup>*\<^sup>* (start_system example_cached) example_run"
proof -
  let ?w1 = "purge_inner example_cached [7]"
  let ?w2 = "purge_clear ?w1"
  let ?k = "\<lparr>k_key = (3, 1 / 4), k_now = 65 * second, k_gen = 1, k_result = None\<rparr>"
  obtain inner stats where c: "observed_ClusterStats (c_inner ?w2) (65 * second) 3 (1 / 4) = (inner, stats)"
    by (cases "observed_ClusterStats (c_inner ?w2) (65 * second) 3 (1 / 4)")
  have gen: "cachePurgeGen ?w2 = 1" "cache_lookup ?w2 (3, 1 / 4) (65 * second) = None"
    by (simp_all add: purge_clear_def purge_inner_def example_cached_def NewCachedAgentStatsTracker_def cache_lookup_def)
  let ?s1 = "\<lparr>s_w = ?w1, s_compute = None, s_purging = [{7}], s_gone = {}\<rparr>"
  let ?s2 = "\<lparr>s_w = ?w2, s_compute = None, s_purging = [], s_gone = {7}\<rparr>"
  let ?s3 = "\<lparr>s_w = ?w2, s_compute = Some ?k, s_purging = [], s_gone = {7}\<rparr>"
  let ?s4 = "\<lparr>s_w = ?w2\<lparr>c_inner := inner\<rparr>, s_compute = Some (?k\<lparr>k_result := Some stats\<rparr>), s_purging = [], s_gone = {7}\<rparr>"
  have "cache_step (start_system example_cached) ?s1"
    using cache_step.purge_begin [of "start_system example_cached" "[7]"] by (simp add: start_system_def)
  moreover have "cache_step ?s1 ?s2" using cache_step.purge_end [of ?s1 "[]" "{7}" "[]"] by simp
  moreover have "cache_step ?s2 ?s3" using cache_step.miss [of ?s2 "(3, 1 / 4)" "65 * second"] gen by simp
  moreover have "cache_step ?s3 ?s4" using cache_step.compute [of ?s3 ?k inner stats] c by simp
  moreover have "cache_step ?s4 example_run"
    using cache_step.commit [of ?s4 "?k\<lparr>k_result := Some stats\<rparr>" stats] c by (simp add: example_run_def Let_def)
  ultimately show ?thesis by (meson converse_rtranclp_into_rtranclp rtranclp.rtrancl_refl)
qed


text \<open>
  An agent that left the cluster does not come back through the statistics. After a purge of
  the production tracker (gauges inside the cache), whatever mixture of cluster queries, further
  purges and requests to other agents follows, cancelled requests included, the agent has no
  statistics, so neither the hedger nor the demoter can act on it.
\<close>

lemma purged_agent_has_no_stats:
  assumes "n \<in> set ns" and "\<forall>x\<in>set xs. \<not> cached_tracker.observes n x"
  shows "cached_AgentStats (foldl cached_tracker.client_op (cached_PurgeAgents w ns) xs) now n = None"
  using assms by (rule cached_tracker.purged_until_observed)

end
