(* ===== verification/Client_Config.thy ===== *)
theory Client_Config
  imports Go_Float Go_Errors
begin

text \<open>
  \<open>pkg/wgo/config.go\<close>, \<open>health_check.go\<close> and the configuration parts of \<open>demoter.go\<close>,
  \<open>hedger.go\<close> and \<open>direct_producer.go\<close>: the client's settings, their defaults, the functional
  options and the validation. Values of other packages that the configuration only carries (TLS
  settings, SASL options, hooks, a dialer) are opaque handles. Floating-point settings are finite
  numbers: a NaN, for which every comparison is false, is outside the model.
\<close>

type_synonym handle = nat

record HealthCheckConfig =
  SlowMultiplier :: rat
  MaxSlowFraction :: rat
  cfg_FaultyThreshold :: rat
  MaxFaultyFraction :: rat

record HedgerConfig =
  MinHedgeDelay :: duration
  MaxHedgeAgents :: int

record DemoterConfig =
  ProbeInterval :: duration

record KafkaDirectProducerConfig =
  ProduceRequestTimeout :: duration
  ProduceRequestTimeoutOverhead :: duration

record Config =
  Address :: "string list"
  DialTimeout :: duration
  WriteTimeout :: duration
  TLSEnabled :: bool
  TLSConfig :: "handle option"
  ClientID :: string
  Topic :: string
  Dialer :: "handle option"
  SASLOptions :: "handle list"
  Hooks :: "handle list"
  Linger :: duration
  BatchMaxBytes :: int
  DirectProducer :: KafkaDirectProducerConfig
  HealthCheck :: HealthCheckConfig
  Hedger :: HedgerConfig
  Demoter :: DemoterConfig
  ClusterStatsTTL :: duration
  MetadataRefreshInterval :: duration
  OnDemandMetadataRefreshInterval :: duration

abbreviation (input) batchMaxBytesCeiling :: int where "batchMaxBytesCeiling \<equiv> 1073741824"

section \<open>Defaults\<close>

definition DefaultConfig :: Config where
  "DefaultConfig = \<lparr>Address = [], DialTimeout = 500 * millisecond, WriteTimeout = 4 * second,
     TLSEnabled = False, TLSConfig = None, ClientID = [], Topic = [], Dialer = None, SASLOptions = [],
     Hooks = [], Linger = 50 * millisecond, BatchMaxBytes = 16000000,
     DirectProducer = \<lparr>ProduceRequestTimeout = 4 * second - 2 * second,
                       ProduceRequestTimeoutOverhead = 2 * second\<rparr>,
     HealthCheck = \<lparr>SlowMultiplier = 2, MaxSlowFraction = f64 (3 / 10), cfg_FaultyThreshold = f64 (2 / 10),
                    MaxFaultyFraction = f64 (3 / 10)\<rparr>,
     Hedger = \<lparr>MinHedgeDelay = 500 * millisecond, MaxHedgeAgents = 3\<rparr>,
     Demoter = \<lparr>ProbeInterval = second\<rparr>,
     ClusterStatsTTL = second, MetadataRefreshInterval = 10 * second,
     OnDemandMetadataRefreshInterval = second\<rparr>"

section \<open>Options\<close>

type_synonym Opt = "Config \<Rightarrow> Config"

definition WithAddress :: "string list \<Rightarrow> Opt" where
  "WithAddress addrs c = c\<lparr>Address := addrs\<rparr>"
definition WithTopic :: "string \<Rightarrow> Opt" where
  "WithTopic topic c = c\<lparr>Topic := topic\<rparr>"
definition WithClientID :: "string \<Rightarrow> Opt" where
  "WithClientID i c = c\<lparr>ClientID := i\<rparr>"
definition WithDialTimeout :: "duration \<Rightarrow> Opt" where
  "WithDialTimeout d c = c\<lparr>DialTimeout := d\<rparr>"
definition WithWriteTimeout :: "duration \<Rightarrow> Opt" where
  "WithWriteTimeout d c = c\<lparr>WriteTimeout := d\<rparr>"
definition WithTLSConfig :: "handle option \<Rightarrow> Opt" where
  "WithTLSConfig tlsCfg c = c\<lparr>TLSEnabled := True, TLSConfig := tlsCfg\<rparr>"
definition WithSASL :: "handle list \<Rightarrow> Opt" where
  "WithSASL opts c = c\<lparr>SASLOptions := opts\<rparr>"
definition WithHooks :: "handle list \<Rightarrow> Opt" where
  "WithHooks hooks c = c\<lparr>Hooks := Hooks c @ hooks\<rparr>"
definition WithLinger :: "duration \<Rightarrow> Opt" where
  "WithLinger d c = c\<lparr>Linger := d\<rparr>"
definition WithBatchMaxBytes :: "int \<Rightarrow> Opt" where
  "WithBatchMaxBytes n c = c\<lparr>BatchMaxBytes := n\<rparr>"
definition WithProduceRequestTimeout :: "duration \<Rightarrow> Opt" where
  "WithProduceRequestTimeout d c = c\<lparr>DirectProducer := (DirectProducer c)\<lparr>ProduceRequestTimeout := d\<rparr>\<rparr>"
definition WithProduceRequestTimeoutOverhead :: "duration \<Rightarrow> Opt" where
  "WithProduceRequestTimeoutOverhead d c =
     c\<lparr>DirectProducer := (DirectProducer c)\<lparr>ProduceRequestTimeoutOverhead := d\<rparr>\<rparr>"
definition WithHealthCheckSlowMultiplier :: "rat \<Rightarrow> Opt" where
  "WithHealthCheckSlowMultiplier v c = c\<lparr>HealthCheck := (HealthCheck c)\<lparr>SlowMultiplier := v\<rparr>\<rparr>"
definition WithHealthCheckMaxSlowFraction :: "rat \<Rightarrow> Opt" where
  "WithHealthCheckMaxSlowFraction v c = c\<lparr>HealthCheck := (HealthCheck c)\<lparr>MaxSlowFraction := v\<rparr>\<rparr>"
definition WithHealthCheckFaultyThreshold :: "rat \<Rightarrow> Opt" where
  "WithHealthCheckFaultyThreshold v c = c\<lparr>HealthCheck := (HealthCheck c)\<lparr>cfg_FaultyThreshold := v\<rparr>\<rparr>"
definition WithHealthCheckMaxFaultyFraction :: "rat \<Rightarrow> Opt" where
  "WithHealthCheckMaxFaultyFraction v c = c\<lparr>HealthCheck := (HealthCheck c)\<lparr>MaxFaultyFraction := v\<rparr>\<rparr>"
definition WithHedgerMinHedgeDelay :: "duration \<Rightarrow> Opt" where
  "WithHedgerMinHedgeDelay d c = c\<lparr>Hedger := (Hedger c)\<lparr>MinHedgeDelay := d\<rparr>\<rparr>"
definition WithHedgerMaxHedgeAgents :: "int \<Rightarrow> Opt" where
  "WithHedgerMaxHedgeAgents n c = c\<lparr>Hedger := (Hedger c)\<lparr>MaxHedgeAgents := n\<rparr>\<rparr>"
definition WithDemoterProbeInterval :: "duration \<Rightarrow> Opt" where
  "WithDemoterProbeInterval d c = c\<lparr>Demoter := (Demoter c)\<lparr>ProbeInterval := d\<rparr>\<rparr>"
definition WithClusterStatsTTL :: "duration \<Rightarrow> Opt" where
  "WithClusterStatsTTL d c = c\<lparr>ClusterStatsTTL := d\<rparr>"
definition WithMetadataRefreshInterval :: "duration \<Rightarrow> Opt" where
  "WithMetadataRefreshInterval d c = c\<lparr>MetadataRefreshInterval := d\<rparr>"
definition WithOnDemandMetadataRefreshInterval :: "duration \<Rightarrow> Opt" where
  "WithOnDemandMetadataRefreshInterval d c = c\<lparr>OnDemandMetadataRefreshInterval := d\<rparr>"
definition WithDialer :: "handle option \<Rightarrow> Opt" where
  "WithDialer fn c = c\<lparr>Dialer := fn\<rparr>"

definition NewConfig :: "Opt list \<Rightarrow> Config" where
  "NewConfig opts = foldl (\<lambda>c opt. opt c) DefaultConfig opts"

section \<open>Validation\<close>

definition HealthCheck_Validate :: "HealthCheckConfig \<Rightarrow> goerror option" where
  "HealthCheck_Validate c =
     (if SlowMultiplier c < 1 then Some (GoError ''health check slow multiplier must be >= 1'')
      else if MaxSlowFraction c < 0 \<or> 1 < MaxSlowFraction c
      then Some (GoError ''health check max slow fraction must be between 0 and 1'')
      else if cfg_FaultyThreshold c \<le> 0 \<or> 1 < cfg_FaultyThreshold c
      then Some (GoError ''health check faulty threshold must be greater than 0 and at most 1'')
      else if MaxFaultyFraction c < 0 \<or> 1 < MaxFaultyFraction c
      then Some (GoError ''health check max faulty fraction must be between 0 and 1'')
      else None)"

definition Demoter_Validate :: "DemoterConfig \<Rightarrow> goerror option" where
  "Demoter_Validate c =
     (if ProbeInterval c \<le> 0 then Some (GoError ''demoter probe interval must be positive'') else None)"

definition DirectProducer_Validate :: "KafkaDirectProducerConfig \<Rightarrow> goerror option" where
  "DirectProducer_Validate c =
     (if ProduceRequestTimeout c \<le> 0 then Some (GoError ''produce request timeout must be positive'')
      else if ProduceRequestTimeoutOverhead c \<le> 0
      then Some (GoError ''produce request timeout overhead must be positive'')
      else None)"

definition Validate :: "Config \<Rightarrow> goerror option" where
  "Validate c =
     (if Address c = [] then Some (GoError ''at least one broker address must be configured'')
      else if Topic c = [] then Some (GoError ''topic must not be empty'')
      else if DialTimeout c < 0 then Some (GoError ''dial timeout must be non-negative'')
      else if WriteTimeout c \<le> 0 then Some (GoError ''write timeout must be positive'')
      else if BatchMaxBytes c \<le> 0 then Some (GoError ''batch max bytes must be positive'')
      else if batchMaxBytesCeiling < BatchMaxBytes c
      then Some (GoErrorf ''batch max bytes must not exceed %d'' [FInt batchMaxBytesCeiling])
      else if Linger c < 0 then Some (GoError ''linger must be non-negative'')
      else if TLSEnabled c \<and> TLSConfig c = None
      then Some (GoError ''TLS config must be set when TLS is enabled'')
      else case HealthCheck_Validate (HealthCheck c) of
        Some err \<Rightarrow> Some (Errorf ''health check: '' err [])
      | None \<Rightarrow>
      if MinHedgeDelay (Hedger c) < 0 then Some (GoError ''hedge min delay must be non-negative'')
      else if MaxHedgeAgents (Hedger c) < 1 then Some (GoError ''hedge max agents must be >= 1'')
      else case Demoter_Validate (Demoter c) of
        Some err \<Rightarrow> Some (Errorf ''demoter: '' err [])
      | None \<Rightarrow>
      if ClusterStatsTTL c \<le> 0 then Some (GoError ''cluster stats TTL must be positive'')
      else if MetadataRefreshInterval c \<le> 0
      then Some (GoError ''metadata refresh interval must be positive'')
      else if OnDemandMetadataRefreshInterval c \<le> 0
      then Some (GoError ''on-demand metadata refresh interval must be positive'')
      else if MetadataRefreshInterval c < OnDemandMetadataRefreshInterval c
      then Some (GoError ''on-demand metadata refresh interval must not exceed metadata refresh interval'')
      else case DirectProducer_Validate (DirectProducer c) of
        Some err \<Rightarrow> Some (Errorf ''direct producer: '' err [])
      | None \<Rightarrow>
      let attempt = i64 (ProduceRequestTimeout (DirectProducer c) + ProduceRequestTimeoutOverhead (DirectProducer c))
      in if WriteTimeout c < attempt
         then Some (GoErrorf ''write timeout (%s) must be at least the produce request timeout plus overhead (%s)''
                [FInt (WriteTimeout c), FInt attempt])
         else None)"

section \<open>Properties\<close>

text \<open>What the components below the client may rely on once \<open>Validate\<close> has passed.\<close>

definition usable_health :: "HealthCheckConfig \<Rightarrow> bool" where
  "usable_health c \<longleftrightarrow> 1 \<le> SlowMultiplier c \<and> 0 \<le> MaxSlowFraction c \<and> MaxSlowFraction c \<le> 1 \<and>
     0 < cfg_FaultyThreshold c \<and> cfg_FaultyThreshold c \<le> 1 \<and> 0 \<le> MaxFaultyFraction c \<and> MaxFaultyFraction c \<le> 1"

definition usable_config :: "Config \<Rightarrow> bool" where
  "usable_config c \<longleftrightarrow> Address c \<noteq> [] \<and> Topic c \<noteq> [] \<and> 0 \<le> DialTimeout c \<and> 0 < WriteTimeout c \<and>
     0 < BatchMaxBytes c \<and> BatchMaxBytes c \<le> batchMaxBytesCeiling \<and> 0 \<le> Linger c \<and>
     (TLSEnabled c \<longrightarrow> TLSConfig c \<noteq> None) \<and> usable_health (HealthCheck c) \<and>
     0 \<le> MinHedgeDelay (Hedger c) \<and> 1 \<le> MaxHedgeAgents (Hedger c) \<and> 0 < ProbeInterval (Demoter c) \<and>
     0 < ClusterStatsTTL c \<and> 0 < OnDemandMetadataRefreshInterval c \<and>
     OnDemandMetadataRefreshInterval c \<le> MetadataRefreshInterval c \<and>
     0 < ProduceRequestTimeout (DirectProducer c) \<and> 0 < ProduceRequestTimeoutOverhead (DirectProducer c) \<and>
     ProduceRequestTimeout (DirectProducer c) + ProduceRequestTimeoutOverhead (DirectProducer c) \<le> WriteTimeout c"

lemma HealthCheck_Validate_None: "HealthCheck_Validate c = None \<longleftrightarrow> usable_health c"
  by (auto simp: HealthCheck_Validate_def usable_health_def)



text \<open>
  The defaults are complete but for the two required settings: setting an address and a topic
  on the default configuration validates, and leaving either of them empty does not.
\<close>

lemma defaults_need_only_address_and_topic:
  "Validate (NewConfig [WithAddress addrs, WithTopic topic]) = None \<longleftrightarrow> addrs \<noteq> [] \<and> topic \<noteq> []"
proof -
  have "f64 (3 / 10) \<le> 1" "0 \<le> f64 (3 / 10)" "0 < f64 (2 / 10)" "f64 (2 / 10) \<le> 1" by code_simp+
  then have "usable_health (HealthCheck DefaultConfig)" by (simp add: DefaultConfig_def usable_health_def)
  moreover have "HealthCheck (NewConfig [WithAddress addrs, WithTopic topic]) = HealthCheck DefaultConfig"
    by (simp add: NewConfig_def WithAddress_def WithTopic_def)
  ultimately have "HealthCheck_Validate (HealthCheck (NewConfig [WithAddress addrs, WithTopic topic])) = None"
    by (simp add: HealthCheck_Validate_None)
  then show ?thesis
    by (auto simp: Validate_def NewConfig_def DefaultConfig_def WithAddress_def WithTopic_def Demoter_Validate_def
        DirectProducer_Validate_def i64_id Let_def)
qed

end
