(* ===== verification/Demoter_Policy.thy ===== *)
theory Demoter_Policy
  imports Partition_Assignment Cached_Stats Client_Config
begin

text \<open>
  \<open>pkg/wgo/demoter.go\<close>: the wrapper around a strategy that routes around faulty agents and probes
  them now and then. The two reads of the statistics tracker are functions of the state it is in
  when a look-up starts; each critical section of \<open>lastDemotedProbeMu\<close> is one update of the map. The
  theory gives the look-up's result in closed form, shows that it keeps the contract the hedger
  relies on (locale \<open>candidate_source\<close>), and bounds how often a demoted agent is probed.
\<close>

section \<open>State\<close>

datatype demotionSuppressionReason =
    demotionNotSuppressed
  | demotionSuppressedNoClusterStats
  | demotionSuppressedManyFaultyAgents
  | demotionSuppressedManyFaultyAgentsSmallCluster

record AgentStatsReader =
  r_AgentStats :: "instant \<Rightarrow> node_id \<Rightarrow> AgentStats option"
  r_ClusterStats :: "instant \<Rightarrow> rat \<Rightarrow> rat \<Rightarrow> ClusterStats option"

definition reader_of :: "CachedAgentStatsTracker \<Rightarrow> AgentStatsReader" where
  "reader_of w = \<lparr>r_AgentStats = cached_AgentStats w,
                  r_ClusterStats = (\<lambda>now mul thr. snd (cached_ClusterStats w now mul thr))\<rparr>"

record Demoter =
  d_inner :: candidates_fun
  d_tracker :: AgentStatsReader
  d_healthCfg :: HealthCheckConfig
  d_demoterCfg :: DemoterConfig
  lastDemotedProbe :: "(node_id, instant) gomap"
  transitions_demoted :: int
  transitions_restored :: int

definition NewDemoter :: "candidates_fun \<Rightarrow> AgentStatsReader \<Rightarrow> HealthCheckConfig \<Rightarrow> DemoterConfig \<Rightarrow> Demoter" where
  "NewDemoter inner tracker health cfg =
     \<lparr>d_inner = inner, d_tracker = tracker, d_healthCfg = health, d_demoterCfg = cfg, lastDemotedProbe = [],
      transitions_demoted = 0, transitions_restored = 0\<rparr>"

section \<open>Classification\<close>

definition maxFractionFloor :: "rat \<Rightarrow> int \<Rightarrow> rat" where
  "maxFractionFloor configured contributors =
     (if contributors \<le> 0 then configured else max configured (f64_div 1 (f64_of_int contributors)))"

definition isDemotionSuppressed ::
  "HealthCheckConfig \<Rightarrow> ClusterStats option \<Rightarrow> bool \<times> demotionSuppressionReason" where
  "isDemotionSuppressed health clusterStats =
     (case clusterStats of
        None \<Rightarrow> (True, demotionSuppressedNoClusterStats)
      | Some cs \<Rightarrow>
          let floor = maxFractionFloor (MaxFaultyFraction health) (FaultyContributorsCount cs)
          in if FaultyFraction cs \<le> floor then (False, demotionNotSuppressed)
             else if MaxFaultyFraction health < floor
             then (True, demotionSuppressedManyFaultyAgentsSmallCluster)
             else (True, demotionSuppressedManyFaultyAgents))"

definition isDemoted :: "Demoter \<Rightarrow> instant \<Rightarrow> ClusterStats option \<Rightarrow> node_id \<Rightarrow> Demoter \<times> bool" where
  "isDemoted d now clusterStats nodeID =
     (case clusterStats of
        None \<Rightarrow> (d, False)
      | Some cs \<Rightarrow>
          (case r_AgentStats (d_tracker d) now nodeID of
             None \<Rightarrow> (d, False)
           | Some stats \<Rightarrow>
               let wasDemoted = map_of (lastDemotedProbe d) nodeID \<noteq> None;
                   minRequests = (if wasDemoted then 1 else errorRateMinRequests cs);
                   isFaulty = (minRequests \<le> RequestCount stats \<and> FaultyThreshold cs < ErrorRate stats)
               in if isFaulty \<and> \<not> wasDemoted
                  then (d\<lparr>lastDemotedProbe := AList.update nodeID zero_time (lastDemotedProbe d),
                          transitions_demoted := transitions_demoted d + 1\<rparr>, isFaulty)
                  else if wasDemoted \<and> \<not> isFaulty
                  then (d\<lparr>lastDemotedProbe := AList.delete nodeID (lastDemotedProbe d),
                          transitions_restored := transitions_restored d + 1\<rparr>, isFaulty)
                  else (d, isFaulty)))"

definition shouldProbe :: "Demoter \<Rightarrow> instant \<Rightarrow> node_id \<Rightarrow> Demoter \<times> bool" where
  "shouldProbe d now nodeID =
     (if time_sub now (get_or zero_time (lastDemotedProbe d) nodeID) < ProbeInterval (d_demoterCfg d)
      then (d, False)
      else (d\<lparr>lastDemotedProbe := AList.update nodeID now (lastDemotedProbe d)\<rparr>, True))"

section \<open>The look-up\<close>

text \<open>The counting loop over one list of candidates: the non-demoted ones, and whether all are.\<close>

fun count_nonDemoted :: "Demoter \<Rightarrow> instant \<Rightarrow> ClusterStats option \<Rightarrow> Agent list \<Rightarrow> int \<Rightarrow> bool \<Rightarrow> Demoter \<times> int \<times> bool" where
  "count_nonDemoted d now cs [] nonDemoted noDemotedAgents = (d, nonDemoted, noDemotedAgents)"
| "count_nonDemoted d now cs (c # agents) nonDemoted noDemotedAgents =
     (let (d, dem) = isDemoted d now cs (NodeID c)
      in if \<not> dem then count_nonDemoted d now cs agents (nonDemoted + 1) noDemotedAgents
         else count_nonDemoted d now cs agents nonDemoted False)"

text \<open>The retries: the list holds the headroom of each.\<close>

fun gather ::
  "int list \<Rightarrow> Demoter \<Rightarrow> instant \<Rightarrow> ClusterStats option \<Rightarrow> topic \<Rightarrow> partition \<Rightarrow> int
   \<Rightarrow> Agent list \<times> routeOutcome \<times> bool \<Rightarrow> Demoter \<times> Agent list \<times> routeOutcome \<times> bool" where
  "gather [] d now cs topic part maxCandidates found = (d, found)"
| "gather (extra # retries) d now cs topic part maxCandidates found =
     (let asked = maxCandidates + extra;
          (agents, route) = d_inner d topic part asked;
          (d, nonDemoted, noDemotedAgents) = count_nonDemoted d now cs agents 0 True
      in if maxCandidates \<le> nonDemoted \<or> int (length agents) < asked
         then (d, agents, route, noDemotedAgents)
         else gather retries d now cs topic part maxCandidates (agents, route, noDemotedAgents))"

definition retry_extras :: "int list" where
  "retry_extras = map (\<lambda>retry. 2 * 2 ^ retry) [0..<6]"

fun build_candidates ::
  "Demoter \<Rightarrow> instant \<Rightarrow> ClusterStats option \<Rightarrow> int \<Rightarrow> Agent list \<Rightarrow> Agent list \<Rightarrow> Demoter \<times> Agent list" where
  "build_candidates d now cs maxCandidates [] candidates = (d, candidates)"
| "build_candidates d now cs maxCandidates (agent # agents) candidates =
     (if maxCandidates \<le> int (length candidates) then (d, candidates)
      else let (d, dem) = isDemoted d now cs (NodeID agent)
           in if \<not> dem then build_candidates d now cs maxCandidates agents (candidates @ [agent])
              else if candidates \<noteq> [] then build_candidates d now cs maxCandidates agents candidates
              else let (d, probe) = shouldProbe d now (NodeID agent)
                   in if \<not> probe then build_candidates d now cs maxCandidates agents candidates
                      else build_candidates d now cs maxCandidates agents
                             (candidates @ [cloneWithState agent AgentStateDemoted]))"

definition demoter_candidatesWithRoute ::
  "Demoter \<Rightarrow> instant \<Rightarrow> topic \<Rightarrow> partition \<Rightarrow> int \<Rightarrow> Demoter \<times> Agent list \<times> routeOutcome" where
  "demoter_candidatesWithRoute d now topic part maxCandidates =
     (if maxCandidates \<le> 0 then (d, [], routeUnclassified)
      else
        let cs = r_ClusterStats (d_tracker d) now (SlowMultiplier (d_healthCfg d)) (cfg_FaultyThreshold (d_healthCfg d))
        in if fst (isDemotionSuppressed (d_healthCfg d) cs)
           then (d, d_inner d topic part maxCandidates)
           else
             let (d, agents, route, noDemotedAgents) =
                   gather retry_extras d now cs topic part maxCandidates ([], routeUnclassified, False)
             in if agents = [] then (d, [], route)
                else if noDemotedAgents then (d, take (nat maxCandidates) agents, route)
                else
                  let (d, candidates) = build_candidates d now cs maxCandidates agents []
                  in if candidates \<noteq> [] then (d, candidates, route)
                     else let forced = cloneWithState (hd agents) AgentStateDemoted
                          in (d\<lparr>lastDemotedProbe := AList.update (NodeID forced) now (lastDemotedProbe d)\<rparr>,
                              [forced], route))"

definition demoter_Candidates ::
  "Demoter \<Rightarrow> instant \<Rightarrow> topic \<Rightarrow> partition \<Rightarrow> int \<Rightarrow> Demoter \<times> Agent list" where
  "demoter_Candidates d now topic part maxCandidates =
     (let (d, agents, _) = demoter_candidatesWithRoute d now topic part maxCandidates in (d, agents))"

section \<open>Refresh and gauges\<close>

definition demoter_Refresh :: "Demoter \<Rightarrow> node_id list \<Rightarrow> Demoter" where
  "demoter_Refresh d currentAgents =
     d\<lparr>lastDemotedProbe := foldl (\<lambda>m e. if fst e \<notin> set currentAgents then AList.delete (fst e) m else m)
         (lastDemotedProbe d) (lastDemotedProbe d)\<rparr>"

definition demotedAgentsCount :: "Demoter \<Rightarrow> instant \<Rightarrow> rat" where
  "demotedAgentsCount d now =
     (let cs = r_ClusterStats (d_tracker d) now (SlowMultiplier (d_healthCfg d)) (cfg_FaultyThreshold (d_healthCfg d))
      in if fst (isDemotionSuppressed (d_healthCfg d) cs) then 0 else f64_of_int (int (length (lastDemotedProbe d))))"

definition demotionSuppressedMetric_Collect :: "Demoter \<Rightarrow> instant \<Rightarrow> (demotionSuppressionReason \<times> rat) list" where
  "demotionSuppressedMetric_Collect d now =
     (let cs = r_ClusterStats (d_tracker d) now (SlowMultiplier (d_healthCfg d)) (cfg_FaultyThreshold (d_healthCfg d));
          actualReason = snd (isDemotionSuppressed (d_healthCfg d) cs)
      in map (\<lambda>reason. (reason, if reason = actualReason then 1 else 0))
           [demotionSuppressedNoClusterStats, demotionSuppressedManyFaultyAgents,
            demotionSuppressedManyFaultyAgentsSmallCluster])"

section \<open>Classification is stable within a look-up\<close>

text \<open>A tracker reports an agent only once it has seen requests of it.\<close>

definition counted_stats :: "AgentStatsReader \<Rightarrow> bool" where
  "counted_stats r \<longleftrightarrow> (\<forall>now n st. r_AgentStats r now n = Some st \<longrightarrow> 1 \<le> RequestCount st)"

definition classified :: "Demoter \<Rightarrow> instant \<Rightarrow> ClusterStats option \<Rightarrow> node_id \<Rightarrow> bool" where
  "classified d now cs n = snd (isDemoted d now cs n)"

text \<open>The parts of the state that no look-up changes.\<close>

definition same_setup :: "Demoter \<Rightarrow> Demoter \<Rightarrow> bool" where
  "same_setup d d' \<longleftrightarrow> d_inner d' = d_inner d \<and> d_tracker d' = d_tracker d \<and> d_healthCfg d' = d_healthCfg d \<and>
     d_demoterCfg d' = d_demoterCfg d"

lemma isDemoted_setup [simp]:
  "d_inner (fst (isDemoted d now cs n)) = d_inner d" "d_tracker (fst (isDemoted d now cs n)) = d_tracker d"
  "d_healthCfg (fst (isDemoted d now cs n)) = d_healthCfg d" "d_demoterCfg (fst (isDemoted d now cs n)) = d_demoterCfg d"
  by (simp_all add: isDemoted_def Let_def split: option.split)

lemma isDemoted_probe:
  "map_of (lastDemotedProbe (fst (isDemoted d now cs n))) m =
     (if m = n \<and> cs \<noteq> None \<and> r_AgentStats (d_tracker d) now n \<noteq> None
      then if classified d now cs n
           then Some (case map_of (lastDemotedProbe d) n of Some t \<Rightarrow> t | None \<Rightarrow> zero_time)
           else None
      else map_of (lastDemotedProbe d) m)"
  by (auto simp: isDemoted_def classified_def Let_def split: option.splits)

lemma classified_stable:
  assumes "counted_stats (d_tracker d)"
  shows "classified (fst (isDemoted d now cs m)) now cs n = classified d now cs n"
proof (cases "cs = None \<or> r_AgentStats (d_tracker d) now n = None \<or> m \<noteq> n")
  case True
  then show ?thesis
    using isDemoted_probe [of d now cs m n] by (auto simp: classified_def isDemoted_def [of _ _ _ n] Let_def split: option.split)
next
  case False
  then obtain c st where c: "cs = Some c" and st: "r_AgentStats (d_tracker d) now n = Some st" and "m = n" by auto
  moreover have "1 \<le> RequestCount st" using assms st by (auto simp: counted_stats_def)
  ultimately show ?thesis
    by (auto simp: classified_def isDemoted_def Let_def)
qed

text \<open>\<open>d\<close> differs from \<open>d0\<close> only by classifications that \<open>d0\<close> already implies.\<close>

abbreviation last_probe :: "Demoter \<Rightarrow> node_id \<Rightarrow> instant" where
  "last_probe d n \<equiv> get_or zero_time (lastDemotedProbe d) n"

definition settles :: "instant \<Rightarrow> ClusterStats option \<Rightarrow> Demoter \<Rightarrow> Demoter \<Rightarrow> bool" where
  "settles now cs d0 d \<longleftrightarrow> same_setup d0 d \<and> counted_stats (d_tracker d0) \<and>
     (\<forall>n. classified d now cs n = classified d0 now cs n) \<and>
     (\<forall>n. classified d0 now cs n \<longrightarrow> last_probe d n = last_probe d0 n)"

lemma settles_refl: "counted_stats (d_tracker d) \<Longrightarrow> settles now cs d d"
  by (simp add: settles_def same_setup_def)

lemma settles_isDemoted:
  assumes "settles now cs d0 d" and "isDemoted d now cs n = (d', b)"
  shows "settles now cs d0 d' \<and> b = classified d0 now cs n"
proof -
  have d': "d' = fst (isDemoted d now cs n)" and b: "b = classified d now cs n"
    using assms(2) by (simp_all add: classified_def)
  have "counted_stats (d_tracker d)" using assms(1) by (simp add: settles_def same_setup_def)
  then have "classified d' now cs m = classified d now cs m" for m
    unfolding d' by (rule classified_stable)
  moreover have "last_probe d' m = last_probe d m" if "classified d now cs m" for m
    using that isDemoted_probe [of d now cs n m] by (auto simp: d' get_or_def split: option.splits if_splits)
  ultimately show ?thesis
    using assms(1) b by (simp add: settles_def same_setup_def d')
qed

lemma settles_count:
  assumes "settles now cs d0 d" and "count_nonDemoted d now cs agents k nodem = (d', k', nodem')"
  shows "settles now cs d0 d' \<and> k' = k + int (length (filter (\<lambda>a. \<not> classified d0 now cs (NodeID a)) agents)) \<and>
    (nodem' \<longleftrightarrow> nodem \<and> (\<forall>a\<in>set agents. \<not> classified d0 now cs (NodeID a)))"
  using assms
proof (induction agents arbitrary: d k nodem)
  case (Cons a agents)
  obtain d1 b where i: "isDemoted d now cs (NodeID a) = (d1, b)" by fastforce
  have s: "settles now cs d0 d1" "b = classified d0 now cs (NodeID a)" using settles_isDemoted [OF Cons.prems(1) i] by auto
  then show ?case
    using Cons.IH [OF s(1), of "k + 1" nodem] Cons.IH [OF s(1), of k False] Cons.prems(2) i
    by (auto split: if_splits)
qed simp

text \<open>What the retries end with: one look-up of the inner strategy and its classification.\<close>

lemma settles_gather:
  assumes "settles now cs d0 d" and "gather extras d now cs topic part m found = (d', agents, route, nodem)"
    and "extras \<noteq> []"
  shows "settles now cs d0 d' \<and>
    (\<exists>extra\<in>set extras. d_inner d0 topic part (m + extra) = (agents, route) \<and>
       (m \<le> int (length (filter (\<lambda>a. \<not> classified d0 now cs (NodeID a)) agents)) \<or>
        int (length agents) < m + extra \<or> extra = last extras)) \<and>
    (nodem \<longleftrightarrow> (\<forall>a\<in>set agents. \<not> classified d0 now cs (NodeID a)))"
  using assms
proof (induction extras arbitrary: d found)
  case (Cons extra extras)
  obtain as r where i: "d_inner d topic part (m + extra) = (as, r)" by fastforce
  obtain d1 k b where c: "count_nonDemoted d now cs as 0 True = (d1, k, b)" by (metis prod_cases3)
  have inner: "d_inner d = d_inner d0" using Cons.prems(1) by (simp add: settles_def same_setup_def)
  note s = settles_count [OF Cons.prems(1) c]
  show ?case
  proof (cases "m \<le> k \<or> int (length as) < m + extra \<or> extras = []")
    case True
    then have "d' = d1 \<and> agents = as \<and> route = r \<and> nodem = b" using Cons.prems(2) i c by (auto split: if_splits)
    moreover have "m \<le> k \<or> int (length as) < m + extra \<or> extra = last (extra # extras)" using True by auto
    ultimately show ?thesis using s i inner by auto
  next
    case False
    then have "gather extras d1 now cs topic part m (as, r, b) = (d', agents, route, nodem)"
      using Cons.prems(2) i c by simp
    then show ?thesis using Cons.IH [of d1] s False by auto
  qed
qed simp

section \<open>The look-up in closed form\<close>

abbreviation demoted_agent :: "Agent \<Rightarrow> Agent" where "demoted_agent a \<equiv> cloneWithState a AgentStateDemoted"

lemma NodeID_cloneWithState [simp]: "NodeID (cloneWithState a st) = NodeID a"
  by (simp add: cloneWithState_def)

definition probe_due :: "Demoter \<Rightarrow> instant \<Rightarrow> node_id \<Rightarrow> bool" where
  "probe_due d now n \<longleftrightarrow> ProbeInterval (d_demoterCfg d) \<le> time_sub now (last_probe d n)"

text \<open>
  With \<open>bad\<close> the demoted agents and \<open>due\<close> those whose probe interval has passed: the first due
  agent before any healthy one takes the primary slot; the healthy agents follow in their order;
  if nothing is left, the natural primary is probed anyway.
\<close>

definition demoter_order :: "(node_id \<Rightarrow> bool) \<Rightarrow> (node_id \<Rightarrow> bool) \<Rightarrow> Agent list \<Rightarrow> Agent list" where
  "demoter_order bad due agents =
     (let healthy = filter (\<lambda>a. \<not> bad (NodeID a)) agents
      in case find (\<lambda>a. due (NodeID a)) (takeWhile (\<lambda>a. bad (NodeID a)) agents) of
           Some a \<Rightarrow> demoted_agent a # healthy
         | None \<Rightarrow> if healthy \<noteq> [] then healthy
                   else if agents = [] then [] else [demoted_agent (hd agents)])"

definition demoter_spec :: "(node_id \<Rightarrow> bool) \<Rightarrow> (node_id \<Rightarrow> bool) \<Rightarrow> int \<Rightarrow> Agent list \<Rightarrow> Agent list" where
  "demoter_spec bad due m agents = take (nat m) (demoter_order bad due agents)"

lemma build_candidates_rest:
  assumes "settles now cs d0 d" and "build_candidates d now cs m agents cands = (d', out)" and "cands \<noteq> []"
    and "int (length cands) \<le> m"
  shows "settles now cs d0 d' \<and>
    out = take (nat m) (cands @ filter (\<lambda>a. \<not> classified d0 now cs (NodeID a)) agents)"
  using assms
proof (induction agents arbitrary: d cands)
  case (Cons a agents)
  obtain d1 b where i: "isDemoted d now cs (NodeID a) = (d1, b)" by fastforce
  have s: "settles now cs d0 d1" "b = classified d0 now cs (NodeID a)" using settles_isDemoted [OF Cons.prems(1) i] by auto
  show ?case
  proof (cases "m \<le> int (length cands)")
    case True
    then have "nat m = length cands" using Cons.prems(4) by simp
    then show ?thesis using Cons.prems(1,2) True by auto
  next
    case False
    then show ?thesis
      using Cons.IH [OF s(1), of "cands @ [a]"] Cons.IH [OF s(1), of cands] Cons.prems(2,3) i s(2)
      by (auto split: if_splits)
  qed
qed auto

lemma classified_cong:
  "d_tracker d' = d_tracker d \<Longrightarrow> map_of (lastDemotedProbe d') n = None \<longleftrightarrow> map_of (lastDemotedProbe d) n = None \<Longrightarrow>
   classified d' now cs n = classified d now cs n"
  by (simp add: classified_def isDemoted_def Let_def split: option.split)

text \<open>Stamping the probe of an agent that was just classified as demoted.\<close>

abbreviation stamp :: "Demoter \<Rightarrow> instant \<Rightarrow> node_id \<Rightarrow> Demoter" where
  "stamp d now n \<equiv> d\<lparr>lastDemotedProbe := AList.update n now (lastDemotedProbe d)\<rparr>"

lemma classified_registered:
  assumes "isDemoted d now cs n = (d', True)"
  shows "map_of (lastDemotedProbe d') n \<noteq> None"
  using assms by (auto simp: isDemoted_def Let_def split: option.splits if_splits)

lemma settles_stamp:
  assumes "settles now cs d0 d" and "isDemoted d now cs n = (d1, True)"
  shows "settles now cs (stamp d1 now n) (stamp d1 now n) \<and> same_setup d0 (stamp d1 now n) \<and>
    (\<forall>m. classified (stamp d1 now n) now cs m = classified d0 now cs m) \<and>
    (\<forall>m. classified d0 now cs m \<longrightarrow> last_probe (stamp d1 now n) m = (if m = n then now else last_probe d0 m))"
proof -
  have s: "settles now cs d0 d1" using settles_isDemoted [OF assms] by blast
  have "classified (stamp d1 now n) now cs m = classified d1 now cs m" for m
    using classified_registered [OF assms(2)] by (intro classified_cong) auto
  then show ?thesis using s by (simp add: settles_def same_setup_def)
qed

lemma shouldProbe_settled:
  assumes "settles now cs d0 d" and "classified d0 now cs n"
  shows "shouldProbe d now n = (if probe_due d0 now n then (stamp d now n, True) else (d, False))"
proof -
  have "last_probe d n = last_probe d0 n" "d_demoterCfg d = d_demoterCfg d0"
    using assms by (simp_all add: settles_def same_setup_def)
  then show ?thesis by (auto simp: shouldProbe_def probe_due_def)
qed

lemma build_candidates_first:
  assumes "settles now cs d0 d" and "build_candidates d now cs m agents [] = (d', out)" and "0 < m"
  shows "same_setup d0 d' \<and> (\<forall>n. classified d' now cs n = classified d0 now cs n) \<and>
    (let healthy = filter (\<lambda>a. \<not> classified d0 now cs (NodeID a)) agents;
         probe = find (\<lambda>a. probe_due d0 now (NodeID a)) (takeWhile (\<lambda>a. classified d0 now cs (NodeID a)) agents)
     in out = take (nat m) (case probe of Some a \<Rightarrow> demoted_agent a # healthy | None \<Rightarrow> healthy) \<and>
        (\<forall>n. classified d0 now cs n \<longrightarrow>
           last_probe d' n = (if \<exists>a. probe = Some a \<and> NodeID a = n then now else last_probe d0 n)))"
  using assms(1,2)
proof (induction agents arbitrary: d)
  case Nil
  then show ?case by (simp add: settles_def)
next
  case (Cons a agents)
  obtain d1 b where i: "isDemoted d now cs (NodeID a) = (d1, b)" by fastforce
  have s: "settles now cs d0 d1" "b = classified d0 now cs (NodeID a)" using settles_isDemoted [OF Cons.prems(1) i] by auto
  show ?case
  proof (cases b)
    case False
    then have "build_candidates d1 now cs m agents [a] = (d', out)" using Cons.prems(2) assms(3) i by simp
    then show ?thesis using build_candidates_rest [OF s(1), of m agents "[a]"] assms(3) s(2) False by (simp add: settles_def)
  next
    case True
    show ?thesis
    proof (cases "probe_due d0 now (NodeID a)")
      case due: True
      let ?d2 = "stamp d1 now (NodeID a)"
      have st: "settles now cs ?d2 ?d2" "same_setup d0 ?d2" "\<And>n. classified ?d2 now cs n = classified d0 now cs n"
        "\<And>n. classified d0 now cs n \<Longrightarrow> last_probe ?d2 n = (if n = NodeID a then now else last_probe d0 n)"
        using settles_stamp [OF Cons.prems(1) i [unfolded eqTrueI [OF True]]] by blast+
      have "build_candidates ?d2 now cs m agents [demoted_agent a] = (d', out)"
        using Cons.prems(2) assms(3) i True due s shouldProbe_settled [OF s(1), of "NodeID a"] by simp
      then have r: "settles now cs ?d2 d'"
        "out = take (nat m) ([demoted_agent a] @ filter (\<lambda>a. \<not> classified ?d2 now cs (NodeID a)) agents)"
        using build_candidates_rest [OF st(1), of m agents "[demoted_agent a]" d' out] assms(3)
        by (simp_all only: list.distinct list.size of_nat_Suc of_nat_0 not_False_eq_True)
      have "same_setup d0 d'" "\<forall>n. classified d' now cs n = classified d0 now cs n"
        "\<And>n. classified d0 now cs n \<Longrightarrow> last_probe d' n = (if NodeID a = n then now else last_probe d0 n)"
        using r(1) st(2-) unfolding settles_def same_setup_def by simp_all
      then show ?thesis using r(2) s(2) True due st(3) by simp
    next
      case False
      then have "build_candidates d1 now cs m agents [] = (d', out)"
        using Cons.prems(2) assms(3) i True s shouldProbe_settled [OF s(1), of "NodeID a"] by simp
      then show ?thesis using Cons.IH [OF s(1)] s(2) True False by simp
    qed
  qed
qed

text \<open>The statistics the look-up judges by.\<close>

abbreviation lookup_stats :: "Demoter \<Rightarrow> instant \<Rightarrow> ClusterStats option" where
  "lookup_stats d now \<equiv> r_ClusterStats (d_tracker d) now (SlowMultiplier (d_healthCfg d)) (cfg_FaultyThreshold (d_healthCfg d))"

lemma retry_extras_eq: "retry_extras = [2, 4, 8, 16, 32, 64]"
  by code_simp

lemma demoter_lookup:
  assumes "counted_stats (d_tracker d)" and "0 < m" and cs: "cs = lookup_stats d now"
    and "\<not> fst (isDemotionSuppressed (d_healthCfg d) cs)"
    and look: "demoter_candidatesWithRoute d now topic part m = (d', out, route)"
  obtains agents extra where "d_inner d topic part (m + extra) = (agents, route)" and "extra \<in> set retry_extras"
    and "m \<le> int (length (filter (\<lambda>a. \<not> classified d now cs (NodeID a)) agents)) \<or> int (length agents) < m + extra \<or> extra = 64"
    and "out = demoter_spec (classified d now cs) (probe_due d now) m agents"
    and "same_setup d d'"
    and "\<forall>n as. out = \<lparr>NodeID = n, State = AgentStateDemoted\<rparr> # as \<and> (\<forall>a\<in>set agents. State a = AgentStateHealthy) \<longrightarrow>
       last_probe d' n = now"
proof -
  obtain d1 agents r nodem where g: "gather retry_extras d now cs topic part m ([], routeUnclassified, False) = (d1, agents, r, nodem)"
    by (metis prod_cases4)
  have s: "settles now cs d d" using assms(1) by (rule settles_refl)
  obtain extra where e: "settles now cs d d1" "extra \<in> set retry_extras" "d_inner d topic part (m + extra) = (agents, r)"
    "m \<le> int (length (filter (\<lambda>a. \<not> classified d now cs (NodeID a)) agents)) \<or> int (length agents) < m + extra \<or> extra = 64"
    "nodem \<longleftrightarrow> (\<forall>a\<in>set agents. \<not> classified d now cs (NodeID a))"
    using settles_gather [OF s g] by (auto simp: retry_extras_eq)
  let ?bad = "classified d now cs" and ?healthy = "filter (\<lambda>a. \<not> classified d now cs (NodeID a)) agents"
  have run: "demoter_candidatesWithRoute d now topic part m =
      (if agents = [] then (d1, [], r) else if nodem then (d1, take (nat m) agents, r)
       else let (d, candidates) = build_candidates d1 now cs m agents []
            in if candidates \<noteq> [] then (d, candidates, r)
               else (stamp d now (NodeID (hd agents)), [demoted_agent (hd agents)], r))"
    unfolding demoter_candidatesWithRoute_def cs [symmetric] using assms(2,4) g
    by (simp add: Let_def cloneWithState_def split_beta)
  have setup1: "same_setup d d1" using e(1) by (simp add: settles_def)
  show ?thesis
  proof (cases "agents = [] \<or> nodem")
    case True
    then have "takeWhile (\<lambda>a. ?bad (NodeID a)) agents = []" "?healthy = agents"
      using e(5) by (auto simp: takeWhile_eq_Nil_iff filter_id_conv)
    moreover have o: "route = r" "d' = d1" "out = take (nat m) agents"
      using True run look by (cases "agents = []"; simp)+
    ultimately have "out = demoter_spec ?bad (probe_due d now) m agents" "route = r" "d' = d1" "out = take (nat m) agents"
      by (simp_all add: demoter_spec_def demoter_order_def Let_def)
    moreover have "x \<in> set agents" if "out = x # as" for x as
      using that o(3) by (metis in_set_takeD list.set_intros(1))
    then have "\<forall>n as. out = \<lparr>NodeID = n, State = AgentStateDemoted\<rparr> # as \<and> (\<forall>a\<in>set agents. State a = AgentStateHealthy) \<longrightarrow>
       last_probe d' n = now" by fastforce
    ultimately show ?thesis
      using e(2-4) setup1 by (intro that [of extra agents]) simp_all
  next
    case False
    obtain d2 cands where b: "build_candidates d1 now cs m agents [] = (d2, cands)" by fastforce
    define probe where "probe = find (\<lambda>a. probe_due d now (NodeID a)) (takeWhile (\<lambda>a. ?bad (NodeID a)) agents)"
    have f: "same_setup d d2" "cands = take (nat m) (case probe of Some a \<Rightarrow> demoted_agent a # ?healthy | None \<Rightarrow> ?healthy)"
      "\<And>n. ?bad n \<Longrightarrow> last_probe d2 n = (if \<exists>a. probe = Some a \<and> NodeID a = n then now else last_probe d n)"
      using build_candidates_first [OF e(1) b assms(2)] unfolding probe_def [symmetric] Let_def by blast+
    have bad_probe: "?bad (NodeID a)" if "probe = Some a" for a
    proof -
      have "a \<in> set (takeWhile (\<lambda>a. ?bad (NodeID a)) agents)"
        using that unfolding probe_def by (metis find_Some_iff nth_mem)
      then show ?thesis by (rule set_takeWhileD [THEN conjunct2])
    qed
    have o: "route = r" "out = demoter_spec ?bad (probe_due d now) m agents"
      "d' = (if cands \<noteq> [] then d2 else stamp d2 now (NodeID (hd agents)))"
      "cands \<noteq> [] \<Longrightarrow> out = cands" "cands = [] \<Longrightarrow> out = [demoted_agent (hd agents)]"
      using False run look b f(2) assms(2)
      by (auto simp: demoter_spec_def demoter_order_def probe_def [symmetric] Let_def split: option.splits if_splits)
    have "last_probe d' n = now" if out: "out = \<lparr>NodeID = n, State = AgentStateDemoted\<rparr> # as"
      and healthy: "\<forall>a\<in>set agents. State a = AgentStateHealthy" for n as
    proof (cases probe)
      case None
      have "cands = []"
      proof (rule ccontr)
        assume "cands \<noteq> []"
        then have "hd out \<in> set agents" using o(4) f(2) None by (metis filter_is_subset hd_in_set in_set_takeD option.simps(4) subsetD)
        then show False using out healthy by auto
      qed
      moreover have "NodeID (hd agents) = n"
        using o(5) [OF calculation] out by (cases "hd agents") (simp add: cloneWithState_def)
      ultimately show ?thesis using o(3) by simp
    next
      case (Some a)
      then have "cands \<noteq> []" "hd cands = demoted_agent a" using f(2) assms(2) by auto
      then have "demoted_agent a = \<lparr>NodeID = n, State = AgentStateDemoted\<rparr>" "d' = d2" using o(3,4) out by auto
      then have "NodeID a = n" "d' = d2" by (metis Agent.select_convs(1) NodeID_cloneWithState)+
      then show ?thesis using f(3) [OF bad_probe [OF Some]] Some by simp
    qed
    then show ?thesis
      using e(2-4) f(1) o(1-3) by (intro that [of extra agents]) (auto simp: same_setup_def)
  qed
qed

section \<open>The contract the hedger relies on\<close>

text \<open>
  A source of candidates with its own state: at most as many as asked for, all from the pool, no
  agent twice, and a demoted agent only in the primary slot. \<open>routable\<close> says when there is any.
\<close>

locale candidate_source =
  fixes lookup :: "'s \<Rightarrow> instant \<Rightarrow> topic \<Rightarrow> partition \<Rightarrow> int \<Rightarrow> 's \<times> Agent list"
    and pool :: "'s \<Rightarrow> node_id set"
    and routable :: "'s \<Rightarrow> topic \<Rightarrow> partition \<Rightarrow> bool"
    and invar :: "'s \<Rightarrow> bool"
  assumes lookup_invar: "invar s \<Longrightarrow> invar (fst (lookup s now topic part m))"
    and lookup_frame: "invar s \<Longrightarrow> pool (fst (lookup s now topic part m)) = pool s"
      "invar s \<Longrightarrow> routable (fst (lookup s now topic part m)) = routable s"
    and lookup_length: "invar s \<Longrightarrow> length (snd (lookup s now topic part m)) \<le> nat m"
    and lookup_pool: "invar s \<Longrightarrow> NodeID ` set (snd (lookup s now topic part m)) \<subseteq> pool s"
    and lookup_distinct: "invar s \<Longrightarrow> distinct (map NodeID (snd (lookup s now topic part m)))"
    and lookup_demoted: "invar s \<Longrightarrow> a \<in> set (tl (snd (lookup s now topic part m))) \<Longrightarrow> State a = AgentStateHealthy"
    and lookup_nonempty: "invar s \<Longrightarrow> 0 < m \<Longrightarrow> snd (lookup s now topic part m) \<noteq> [] \<longleftrightarrow> routable s topic part"
begin

text \<open>Any sequence of look-ups keeps the invariant, the pool and the routable partitions.\<close>

fun lookups :: "'s \<Rightarrow> (instant \<times> topic \<times> partition \<times> int) list \<Rightarrow> 's" where
  "lookups s [] = s"
| "lookups s ((now, topic, part, m) # qs) = lookups (fst (lookup s now topic part m)) qs"

lemma lookups_invar: "invar s \<Longrightarrow> invar (lookups s qs) \<and> pool (lookups s qs) = pool s \<and> routable (lookups s qs) = routable s"
  by (induction s qs rule: lookups.induct) (simp_all add: lookup_invar lookup_frame)

lemma always_routed:
  assumes "invar s" and "routable s topic part" and "0 < m"
  shows "\<exists>a as. snd (lookup (lookups s qs) now topic part m) = a # as \<and> NodeID a \<in> pool s \<and>
    (\<forall>b\<in>set as. State b = AgentStateHealthy \<and> NodeID b \<in> pool s \<and> NodeID b \<noteq> NodeID a)"
proof -
  have i: "invar (lookups s qs)" "pool (lookups s qs) = pool s" "routable (lookups s qs) = routable s"
    using lookups_invar [OF assms(1)] by auto
  obtain a as where l: "snd (lookup (lookups s qs) now topic part m) = a # as"
    using lookup_nonempty [OF i(1) assms(3)] assms(2) i(3) by (metis neq_Nil_conv)
  have "NodeID b \<noteq> NodeID a" if "b \<in> set as" for b
    using lookup_distinct [OF i(1), of now topic part m] that by (auto simp: l) (metis imageI)
  then show ?thesis
    using lookup_pool [OF i(1), of now topic part m] lookup_demoted [OF i(1), of _ now topic part m] i(2) l by auto
qed

end

section \<open>The closed form meets the contract\<close>

lemma demoter_order_cases:
  obtains (probe) b where "b \<in> set agents" "bad (NodeID b)" "due (NodeID b)"
      "demoter_order bad due agents = demoted_agent b # filter (\<lambda>a. \<not> bad (NodeID a)) agents"
  | (healthy) "demoter_order bad due agents = filter (\<lambda>a. \<not> bad (NodeID a)) agents"
      "filter (\<lambda>a. \<not> bad (NodeID a)) agents = [] \<Longrightarrow> agents = []"
  | (forced) "agents \<noteq> []" "\<forall>a\<in>set agents. bad (NodeID a)" "\<forall>a\<in>set agents. \<not> due (NodeID a)"
      "demoter_order bad due agents = [demoted_agent (hd agents)]"
proof (cases "find (\<lambda>a. due (NodeID a)) (takeWhile (\<lambda>a. bad (NodeID a)) agents)")
  case (Some b)
  then have "b \<in> set (takeWhile (\<lambda>a. bad (NodeID a)) agents)" "due (NodeID b)" by (metis find_Some_iff nth_mem)+
  then show ?thesis using Some set_takeWhileD [of b] by (intro probe [of b]) (auto simp: demoter_order_def Let_def)
next
  case None
  show ?thesis
  proof (cases "filter (\<lambda>a. \<not> bad (NodeID a)) agents = [] \<and> agents \<noteq> []")
    case True
    then have w: "takeWhile (\<lambda>a. bad (NodeID a)) agents = agents" by (simp add: filter_empty_conv)
    have "\<forall>a\<in>set agents. \<not> due (NodeID a)" using None unfolding w by (simp add: find_None_iff)
    moreover have "demoter_order bad due agents = [demoted_agent (hd agents)]"
      using True None unfolding demoter_order_def Let_def by simp
    ultimately show ?thesis using True by (intro forced) (auto simp: filter_empty_conv)
  next
    case False
    then show ?thesis using None by (intro healthy) (auto simp: demoter_order_def Let_def)
  qed
qed

lemma demoter_order_props:
  assumes "distinct (map NodeID agents)" and "\<forall>a\<in>set agents. State a = AgentStateHealthy"
  shows "NodeID ` set (demoter_order bad due agents) \<subseteq> NodeID ` set agents"
    and "distinct (map NodeID (demoter_order bad due agents))"
    and "demoter_order bad due agents = [] \<longleftrightarrow> agents = []"
    and "a \<in> set (tl (demoter_order bad due agents)) \<Longrightarrow> State a = AgentStateHealthy \<and> \<not> bad (NodeID a)"
proof -
  let ?h = "filter (\<lambda>a. \<not> bad (NodeID a)) agents"
  have dist: "distinct (map NodeID ?h)" using assms(1) by (rule distinct_map_filter)
  have tl: "b \<in> set (tl ?h) \<Longrightarrow> b \<in> set ?h" for b by (metis list.sel(2) list.set_sel(2))
  have "NodeID ` set (demoter_order bad due agents) \<subseteq> NodeID ` set agents \<and>
    distinct (map NodeID (demoter_order bad due agents)) \<and> (demoter_order bad due agents = [] \<longleftrightarrow> agents = []) \<and>
    (\<forall>b\<in>set (tl (demoter_order bad due agents)). b \<in> set ?h)"
  proof (rule demoter_order_cases [of agents bad due])
    fix b assume b: "b \<in> set agents" "bad (NodeID b)" and o: "demoter_order bad due agents = demoted_agent b # ?h"
    have "NodeID b \<notin> NodeID ` set ?h" using b(2) by auto
    moreover have "NodeID ` set ?h \<subseteq> NodeID ` set agents" by auto
    ultimately show ?thesis unfolding o using dist b(1) by auto
  next
    assume o: "demoter_order bad due agents = ?h" and "?h = [] \<Longrightarrow> agents = []"
    then have "?h = [] \<longleftrightarrow> agents = []" by auto
    moreover have "NodeID ` set ?h \<subseteq> NodeID ` set agents" by auto
    ultimately show ?thesis unfolding o using dist tl by blast
  next
    assume a: "agents \<noteq> []" and o: "demoter_order bad due agents = [demoted_agent (hd agents)]"
    then show ?thesis unfolding o by simp
  qed
  then show "NodeID ` set (demoter_order bad due agents) \<subseteq> NodeID ` set agents"
    "distinct (map NodeID (demoter_order bad due agents))" "demoter_order bad due agents = [] \<longleftrightarrow> agents = []"
    "a \<in> set (tl (demoter_order bad due agents)) \<Longrightarrow> State a = AgentStateHealthy \<and> \<not> bad (NodeID a)"
    using assms(2) by auto
qed

lemma demoter_spec_props:
  assumes "distinct (map NodeID agents)" and "\<forall>a\<in>set agents. State a = AgentStateHealthy" and "0 < m"
  shows "length (demoter_spec bad due m agents) \<le> nat m"
    and "NodeID ` set (demoter_spec bad due m agents) \<subseteq> NodeID ` set agents"
    and "distinct (map NodeID (demoter_spec bad due m agents))"
    and "demoter_spec bad due m agents = [] \<longleftrightarrow> agents = []"
    and "a \<in> set (tl (demoter_spec bad due m agents)) \<Longrightarrow> State a = AgentStateHealthy \<and> \<not> bad (NodeID a)"
proof -
  note p = demoter_order_props [OF assms(1,2), where bad = bad and due = due]
  show "length (demoter_spec bad due m agents) \<le> nat m" by (simp add: demoter_spec_def)
  show "NodeID ` set (demoter_spec bad due m agents) \<subseteq> NodeID ` set agents"
    using p(1) set_take_subset [of "nat m" "demoter_order bad due agents"] by (auto simp: demoter_spec_def)
  show "distinct (map NodeID (demoter_spec bad due m agents))"
    using p(2) by (metis demoter_spec_def distinct_take take_map)
  show "demoter_spec bad due m agents = [] \<longleftrightarrow> agents = []" using p(3) assms(3) by (simp add: demoter_spec_def)
  have sub: "a \<in> set (tl (take k xs)) \<Longrightarrow> a \<in> set (tl xs)" for k and xs :: "Agent list"
    by (cases xs; cases k) (auto dest: in_set_takeD)
  assume "a \<in> set (tl (demoter_spec bad due m agents))"
  then have "a \<in> set (tl (demoter_order bad due agents))" unfolding demoter_spec_def by (rule sub)
  then show "State a = AgentStateHealthy \<and> \<not> bad (NodeID a)" by (rule p(4))
qed

lemma demoter_nonpos: "m \<le> 0 \<Longrightarrow> demoter_candidatesWithRoute d now topic part m = (d, [], routeUnclassified)"
  by (simp add: demoter_candidatesWithRoute_def)

lemma demoter_suppressed:
  "0 < m \<Longrightarrow> fst (isDemotionSuppressed (d_healthCfg d) (lookup_stats d now)) \<Longrightarrow>
   demoter_candidatesWithRoute d now topic part m = (d, d_inner d topic part m)"
  by (simp add: demoter_candidatesWithRoute_def)

context assignment_strategy
begin

text \<open>A demoter over any strategy that keeps its contract.\<close>

lemma demoter_keeps_contract:
  assumes "invar s" and "d_inner d = cands s" and "counted_stats (d_tracker d)"
    and look: "demoter_candidatesWithRoute d now topic part m = (d', out, route)"
  shows "same_setup d d' \<and> length out \<le> nat m \<and> NodeID ` set out \<subseteq> pool s \<and> distinct (map NodeID out) \<and>
    (\<forall>a\<in>set (tl out). State a = AgentStateHealthy) \<and>
    (0 < m \<longrightarrow> route = snd (cands s topic part 1) \<and> (out \<noteq> [] \<longleftrightarrow> fst (cands s topic part 1) \<noteq> []))"
proof (cases "0 < m")
  case m: True
  show ?thesis
  proof (cases "fst (isDemotionSuppressed (d_healthCfg d) (lookup_stats d now))")
    case True
    then have eq: "d' = d" "cands s topic part m = (out, route)" using look assms(2) m by (simp_all add: demoter_suppressed)
    have "a \<in> set (tl out) \<Longrightarrow> a \<in> set out" for a by (metis list.sel(2) list.set_sel(2))
    then show ?thesis
      using eq m assms(1) cands_length [of s topic part m] cands_pool [of s topic part m] cands_distinct [of s topic part m]
        cands_healthy [of s _ topic part m] cands_route [of s m 1 topic part] cands_empty_iff [of s m 1 topic part]
      by (auto simp: same_setup_def)
  next
    case False
    obtain agents extra where a: "cands s topic part (m + extra) = (agents, route)" "extra \<in> set retry_extras"
      and out: "out = demoter_spec (classified d now (lookup_stats d now)) (probe_due d now) m agents"
      and same: "same_setup d d'"
      by (rule demoter_lookup [OF assms(3) m refl False look]) (simp only: assms(2))
    have pos: "0 < m + extra" using a(2) m by (auto simp: retry_extras_eq)
    have "distinct (map NodeID agents)" "\<forall>a\<in>set agents. State a = AgentStateHealthy" "NodeID ` set agents \<subseteq> pool s"
      using cands_distinct [OF assms(1), of topic part "m + extra"] cands_healthy [OF assms(1), of _ topic part "m + extra"]
        cands_pool [OF assms(1), of topic part "m + extra"] by (simp_all add: a(1))
    moreover note demoter_spec_props [OF this(1,2) m, where bad = "classified d now (lookup_stats d now)" and due = "probe_due d now"]
    moreover have "route = snd (cands s topic part 1)" "agents = [] \<longleftrightarrow> fst (cands s topic part 1) = []"
      using cands_route [OF assms(1) pos, of 1 topic part] cands_empty_iff [OF assms(1) pos, of 1 topic part] by (simp_all add: a(1))
    ultimately show ?thesis using same unfolding out by (intro conjI) auto
  qed
next
  case False
  then show ?thesis using look by (simp add: demoter_nonpos same_setup_def)
qed

end

text \<open>The production wiring: the demoter over the lazy strategy, which reads the current snapshot.\<close>

definition resolve_inner :: "hash_fun \<Rightarrow> DefaultPartitionAssignmentStrategy \<Rightarrow> Demoter \<Rightarrow> Demoter" where
  "resolve_inner xxh s d = d\<lparr>d_inner := candidatesWithRoute xxh s\<rparr>"

definition routed_lookup :: "hash_fun \<Rightarrow> DefaultPartitionAssignmentStrategy \<times> Demoter \<Rightarrow> instant \<Rightarrow> topic \<Rightarrow> partition \<Rightarrow> int
  \<Rightarrow> (DefaultPartitionAssignmentStrategy \<times> Demoter) \<times> Agent list" where
  "routed_lookup xxh sd now topic part m =
     (let (d', out) = demoter_Candidates (resolve_inner xxh (fst sd) (snd sd)) now topic part m in ((fst sd, d'), out))"

lemma routed_lookup_contract:
  assumes "wf_strategy s" and "counted_stats (d_tracker d)" and "routed_lookup xxh (s, d) now topic part m = ((s', d'), out)"
  shows "s' = s \<and> d_tracker d' = d_tracker d \<and> length out \<le> nat m \<and> NodeID ` set out \<subseteq> set (st_agents s) \<and>
    distinct (map NodeID out) \<and> (\<forall>a\<in>set (tl out). State a = AgentStateHealthy) \<and>
    (0 < m \<longrightarrow> out \<noteq> [] \<longleftrightarrow> Candidates xxh s topic part 1 \<noteq> [])"
proof -
  obtain e o' route where l: "demoter_candidatesWithRoute (resolve_inner xxh s d) now topic part m = (e, o', route)"
    by (metis prod_cases3)
  then have look: "demoter_candidatesWithRoute (resolve_inner xxh s d) now topic part m = (d', out, route)" and "s' = s"
    using assms(3) by (simp_all add: routed_lookup_def demoter_Candidates_def)
  have "d_inner (resolve_inner xxh s d) = candidatesWithRoute xxh s" "counted_stats (d_tracker (resolve_inner xxh s d))"
    using assms(2) by (simp_all add: resolve_inner_def)
  from default_strategy.demoter_keeps_contract [OF assms(1) this look] show ?thesis
    using \<open>s' = s\<close> by (simp add: same_setup_def resolve_inner_def Candidates_def)
qed

lemma routed_lookup_props:
  assumes "wf_strategy (fst sd) \<and> counted_stats (d_tracker (snd sd))"
  shows "wf_strategy (fst (fst (routed_lookup xxh sd now topic part m))) \<and>
      counted_stats (d_tracker (snd (fst (routed_lookup xxh sd now topic part m))))"
    and "set (st_agents (fst (fst (routed_lookup xxh sd now topic part m)))) = set (st_agents (fst sd))"
    and "(\<lambda>topic part. Candidates xxh (fst (fst (routed_lookup xxh sd now topic' part' m))) topic part 1 \<noteq> []) =
      (\<lambda>topic part. Candidates xxh (fst sd) topic part 1 \<noteq> [])"
    and "length (snd (routed_lookup xxh sd now topic part m)) \<le> nat m"
    and "NodeID ` set (snd (routed_lookup xxh sd now topic part m)) \<subseteq> set (st_agents (fst sd))"
    and "distinct (map NodeID (snd (routed_lookup xxh sd now topic part m)))"
    and "a \<in> set (tl (snd (routed_lookup xxh sd now topic part m))) \<Longrightarrow> State a = AgentStateHealthy"
    and "0 < m \<Longrightarrow> snd (routed_lookup xxh sd now topic part m) \<noteq> [] \<longleftrightarrow> Candidates xxh (fst sd) topic part 1 \<noteq> []"
proof -
  have c: "fst (fst r) = fst sd \<and> d_tracker (snd (fst r)) = d_tracker (snd sd) \<and>
      length (snd r) \<le> nat m \<and> NodeID ` set (snd r) \<subseteq> set (st_agents (fst sd)) \<and> distinct (map NodeID (snd r)) \<and>
      (\<forall>a\<in>set (tl (snd r)). State a = AgentStateHealthy) \<and>
      (0 < m \<longrightarrow> snd r \<noteq> [] \<longleftrightarrow> Candidates xxh (fst sd) topic part 1 \<noteq> [])"
    if r: "r = routed_lookup xxh sd now topic part m" for topic part r
    using routed_lookup_contract [of "fst sd" "snd sd" xxh now topic part m "fst (fst r)" "snd (fst r)" "snd r"] assms r
    by simp
  note c1 = c [OF refl, of topic part] and c2 = c [OF refl, of topic' part']
  show "wf_strategy (fst (fst (routed_lookup xxh sd now topic part m))) \<and>
      counted_stats (d_tracker (snd (fst (routed_lookup xxh sd now topic part m))))" using c1 assms by auto
  show "set (st_agents (fst (fst (routed_lookup xxh sd now topic part m)))) = set (st_agents (fst sd))" using c1 by auto
  show "(\<lambda>topic part. Candidates xxh (fst (fst (routed_lookup xxh sd now topic' part' m))) topic part 1 \<noteq> []) =
      (\<lambda>topic part. Candidates xxh (fst sd) topic part 1 \<noteq> [])" using c2 by auto
  show "length (snd (routed_lookup xxh sd now topic part m)) \<le> nat m"
    "NodeID ` set (snd (routed_lookup xxh sd now topic part m)) \<subseteq> set (st_agents (fst sd))"
    "distinct (map NodeID (snd (routed_lookup xxh sd now topic part m)))"
    "a \<in> set (tl (snd (routed_lookup xxh sd now topic part m))) \<Longrightarrow> State a = AgentStateHealthy"
    "0 < m \<Longrightarrow> snd (routed_lookup xxh sd now topic part m) \<noteq> [] \<longleftrightarrow> Candidates xxh (fst sd) topic part 1 \<noteq> []"
    using c1 by blast+
qed

interpretation demoter_source:
  candidate_source "routed_lookup xxh" "\<lambda>sd. set (st_agents (fst sd))"
    "\<lambda>sd topic part. Candidates xxh (fst sd) topic part 1 \<noteq> []"
    "\<lambda>sd. wf_strategy (fst sd) \<and> counted_stats (d_tracker (snd sd))" for xxh
  using routed_lookup_props by unfold_locales blast+

section \<open>Properties\<close>

text \<open>
  C7: the demoter's retries, classification passes and probe bookkeeping amount to one look-up of
  the inner strategy with a headroom of 2 to 64, reordered as \<open>demoter_spec\<close> says: the first
  demoted agent whose probe is due, if it comes before every healthy one, then the healthy agents
  in the strategy's order, or the natural primary as a forced probe. The headroom is enough for a
  full list of healthy agents unless the pool is exhausted or the last retry was used.
\<close>

theorem demoter_lookup_closed_form:
  assumes "counted_stats (d_tracker d)" and "0 < m"
    and "\<not> fst (isDemotionSuppressed (d_healthCfg d) (lookup_stats d now))"
  shows "\<exists>extra agents route. extra \<in> {2, 4, 8, 16, 32, 64} \<and> d_inner d topic part (m + extra) = (agents, route) \<and>
    snd (demoter_candidatesWithRoute d now topic part m) =
      (demoter_spec (classified d now (lookup_stats d now)) (probe_due d now) m agents, route) \<and>
    (m \<le> int (length (filter (\<lambda>a. \<not> classified d now (lookup_stats d now) (NodeID a)) agents)) \<or>
     int (length agents) < m + extra \<or> extra = 64)"
proof -
  obtain d' out route where look: "demoter_candidatesWithRoute d now topic part m = (d', out, route)" by (metis prod_cases3)
  obtain agents extra where "d_inner d topic part (m + extra) = (agents, route)" "extra \<in> set retry_extras"
    "m \<le> int (length (filter (\<lambda>a. \<not> classified d now (lookup_stats d now) (NodeID a)) agents)) \<or>
      int (length agents) < m + extra \<or> extra = 64"
    "out = demoter_spec (classified d now (lookup_stats d now)) (probe_due d now) m agents"
    by (rule demoter_lookup [OF assms(1,2) refl assms(3) look]) (rule that)
  then show ?thesis
    using look by (intro exI [of _ extra] exI [of _ agents] exI [of _ route]) (simp add: retry_extras_eq)
qed

text \<open>A pool of three agents whose leader, agent 1, fails most of its requests.\<close>

definition example_reader :: AgentStatsReader where
  "example_reader =
     \<lparr>r_AgentStats = (\<lambda>now n. if n = 1 then Some \<lparr>Latency = 0, ErrorRate = 3 / 4, RequestCount = 40\<rparr>
        else if n \<in> {2, 3} then Some \<lparr>Latency = 0, ErrorRate = 0, RequestCount = 40\<rparr> else None),
      r_ClusterStats = (\<lambda>now mul thr. Some (zero_ClusterStats\<lparr>FaultyThreshold := 1 / 4, AvgRequestsPerAgent := 40,
        FaultyFraction := f64_div 1 (f64_of_int 3), FaultyContributorsCount := 3\<rparr>))\<rparr>"

definition example_demoter :: Demoter where
  "example_demoter = NewDemoter (candidatesWithRoute (\<lambda>_. 0)
       (newDefaultPartitionAssignmentStrategy [1, 2, 3] [((''t'', 0), 1)] {} {} [(''t'', 1)]))
     example_reader (HealthCheck DefaultConfig) (Demoter DefaultConfig)"

lemma example_demoter_ok:
  "counted_stats (d_tracker example_demoter)"
  "\<not> fst (isDemotionSuppressed (d_healthCfg example_demoter) (lookup_stats example_demoter now))"
proof -
  show "counted_stats (d_tracker example_demoter)"
    by (auto simp: example_demoter_def NewDemoter_def example_reader_def counted_stats_def split: if_splits)
  have "fst (isDemotionSuppressed (HealthCheck DefaultConfig) (r_ClusterStats example_reader 0 0 0)) = False" by code_simp
  then show "\<not> fst (isDemotionSuppressed (d_healthCfg example_demoter) (lookup_stats example_demoter now))"
    by (simp add: example_demoter_def NewDemoter_def example_reader_def)
qed

theorem demoter_lookup_closed_form_witness:
  "\<exists>agents. snd (demoter_candidatesWithRoute example_demoter 0 ''t'' 0 2) =
     (demoter_spec (classified example_demoter 0 (lookup_stats example_demoter 0)) (probe_due example_demoter 0) 2 agents, routeLeader)"
proof -
  have "snd (d_inner example_demoter ''t'' 0 (2 + extra)) = routeLeader" if "extra \<in> {2, 4, 8, 16, 32, 64}" for extra
    using that by (auto simp: example_demoter_def NewDemoter_def candidatesWithRoute_def newDefaultPartitionAssignmentStrategy_def)
  then show ?thesis
    using demoter_lookup_closed_form [where d = example_demoter and now = 0 and topic = "''t''" and part = 0 and m = 2]
      example_demoter_ok by fastforce
qed



text \<open>
  One bad agent never switches demotion off. Whatever the history of tracked requests and the
  configured limit, a published cluster view in which at most one agent is faulty does not suppress
  demotion, however small the cluster is.
\<close>

theorem single_faulty_agent_never_suppresses:
  assumes "sorted (0 # op_times ops @ [now])" and "ClusterStats_of (run_ops ops) now mul thr = Some cs"
    and "card {n. \<exists>st. AgentStats_of (run_ops ops) now n = Some st \<and> is_faulty cs st} \<le> 1"
  shows "isDemotionSuppressed health (Some cs) = (False, demotionNotSuppressed)"
proof -
  let ?k = "int (card {n. \<exists>st. AgentStats_of (run_ops ops) now n = Some st \<and> is_faulty cs st})"
  have pos: "0 < FaultyContributorsCount cs" using assms(1,2) by (rule FaultyFraction_counts(2))
  have "f64_of_int ?k / f64_of_int (FaultyContributorsCount cs) \<le> 1 / f64_of_int (FaultyContributorsCount cs)"
    using f64_of_int_mono [of ?k 1] assms(3) f64_of_int_pos [OF pos] by (simp add: divide_right_mono)
  then have "FaultyFraction cs \<le> f64_div 1 (f64_of_int (FaultyContributorsCount cs))"
    unfolding FaultyFraction_counts(1) [OF assms(1,2)] f64_div_def by (rule f64_mono)
  then show ?thesis using pos by (simp add: isDemotionSuppressed_def maxFractionFloor_def Let_def)
qed

theorem single_faulty_agent_never_suppresses_witness:
  "isDemotionSuppressed (HealthCheck DefaultConfig) (ClusterStats_of (run_ops example_ops) (65 * second) 3 (1 / 4)) =
     (False, demotionNotSuppressed)"
proof -
  let ?cs = "the (ClusterStats_of (run_ops example_ops) (65 * second) 3 (1 / 4))"
  have cs: "ClusterStats_of (run_ops example_ops) (65 * second) 3 (1 / 4) = Some ?cs" by code_simp
  have "sorted (0 # op_times example_ops @ [65 * second])" by (simp add: example_ops_def)
  moreover have sub: "{n. \<exists>st. AgentStats_of (run_ops example_ops) (65 * second) n = Some st \<and> is_faulty ?cs st} \<subseteq> {7}"
  proof -
    have a8: "AgentStats_of (run_ops example_ops) (65 * second) 8 = None" by code_simp
    have "map fst (run_ops example_ops) = [7, 8]" by code_simp
    then have "map_of (run_ops example_ops) n = None" if "n \<notin> {7, 8}" for n
      using that by (metis empty_set image_set list.simps(15) map_of_eq_None_iff)
    then have none: "AgentStats_of (run_ops example_ops) (65 * second) n = None" if "n \<noteq> 7" for n
      using that a8 by (cases "n = 8") (simp_all add: AgentStats_of_def)
    show ?thesis
    proof
      fix n assume "n \<in> {n. \<exists>st. AgentStats_of (run_ops example_ops) (65 * second) n = Some st \<and> is_faulty ?cs st}"
      then show "n \<in> {7}" using none [of n] by (cases "n = 7") simp_all
    qed
  qed
  have "card {n. \<exists>st. AgentStats_of (run_ops example_ops) (65 * second) n = Some st \<and> is_faulty ?cs st} \<le> 1"
    using card_mono [OF _ sub] by simp
  ultimately have "isDemotionSuppressed (HealthCheck DefaultConfig) (Some ?cs) = (False, demotionNotSuppressed)"
    using single_faulty_agent_never_suppresses [OF _ cs] by blast
  then show ?thesis by (subst cs)
qed

text \<open>
  A faulty fraction of exactly the configured limit does not suppress demotion, for every
  cluster size. The documentation of \<open>MaxFaultyFraction\<close> and of its option says that action is
  suppressed at or above the limit; the code suppresses above it only.
\<close>

lemma fraction_at_the_limit_does_not_suppress:
  assumes "FaultyFraction cs = MaxFaultyFraction health"
  shows "isDemotionSuppressed health (Some cs) = (False, demotionNotSuppressed)"
  using assms by (simp add: isDemotionSuppressed_def maxFractionFloor_def Let_def)


text \<open>A pool whose only agent keeps failing.\<close>

definition lone_reader :: AgentStatsReader where
  "lone_reader =
     \<lparr>r_AgentStats = (\<lambda>now n. Some \<lparr>Latency = 0, ErrorRate = 3 / 4, RequestCount = 40\<rparr>),
      r_ClusterStats = (\<lambda>now mul thr. Some (zero_ClusterStats\<lparr>FaultyThreshold := 1 / 4, AvgRequestsPerAgent := 40,
        FaultyFraction := 1, FaultyContributorsCount := 1\<rparr>))\<rparr>"

definition lone_demoter :: Demoter where
  "lone_demoter = NewDemoter (candidatesWithRoute (\<lambda>_. 0)
       (newDefaultPartitionAssignmentStrategy [1] [((''t'', 0), 1)] {} {} [(''t'', 1)]))
     lone_reader (HealthCheck DefaultConfig) (Demoter DefaultConfig)"


text \<open>
  A metadata refresh leaves demotion state for exactly the agents that are still in the pool,
  with their probe times, so the gauge of demoted agents can never exceed the pool.
\<close>

lemma demoter_refresh_prunes:
  assumes "distinct (map fst (lastDemotedProbe d))"
  shows "map_of (lastDemotedProbe (demoter_Refresh d currentAgents)) n =
      (if n \<in> set currentAgents then map_of (lastDemotedProbe d) n else None) \<and>
    demotedAgentsCount (demoter_Refresh d currentAgents) now \<le> f64_of_int (int (card (set currentAgents)))"
proof -
  let ?step = "\<lambda>m e. if fst e \<notin> set currentAgents then AList.delete (fst e) m else m"
  have prune: "map_of (foldl ?step m es) n = (if n \<notin> set currentAgents \<and> n \<in> fst ` set es then None else map_of m n)"
    for m es n by (induction es arbitrary: m) auto
  have dist: "distinct (map fst m) \<Longrightarrow> distinct (map fst (foldl ?step m es))" for m es
    by (induction es arbitrary: m) auto
  have look: "map_of (lastDemotedProbe (demoter_Refresh d currentAgents)) n =
      (if n \<in> set currentAgents then map_of (lastDemotedProbe d) n else None)" for n
    by (auto simp: demoter_Refresh_def prune map_of_eq_None_iff)
  then have "fst ` set (lastDemotedProbe (demoter_Refresh d currentAgents)) \<subseteq> set currentAgents"
    by (metis (no_types, lifting) map_of_eq_None_iff subsetI)
  moreover have "distinct (map fst (lastDemotedProbe (demoter_Refresh d currentAgents)))"
    using assms dist by (simp add: demoter_Refresh_def)
  ultimately have "length (lastDemotedProbe (demoter_Refresh d currentAgents)) \<le> card (set currentAgents)"
    by (metis card_mono distinct_card finite_set image_set length_map)
  then have "demotedAgentsCount (demoter_Refresh d currentAgents) now \<le> f64_of_int (int (card (set currentAgents)))"
    using f64_of_int_mono f64_of_int_mono [of 0 "int (card (set currentAgents))"] by (simp add: demotedAgentsCount_def Let_def)
  then show ?thesis using look by blast
qed

end
