(* ===== verification/Metadata_Refresh.thy ===== *)
theory Metadata_Refresh
  imports Agent_Pool Demoter_Policy
begin

text \<open>
  The client's state and its metadata refresh, from \<open>pkg/wgo/client.go\<close> and the refresh counters of
  \<open>metrics.go\<close>: what a refresh does to the pool, the tracker and the demoter, and the goroutine that
  owns every refresh after start-up.

  The goroutine is a step relation. Between two of its steps the rest of the client may route
  records, track requests, ask for a refresh or close, and the clock may move. A refresh is one step,
  because nobody else writes the pool. The size-1 channel \<open>refreshNowCh\<close> is a flag, the context of the
  refresh a flag that \<open>Close\<close> sets, and the ticker the instant from which its next tick is ready. The
  state logs when each fetch started, so that the pacing of fetches can be stated.
\<close>

section \<open>The backoff\<close>

record refreshBackoff =
  rb_floor :: duration
  rb_ceiling :: duration
  rb_delay :: duration

definition newRefreshBackoff :: "duration \<Rightarrow> duration \<Rightarrow> refreshBackoff" where
  "newRefreshBackoff lo hi = \<lparr>rb_floor = lo, rb_ceiling = hi, rb_delay = lo\<rparr>"

definition backoff_current :: "refreshBackoff \<Rightarrow> duration" where
  "backoff_current b = rb_delay b"

definition backoff_advance :: "refreshBackoff \<Rightarrow> refreshBackoff" where
  "backoff_advance b =
     (if rb_delay b > go_div (rb_ceiling b) 2 then b\<lparr>rb_delay := rb_ceiling b\<rparr>
      else b\<lparr>rb_delay := i64 (rb_delay b * 2)\<rparr>)"

definition backoff_reset :: "refreshBackoff \<Rightarrow> refreshBackoff" where
  "backoff_reset b = b\<lparr>rb_delay := rb_floor b\<rparr>"

section \<open>The client's state\<close>

datatype metadataRefreshTrigger = metadataRefreshTriggerPeriodic | metadataRefreshTriggerOnDemand
datatype metadataRefreshResult =
  metadataRefreshResultMembershipChanged | metadataRefreshResultUnchanged | metadataRefreshResultFailed
datatype routeSource = routeSourceLeader | routeSourceStandIn
datatype routingMissReason =
  routingMissOther | routingMissEmptyPool | routingMissUnknownTopic | routingMissNoLeader | routingMissPartitionOutOfRange
datatype produceRejected = produceRejectedRecordTooLarge | produceRejectedNoAgentAssigned

text \<open>The counters of \<open>metrics\<close> that the client's own code moves.\<close>

record client_metrics =
  metadataRefreshResultsTotal :: "(metadataRefreshTrigger \<times> metadataRefreshResult, int) gomap"
  agentpoolAgentsAdded :: int
  agentpoolAgentsRemoved :: int
  agentPoolExcludedLeaders :: int
  partitionRoutes :: "(routeSource, int) gomap"
  routingMisses :: "(routingMissReason, int) gomap"
  produceRecordsTotal :: int
  produceRecordsRejectedTotal :: "(produceRejected, int) gomap"
  produceRecordsFailedTotal :: int

definition zero_metrics :: client_metrics where
  "zero_metrics = \<lparr>metadataRefreshResultsTotal = [], agentpoolAgentsAdded = 0, agentpoolAgentsRemoved = 0,
     agentPoolExcludedLeaders = 0, partitionRoutes = [], routingMisses = [], produceRecordsTotal = 0,
     produceRecordsRejectedTotal = [], produceRecordsFailedTotal = 0\<rparr>"

definition add_to :: "'k \<Rightarrow> int \<Rightarrow> ('k, int) gomap \<Rightarrow> ('k, int) gomap" where
  "add_to k n m = AList.update k (get_or 0 m k + n) m"

record WarpstreamClient =
  cl_cfg :: Config
  cl_metrics :: client_metrics
  cl_pool :: poolState
  cl_tracker :: CachedAgentStatsTracker
  cl_demoter :: Demoter
  refreshNowCh :: bool
  refreshCtxDone :: bool

definition triggerRefresh :: "WarpstreamClient \<Rightarrow> WarpstreamClient" where
  "triggerRefresh c = (if refreshNowCh c then c else c\<lparr>refreshNowCh := True\<rparr>)"

section \<open>One refresh\<close>

definition observeMetadataRefresh ::
  "metadataRefreshTrigger \<Rightarrow> node_id list \<Rightarrow> node_id list \<Rightarrow> goerror option \<Rightarrow> client_metrics \<Rightarrow> client_metrics" where
  "observeMetadataRefresh trig before after err m =
     (let res = (if err \<noteq> None then metadataRefreshResultFailed
                 else if before \<noteq> after then metadataRefreshResultMembershipChanged
                 else metadataRefreshResultUnchanged);
          m = m\<lparr>metadataRefreshResultsTotal := add_to (trig, res) 1 (metadataRefreshResultsTotal m)\<rparr>
      in if err \<noteq> None then m
         else let (added, removed) = diffAgentMembership before after;
                  m = (if 0 < added then m\<lparr>agentpoolAgentsAdded := agentpoolAgentsAdded m + int added\<rparr> else m)
              in if 0 < removed then m\<lparr>agentpoolAgentsRemoved := agentpoolAgentsRemoved m + int removed\<rparr> else m)"

definition noteLeaderDrops :: "leaderDrops \<Rightarrow> bool \<Rightarrow> WarpstreamClient \<Rightarrow> WarpstreamClient" where
  "noteLeaderDrops dropped nudge c =
     (let c = c\<lparr>cl_metrics := (cl_metrics c)\<lparr>agentPoolExcludedLeaders := ld_Count dropped\<rparr>\<rparr>
      in if ld_Count dropped = 0 then c else if nudge then triggerRefresh c else c)"

definition refreshPool ::
  "metadataRefreshTrigger \<Rightarrow> goerror + MetadataResponse \<Rightarrow> WarpstreamClient \<Rightarrow> WarpstreamClient" where
  "refreshPool trig fetched c =
     (let before = p_agents (cl_pool c);
          (pool, out) = refresh (cl_pool c) fetched;
          err = (case out of Inl e \<Rightarrow> Some e | Inr r \<Rightarrow> None);
          c = c\<lparr>cl_pool := pool, cl_metrics := observeMetadataRefresh trig before (p_agents pool) err (cl_metrics c)\<rparr>
      in case out of
           Inl e \<Rightarrow> c
         | Inr (removed, dropped) \<Rightarrow>
             let c = (if removed \<noteq> [] then c\<lparr>cl_tracker := cached_PurgeAgents (cl_tracker c) removed\<rparr> else c);
                 c = c\<lparr>cl_demoter := demoter_Refresh (cl_demoter c) (p_agents (cl_pool c))\<rparr>
             in noteLeaderDrops dropped True c)"

text \<open>
  A look-up through the demoter over the current snapshot: the lazy strategy reads the pool, the
  demoter reads the tracker, whose cluster view may be computed and cached on the way.
\<close>

definition client_lookup ::
  "hash_fun \<Rightarrow> instant \<Rightarrow> WarpstreamClient \<Rightarrow> topic \<Rightarrow> partition \<Rightarrow> int \<Rightarrow> WarpstreamClient \<times> Agent list \<times> routeOutcome" where
  "client_lookup xxh now c topic part maxCandidates =
     (let d = (resolve_inner xxh (p_strategy (cl_pool c)) (cl_demoter c))\<lparr>d_tracker := reader_of (cl_tracker c)\<rparr>;
          (d, cands, outcome) = demoter_candidatesWithRoute d now topic part maxCandidates;
          health = HealthCheck (cl_cfg c);
          tracker = (if maxCandidates \<le> 0 then cl_tracker c
                     else fst (cached_ClusterStats (cl_tracker c) now (SlowMultiplier health) (cfg_FaultyThreshold health)))
      in (c\<lparr>cl_demoter := d, cl_tracker := tracker\<rparr>, cands, outcome))"

section \<open>Start-up\<close>

text \<open>What \<open>kgo.NewClient\<close> and the first Metadata request answer is an argument.\<close>

definition NewWarpstreamClient ::
  "hash_fun \<Rightarrow> Opt list \<Rightarrow> goerror option \<Rightarrow> goerror + MetadataResponse \<Rightarrow> goerror + WarpstreamClient" where
  "NewWarpstreamClient xxh opts kgoErr fetched =
     (let cfg = NewConfig opts
      in case Validate cfg of
           Some e \<Rightarrow> Inl (Errorf ''invalid warpstream client config: '' e [])
         | None \<Rightarrow>
             (case kgoErr of
                Some e \<Rightarrow> Inl (Errorf ''creating kgo client: '' e [])
              | None \<Rightarrow>
                  let (pool, out) = refresh NewAgentPool fetched
                  in case out of
                       Inl e \<Rightarrow> Inl (Errorf ''initial agent pool refresh: '' e [])
                     | Inr (removed, dropped) \<Rightarrow>
                         let tracker = NewCachedAgentStatsTracker (NewObservedAgentStatsTracker NewAverageAgentStatsTracker) (ClusterStatsTTL cfg)
                         in Inr (noteLeaderDrops dropped False
                              \<lparr>cl_cfg = cfg, cl_metrics = zero_metrics, cl_pool = pool, cl_tracker = tracker,
                               cl_demoter = NewDemoter (candidatesWithRoute xxh (p_strategy pool)) (reader_of tracker) (HealthCheck cfg) (Demoter cfg),
                               refreshNowCh = False, refreshCtxDone = False\<rparr>)))"

section \<open>The refresh goroutine\<close>

datatype refresh_pc = AtSelect | Fetching metadataRefreshTrigger instant | Cooling instant | Exited

record refresh_loop =
  rl_client :: WarpstreamClient
  rl_backoff :: refreshBackoff
  rl_pc :: refresh_pc
  rl_tickAt :: instant
  rl_now :: instant
  rl_fetches :: "(metadataRefreshTrigger \<times> instant) list"

definition startBackgroundRefresh :: "instant \<Rightarrow> WarpstreamClient \<Rightarrow> refresh_loop" where
  "startBackgroundRefresh now c =
     \<lparr>rl_client = c,
      rl_backoff = newRefreshBackoff (OnDemandMetadataRefreshInterval (cl_cfg c)) (MetadataRefreshInterval (cl_cfg c)),
      rl_pc = AtSelect, rl_tickAt = now + MetadataRefreshInterval (cl_cfg c), rl_now = now, rl_fetches = []\<rparr>"

definition start_fetch :: "metadataRefreshTrigger \<Rightarrow> refresh_loop \<Rightarrow> refresh_loop" where
  "start_fetch trig s = s\<lparr>rl_pc := Fetching trig (rl_now s), rl_fetches := (trig, rl_now s) # rl_fetches s\<rparr>"

text \<open>Taking a nudge empties the channel and restarts the ticker.\<close>

definition take_nudge :: "refresh_loop \<Rightarrow> refresh_loop" where
  "take_nudge s =
     start_fetch metadataRefreshTriggerOnDemand
       (s\<lparr>rl_client := (rl_client s)\<lparr>refreshNowCh := False\<rparr>,
          rl_tickAt := rl_now s + MetadataRefreshInterval (cl_cfg (rl_client s))\<rparr>)"

text \<open>A tick: the ticker goes on to its next multiple after now, and a queued nudge wins.\<close>

definition take_tick :: "refresh_loop \<Rightarrow> refresh_loop" where
  "take_tick s =
     (let period = MetadataRefreshInterval (cl_cfg (rl_client s));
          s = s\<lparr>rl_tickAt := rl_tickAt s + period * ((rl_now s - rl_tickAt s) div period + 1)\<rparr>
      in if refreshNowCh (rl_client s) then take_nudge s else start_fetch metadataRefreshTriggerPeriodic s)"

definition after_cooldown :: "refresh_loop \<Rightarrow> refresh_loop" where
  "after_cooldown s =
     (if refreshCtxDone (rl_client s) then s\<lparr>rl_pc := Exited\<rparr>
      else s\<lparr>rl_backoff := backoff_advance (rl_backoff s), rl_pc := AtSelect\<rparr>)"

definition waitRefreshCooldown :: "duration \<Rightarrow> duration \<Rightarrow> refresh_loop \<Rightarrow> refresh_loop" where
  "waitRefreshCooldown delay elapsed s =
     (let remaining = i64 (delay - elapsed)
      in if remaining \<le> 0 then after_cooldown s else s\<lparr>rl_pc := Cooling (rl_now s + remaining)\<rparr>)"

definition fetch_returns :: "metadataRefreshTrigger \<Rightarrow> instant \<Rightarrow> goerror + MetadataResponse \<Rightarrow> refresh_loop \<Rightarrow> refresh_loop" where
  "fetch_returns trig startedAt fetched s =
     (let s = s\<lparr>rl_client := refreshPool trig fetched (rl_client s)\<rparr>
      in case trig of
           metadataRefreshTriggerPeriodic \<Rightarrow>
             if refreshCtxDone (rl_client s) then s\<lparr>rl_pc := Exited\<rparr>
             else s\<lparr>rl_backoff := backoff_reset (rl_backoff s), rl_pc := AtSelect\<rparr>
         | metadataRefreshTriggerOnDemand \<Rightarrow>
             waitRefreshCooldown (backoff_current (rl_backoff s)) (time_sub (rl_now s) startedAt) s)"

text \<open>A Metadata response lists each broker once.\<close>

definition distinct_brokers :: "goerror + MetadataResponse \<Rightarrow> bool" where
  "distinct_brokers resp = (case resp of Inl e \<Rightarrow> True | Inr meta \<Rightarrow> distinct (md_Brokers meta))"

inductive refresh_step :: "hash_fun \<Rightarrow> refresh_loop \<Rightarrow> refresh_loop \<Rightarrow> bool" for xxh where
  ctx_done: "rl_pc s = AtSelect \<Longrightarrow> refreshCtxDone (rl_client s) \<Longrightarrow> refresh_step xxh s (s\<lparr>rl_pc := Exited\<rparr>)"
| nudged: "rl_pc s = AtSelect \<Longrightarrow> refreshNowCh (rl_client s) \<Longrightarrow> refresh_step xxh s (take_nudge s)"
| ticked: "rl_pc s = AtSelect \<Longrightarrow> rl_tickAt s \<le> rl_now s \<Longrightarrow> refresh_step xxh s (take_tick s)"
| fetched: "rl_pc s = Fetching trig startedAt \<Longrightarrow> distinct_brokers resp \<Longrightarrow> refresh_step xxh s (fetch_returns trig startedAt resp s)"
| cooled: "rl_pc s = Cooling timer \<Longrightarrow> refreshCtxDone (rl_client s) \<or> timer \<le> rl_now s \<Longrightarrow> refresh_step xxh s (after_cooldown s)"
| clock: "rl_now s \<le> now \<Longrightarrow> refresh_step xxh s (s\<lparr>rl_now := now\<rparr>)"
| nudge: "refresh_step xxh s (s\<lparr>rl_client := triggerRefresh (rl_client s)\<rparr>)"
| close: "refresh_step xxh s (s\<lparr>rl_client := (rl_client s)\<lparr>refreshCtxDone := True\<rparr>\<rparr>)"
| lookup: "refresh_step xxh s (s\<lparr>rl_client := fst (client_lookup xxh (rl_now s) (rl_client s) topic part n)\<rparr>)"
| tracked: "refresh_step xxh s (s\<lparr>rl_client := (rl_client s)\<lparr>cl_tracker :=
      cached_TrackAgentRequest (cl_tracker (rl_client s)) (rl_now s) nodeID latency err\<rparr>\<rparr>)"

section \<open>Doubling up to a ceiling\<close>

locale capped_doubling =
  fixes current :: "'b \<Rightarrow> int" and advance reset :: "'b \<Rightarrow> 'b" and lo hi :: "'b \<Rightarrow> int" and ok :: "'b \<Rightarrow> bool"
  assumes ok_pos: "ok b \<Longrightarrow> 0 < lo b \<and> lo b \<le> hi b"
    and ok_advance: "ok b \<Longrightarrow> ok (advance b)" and ok_reset: "ok b \<Longrightarrow> ok (reset b)"
    and same_range: "lo (advance b) = lo b" "hi (advance b) = hi b" "lo (reset b) = lo b" "hi (reset b) = hi b"
    and current_reset: "ok b \<Longrightarrow> current (reset b) = lo b"
    and current_advance: "ok b \<Longrightarrow> current (advance b) = min (2 * current b) (hi b)"
begin

lemma advance_level:
  assumes "ok b" "current b = min (lo b * 2 ^ k) (hi b)"
  shows "current (advance b) = min (lo b * 2 ^ Suc k) (hi b)"
  using ok_pos [OF assms(1)] current_advance [OF assms(1)] assms(2) by auto

lemma reset_level: "ok b \<Longrightarrow> current (reset b) = min (lo b * 2 ^ 0) (hi b)"
  using current_reset ok_pos by auto

lemma level_range: "ok b \<Longrightarrow> lo b \<le> min (lo b * 2 ^ k) (hi b) \<and> min (lo b * 2 ^ k) (hi b) \<le> hi b"
  using ok_pos [of b] by (simp add: min_le_iff_disj)

end

definition backoff_ok :: "refreshBackoff \<Rightarrow> bool" where
  "backoff_ok b \<longleftrightarrow> 0 < rb_floor b \<and> rb_floor b \<le> rb_ceiling b \<and> rb_ceiling b \<le> max_duration \<and>
     rb_floor b \<le> rb_delay b \<and> rb_delay b \<le> rb_ceiling b"

lemma advance_no_wrap: "backoff_ok b \<Longrightarrow> rb_delay (backoff_advance b) = min (2 * rb_delay b) (rb_ceiling b)"
  by (auto simp: backoff_ok_def backoff_advance_def go_div_nonneg max_duration_def i64_id)

interpretation refresh_backoff: capped_doubling backoff_current backoff_advance backoff_reset rb_floor rb_ceiling backoff_ok
proof unfold_locales
  show "backoff_ok b \<Longrightarrow> backoff_ok (backoff_advance b)" for b
    using advance_no_wrap [of b] by (auto simp: backoff_ok_def backoff_advance_def min_def split: if_splits)
  show "backoff_ok b \<Longrightarrow> backoff_current (backoff_advance b) = min (2 * backoff_current b) (rb_ceiling b)" for b
    by (simp add: backoff_current_def advance_no_wrap)
qed (auto simp: backoff_ok_def backoff_advance_def backoff_reset_def backoff_current_def)

section \<open>Demotion state stays within the pool\<close>

definition demoted_nodes :: "Demoter \<Rightarrow> node_id set" where
  "demoted_nodes d = {n. map_of (lastDemotedProbe d) n \<noteq> None}"

lemma isDemoted_nodes: "isDemoted d now cs n = (d', b) \<Longrightarrow> demoted_nodes d' \<subseteq> insert n (demoted_nodes d)"
  using isDemoted_probe [of d now cs n] by (auto simp: demoted_nodes_def split: if_splits)

lemma shouldProbe_nodes: "shouldProbe d now n = (d', b) \<Longrightarrow> demoted_nodes d' \<subseteq> insert n (demoted_nodes d)"
  by (auto simp: shouldProbe_def demoted_nodes_def split: if_splits)

lemma count_nonDemoted_inner: "count_nonDemoted d now cs agents k nodem = (d', r) \<Longrightarrow> d_inner d' = d_inner d"
proof (induction agents arbitrary: d k nodem)
  case (Cons a agents)
  obtain d1 b where i: "isDemoted d now cs (NodeID a) = (d1, b)" by fastforce
  obtain k1 n1 where "count_nonDemoted d1 now cs agents k1 n1 = (d', r)" using Cons.prems i by (auto split: if_splits)
  from Cons.IH [OF this] show ?case using isDemoted_setup(1) [of d now cs "NodeID a"] i by simp
qed simp

lemma count_nonDemoted_nodes:
  "count_nonDemoted d now cs agents k nodem = (d', r) \<Longrightarrow> demoted_nodes d' \<subseteq> demoted_nodes d \<union> NodeID ` set agents"
proof (induction agents arbitrary: d k nodem)
  case (Cons a agents)
  obtain d1 b where i: "isDemoted d now cs (NodeID a) = (d1, b)" by fastforce
  obtain k1 n1 where "count_nonDemoted d1 now cs agents k1 n1 = (d', r)" using Cons.prems i by (auto split: if_splits)
  from Cons.IH [OF this] isDemoted_nodes [OF i] show ?case by auto
qed simp

lemma build_candidates_nodes:
  "build_candidates d now cs m agents cands = (d', out) \<Longrightarrow> demoted_nodes d' \<subseteq> demoted_nodes d \<union> NodeID ` set agents"
proof (induction agents arbitrary: d cands)
  case (Cons a agents)
  obtain d1 b where i: "isDemoted d now cs (NodeID a) = (d1, b)" by fastforce
  obtain d2 q where q: "shouldProbe d1 now (NodeID a) = (d2, q)" by fastforce
  note nodes = isDemoted_nodes [OF i] shouldProbe_nodes [OF q]
  consider "d' = d" | cs' where "build_candidates d1 now cs m agents cs' = (d', out)"
    | cs' where "build_candidates d2 now cs m agents cs' = (d', out)"
    using Cons.prems i q by (auto simp: Let_def split: if_splits)
  then show ?case using nodes by cases (auto dest!: Cons.IH)
qed simp

lemma gather_nodes:
  assumes "gather extras d now cs topic part m found = (d', agents, r)" and "\<And>k. NodeID ` set (fst (d_inner d topic part k)) \<subseteq> A"
    and "NodeID ` set (fst found) \<subseteq> A"
  shows "demoted_nodes d' \<subseteq> demoted_nodes d \<union> A \<and> NodeID ` set agents \<subseteq> A"
  using assms
proof (induction extras arbitrary: d found)
  case (Cons extra extras)
  obtain as ro where i: "d_inner d topic part (m + extra) = (as, ro)" by fastforce
  obtain d1 k b where c: "count_nonDemoted d now cs as 0 True = (d1, k, b)" by (metis prod_cases3)
  have as: "NodeID ` set as \<subseteq> A" using Cons.prems(2) [of "m + extra"] i by simp
  have d1: "demoted_nodes d1 \<subseteq> demoted_nodes d \<union> A" using count_nonDemoted_nodes [OF c] as by blast
  have inner: "d_inner d1 = d_inner d"
    by (rule count_nonDemoted_inner [OF c])
  show ?case
  proof (cases "m \<le> k \<or> int (length as) < m + extra")
    case True
    then have "d' = d1" "agents = as" using Cons.prems(1) i c by auto
    then show ?thesis using as d1 by simp
  next
    case False
    then have "gather extras d1 now cs topic part m (as, ro, b) = (d', agents, r)" using Cons.prems(1) i c by simp
    from Cons.IH [OF this] show ?thesis using Cons.prems(2) as d1 inner by auto
  qed
qed auto

lemma demoter_lookup_nodes:
  assumes "demoter_candidatesWithRoute d now topic part m = (d', out, route)"
    and inner: "\<And>k. NodeID ` set (fst (d_inner d topic part k)) \<subseteq> A"
  shows "demoted_nodes d' \<subseteq> demoted_nodes d \<union> A"
proof -
  let ?cs = "r_ClusterStats (d_tracker d) now (SlowMultiplier (d_healthCfg d)) (cfg_FaultyThreshold (d_healthCfg d))"
  obtain d1 agents r nodem where g: "gather retry_extras d now ?cs topic part m ([], routeUnclassified, False) = (d1, agents, r, nodem)"
    by (metis prod_cases4)
  have n1: "demoted_nodes d1 \<subseteq> demoted_nodes d \<union> A" "NodeID ` set agents \<subseteq> A" using gather_nodes [OF g inner] by simp_all
  obtain d2 cands where b: "build_candidates d1 now ?cs m agents [] = (d2, cands)" by fastforce
  have n2: "demoted_nodes d2 \<subseteq> demoted_nodes d \<union> A" using build_candidates_nodes [OF b] n1 by blast
  have "demoted_nodes (d2\<lparr>lastDemotedProbe := AList.update (NodeID (hd agents)) now (lastDemotedProbe d2)\<rparr>) \<subseteq> demoted_nodes d \<union> A"
    if "agents \<noteq> []"
  proof -
    have "NodeID (hd agents) \<in> A" using n1(2) that by (metis hd_in_set image_eqI subsetD)
    then show ?thesis using n2 by (auto simp: demoted_nodes_def)
  qed
  then show ?thesis using assms(1) g b n1 n2 unfolding demoter_candidatesWithRoute_def
    by (auto simp: Let_def split: if_splits)
qed

section \<open>What a step of the client keeps\<close>

definition client_inv :: "WarpstreamClient \<Rightarrow> bool" where
  "client_inv c \<longleftrightarrow> pool_inv (cl_pool c) \<and> demoted_nodes (cl_demoter c) \<subseteq> set (p_agents (cl_pool c))"

lemma client_lookup_frame [simp]:
  "cl_cfg (fst (client_lookup xxh now c topic part n)) = cl_cfg c"
  "cl_pool (fst (client_lookup xxh now c topic part n)) = cl_pool c"
  "refreshNowCh (fst (client_lookup xxh now c topic part n)) = refreshNowCh c"
  "refreshCtxDone (fst (client_lookup xxh now c topic part n)) = refreshCtxDone c"
  by (simp_all add: client_lookup_def Let_def case_prod_unfold)

lemma client_lookup_inv:
  assumes "client_inv c"
  shows "client_inv (fst (client_lookup xxh now c topic part n))"
proof -
  let ?d = "(resolve_inner xxh (p_strategy (cl_pool c)) (cl_demoter c))\<lparr>d_tracker := reader_of (cl_tracker c)\<rparr>"
  obtain d' out route where l: "demoter_candidatesWithRoute ?d now topic part n = (d', out, route)" by (metis prod_cases3)
  have inv: "wf_strategy (p_strategy (cl_pool c))" "st_agents (p_strategy (cl_pool c)) = p_agents (cl_pool c)"
    using assms by (simp_all add: client_inv_def pool_inv_def)
  have "demoted_nodes d' \<subseteq> demoted_nodes ?d \<union> set (p_agents (cl_pool c))"
    by (rule demoter_lookup_nodes [OF l]) (use default_strategy.cands_pool [OF inv(1)] inv(2) in \<open>simp add: resolve_inner_def\<close>)
  moreover have "demoted_nodes ?d = demoted_nodes (cl_demoter c)" by (simp add: demoted_nodes_def resolve_inner_def)
  ultimately have "demoted_nodes d' \<subseteq> set (p_agents (cl_pool c))" using assms by (auto simp: client_inv_def)
  then show ?thesis using assms l by (simp add: client_inv_def client_lookup_def Let_def)
qed

lemma triggerRefresh_frame [simp]:
  "cl_cfg (triggerRefresh c) = cl_cfg c" "cl_pool (triggerRefresh c) = cl_pool c" "cl_demoter (triggerRefresh c) = cl_demoter c"
  "cl_tracker (triggerRefresh c) = cl_tracker c" "cl_metrics (triggerRefresh c) = cl_metrics c"
  "refreshCtxDone (triggerRefresh c) = refreshCtxDone c" "refreshNowCh (triggerRefresh c)"
  by (simp_all add: triggerRefresh_def)

lemma noteLeaderDrops_frame [simp]:
  "cl_cfg (noteLeaderDrops dr n c) = cl_cfg c" "cl_pool (noteLeaderDrops dr n c) = cl_pool c"
  "cl_demoter (noteLeaderDrops dr n c) = cl_demoter c" "cl_tracker (noteLeaderDrops dr n c) = cl_tracker c"
  "refreshCtxDone (noteLeaderDrops dr n c) = refreshCtxDone c"
  "refreshNowCh (noteLeaderDrops dr n c) \<longleftrightarrow> refreshNowCh c \<or> n \<and> ld_Count dr \<noteq> 0"
  by (simp_all add: noteLeaderDrops_def Let_def)

lemma demoter_Refresh_nodes: "demoted_nodes (demoter_Refresh d agents) = demoted_nodes d \<inter> set agents"
proof -
  have prune: "map_of (foldl (\<lambda>m e. if fst e \<notin> A then AList.delete (fst e) m else m) m es) n =
      (if n \<notin> A \<and> n \<in> fst ` set es then None else map_of m n)" for A :: "node_id set" and m :: "(node_id, instant) gomap" and es n
    by (induction es arbitrary: m) auto
  have "n \<in> demoted_nodes (demoter_Refresh d agents) \<longleftrightarrow> n \<in> demoted_nodes d \<and> n \<in> set agents" for n
    using map_of_eq_None_iff [of "lastDemotedProbe d" n] 
    by (cases "map_of (lastDemotedProbe d) n") (auto simp: demoted_nodes_def demoter_Refresh_def prune)
  then show ?thesis by blast
qed

lemma refreshPool_frame [simp]:
  "cl_cfg (refreshPool trig f c) = cl_cfg c" "refreshCtxDone (refreshPool trig f c) = refreshCtxDone c"
  "cl_pool (refreshPool trig f c) = fst (refresh (cl_pool c) f)"
  by (auto simp: refreshPool_def Let_def case_prod_unfold split: sum.split)

lemma refreshPool_inv:
  assumes "client_inv c" "distinct_brokers f"
  shows "client_inv (refreshPool trig f c)"
proof -
  have "pool_inv (fst (refresh (cl_pool c) f))"
    by (rule refresh_pool_inv) (use assms in \<open>auto simp: client_inv_def distinct_brokers_def\<close>)
  moreover have "demoted_nodes (cl_demoter (refreshPool trig f c)) \<subseteq> set (p_agents (fst (refresh (cl_pool c) f)))"
  proof (cases f)
    case (Inl e)
    then show ?thesis using assms(1) by (simp add: client_inv_def refreshPool_def refresh_def Let_def)
  next
    case (Inr meta)
    obtain rem dr where "snd (refresh (cl_pool c) f) = Inr (rem, dr)" using Inr by (simp add: refresh_def Let_def)
    then show ?thesis by (auto simp: refreshPool_def Let_def case_prod_unfold demoter_Refresh_nodes)
  qed
  ultimately show ?thesis by (simp add: client_inv_def)
qed

section \<open>The pacing of fetches\<close>

text \<open>The log has the newest fetch first. A streak is a run of on-demand fetches that no periodic one has ended.\<close>

fun streak :: "(metadataRefreshTrigger \<times> instant) list \<Rightarrow> nat" where
  "streak [] = 0"
| "streak ((trig, t) # hist) = (if trig = metadataRefreshTriggerOnDemand then Suc (streak hist) else 0)"

definition backoff_level :: "duration \<Rightarrow> duration \<Rightarrow> nat \<Rightarrow> duration" where
  "backoff_level lo hi k = min (lo * 2 ^ k) hi"

fun rested :: "duration \<Rightarrow> duration \<Rightarrow> instant \<Rightarrow> (metadataRefreshTrigger \<times> instant) list \<Rightarrow> bool" where
  "rested lo hi now ((metadataRefreshTriggerOnDemand, t) # hist) \<longleftrightarrow> backoff_level lo hi (streak hist) \<le> now - t"
| "rested lo hi now hist \<longleftrightarrow> True"

fun paced :: "duration \<Rightarrow> duration \<Rightarrow> (metadataRefreshTrigger \<times> instant) list \<Rightarrow> bool" where
  "paced lo hi [] \<longleftrightarrow> True"
| "paced lo hi ((trig, t) # hist) \<longleftrightarrow> rested lo hi t hist \<and> paced lo hi hist"

lemma rested_mono: "rested lo hi now hist \<Longrightarrow> now \<le> now' \<Longrightarrow> rested lo hi now' hist"
  by (induction lo hi now hist rule: rested.induct) auto

fun pc_inv :: "duration \<Rightarrow> duration \<Rightarrow> instant \<Rightarrow> (metadataRefreshTrigger \<times> instant) list \<Rightarrow> duration \<Rightarrow> refresh_pc \<Rightarrow> bool" where
  "pc_inv lo hi now hist delay AtSelect \<longleftrightarrow> delay = backoff_level lo hi (streak hist) \<and> rested lo hi now hist"
| "pc_inv lo hi now hist delay (Fetching trig t) \<longleftrightarrow>
     t \<le> now \<and> (\<exists>older. hist = (trig, t) # older \<and> delay = backoff_level lo hi (streak older))"
| "pc_inv lo hi now hist delay (Cooling timer) \<longleftrightarrow>
     (\<exists>t older. hist = (metadataRefreshTriggerOnDemand, t) # older \<and> delay = backoff_level lo hi (streak older) \<and> timer = t + delay)"
| "pc_inv lo hi now hist delay Exited \<longleftrightarrow> True"

lemma pc_inv_later: "pc_inv lo hi now hist delay pc \<Longrightarrow> now \<le> now' \<Longrightarrow> pc_inv lo hi now' hist delay pc"
  using rested_mono by (cases pc) auto

definition loop_inv :: "Config \<Rightarrow> refresh_loop \<Rightarrow> bool" where
  "loop_inv cfg s \<longleftrightarrow> cl_cfg (rl_client s) = cfg \<and> client_inv (rl_client s) \<and> backoff_ok (rl_backoff s) \<and>
     rb_floor (rl_backoff s) = OnDemandMetadataRefreshInterval cfg \<and> rb_ceiling (rl_backoff s) = MetadataRefreshInterval cfg \<and>
     paced (OnDemandMetadataRefreshInterval cfg) (MetadataRefreshInterval cfg) (rl_fetches s) \<and>
     pc_inv (OnDemandMetadataRefreshInterval cfg) (MetadataRefreshInterval cfg) (rl_now s) (rl_fetches s) (rb_delay (rl_backoff s)) (rl_pc s)"

lemma loop_inv_client:
  assumes "loop_inv cfg s" "cl_cfg c = cfg" "client_inv c"
  shows "loop_inv cfg (s\<lparr>rl_client := c\<rparr>)"
  using assms by (simp add: loop_inv_def)

lemma loop_inv_start:
  assumes "loop_inv cfg s" "rl_pc s = AtSelect" "cl_cfg c = cfg" "client_inv c"
  shows "loop_inv cfg (start_fetch trig (s\<lparr>rl_client := c, rl_tickAt := k\<rparr>))"
  using assms by (simp add: loop_inv_def start_fetch_def)

lemma backoff_advance_level:
  assumes "backoff_ok b" "rb_delay b = backoff_level (rb_floor b) (rb_ceiling b) k"
  shows "rb_delay (backoff_advance b) = backoff_level (rb_floor b) (rb_ceiling b) (Suc k)"
  using refresh_backoff.advance_level [OF assms(1), of k] assms(2) by (simp add: backoff_current_def backoff_level_def)

lemma loop_inv_after_cooldown:
  assumes "loop_inv cfg s" "rl_fetches s = (metadataRefreshTriggerOnDemand, t) # hist"
    "rb_delay (rl_backoff s) = backoff_level (OnDemandMetadataRefreshInterval cfg) (MetadataRefreshInterval cfg) (streak hist)"
    "refreshCtxDone (rl_client s) \<or> rb_delay (rl_backoff s) \<le> rl_now s - t"
  shows "loop_inv cfg (after_cooldown s)"
  using assms backoff_advance_level [of "rl_backoff s" "streak hist"] refresh_backoff.ok_advance [of "rl_backoff s"]
  by (auto simp: loop_inv_def after_cooldown_def refresh_backoff.same_range)

lemma wait_remaining:
  assumes "0 < delay" "delay \<le> max_duration" "t \<le> now"
  shows "i64 (delay - time_sub now t) \<le> 0 \<Longrightarrow> delay \<le> now - t"
    and "\<not> i64 (delay - time_sub now t) \<le> 0 \<Longrightarrow> now + i64 (delay - time_sub now t) = t + delay"
proof -
  have e: "0 \<le> time_sub now t" "time_sub now t \<le> now - t" "time_sub now t \<le> max_duration"
    "now - t < max_duration \<Longrightarrow> time_sub now t = now - t"
    using assms(3) by (auto simp: time_sub_def max_duration_def min_duration_def)
  then have i: "i64 (delay - time_sub now t) = delay - time_sub now t"
    using assms by (intro i64_id) (auto simp: max_duration_def)
  show "i64 (delay - time_sub now t) \<le> 0 \<Longrightarrow> delay \<le> now - t" using i e by linarith
  show "now + i64 (delay - time_sub now t) = t + delay" if "\<not> i64 (delay - time_sub now t) \<le> 0"
  proof -
    have "time_sub now t < max_duration" using that i assms(2) by linarith
    then have "time_sub now t = now - t" using assms(3) by (auto simp: time_sub_def min_duration_def max_duration_def)
    then show ?thesis using i by linarith
  qed
qed

lemma loop_inv_fetched:
  assumes inv: "loop_inv cfg s" and pc: "rl_pc s = Fetching trig t" and f: "distinct_brokers f"
  shows "loop_inv cfg (fetch_returns trig t f s)"
proof -
  let ?s = "s\<lparr>rl_client := refreshPool trig f (rl_client s)\<rparr>"
  have s: "loop_inv cfg ?s" by (rule loop_inv_client [OF inv]) (use inv f refreshPool_inv in \<open>auto simp: loop_inv_def\<close>)
  obtain hist where hist: "rl_fetches s = (trig, t) # hist" "t \<le> rl_now s"
    "rb_delay (rl_backoff s) = backoff_level (OnDemandMetadataRefreshInterval cfg) (MetadataRefreshInterval cfg) (streak hist)"
    using inv pc by (auto simp: loop_inv_def)
  show ?thesis
  proof (cases trig)
    case metadataRefreshTriggerPeriodic
    have r: "backoff_ok (backoff_reset (rl_backoff s))"
      "rb_delay (backoff_reset (rl_backoff s)) = backoff_level (OnDemandMetadataRefreshInterval cfg) (MetadataRefreshInterval cfg) 0"
      using refresh_backoff.reset_level [of "rl_backoff s"] refresh_backoff.ok_reset [of "rl_backoff s"] inv
      by (auto simp: loop_inv_def backoff_level_def backoff_current_def)
    show ?thesis using s hist r metadataRefreshTriggerPeriodic
      by (cases "refreshCtxDone (rl_client s)") (simp_all add: fetch_returns_def loop_inv_def refresh_backoff.same_range)
  next
    case metadataRefreshTriggerOnDemand
    let ?delay = "rb_delay (rl_backoff s)"
    have d: "0 < ?delay" "?delay \<le> max_duration" using inv by (auto simp: loop_inv_def backoff_ok_def)
    note w = wait_remaining [OF d hist(2)]
    show ?thesis
    proof (cases "i64 (?delay - time_sub (rl_now s) t) \<le> 0")
      case True
      have "loop_inv cfg (after_cooldown ?s)"
        by (rule loop_inv_after_cooldown [OF s]) (use hist metadataRefreshTriggerOnDemand w(1) [OF True] in auto)
      then show ?thesis using True metadataRefreshTriggerOnDemand
        by (simp add: fetch_returns_def waitRefreshCooldown_def backoff_current_def)
    next
      case False
      then show ?thesis using s hist metadataRefreshTriggerOnDemand w(2) [OF False]
        by (simp add: fetch_returns_def waitRefreshCooldown_def backoff_current_def loop_inv_def)
    qed
  qed
qed

lemma refresh_step_inv:
  assumes "refresh_step xxh s s'" "loop_inv cfg s"
  shows "loop_inv cfg s'"
  using assms
proof (induction rule: refresh_step.induct)
  case (ctx_done s)
  then show ?case by (simp add: loop_inv_def)
next
  case (nudged s)
  then show ?case unfolding take_nudge_def by (intro loop_inv_start) (auto simp: loop_inv_def client_inv_def)
next
  case (ticked s)
  have t: "loop_inv cfg (s\<lparr>rl_tickAt := k\<rparr>)" for k using ticked by (simp add: loop_inv_def)
  show ?case using loop_inv_start [OF t] loop_inv_start [OF ticked(3,1), of "rl_client s"] ticked
    by (auto simp: take_tick_def take_nudge_def Let_def loop_inv_def client_inv_def)
next
  case (fetched s trig startedAt resp)
  then show ?case using loop_inv_fetched by blast
next
  case (cooled s timer)
  then obtain t hist where "rl_fetches s = (metadataRefreshTriggerOnDemand, t) # hist"
    "rb_delay (rl_backoff s) = backoff_level (OnDemandMetadataRefreshInterval cfg) (MetadataRefreshInterval cfg) (streak hist)"
    "timer = t + rb_delay (rl_backoff s)" by (auto simp: loop_inv_def)
  then show ?case using cooled by (intro loop_inv_after_cooldown) auto
next
  case (clock s now)
  then show ?case using pc_inv_later by (auto simp: loop_inv_def)
next
  case (nudge s)
  then show ?case by (intro loop_inv_client) (auto simp: loop_inv_def client_inv_def)
next
  case (close s)
  then show ?case by (intro loop_inv_client) (auto simp: loop_inv_def client_inv_def)
next
  case (lookup s topic part n)
  then show ?case by (intro loop_inv_client) (auto simp: loop_inv_def client_lookup_inv)
next
  case (tracked s nodeID latency err)
  then show ?case by (intro loop_inv_client) (auto simp: loop_inv_def client_inv_def)
qed

lemma Validate_intervals:
  "Validate cfg = None \<Longrightarrow> 0 < OnDemandMetadataRefreshInterval cfg \<and> OnDemandMetadataRefreshInterval cfg \<le> MetadataRefreshInterval cfg"
  by (simp add: Validate_def Let_def split: if_splits option.splits)

lemma new_client_inv:
  assumes "NewWarpstreamClient xxh opts kgoErr fetched = Inr c" "distinct_brokers fetched"
  shows "client_inv c"
    "0 < OnDemandMetadataRefreshInterval (cl_cfg c) \<and> OnDemandMetadataRefreshInterval (cl_cfg c) \<le> MetadataRefreshInterval (cl_cfg c)"
proof -
  have v: "Validate (NewConfig opts) = None" and r: "\<exists>rd. snd (refresh NewAgentPool fetched) = Inr rd"
    and c: "cl_cfg c = NewConfig opts" "cl_pool c = fst (refresh NewAgentPool fetched)" "lastDemotedProbe (cl_demoter c) = []"
    using assms(1) by (auto simp: NewWarpstreamClient_def Let_def NewDemoter_def split: option.splits sum.splits prod.splits)
  have "pool_inv (fst (refresh NewAgentPool fetched))"
    by (rule refresh_pool_inv) (use assms(2) pool_inv_new in \<open>auto simp: distinct_brokers_def\<close>)
  then show "client_inv c" using c by (simp add: client_inv_def demoted_nodes_def)
  show "0 < OnDemandMetadataRefreshInterval (cl_cfg c) \<and> OnDemandMetadataRefreshInterval (cl_cfg c) \<le> MetadataRefreshInterval (cl_cfg c)"
    using Validate_intervals [OF v] c(1) by simp
qed

lemma loop_inv_initial:
  assumes "client_inv c"
    "0 < OnDemandMetadataRefreshInterval (cl_cfg c) \<and> OnDemandMetadataRefreshInterval (cl_cfg c) \<le> MetadataRefreshInterval (cl_cfg c)"
    "MetadataRefreshInterval (cl_cfg c) \<le> max_duration"
  shows "loop_inv (cl_cfg c) (startBackgroundRefresh now c)"
  using assms by (auto simp: loop_inv_def startBackgroundRefresh_def newRefreshBackoff_def backoff_ok_def backoff_level_def)

lemma loop_inv_reachable:
  assumes "NewWarpstreamClient xxh opts kgoErr fetched = Inr c" "distinct_brokers fetched"
    "MetadataRefreshInterval (cl_cfg c) \<le> max_duration" "(refresh_step xxh)\<^sup>*\<^sup>* (startBackgroundRefresh now c) s"
  shows "loop_inv (cl_cfg c) s"
  using assms(4)
proof (induction rule: rtranclp_induct)
  case base
  show ?case by (rule loop_inv_initial [OF new_client_inv [OF assms(1,2)] assms(3)])
next
  case (step s s')
  then show ?case using refresh_step_inv by blast
qed

section \<open>Properties\<close>

text \<open>
  C11: Routing misses cannot flood the cluster with Metadata requests. In every run of a client's refresh
  goroutine, whatever nudges, ticks, answers and delays come, two consecutive fetches of which the
  first was on demand start at least \<open>floor * 2 ^ k\<close> apart, capped at the periodic interval, where \<open>k\<close> is
  the number of on-demand fetches since the last periodic one; and the delay stays between the two
  configured intervals, doubling without ever wrapping around.
\<close>

theorem on_demand_refreshes_back_off:
  assumes "NewWarpstreamClient xxh opts kgoErr fetched = Inr c" and "distinct_brokers fetched"
    and "MetadataRefreshInterval (cl_cfg c) \<le> max_duration" and "(refresh_step xxh)\<^sup>*\<^sup>* (startBackgroundRefresh now c) s"
    and "rl_fetches s = newer @ (trig, t') # (metadataRefreshTriggerOnDemand, t) # older"
  shows "min (OnDemandMetadataRefreshInterval (cl_cfg c) * 2 ^ streak older) (MetadataRefreshInterval (cl_cfg c)) \<le> t' - t \<and>
    OnDemandMetadataRefreshInterval (cl_cfg c) \<le> backoff_current (rl_backoff s) \<and>
    backoff_current (rl_backoff s) \<le> MetadataRefreshInterval (cl_cfg c)"
proof -
  note inv = loop_inv_reachable [OF assms(1-4)]
  have "paced lo hi (xs @ ys) \<Longrightarrow> paced lo hi ys" for lo hi xs ys by (induction xs) auto
  moreover have "paced (OnDemandMetadataRefreshInterval (cl_cfg c)) (MetadataRefreshInterval (cl_cfg c)) (rl_fetches s)"
    using inv by (simp add: loop_inv_def)
  ultimately have "paced (OnDemandMetadataRefreshInterval (cl_cfg c)) (MetadataRefreshInterval (cl_cfg c))
      ((trig, t') # (metadataRefreshTriggerOnDemand, t) # older)" unfolding assms(5) by blast
  then show ?thesis using inv by (auto simp: loop_inv_def backoff_ok_def backoff_current_def backoff_level_def)
qed

definition example_hash :: hash_fun where "example_hash bs = 0"

definition example_client :: WarpstreamClient where
  "example_client = projr (NewWarpstreamClient example_hash [WithAddress [''a:9092''], WithTopic ''t''] None (Inr example_meta))"

text \<open>
  An excerpt of a run: a miss nudges the goroutine, the answer excludes a leader and so nudges
  again, and the second fetch starts when the first delay has passed.
\<close>

definition example_fetching :: refresh_loop where
  "example_fetching = (let s = startBackgroundRefresh 0 example_client in take_nudge (s\<lparr>rl_client := triggerRefresh (rl_client s)\<rparr>))"

definition example_cooling :: refresh_loop where
  "example_cooling = fetch_returns metadataRefreshTriggerOnDemand 0 (Inr example_meta) example_fetching"

definition example_second :: refresh_loop where
  "example_second = take_nudge (after_cooldown (example_cooling\<lparr>rl_now := 2 * second\<rparr>))"

lemma example_client_new:
  "NewWarpstreamClient example_hash [WithAddress [''a:9092''], WithTopic ''t''] None (Inr example_meta) = Inr example_client"
proof -
  have "\<not> isl (NewWarpstreamClient example_hash [WithAddress [''a:9092''], WithTopic ''t''] None (Inr example_meta))" by code_simp
  then show ?thesis by (simp add: example_client_def)
qed

lemma example_run: "(refresh_step example_hash)\<^sup>*\<^sup>* (startBackgroundRefresh 0 example_client) example_second"
proof -
  let ?s0 = "startBackgroundRefresh 0 example_client"
  let ?s1 = "?s0\<lparr>rl_client := triggerRefresh (rl_client ?s0)\<rparr>"
  have a: "refresh_step example_hash ?s0 ?s1" by (rule nudge)
  have b: "refresh_step example_hash ?s1 example_fetching"
    unfolding example_fetching_def Let_def by (rule nudged) (simp_all add: startBackgroundRefresh_def)
  have "rl_pc example_fetching = Fetching metadataRefreshTriggerOnDemand 0" by code_simp
  then have c: "refresh_step example_hash example_fetching example_cooling"
    unfolding example_cooling_def by (rule fetched) (simp add: distinct_brokers_def example_meta_def)
  let ?s4 = "example_cooling\<lparr>rl_now := 2 * second\<rparr>"
  have "rl_now example_cooling = 0" "rl_pc ?s4 = Cooling (1 * second)" by code_simp+
  then have d: "refresh_step example_hash example_cooling ?s4" "refresh_step example_hash ?s4 (after_cooldown ?s4)"
    by (simp add: clock, simp add: cooled)
  have "rl_pc (after_cooldown ?s4) = AtSelect" "refreshNowCh (rl_client (after_cooldown ?s4))" by code_simp+
  then have e: "refresh_step example_hash (after_cooldown ?s4) example_second"
    unfolding example_second_def by (rule nudged)
  show ?thesis using a b c d e by (meson rtranclp.rtrancl_into_rtrancl rtranclp.rtrancl_refl)
qed

theorem on_demand_refreshes_back_off_witness:
  "rl_fetches example_second = [(metadataRefreshTriggerOnDemand, 2 * second), (metadataRefreshTriggerOnDemand, 0)] \<and>
   min (OnDemandMetadataRefreshInterval (cl_cfg example_client)) (MetadataRefreshInterval (cl_cfg example_client)) \<le> 2 * second"
proof -
  have f: "rl_fetches example_second = [] @ (metadataRefreshTriggerOnDemand, 2 * second) # (metadataRefreshTriggerOnDemand, 0) # []" by code_simp
  have "distinct_brokers (Inr example_meta)" "MetadataRefreshInterval (cl_cfg example_client) \<le> max_duration" by code_simp+
  from conjunct1 [OF on_demand_refreshes_back_off [OF example_client_new this example_run f]] f show ?thesis by simp
qed

text \<open>
  A refresh updates every component it concerns. After a successful fetch the pool is the new
  snapshot, the agents that left have no statistics, demotion state is kept for exactly the demoted agents
  that stayed, the excluded leaders are published, and another refresh is asked for when there were any;
  after a failed one nothing but the counter of failed refreshes has changed.
\<close>

theorem refresh_updates_every_component:
  assumes "client_inv c" and "distinct (md_Brokers meta)" and "n \<in> set (p_agents (cl_pool c)) - set (md_Brokers meta)"
  shows "let c' = refreshPool trig (Inr meta) c; drops = (\<Sum>x\<leftarrow>md_Topics meta. excluded_leaders (set (md_Brokers meta)) x)
    in cl_pool c' = fst (refresh (cl_pool c) (Inr meta)) \<and> set (p_agents (cl_pool c')) = set (md_Brokers meta) \<and>
      cached_AgentStats (cl_tracker c') now n = None \<and>
      demoted_nodes (cl_demoter c') = demoted_nodes (cl_demoter c) \<inter> set (md_Brokers meta) \<and>
      agentPoolExcludedLeaders (cl_metrics c') = drops \<and> (refreshNowCh c' \<longleftrightarrow> refreshNowCh c \<or> drops \<noteq> 0) \<and>
      refreshPool trig (Inl e) c = c\<lparr>cl_metrics := (cl_metrics c)\<lparr>metadataRefreshResultsTotal :=
        add_to (trig, metadataRefreshResultFailed) 1 (metadataRefreshResultsTotal (cl_metrics c))\<rparr>\<rparr>"
proof -
  let ?removed = "filter (\<lambda>i. i \<notin> set (md_Brokers meta)) (p_agents (cl_pool c))"
  obtain pool dropped where r: "refresh (cl_pool c) (Inr meta) = (pool, Inr (?removed, dropped))"
    and p: "set (p_agents pool) = set (md_Brokers meta)"
    and d: "ld_Count dropped = (\<Sum>x\<leftarrow>md_Topics meta. excluded_leaders (set (md_Brokers meta)) x)"
    by (simp add: refresh_def Let_def diffRemovedAgents_eq build_dropped_Count)
  have n: "n \<in> set ?removed" using assms(3) by simp
  then have ne: "?removed \<noteq> []" by (metis empty_iff empty_set)
  have "cached_AgentStats (cached_PurgeAgents (cl_tracker c) ?removed) now n = None"
    using cached_tracker.purged_until_observed [OF n, of "[]"] by simp
  moreover have "refreshPool trig (Inl e) c = c\<lparr>cl_metrics := (cl_metrics c)\<lparr>metadataRefreshResultsTotal :=
      add_to (trig, metadataRefreshResultFailed) 1 (metadataRefreshResultsTotal (cl_metrics c))\<rparr>\<rparr>"
    by (simp add: refreshPool_def refresh_def observeMetadataRefresh_def Let_def)
  moreover have "agentPoolExcludedLeaders (cl_metrics (noteLeaderDrops dropped True c'')) = ld_Count dropped" for c''
    by (simp add: noteLeaderDrops_def Let_def)
  ultimately show ?thesis using r p d ne
    by (simp add: refreshPool_def Let_def demoter_Refresh_nodes)
qed

theorem refresh_updates_every_component_witness:
  "cached_AgentStats (cl_tracker (refreshPool metadataRefreshTriggerPeriodic
     (Inr \<lparr>md_Brokers = [1, 2], md_Topics = []\<rparr>) example_client)) 0 3 = None"
proof -
  have "client_inv example_client" using new_client_inv(1) [OF example_client_new] by (simp add: distinct_brokers_def example_meta_def)
  moreover have "3 \<in> set (p_agents (cl_pool example_client)) - set (md_Brokers \<lparr>md_Brokers = [1, 2], md_Topics = []\<rparr>)" by code_simp
  ultimately show ?thesis
    using refresh_updates_every_component [of example_client "\<lparr>md_Brokers = [1, 2], md_Topics = []\<rparr>" 3 metadataRefreshTriggerPeriodic 0 Canceled]
    by (simp add: Let_def)
qed



end
