(* ===== verification/Kbin.thy ===== *)
theory Kbin
  imports Wgo_Prelude
begin

text \<open>
  The primitive wire format of \<open>vendor/github.com/twmb/franz-go/pkg/kbin/primitives.go\<close>, which the
  client's record encoder and decoder rest on: big-endian integers, zigzag varints, length-prefixed
  bytes and the \<open>Reader\<close> that turns bad when its source runs out. Integers are words of the width
  they have in Go. The source unrolls the varint writer and reader by hand, once for 32 and once for
  64 bits; here each is one loop over the bytes, and the width, the largest byte count and the
  largest legal last byte are its parameters. A Go byte slice that may be nil is a \<open>bytes option\<close>,
  a Go string is its bytes.

  The lemmas show that every reader returns what the matching writer appended and leaves the rest
  of the source, and that the length functions give the number of bytes written.
\<close>

unbundle bit_operations_syntax

type_synonym bytes = "8 word list"

definition zigzag :: "'a::len word \<Rightarrow> 'a word" where
  "zigzag i = push_bit 1 i XOR signed_drop_bit (LENGTH('a) - 1) i"

definition unzigzag :: "'a::len word \<Rightarrow> 'a word" where
  "unzigzag x = drop_bit 1 x XOR - (x AND 1)"

lemma unat_drop_bit_1: "unat (drop_bit 1 u) = unat u div 2"
  unfolding unat_drop_bit_eq by (simp add: drop_bit_eq_div)

function bits_Len :: "'a::len word \<Rightarrow> nat" where
  "bits_Len u = (if u = 0 then 0 else Suc (bits_Len (drop_bit 1 u)))"
  by pat_completeness auto
termination
proof (relation "measure unat")
  fix u :: "'a word"
  assume "u \<noteq> 0"
  then have "unat u \<noteq> 0" by (simp add: unat_eq_0)
  then have "unat u div 2 < unat u" by simp
  then show "(drop_bit 1 u, u) \<in> measure unat" by (simp only: in_measure unat_drop_bit_1)
qed simp

declare bits_Len.simps [simp del]

definition uvarintLens :: "nat list" where
  "uvarintLens = replicate 8 1 @ concat (map (replicate 7) [2, 3, 4, 5, 6, 7, 8, 9]) @ [10]"

definition uvarintLen :: "'a::len word \<Rightarrow> nat" where
  "uvarintLen u = uvarintLens ! bits_Len u"

fun put_uvarint :: "nat \<Rightarrow> 'a::len word \<Rightarrow> bytes" where
  "put_uvarint 0 u = []"
| "put_uvarint (Suc 0) u = [ucast u]"
| "put_uvarint (Suc (Suc n)) u = ucast (u AND 0x7f OR 0x80) # put_uvarint (Suc n) (drop_bit 7 u)"

fun get_uvarint :: "nat \<Rightarrow> 8 word \<Rightarrow> nat \<Rightarrow> 'a::len word \<Rightarrow> bytes \<Rightarrow> 'a word \<times> int" where
  "get_uvarint k maxLast i x [] = (0, 0)"
| "get_uvarint k maxLast i x (b # bs) =
     (if Suc i = k
      then (if b \<le> maxLast then (x OR push_bit (7 * i) (ucast b), int k) else (0, - int k))
      else let x = x OR push_bit (7 * i) (ucast (b AND 0x7f))
           in if b AND 0x80 = 0 then (x, int (Suc i)) else get_uvarint k maxLast (Suc i) x bs)"

definition VarintLen :: "32 word \<Rightarrow> nat" where
  "VarintLen i = uvarintLen (zigzag i)"

definition VarlongLen :: "64 word \<Rightarrow> nat" where
  "VarlongLen i = uvarintLen (zigzag i)"

definition AppendVarint :: "bytes \<Rightarrow> 32 word \<Rightarrow> bytes" where
  "AppendVarint dst i = dst @ put_uvarint (uvarintLen (zigzag i)) (zigzag i)"

definition AppendVarlong :: "bytes \<Rightarrow> 64 word \<Rightarrow> bytes" where
  "AppendVarlong dst i = dst @ put_uvarint (uvarintLen (zigzag i)) (zigzag i)"

definition Varint :: "bytes \<Rightarrow> 32 word \<times> int" where
  "Varint inp = (let (x, n) = get_uvarint 5 0x0f 0 0 inp in (unzigzag x, n))"

definition Varlong :: "bytes \<Rightarrow> 64 word \<times> int" where
  "Varlong inp = (let (x, n) = get_uvarint 10 0x01 0 0 inp in (unzigzag x, n))"

definition AppendInt8 :: "bytes \<Rightarrow> 8 word \<Rightarrow> bytes" where
  "AppendInt8 dst u = dst @ [u]"

definition AppendInt16 :: "bytes \<Rightarrow> 16 word \<Rightarrow> bytes" where
  "AppendInt16 dst u = dst @ [ucast (drop_bit 8 u), ucast u]"

definition AppendInt32 :: "bytes \<Rightarrow> 32 word \<Rightarrow> bytes" where
  "AppendInt32 dst u = dst @ [ucast (drop_bit 24 u), ucast (drop_bit 16 u), ucast (drop_bit 8 u), ucast u]"

definition AppendInt64 :: "bytes \<Rightarrow> 64 word \<Rightarrow> bytes" where
  "AppendInt64 dst u = dst @ [ucast (drop_bit 56 u), ucast (drop_bit 48 u), ucast (drop_bit 40 u),
     ucast (drop_bit 32 u), ucast (drop_bit 24 u), ucast (drop_bit 16 u), ucast (drop_bit 8 u), ucast u]"

definition AppendVarintString :: "bytes \<Rightarrow> bytes \<Rightarrow> bytes" where
  "AppendVarintString dst s = AppendVarint dst (word_of_nat (length s)) @ s"

definition AppendVarintBytes :: "bytes \<Rightarrow> bytes option \<Rightarrow> bytes" where
  "AppendVarintBytes dst b =
     (case b of None \<Rightarrow> AppendVarint dst (- 1)
      | Some b \<Rightarrow> AppendVarint dst (word_of_nat (length b)) @ b)"

section \<open>The reader\<close>

record Reader =
  Src :: bytes
  bad :: bool

definition rd_fail :: "Reader \<Rightarrow> Reader" where
  "rd_fail b = b\<lparr>Src := [], bad := True\<rparr>"

text \<open>\<open>binary.BigEndian.Uint16\<close>, \<open>Uint32\<close> and \<open>Uint64\<close>: the first byte is the most significant one.\<close>

definition big_endian :: "bytes \<Rightarrow> 'a::len word" where
  "big_endian bs = foldl (\<lambda>x b. push_bit 8 x OR ucast b) 0 bs"

definition rd_Int8 :: "Reader \<Rightarrow> 8 word \<times> Reader" where
  "rd_Int8 b = (case Src b of [] \<Rightarrow> (0, rd_fail b) | r # src \<Rightarrow> (r, b\<lparr>Src := src\<rparr>))"

definition rd_Int16 :: "Reader \<Rightarrow> 16 word \<times> Reader" where
  "rd_Int16 b =
     (if length (Src b) < 2 then (0, rd_fail b)
      else (big_endian (take 2 (Src b)), b\<lparr>Src := drop 2 (Src b)\<rparr>))"

definition rd_Int32 :: "Reader \<Rightarrow> 32 word \<times> Reader" where
  "rd_Int32 b =
     (if length (Src b) < 4 then (0, rd_fail b)
      else (big_endian (take 4 (Src b)), b\<lparr>Src := drop 4 (Src b)\<rparr>))"

definition rd_Int64 :: "Reader \<Rightarrow> 64 word \<times> Reader" where
  "rd_Int64 b =
     (if length (Src b) < 8 then (0, rd_fail b)
      else (big_endian (take 8 (Src b)), b\<lparr>Src := drop 8 (Src b)\<rparr>))"

definition rd_Varint :: "Reader \<Rightarrow> 32 word \<times> Reader" where
  "rd_Varint b =
     (let (val, n) = Varint (Src b)
      in if n \<le> 0 then (0, rd_fail b) else (val, b\<lparr>Src := drop (nat n) (Src b)\<rparr>))"

definition rd_Varlong :: "Reader \<Rightarrow> 64 word \<times> Reader" where
  "rd_Varlong b =
     (let (val, n) = Varlong (Src b)
      in if n \<le> 0 then (0, rd_fail b) else (val, b\<lparr>Src := drop (nat n) (Src b)\<rparr>))"

definition rd_Span :: "Reader \<Rightarrow> int \<Rightarrow> bytes option \<times> Reader" where
  "rd_Span b l =
     (if int (length (Src b)) < l \<or> l < 0 then (None, rd_fail b)
      else (Some (take (nat l) (Src b)), b\<lparr>Src := drop (nat l) (Src b)\<rparr>))"

definition rd_VarintBytes :: "Reader \<Rightarrow> bytes option \<times> Reader" where
  "rd_VarintBytes b = (let (l, b) = rd_Varint b in if sint l < 0 then (None, b) else rd_Span b (sint l))"

text \<open>Converting the nil slice to a string gives the empty string.\<close>

definition rd_VarintString :: "Reader \<Rightarrow> bytes \<times> Reader" where
  "rd_VarintString b = (let (s, b) = rd_VarintBytes b in (case s of None \<Rightarrow> [] | Some s \<Rightarrow> s, b))"

definition rd_VarintArrayLen :: "Reader \<Rightarrow> 32 word \<times> Reader" where
  "rd_VarintArrayLen b =
     (let (r, b) = rd_Varint b
      in if int (length (Src b)) < sint r then (0, rd_fail b) else (r, b))"

section \<open>Lemmas\<close>

lemma signed_drop_bit_sign:
  "signed_drop_bit (LENGTH('a) - 1) (i :: 'a::len word) = (if bit i (LENGTH('a) - 1) then - 1 else 0)"
proof (rule bit_word_eqI)
  fix n assume "n < LENGTH('a)"
  then have "n = 0 \<or> LENGTH('a) - 1 \<le> LENGTH('a) - 1 + n \<and> \<not> LENGTH('a) - 1 + n < LENGTH('a) - 1" by auto
  then show "bit (signed_drop_bit (LENGTH('a) - 1) i) n = bit (if bit i (LENGTH('a) - 1) then - 1 else 0 :: 'a word) n"
    using \<open>n < LENGTH('a)\<close> by (cases "n = 0") (auto simp: bit_signed_drop_bit_iff bit_simps)
qed

lemma unzigzag_zigzag [simp]: "unzigzag (zigzag i) = (i :: 'a::len word)"
proof (rule bit_word_eqI)
  fix n assume n: "n < LENGTH('a)"
  let ?s = "bit i (LENGTH('a) - 1)"
  have z: "bit (zigzag i) m \<longleftrightarrow> (m < LENGTH('a) \<and> (1 \<le> m \<and> bit i (m - 1)) \<noteq> ?s)" for m
    by (simp only: zigzag_def signed_drop_bit_sign bit_xor_iff bit_push_bit_iff)
      (auto simp: bit_simps dest: bit_imp_le_length)
  have "zigzag i AND 1 = (if ?s then 1 else 0)"
    by (rule bit_word_eqI) (auto simp: bit_and_iff z bit_1_iff)
  then have "bit (- (zigzag i AND 1)) n = ?s" using n by auto
  then have "bit (unzigzag (zigzag i)) n = (bit (zigzag i) (Suc n) \<noteq> ?s)"
    using n by (simp add: unzigzag_def bit_xor_iff bit_drop_bit_eq)
  also have "\<dots> = bit i n"
  proof (cases "Suc n < LENGTH('a)")
    case True then show ?thesis by (auto simp: z)
  next
    case False
    then have "n = LENGTH('a) - 1" using n by simp
    then show ?thesis using False by (simp add: z)
  qed
  finally show "bit (unzigzag (zigzag i)) n = bit i n" .
qed

lemma bits_Len_bound: "unat u < 2 ^ bits_Len u"
proof (induction u rule: bits_Len.induct)
  case (1 u)
  show ?case
  proof (cases "u = 0")
    case False
    then have "unat u div 2 < 2 ^ bits_Len (drop_bit 1 u)"
      using 1 [OF False] by (simp only: unat_drop_bit_1)
    then show ?thesis using False by (subst bits_Len.simps) simp
  qed simp
qed

lemma bits_Len_le: "unat u < 2 ^ k \<Longrightarrow> bits_Len u \<le> k"
proof (induction u arbitrary: k rule: bits_Len.induct)
  case (1 u)
  show ?case
  proof (cases "u = 0")
    case False
    then have "k \<noteq> 0" using "1.prems" by (auto intro!: Nat.gr0I simp: unat_eq_0)
    then have "unat (drop_bit 1 u) < 2 ^ (k - 1)"
      using "1.prems" unfolding unat_drop_bit_1 by (cases k) auto
    from "1.IH" [OF False this] show ?thesis using False \<open>k \<noteq> 0\<close> by (subst bits_Len.simps) simp
  qed (simp add: bits_Len.simps)
qed

lemma bits_Len_max: "bits_Len (u :: 'a::len word) \<le> LENGTH('a)"
  by (rule bits_Len_le) simp

lemma uvarintLens_nth: "n \<le> 64 \<Longrightarrow> uvarintLens ! n = max 1 ((n + 6) div 7)"
proof -
  have "\<forall>n \<in> set [0..<65]. uvarintLens ! n = max 1 ((n + 6) div 7)" by code_simp
  then show "n \<le> 64 \<Longrightarrow> uvarintLens ! n = max 1 ((n + 6) div 7)" by simp
qed

lemma uvarintLen_bound:
  fixes u :: "'a::len word"
  assumes "LENGTH('a) \<le> 64"
  shows "1 \<le> uvarintLen u" and "unat u < 2 ^ (7 * uvarintLen u)"
    and "uvarintLen u \<le> (LENGTH('a) + 6) div 7"
proof -
  have n: "bits_Len u \<le> 64" using bits_Len_max [of u] assms by simp
  have l: "uvarintLen u = max 1 ((bits_Len u + 6) div 7)"
    using uvarintLens_nth [OF n] by (simp add: uvarintLen_def)
  show "1 \<le> uvarintLen u" using l by simp
  have "bits_Len u \<le> 7 * uvarintLen u" using l by linarith
  then have "(2 :: nat) ^ bits_Len u \<le> 2 ^ (7 * uvarintLen u)" by (rule power_increasing) simp
  then show "unat u < 2 ^ (7 * uvarintLen u)" using bits_Len_bound [of u] by linarith
  have "(bits_Len u + 6) div 7 \<le> (LENGTH('a) + 6) div 7" using bits_Len_max [of u] by (intro div_le_mono) simp
  moreover have "1 \<le> (LENGTH('a) + 6) div 7" using len_gt_0 [where 'a = 'a] by linarith
  ultimately show "uvarintLen u \<le> (LENGTH('a) + 6) div 7" using l by simp
qed

lemma length_put_uvarint [simp]: "length (put_uvarint n u) = n"
  by (induction n u rule: put_uvarint.induct) simp_all

lemma small_word_bits:
  assumes "unat (v :: 'a::len word) < 2 ^ m" "m \<le> n" shows "\<not> bit v n"
proof -
  have "unat v < 2 ^ n" using assms by (meson order_less_le_trans one_le_numeral power_increasing)
  then have "drop_bit n (unat v) = 0" by (simp add: drop_bit_eq_div)
  then have "drop_bit n v = 0" by (simp add: unat_eq_0 flip: unat_drop_bit_eq)
  then show ?thesis by (simp add: bit_iff_odd_drop_bit)
qed

lemma bit_7f: "bit (0x7f :: 'a::len word) n \<longleftrightarrow> n < LENGTH('a) \<and> n < 7"
proof -
  have "(0x7f :: 'a word) = mask 7" by (simp add: mask_eq_exp_minus_1)
  then show ?thesis by (simp only: bit_mask_iff) simp
qed

lemma bit_80: "bit (0x80 :: 'a::len word) n \<longleftrightarrow> n < LENGTH('a) \<and> n = 7"
proof -
  have "(0x80 :: 'a word) = 2 ^ 7" by simp
  then show ?thesis by (simp only: bit_exp_iff) auto
qed

lemma get_put_uvarint:
  fixes u :: "'a::len word"
  assumes "i + Suc n \<le> k" and "unat (drop_bit (7 * i) u) < 2 ^ (7 * Suc n)"
    and len: "LENGTH('a) = 7 * (k - 1) + lb" "lb \<le> 7" "8 \<le> LENGTH('a)"
  shows "get_uvarint k (mask lb) i (take_bit (7 * i) u) (put_uvarint (Suc n) (drop_bit (7 * i) u) @ rest)
           = (u, int (i + Suc n))"
  using assms(1,2)
proof (induction n arbitrary: i)
  case 0
  let ?v = "drop_bit (7 * i) u"
  have nb: "\<not> bit ?v j" if "7 \<le> j" for j using small_word_bits [OF "0.prems"(2), of j] that by simp
  have b: "bit (ucast ?v :: 8 word) j = bit ?v j" for j
    using nb [of j] by (cases "7 \<le> j") (auto simp: bit_ucast_iff)
  have x: "take_bit (7 * i) u OR push_bit (7 * i) (ucast (ucast ?v :: 8 word)) = u"
  proof (rule bit_word_eqI)
    fix j assume "j < LENGTH('a)"
    then show "bit (take_bit (7 * i) u OR push_bit (7 * i) (ucast (ucast ?v :: 8 word))) j = bit u j"
      using nb [of "j - 7 * i"]
      by (cases "7 * i \<le> j"; cases "7 \<le> j - 7 * i") (auto simp: bit_or_iff bit_take_bit_iff bit_push_bit_iff bit_ucast_iff bit_drop_bit_eq)
  qed
  have m: "(ucast ?v :: 8 word) AND 0x7f = ucast ?v"
  proof (rule bit_word_eqI)
    fix j assume "j < LENGTH(8)"
    then show "bit ((ucast ?v :: 8 word) AND 0x7f) j = bit (ucast ?v :: 8 word) j"
      using nb [of j] by (cases "7 \<le> j") (simp_all only: bit_and_iff bit_7f b not_le, simp_all)
  qed
  have t: "(ucast ?v :: 8 word) AND 0x80 = 0"
  proof (rule bit_word_eqI)
    fix j
    show "bit ((ucast ?v :: 8 word) AND 0x80) j = bit (0 :: 8 word) j"
      using nb [of j] by (simp only: bit_and_iff bit_80 b) auto
  qed
  have "(ucast ?v :: 8 word) = take_bit lb (ucast ?v)" if "Suc i = k"
  proof (rule bit_word_eqI)
    fix j assume "j < LENGTH(8)"
    have "lb \<le> j \<Longrightarrow> \<not> bit u (7 * i + j)" using that len(1) by (auto dest!: bit_imp_le_length)
    then show "bit (ucast ?v :: 8 word) j = bit (take_bit lb (ucast ?v :: 8 word)) j"
      by (cases "lb \<le> j") (auto simp: bit_take_bit_iff b bit_drop_bit_eq)
  qed
  then have "(ucast ?v :: 8 word) \<le> mask lb" if "Suc i = k"
    using that by (metis take_bit_eq_mask word_and_le1)
  then show ?case using x m t by simp
next
  case (Suc n)
  let ?v = "drop_bit (7 * i) u"
  let ?b = "ucast (?v AND 0x7f OR 0x80) :: 8 word"
  have b: "bit ?b j \<longleftrightarrow> j = 7 \<or> j < 7 \<and> bit ?v j" for j
    using len(3) by (simp only: bit_ucast_iff bit_or_iff bit_and_iff bit_7f bit_80) (auto dest: bit_imp_le_length)
  have c: "bit (?b AND 0x7f) j \<longleftrightarrow> j < 7 \<and> bit ?v j" for j
    by (simp only: bit_and_iff b bit_7f) auto
  have t: "?b AND 0x80 \<noteq> 0"
  proof
    assume "?b AND 0x80 = 0"
    then have "\<not> bit (?b AND 0x80) 7" by simp
    then show False by (simp only: bit_and_iff b bit_80) simp
  qed
  have x: "take_bit (7 * i) u OR push_bit (7 * i) (ucast (?b AND 0x7f)) = take_bit (7 * Suc i) u"
  proof (rule bit_word_eqI)
    fix j assume "j < LENGTH('a)"
    then show "bit (take_bit (7 * i) u OR push_bit (7 * i) (ucast (?b AND 0x7f))) j = bit (take_bit (7 * Suc i) u) j"
      by (simp only: bit_or_iff bit_take_bit_iff bit_push_bit_iff bit_unsigned_iff c bit_drop_bit_eq) auto
  qed
  have d: "drop_bit 7 ?v = drop_bit (7 * Suc i) u" by (simp add: ac_simps)
  have "unat (drop_bit (7 * Suc i) u) < 2 ^ (7 * Suc n)"
  proof -
    have "unat (drop_bit 7 ?v) = unat ?v div 2 ^ 7" unfolding unat_drop_bit_eq by (simp add: drop_bit_eq_div)
    also have "\<dots> < 2 ^ (7 * Suc n)"
    proof (rule less_mult_imp_div_less)
      have "(2 :: nat) ^ (7 * Suc (Suc n)) = 2 ^ (7 * Suc n) * 2 ^ 7" by (simp add: power_add)
      then show "unat ?v < 2 ^ (7 * Suc n) * 2 ^ 7" using Suc.prems(2) by simp
    qed
    finally show ?thesis by (simp only: d)
  qed
  from Suc.IH [OF _ this] Suc.prems(1) have ih:
    "get_uvarint k (mask lb) (Suc i) (take_bit (7 * Suc i) u) (put_uvarint (Suc n) (drop_bit (7 * Suc i) u) @ rest)
       = (u, int (Suc i + Suc n))" by simp
  have "Suc i \<noteq> k" using Suc.prems(1) by simp
  then show ?case using ih t unfolding put_uvarint.simps append_Cons get_uvarint.simps x d by simp
qed

section \<open>Reading back what was appended\<close>

lemma Varint_put: "Varint (AppendVarint [] i @ rest) = (i, int (VarintLen i))"
proof -
  let ?u = "zigzag i"
  obtain n where n: "uvarintLen ?u = Suc n"
    using uvarintLen_bound(1) [of ?u] by (cases "uvarintLen ?u") simp_all
  have "0 + Suc n \<le> 5" "unat (drop_bit (7 * 0) ?u) < 2 ^ (7 * Suc n)"
    using uvarintLen_bound(2,3) [of ?u] by (simp_all add: n)
  from get_put_uvarint [OF this, of 4 rest]
  have "get_uvarint 5 (mask 4) 0 0 (put_uvarint (Suc n) ?u @ rest) = (?u, int (Suc n))" by simp
  moreover have "(mask 4 :: 8 word) = 0x0f" by (simp add: mask_eq_exp_minus_1)
  ultimately show ?thesis by (simp add: Varint_def AppendVarint_def VarintLen_def n)
qed

lemma Varlong_put: "Varlong (AppendVarlong [] i @ rest) = (i, int (VarlongLen i))"
proof -
  let ?u = "zigzag i"
  obtain n where n: "uvarintLen ?u = Suc n"
    using uvarintLen_bound(1) [of ?u] by (cases "uvarintLen ?u") simp_all
  have "0 + Suc n \<le> 10" "unat (drop_bit (7 * 0) ?u) < 2 ^ (7 * Suc n)"
    using uvarintLen_bound(2,3) [of ?u] by (simp_all add: n)
  from get_put_uvarint [OF this, of 1 rest]
  have "get_uvarint 10 (mask 1) 0 0 (put_uvarint (Suc n) ?u @ rest) = (?u, int (Suc n))" by simp
  moreover have "(mask 1 :: 8 word) = 0x01" by (simp add: mask_eq_exp_minus_1)
  ultimately show ?thesis by (simp add: Varlong_def AppendVarlong_def VarlongLen_def n)
qed

lemma AppendVarint_append: "AppendVarint dst i = dst @ AppendVarint [] i"
  by (simp add: AppendVarint_def)

lemma AppendVarlong_append: "AppendVarlong dst i = dst @ AppendVarlong [] i"
  by (simp add: AppendVarlong_def)

lemma length_AppendVarint [simp]: "length (AppendVarint [] i) = VarintLen i"
  by (simp add: AppendVarint_def VarintLen_def)

lemma length_AppendVarlong [simp]: "length (AppendVarlong [] i) = VarlongLen i"
  by (simp add: AppendVarlong_def VarlongLen_def)

lemma VarintLen_pos [simp]: "0 < VarintLen i" and VarintLen_max: "VarintLen i \<le> 5"
  using uvarintLen_bound(1,3) [of "zigzag i"] by (simp_all add: VarintLen_def)

lemma VarlongLen_pos [simp]: "0 < VarlongLen i" and VarlongLen_max: "VarlongLen i \<le> 10"
  using uvarintLen_bound(1,3) [of "zigzag i"] by (simp_all add: VarlongLen_def)

lemma rd_Varint_put [simp]: "rd_Varint \<lparr>Src = AppendVarint [] i @ rest, bad = f\<rparr> = (i, \<lparr>Src = rest, bad = f\<rparr>)"
  using VarintLen_pos [of i] by (simp add: rd_Varint_def Varint_put del: VarintLen_pos)

lemma rd_Varlong_put [simp]: "rd_Varlong \<lparr>Src = AppendVarlong [] i @ rest, bad = f\<rparr> = (i, \<lparr>Src = rest, bad = f\<rparr>)"
  using VarlongLen_pos [of i] by (simp add: rd_Varlong_def Varlong_put del: VarlongLen_pos)

lemma big_endian_step:
  "push_bit 8 (drop_bit (8 + m) u) OR ucast (ucast (drop_bit m u) :: 8 word) = drop_bit m (u :: 'a::len word)"
proof (rule bit_word_eqI)
  fix n assume "n < LENGTH('a)"
  then show "bit (push_bit 8 (drop_bit (8 + m) u) OR ucast (ucast (drop_bit m u) :: 8 word)) n = bit (drop_bit m u) n"
    by (cases "8 \<le> n") (auto simp: bit_or_iff bit_push_bit_iff bit_drop_bit_eq bit_ucast_iff ac_simps)
qed

lemma big_endian_Int16: "big_endian [ucast (drop_bit 8 u), ucast u] = (u :: 16 word)"
  using big_endian_step [of 8 u] big_endian_step [of 0 u] by (simp add: big_endian_def)

lemma big_endian_Int32:
  "big_endian [ucast (drop_bit 24 u), ucast (drop_bit 16 u), ucast (drop_bit 8 u), ucast u] = (u :: 32 word)"
  using big_endian_step [of 24 u] big_endian_step [of 16 u] big_endian_step [of 8 u] big_endian_step [of 0 u]
  by (simp add: big_endian_def)

lemma big_endian_Int64:
  "big_endian [ucast (drop_bit 56 u), ucast (drop_bit 48 u), ucast (drop_bit 40 u), ucast (drop_bit 32 u),
     ucast (drop_bit 24 u), ucast (drop_bit 16 u), ucast (drop_bit 8 u), ucast u] = (u :: 64 word)"
  using big_endian_step [of 56 u] big_endian_step [of 48 u] big_endian_step [of 40 u] big_endian_step [of 32 u]
    big_endian_step [of 24 u] big_endian_step [of 16 u] big_endian_step [of 8 u] big_endian_step [of 0 u]
  by (simp add: big_endian_def)

lemma AppendInt_append:
  "AppendInt8 dst b = dst @ AppendInt8 [] b" "AppendInt16 dst h = dst @ AppendInt16 [] h"
  "AppendInt32 dst w = dst @ AppendInt32 [] w" "AppendInt64 dst d = dst @ AppendInt64 [] d"
  by (simp_all add: AppendInt8_def AppendInt16_def AppendInt32_def AppendInt64_def)

lemma length_AppendInt [simp]:
  "length (AppendInt8 [] b) = 1" "length (AppendInt16 [] h) = 2"
  "length (AppendInt32 [] w) = 4" "length (AppendInt64 [] d) = 8"
  by (simp_all add: AppendInt8_def AppendInt16_def AppendInt32_def AppendInt64_def)

lemma rd_Int_put [simp]:
  "rd_Int8 \<lparr>Src = AppendInt8 [] b @ rest, bad = f\<rparr> = (b, \<lparr>Src = rest, bad = f\<rparr>)"
  "rd_Int16 \<lparr>Src = AppendInt16 [] h @ rest, bad = f\<rparr> = (h, \<lparr>Src = rest, bad = f\<rparr>)"
  "rd_Int32 \<lparr>Src = AppendInt32 [] w @ rest, bad = f\<rparr> = (w, \<lparr>Src = rest, bad = f\<rparr>)"
  "rd_Int64 \<lparr>Src = AppendInt64 [] d @ rest, bad = f\<rparr> = (d, \<lparr>Src = rest, bad = f\<rparr>)"
  by (simp_all add: rd_Int8_def rd_Int16_def rd_Int32_def rd_Int64_def AppendInt8_def AppendInt16_def
      AppendInt32_def AppendInt64_def big_endian_Int16 big_endian_Int32 big_endian_Int64)

lemma rd_Span_put [simp]: "rd_Span \<lparr>Src = xs @ rest, bad = f\<rparr> (int (length xs)) = (Some xs, \<lparr>Src = rest, bad = f\<rparr>)"
  by (simp add: rd_Span_def)

lemma sint_word_of_nat: "n < 2 ^ 31 \<Longrightarrow> sint (word_of_nat n :: 32 word) = int n"
  by (simp add: signed_of_nat signed_take_bit_int_eq_self)

lemma AppendVarintString_append: "AppendVarintString dst s = dst @ AppendVarintString [] s"
  unfolding AppendVarintString_def by (subst AppendVarint_append) simp

lemma AppendVarintBytes_append: "AppendVarintBytes dst b = dst @ AppendVarintBytes [] b"
  unfolding AppendVarintBytes_def by (subst AppendVarint_append) (auto split: option.split intro: AppendVarint_append)

definition fits_int32 :: "bytes \<Rightarrow> bool" where "fits_int32 b \<longleftrightarrow> length b < 2 ^ 31"

lemma rd_VarintBytes_put [simp]:
  assumes "pred_option fits_int32 b"
  shows "rd_VarintBytes \<lparr>Src = AppendVarintBytes [] b @ rest, bad = f\<rparr> = (b, \<lparr>Src = rest, bad = f\<rparr>)"
proof (cases b)
  case (Some s)
  then have "sint (word_of_nat (length s) :: 32 word) = int (length s)"
    using assms by (intro sint_word_of_nat) (simp add: fits_int32_def)
  then show ?thesis by (simp add: Some rd_VarintBytes_def AppendVarintBytes_def)
qed (simp add: rd_VarintBytes_def AppendVarintBytes_def)

lemma rd_VarintString_put [simp]:
  assumes "fits_int32 s"
  shows "rd_VarintString \<lparr>Src = AppendVarintString [] s @ rest, bad = f\<rparr> = (s, \<lparr>Src = rest, bad = f\<rparr>)"
proof -
  have "AppendVarintString [] s = AppendVarintBytes [] (Some s)"
    by (simp add: AppendVarintString_def AppendVarintBytes_def)
  then show ?thesis using assms by (simp add: rd_VarintString_def)
qed

end
