(* ===== verification/Record_Batch.thy ===== *)
theory Record_Batch
  imports Kbin
begin

text \<open>
  Records and their wire form: \<open>produce.go\<close> (size estimates, \<open>encodeBatch\<close>, \<open>decodeBatch\<close>) over the
  vendored \<open>kmsg\<close> message types \<open>Record\<close>, \<open>Header\<close> and \<open>RecordBatch\<close>.

  A \<open>*kgo.Record\<close> is the record value \<open>kgo_Record\<close>; a nil byte slice is \<open>None\<close>, and a record that
  was never stamped carries the zero time. The Snappy compressor (package \<open>s2\<close>) and the CRC of
  \<open>hash/crc32\<close> are the fields of the parameter \<open>codec\<close>; the predicate \<open>snappy_law\<close> states the one law
  of Snappy that the client relies on. The pool of scratch buffers only saves allocations and has no
  counterpart. A panic is \<open>None\<close>.

  The lemmas show that decoding inverts encoding, that the size estimates are the size of what
  the encoder writes before compression, and that compression never enlarges it.
\<close>

unbundle bit_operations_syntax

section \<open>Records\<close>

record RecordHeader =
  h_Key :: bytes
  h_Value :: "bytes option"

record kgo_Record =
  r_Key :: "bytes option"
  r_Value :: "bytes option"
  r_Headers :: "RecordHeader list"
  r_Timestamp :: instant
  r_Topic :: topic
  r_Partition :: partition
  r_Context :: "nat option"

text \<open>\<open>Time.UnixMilli\<close> rounds down; its \<open>int64\<close> is a word here. \<open>time.UnixMilli\<close> is the way back.\<close>

definition UnixMilli :: "instant \<Rightarrow> 64 word" where
  "UnixMilli t = word_of_int (t div millisecond)"

definition time_UnixMilli :: "64 word \<Rightarrow> instant" where
  "time_UnixMilli ms = sint ms * millisecond"

definition Truncate_ms :: "instant \<Rightarrow> instant" where
  "Truncate_ms t = t - (t - zero_time) mod millisecond"

definition ensureRecordTimestamp :: "kgo_Record \<Rightarrow> instant \<Rightarrow> kgo_Record" where
  "ensureRecordTimestamp r now = (if r_Timestamp r = zero_time then r\<lparr>r_Timestamp := Truncate_ms now\<rparr> else r)"

definition ensureRecordContext :: "kgo_Record \<Rightarrow> nat \<Rightarrow> kgo_Record" where
  "ensureRecordContext r ctx = (if r_Context r = None then r\<lparr>r_Context := Some ctx\<rparr> else r)"

text \<open>The length of a slice; the nil slice has length 0. \<open>len32\<close> is its conversion to \<open>int32\<close>.\<close>

definition slice_len :: "bytes option \<Rightarrow> nat" where
  "slice_len b = (case b of None \<Rightarrow> 0 | Some b \<Rightarrow> length b)"

abbreviation len32 :: "nat \<Rightarrow> 32 word" where "len32 n \<equiv> word_of_nat n"

section \<open>Sizes\<close>

abbreviation (input) batchFixedFieldsAfterLength :: int where "batchFixedFieldsAfterLength \<equiv> 49"

definition recordBatchHeaderBytes :: int where
  "recordBatchHeaderBytes = 4 + 8 + 4 + batchFixedFieldsAfterLength"

definition headerEstimateBytes :: "RecordHeader \<Rightarrow> int" where
  "headerEstimateBytes h =
     int (VarintLen (len32 (length (h_Key h)))) + int (length (h_Key h)) +
     int (VarintLen (len32 (slice_len (h_Value h)))) + int (slice_len (h_Value h))"

definition recordLengthField :: "kgo_Record \<Rightarrow> 32 word \<Rightarrow> 64 word \<Rightarrow> int" where
  "recordLengthField r offsetDelta tsDelta =
     foldl (\<lambda>l h. l + headerEstimateBytes h)
       (1 + int (VarlongLen tsDelta) + int (VarintLen offsetDelta) +
        int (VarintLen (len32 (slice_len (r_Key r)))) + int (slice_len (r_Key r)) +
        int (VarintLen (len32 (slice_len (r_Value r)))) + int (slice_len (r_Value r)) +
        int (VarintLen (len32 (length (r_Headers r)))))
       (r_Headers r)"

definition recordEstimateBytes :: "kgo_Record \<Rightarrow> 32 word \<Rightarrow> 64 word \<Rightarrow> int" where
  "recordEstimateBytes r offsetDelta tsDelta =
     (let lengthField = recordLengthField r offsetDelta tsDelta
      in int (VarintLen (word_of_int lengthField)) + lengthField)"

definition singleRecordBatchEstimateBytes :: "kgo_Record \<Rightarrow> int" where
  "singleRecordBatchEstimateBytes r = recordBatchHeaderBytes + recordEstimateBytes r 0 0"

definition multiRecordBatchEstimateBytes :: "kgo_Record list \<Rightarrow> int" where
  "multiRecordBatchEstimateBytes rs =
     (if rs = [] then 0
      else let firstTS = UnixMilli (r_Timestamp (rs ! 0))
           in foldl (\<lambda>n (i, r). n + recordEstimateBytes r (word_of_nat i) (UnixMilli (r_Timestamp r) - firstTS))
                recordBatchHeaderBytes (enumerate 0 rs))"

section \<open>The message types of kmsg\<close>

record Record =
  Length :: "32 word"
  Attributes :: "8 word"
  TimestampDelta :: "32 word"
  TimestampDelta64 :: "64 word"
  OffsetDelta :: "32 word"
  Key :: "bytes option"
  Value :: "bytes option"
  Headers :: "RecordHeader list"

definition Header_AppendTo :: "bytes \<Rightarrow> RecordHeader \<Rightarrow> bytes" where
  "Header_AppendTo dst h = AppendVarintBytes (AppendVarintString dst (h_Key h)) (h_Value h)"

definition Record_AppendTo :: "Record \<Rightarrow> bytes \<Rightarrow> bytes" where
  "Record_AppendTo v dst =
     (let dst = AppendVarint dst (Length v);
          dst = AppendInt8 dst (Attributes v);
          d = TimestampDelta64 v;
          d = (if d = 0 then scast (TimestampDelta v) else d);
          dst = AppendVarlong dst d;
          dst = AppendVarint dst (OffsetDelta v);
          dst = AppendVarintBytes dst (Key v);
          dst = AppendVarintBytes dst (Value v);
          dst = AppendVarint dst (len32 (length (Headers v)))
      in foldl Header_AppendTo dst (Headers v))"

fun read_headers :: "nat \<Rightarrow> Reader \<Rightarrow> RecordHeader list \<Rightarrow> RecordHeader list \<times> Reader" where
  "read_headers 0 b hs = (hs, b)"
| "read_headers (Suc n) b hs =
     (let (k, b) = rd_VarintString b; (v, b) = rd_VarintBytes b
      in read_headers n b (hs @ [\<lparr>h_Key = k, h_Value = v\<rparr>]))"

text \<open>\<open>readFrom\<close> on a zero record: \<open>None\<close> is the error of \<open>Complete\<close>.\<close>

definition Record_ReadFrom :: "bytes \<Rightarrow> Record option" where
  "Record_ReadFrom src =
     (let b = \<lparr>Src = src, bad = False\<rparr>;
          (len, b) = rd_Varint b;
          (attrs, b) = rd_Int8 b;
          (ts, b) = rd_Varlong b;
          (off, b) = rd_Varint b;
          (key, b) = rd_VarintBytes b;
          (val, b) = rd_VarintBytes b;
          (l, b) = rd_VarintArrayLen b
      in if bad b then None
         else let (hs, b) = read_headers (nat (sint l)) b []
              in if bad b then None
                 else Some \<lparr>Length = len, Attributes = attrs, TimestampDelta = ucast ts,
                            TimestampDelta64 = ts, OffsetDelta = off, Key = key, Value = val,
                            Headers = hs\<rparr>)"

record RecordBatch =
  FirstOffset :: "64 word"
  BatchLength :: "32 word"
  PartitionLeaderEpoch :: "32 word"
  Magic :: "8 word"
  CRC :: "32 word"
  BatchAttributes :: "16 word"
  LastOffsetDelta :: "32 word"
  FirstTimestamp :: "64 word"
  MaxTimestamp :: "64 word"
  ProducerID :: "64 word"
  ProducerEpoch :: "16 word"
  FirstSequence :: "32 word"
  NumRecords :: "32 word"
  Records :: bytes

definition RecordBatch_AppendTo :: "RecordBatch \<Rightarrow> bytes \<Rightarrow> bytes" where
  "RecordBatch_AppendTo v dst =
     (let dst = AppendInt64 dst (FirstOffset v);
          dst = AppendInt32 dst (BatchLength v);
          dst = AppendInt32 dst (PartitionLeaderEpoch v);
          dst = AppendInt8 dst (Magic v);
          dst = AppendInt32 dst (CRC v);
          dst = AppendInt16 dst (BatchAttributes v);
          dst = AppendInt32 dst (LastOffsetDelta v);
          dst = AppendInt64 dst (FirstTimestamp v);
          dst = AppendInt64 dst (MaxTimestamp v);
          dst = AppendInt64 dst (ProducerID v);
          dst = AppendInt16 dst (ProducerEpoch v);
          dst = AppendInt32 dst (FirstSequence v);
          dst = AppendInt32 dst (NumRecords v)
      in dst @ Records v)"

definition RecordBatch_ReadFrom :: "bytes \<Rightarrow> RecordBatch option" where
  "RecordBatch_ReadFrom src =
     (let b = \<lparr>Src = src, bad = False\<rparr>;
          (firstOffset, b) = rd_Int64 b;
          (len, b) = rd_Int32 b;
          (leaderEpoch, b) = rd_Int32 b;
          (magic, b) = rd_Int8 b;
          (crc, b) = rd_Int32 b;
          (attrs, b) = rd_Int16 b;
          (lastOffsetDelta, b) = rd_Int32 b;
          (firstTS, b) = rd_Int64 b;
          (maxTS, b) = rd_Int64 b;
          (producerID, b) = rd_Int64 b;
          (producerEpoch, b) = rd_Int16 b;
          (firstSequence, b) = rd_Int32 b;
          (numRecords, b) = rd_Int32 b;
          (recs, b) = rd_Span b (sint len - 49)
      in if bad b then None
         else Some \<lparr>FirstOffset = firstOffset, BatchLength = len, PartitionLeaderEpoch = leaderEpoch,
                    Magic = magic, CRC = crc, BatchAttributes = attrs, LastOffsetDelta = lastOffsetDelta,
                    FirstTimestamp = firstTS, MaxTimestamp = maxTS, ProducerID = producerID,
                    ProducerEpoch = producerEpoch, FirstSequence = firstSequence, NumRecords = numRecords,
                    Records = (case recs of None \<Rightarrow> [] | Some r \<Rightarrow> r)\<rparr>)"

section \<open>Encoding and decoding a batch\<close>

record codec =
  EncodeSnappy :: "bytes \<Rightarrow> bytes"
  s2_Decode :: "bytes \<Rightarrow> bytes option"
  crc32c :: "bytes \<Rightarrow> 32 word"

definition recordLength :: "Record \<Rightarrow> 32 word" where
  "recordLength r =
     word_of_int (foldl (\<lambda>l h. l + headerEstimateBytes h)
       (1 + int (VarlongLen (TimestampDelta64 r)) + int (VarintLen (OffsetDelta r)) +
        int (VarintLen (len32 (slice_len (Key r)))) + int (slice_len (Key r)) +
        int (VarintLen (len32 (slice_len (Value r)))) + int (slice_len (Value r)) +
        int (VarintLen (len32 (length (Headers r)))))
       (Headers r))"

definition encodeRecord :: "bytes \<Rightarrow> kgo_Record \<Rightarrow> 32 word \<Rightarrow> 64 word \<Rightarrow> bytes" where
  "encodeRecord dst r offsetDelta firstTimestamp =
     (let tsDelta = UnixMilli (r_Timestamp r) - firstTimestamp;
          rec = \<lparr>Length = 0, Attributes = 0, TimestampDelta = 0, TimestampDelta64 = tsDelta,
                 OffsetDelta = offsetDelta, Key = r_Key r, Value = r_Value r, Headers = r_Headers r\<rparr>
      in Record_AppendTo (rec\<lparr>Length := recordLength rec\<rparr>) dst)"

definition encodeRecordsInto :: "bytes \<Rightarrow> kgo_Record list \<Rightarrow> 64 word \<Rightarrow> bytes" where
  "encodeRecordsInto dst rs firstTimestamp =
     foldl (\<lambda>dst (i, r). encodeRecord dst r (word_of_nat i) firstTimestamp) dst (enumerate 0 rs)"

text \<open>\<open>binary.BigEndian.PutUint32(buf[off:], u)\<close>.\<close>

definition PutUint32 :: "bytes \<Rightarrow> nat \<Rightarrow> 32 word \<Rightarrow> bytes" where
  "PutUint32 buf off u = take off buf @ AppendInt32 [] u @ drop (off + 4) buf"

abbreviation (input) crcOffset :: nat where "crcOffset \<equiv> 17"

definition encodeBatch :: "codec \<Rightarrow> kgo_Record list \<Rightarrow> bytes \<times> nat \<times> nat" where
  "encodeBatch cdc rs =
     (let firstTS = UnixMilli (r_Timestamp (rs ! 0));
          maxTS = foldl (\<lambda>m r. let ts = UnixMilli (r_Timestamp r) in if m <s ts then ts else m) firstTS (tl rs);
          raw = encodeRecordsInto [] rs firstTS;
          comp = EncodeSnappy cdc raw;
          (payload, attributes) = (if length comp < length raw then (comp, 2) else (raw, 0));
          batch = \<lparr>FirstOffset = 0, BatchLength = 49 + word_of_nat (length payload),
                   PartitionLeaderEpoch = - 1, Magic = 2, CRC = 0, BatchAttributes = attributes,
                   LastOffsetDelta = word_of_nat (length rs - 1), FirstTimestamp = firstTS,
                   MaxTimestamp = maxTS, ProducerID = - 1, ProducerEpoch = - 1, FirstSequence = - 1,
                   NumRecords = word_of_nat (length rs), Records = payload\<rparr>;
          buf = RecordBatch_AppendTo batch [];
          buf = PutUint32 buf crcOffset (crc32c cdc (drop (crcOffset + 4) buf))
      in (buf, length raw, length payload))"

text \<open>
  One turn of the loop of \<open>decodeBatch\<close> reads a record and drops its bytes; slicing past the end
  panics. The loop is a partial function: not returning and panicking are both \<open>None\<close>.
\<close>

definition kgo_of_Record :: "64 word \<Rightarrow> Record \<Rightarrow> kgo_Record" where
  "kgo_of_Record firstTimestamp rec =
     \<lparr>r_Key = Key rec, r_Value = Value rec, r_Headers = Headers rec,
      r_Timestamp = time_UnixMilli (firstTimestamp + TimestampDelta64 rec),
      r_Topic = [], r_Partition = 0, r_Context = None\<rparr>"

definition slice_from :: "bytes \<Rightarrow> int \<Rightarrow> bytes option" where
  "slice_from b n = (if 0 \<le> n \<and> n \<le> int (length b) then Some (drop (nat n) b) else None)"

partial_function (option) decode_records :: "64 word \<Rightarrow> bytes \<Rightarrow> kgo_Record list \<Rightarrow> kgo_Record list option" where
  "decode_records firstTimestamp payload rs =
     (if payload = [] then Some rs
      else Option.bind (Record_ReadFrom payload) (\<lambda>rec.
             Option.bind (slice_from payload (int (VarintLen (Length rec)) + sint (Length rec))) (\<lambda>rest.
               decode_records firstTimestamp rest (rs @ [kgo_of_Record firstTimestamp rec]))))"

definition decodeBatch :: "codec \<Rightarrow> bytes \<Rightarrow> kgo_Record list option" where
  "decodeBatch cdc encoded =
     Option.bind (RecordBatch_ReadFrom encoded) (\<lambda>rb.
       Option.bind (if BatchAttributes rb AND 7 = 2 then s2_Decode cdc (Records rb) else Some (Records rb))
         (\<lambda>payload. decode_records (FirstTimestamp rb) payload []))"


section \<open>Lengths\<close>

lemma VarintLen_0_neg1: "VarintLen (- 1) = 1" "VarintLen 0 = 1"
proof -
  have "zigzag (- 1 :: 32 word) = 1" "zigzag (0 :: 32 word) = 0" by code_simp+
  moreover have "uvarintLen (1 :: 32 word) = 1" "uvarintLen (0 :: 32 word) = 1" by code_simp+
  ultimately show "VarintLen (- 1) = 1" "VarintLen 0 = 1" by (simp_all add: VarintLen_def)
qed

lemma length_AppendVarintBytes [simp]:
  "length (AppendVarintBytes [] b) = VarintLen (len32 (slice_len b)) + slice_len b"
  by (simp add: AppendVarintBytes_def slice_len_def VarintLen_0_neg1 split: option.split)

lemma length_AppendVarintString [simp]:
  "length (AppendVarintString [] s) = VarintLen (len32 (length s)) + length s"
  by (simp add: AppendVarintString_def)

lemma Header_AppendTo_append: "Header_AppendTo dst h = dst @ Header_AppendTo [] h"
  unfolding Header_AppendTo_def
  by (subst AppendVarintBytes_append, subst AppendVarintString_append)
    (simp add: AppendVarintBytes_append [of "AppendVarintString [] (h_Key h)"])

lemma fold_Header_AppendTo: "foldl Header_AppendTo dst hs = dst @ concat (map (Header_AppendTo []) hs)"
proof (induction hs arbitrary: dst)
  case (Cons h hs)
  then show ?case by (simp add: Header_AppendTo_append [of dst])
qed simp

lemma length_Header_AppendTo: "int (length (Header_AppendTo [] h)) = headerEstimateBytes h"
  by (simp add: Header_AppendTo_def AppendVarintBytes_append [of "AppendVarintString [] (h_Key h)"]
      headerEstimateBytes_def)

lemma foldl_plus_int: "foldl (\<lambda>l h. l + f h) a hs = a + sum_list (map f hs :: int list)"
  by (induction hs arbitrary: a) simp_all

lemma length_headers:
  "int (length (concat (map (Header_AppendTo []) hs))) = sum_list (map headerEstimateBytes hs)"
  by (induction hs) (simp_all add: length_Header_AppendTo)

definition Record_body :: "Record \<Rightarrow> bytes" where
  "Record_body v =
     AppendInt8 [] (Attributes v) @ AppendVarlong [] (TimestampDelta64 v) @ AppendVarint [] (OffsetDelta v) @
     AppendVarintBytes [] (Key v) @ AppendVarintBytes [] (Value v) @
     AppendVarint [] (len32 (length (Headers v))) @ concat (map (Header_AppendTo []) (Headers v))"

lemma Record_AppendTo_body:
  "TimestampDelta v = 0 \<Longrightarrow> Record_AppendTo v dst = dst @ AppendVarint [] (Length v) @ Record_body v"
  unfolding Record_AppendTo_def Let_def fold_Header_AppendTo Record_body_def
  by (simp add: AppendVarint_append [of "_ @ _"] AppendVarint_append [of dst] AppendInt_append(1) [of "_ @ _"]
      AppendVarlong_append [of "_ @ _"] AppendVarintBytes_append [of "_ @ _"])

lemma length_Record_body:
  "int (length (Record_body v)) =
     1 + int (VarlongLen (TimestampDelta64 v)) + int (VarintLen (OffsetDelta v)) +
     int (VarintLen (len32 (slice_len (Key v)))) + int (slice_len (Key v)) +
     int (VarintLen (len32 (slice_len (Value v)))) + int (slice_len (Value v)) +
     int (VarintLen (len32 (length (Headers v)))) + sum_list (map headerEstimateBytes (Headers v))"
  by (simp add: Record_body_def length_headers [symmetric])

text \<open>The \<open>kmsg.Record\<close> that \<open>encodeRecord\<close> builds, and the bytes it writes.\<close>

definition wire_record :: "kgo_Record \<Rightarrow> 32 word \<Rightarrow> 64 word \<Rightarrow> Record" where
  "wire_record r off ts =
     (let rec = \<lparr>Length = 0, Attributes = 0, TimestampDelta = 0, TimestampDelta64 = ts, OffsetDelta = off,
                 Key = r_Key r, Value = r_Value r, Headers = r_Headers r\<rparr>
      in rec\<lparr>Length := recordLength rec\<rparr>)"

lemma wire_record_simps [simp]:
  "Attributes (wire_record r off ts) = 0" "TimestampDelta (wire_record r off ts) = 0"
  "TimestampDelta64 (wire_record r off ts) = ts" "OffsetDelta (wire_record r off ts) = off"
  "Key (wire_record r off ts) = r_Key r" "Value (wire_record r off ts) = r_Value r"
  "Headers (wire_record r off ts) = r_Headers r"
  by (simp_all add: wire_record_def Let_def)

lemma length_wire_body: "int (length (Record_body (wire_record r off ts))) = recordLengthField r off ts"
  by (simp add: length_Record_body recordLengthField_def foldl_plus_int)

lemma Length_wire_record: "Length (wire_record r off ts) = word_of_int (recordLengthField r off ts)"
  by (simp add: wire_record_def Let_def recordLength_def recordLengthField_def)

definition wire_bytes :: "kgo_Record \<Rightarrow> 32 word \<Rightarrow> 64 word \<Rightarrow> bytes" where
  "wire_bytes r off ts =
     AppendVarint [] (Length (wire_record r off ts)) @ Record_body (wire_record r off ts)"

lemma encodeRecord_eq: "encodeRecord dst r off first = dst @ wire_bytes r off (UnixMilli (r_Timestamp r) - first)"
proof -
  have "encodeRecord dst r off first = Record_AppendTo (wire_record r off (UnixMilli (r_Timestamp r) - first)) dst"
    by (simp add: encodeRecord_def wire_record_def Let_def)
  then show ?thesis by (simp add: Record_AppendTo_body wire_bytes_def)
qed

lemma length_wire_bytes: "int (length (wire_bytes r off ts)) = recordEstimateBytes r off ts"
proof -
  have "int (length (wire_bytes r off ts)) =
      int (VarintLen (Length (wire_record r off ts))) + int (length (Record_body (wire_record r off ts)))"
    by (simp add: wire_bytes_def)
  then show ?thesis unfolding length_wire_body Length_wire_record by (simp add: recordEstimateBytes_def Let_def)
qed

definition wire_records :: "nat \<Rightarrow> kgo_Record list \<Rightarrow> 64 word \<Rightarrow> bytes" where
  "wire_records n rs first =
     concat (map (\<lambda>(i, r). wire_bytes r (word_of_nat i) (UnixMilli (r_Timestamp r) - first)) (enumerate n rs))"

lemma wire_records_simps [simp]:
  "wire_records n [] first = []"
  "wire_records n (r # rs) first =
     wire_bytes r (word_of_nat n) (UnixMilli (r_Timestamp r) - first) @ wire_records (Suc n) rs first"
  by (simp_all add: wire_records_def)

lemma encodeRecordsInto_eq: "encodeRecordsInto dst rs first = dst @ wire_records 0 rs first"
proof -
  have "foldl (\<lambda>dst (i, r). encodeRecord dst r (word_of_nat i) first) dst (enumerate n rs) =
      dst @ wire_records n rs first" for n
    by (induction rs arbitrary: n dst) (simp_all add: encodeRecord_eq)
  then show ?thesis by (simp add: encodeRecordsInto_def)
qed

lemma estimate_is_length:
  assumes "rs \<noteq> []"
  shows "multiRecordBatchEstimateBytes rs =
    recordBatchHeaderBytes + int (length (encodeRecordsInto [] rs (UnixMilli (r_Timestamp (rs ! 0)))))"
proof -
  have "foldl (\<lambda>n (i, r). n + recordEstimateBytes r (word_of_nat i) (UnixMilli (r_Timestamp r) - first)) a (enumerate n rs)
      = a + int (length (wire_records n rs first))" for first a n
    by (induction rs arbitrary: n a) (simp_all add: length_wire_bytes)
  then show ?thesis using assms by (simp add: multiRecordBatchEstimateBytes_def encodeRecordsInto_eq Let_def)
qed


section \<open>Reading records back\<close>

definition header_fits :: "RecordHeader \<Rightarrow> bool" where
  "header_fits h \<longleftrightarrow> fits_int32 (h_Key h) \<and> pred_option fits_int32 (h_Value h)"

definition record_fits :: "Record \<Rightarrow> bool" where
  "record_fits v \<longleftrightarrow> pred_option fits_int32 (Key v) \<and> pred_option fits_int32 (Value v) \<and>
     list_all header_fits (Headers v) \<and> length (Headers v) < 2 ^ 31"

lemma read_headers_put:
  assumes "list_all header_fits hs"
  shows "read_headers (length hs) \<lparr>Src = concat (map (Header_AppendTo []) hs) @ rest, bad = f\<rparr> acc
           = (acc @ hs, \<lparr>Src = rest, bad = f\<rparr>)"
  using assms
proof (induction hs arbitrary: acc)
  case (Cons h hs)
  have "Header_AppendTo [] h = AppendVarintString [] (h_Key h) @ AppendVarintBytes [] (h_Value h)"
    by (simp add: Header_AppendTo_def AppendVarintBytes_append [of "AppendVarintString [] (h_Key h)"])
  with Cons show ?case by (simp add: header_fits_def)
qed simp

lemma length_concat_ge: "(\<And>x. x \<in> set xs \<Longrightarrow> 0 < length (f x)) \<Longrightarrow> length xs \<le> length (concat (map f xs))"
proof (induction xs)
  case (Cons x xs)
  then have "length xs \<le> length (concat (map f xs))" and "0 < length (f x)" by simp_all
  then have "Suc (length xs) \<le> length (f x) + length (concat (map f xs))" by linarith
  then show ?case by simp
qed simp

lemma Record_ReadFrom_put:
  assumes "record_fits v"
  shows "Record_ReadFrom (AppendVarint [] (Length v) @ Record_body v @ rest) =
    Some (v\<lparr>TimestampDelta := ucast (TimestampDelta64 v)\<rparr>)"
proof -
  let ?hs = "concat (map (Header_AppendTo []) (Headers v))"
  have n: "sint (len32 (length (Headers v))) = int (length (Headers v))"
    using assms by (intro sint_word_of_nat) (simp add: record_fits_def)
  have "length (Headers v) \<le> length ?hs"
    by (rule length_concat_ge) (simp add: Header_AppendTo_def AppendVarintBytes_append [of "AppendVarintString [] _"])
  then have arr: "rd_VarintArrayLen \<lparr>Src = AppendVarint [] (len32 (length (Headers v))) @ ?hs @ rest, bad = False\<rparr>
      = (len32 (length (Headers v)), \<lparr>Src = ?hs @ rest, bad = False\<rparr>)"
    by (simp add: rd_VarintArrayLen_def n)
  have fits: "pred_option fits_int32 (Key v)" "pred_option fits_int32 (Value v)" "list_all header_fits (Headers v)"
    using assms by (simp_all add: record_fits_def)
  show ?thesis
    unfolding Record_ReadFrom_def Record_body_def append_assoc Let_def
    by (cases v) (use fits arr n read_headers_put [OF fits(3), of rest False "[]"] in simp)
qed

lemma recordLengthField_fits:
  assumes "recordLengthField r off ts < 2 ^ 31"
  shows "record_fits (wire_record r off ts)"
proof -
  let ?s = "sum_list (map headerEstimateBytes (r_Headers r))"
  have h0: "int (length (h_Key h)) + int (slice_len (h_Value h)) + 1 \<le> headerEstimateBytes h" for h
    using VarintLen_pos [of "len32 (length (h_Key h))"] by (simp add: headerEstimateBytes_def del: VarintLen_pos)
  have s: "headerEstimateBytes h \<le> ?s" if "h \<in> set (r_Headers r)" for h
  proof (rule member_le_sum_list [of _ "map headerEstimateBytes (r_Headers r)", simplified])
    show "headerEstimateBytes h \<in> headerEstimateBytes ` set (r_Headers r)" using that by simp
    fix y assume "y \<in> headerEstimateBytes ` set (r_Headers r)"
    then obtain x where "y = headerEstimateBytes x" by auto
    then show "0 \<le> y" using h0 [of x] by linarith
  qed
  have n: "int (length (r_Headers r)) \<le> ?s"
    using sum_list_mono [of "r_Headers r" "\<lambda>_. 1" headerEstimateBytes] h0
    by (simp add: sum_list_triv) (smt (verit, best) of_nat_0_le_iff)
  have lt: "int (slice_len (r_Key r)) + int (slice_len (r_Value r)) + ?s < 2 ^ 31"
    using assms by (simp add: recordLengthField_def foldl_plus_int)
  have "header_fits h" if "h \<in> set (r_Headers r)" for h
    using h0 [of h] s [OF that] lt
    by (auto simp: header_fits_def fits_int32_def slice_len_def split: option.splits)
  moreover have "pred_option fits_int32 (r_Key r)" "pred_option fits_int32 (r_Value r)"
    using lt n by (auto simp: fits_int32_def slice_len_def split: option.splits)
  ultimately show ?thesis using n lt by (simp add: record_fits_def list_all_iff)
qed


lemma decode_records_step:
  assumes "recordLengthField r off ts < 2 ^ 31"
  shows "decode_records first (wire_bytes r off ts @ rest) acc =
    decode_records first rest
      (acc @ [kgo_of_Record first (wire_record r off ts)])"
proof -
  let ?v = "wire_record r off ts"
  have l: "sint (Length ?v) = int (length (Record_body ?v))"
  proof -
    have "0 \<le> recordLengthField r off ts" by (simp add: length_wire_body [symmetric])
    then show ?thesis using assms
      by (simp add: Length_wire_record length_wire_body signed_of_int signed_take_bit_int_eq_self)
  qed
  have "Record_ReadFrom (wire_bytes r off ts @ rest) = Some (?v\<lparr>TimestampDelta := ucast ts\<rparr>)"
    using Record_ReadFrom_put [OF recordLengthField_fits [OF assms], of rest] by (simp add: wire_bytes_def)
  moreover have "slice_from (wire_bytes r off ts @ rest) (int (VarintLen (Length ?v)) + sint (Length ?v)) = Some rest"
    by (simp add: slice_from_def l wire_bytes_def nat_add_distrib)
  moreover have "wire_bytes r off ts @ rest \<noteq> []"
  proof
    assume "wire_bytes r off ts @ rest = []"
    then have "length (AppendVarint [] (Length ?v)) = 0" by (simp add: wire_bytes_def)
    then show False using VarintLen_pos [of "Length ?v"] by (simp del: VarintLen_pos)
  qed
  ultimately show ?thesis
    by (subst decode_records.simps) (simp add: kgo_of_Record_def del: append_is_Nil_conv)
qed

text \<open>What survives the wire: key, value, headers and the timestamp to the millisecond.\<close>

definition wire_view :: "kgo_Record \<Rightarrow> kgo_Record" where
  "wire_view r = \<lparr>r_Key = r_Key r, r_Value = r_Value r, r_Headers = r_Headers r,
     r_Timestamp = time_UnixMilli (UnixMilli (r_Timestamp r)), r_Topic = [], r_Partition = 0, r_Context = None\<rparr>"

lemma decode_wire_records:
  assumes "int (length (wire_records n rs first)) < 2 ^ 31"
  shows "decode_records first (wire_records n rs first) acc = Some (acc @ map wire_view rs)"
  using assms
proof (induction rs arbitrary: n acc)
  case Nil
  show ?case by (subst decode_records.simps) simp
next
  case (Cons r rs)
  let ?ts = "UnixMilli (r_Timestamp r) - first"
  have e: "0 < int (VarintLen (word_of_int (recordLengthField r (word_of_nat n) ?ts)))" by simp
  have "recordEstimateBytes r (word_of_nat n) ?ts < 2 ^ 31"
    using Cons.prems by (simp add: length_wire_bytes [symmetric])
  then have "recordLengthField r (word_of_nat n) ?ts < 2 ^ 31"
    using e unfolding recordEstimateBytes_def Let_def by linarith
  from decode_records_step [OF this, of first "wire_records (Suc n) rs first" acc]
  have "decode_records first (wire_records n (r # rs) first) acc =
      decode_records first (wire_records (Suc n) rs first) (acc @ [wire_view r])"
    by (simp add: kgo_of_Record_def wire_view_def)
  also have "\<dots> = Some ((acc @ [wire_view r]) @ map wire_view rs)"
    using Cons.prems by (intro Cons.IH) simp
  finally show ?case by simp
qed

section \<open>The batch\<close>

lemma RecordBatch_AppendTo_eq:
  "RecordBatch_AppendTo v [] =
     AppendInt64 [] (FirstOffset v) @ AppendInt32 [] (BatchLength v) @ AppendInt32 [] (PartitionLeaderEpoch v) @
     AppendInt8 [] (Magic v) @ AppendInt32 [] (CRC v) @ AppendInt16 [] (BatchAttributes v) @
     AppendInt32 [] (LastOffsetDelta v) @ AppendInt64 [] (FirstTimestamp v) @ AppendInt64 [] (MaxTimestamp v) @
     AppendInt64 [] (ProducerID v) @ AppendInt16 [] (ProducerEpoch v) @ AppendInt32 [] (FirstSequence v) @
     AppendInt32 [] (NumRecords v) @ Records v"
  unfolding RecordBatch_AppendTo_def Let_def
  by (simp add: AppendInt_append(1) [of "_ @ _"] AppendInt_append(2) [of "_ @ _"] AppendInt_append(3) [of "_ @ _"]
      AppendInt_append(4) [of "_ @ _"] AppendInt_append(3) [of "AppendInt64 [] _"])

lemma length_RecordBatch_AppendTo [simp]: "length (RecordBatch_AppendTo v []) = 61 + length (Records v)"
  by (simp add: RecordBatch_AppendTo_eq)

text \<open>Writing the checksum over the zero CRC is encoding the batch with that CRC.\<close>

lemma PutUint32_CRC: "PutUint32 (RecordBatch_AppendTo v []) crcOffset c = RecordBatch_AppendTo (v\<lparr>CRC := c\<rparr>) []"
proof -
  have "take 17 (A @ B @ C @ D @ E @ F) @ X @ drop (17 + 4) (A @ B @ C @ D @ E @ F) = A @ B @ C @ D @ X @ F"
    if "length A = 8" "length B = 4" "length C = 4" "length D = 1" "length E = 4" for A B C D E F X :: bytes
    using that by simp
  from this [of "AppendInt64 [] (FirstOffset v)" "AppendInt32 [] (BatchLength v)"
      "AppendInt32 [] (PartitionLeaderEpoch v)" "AppendInt8 [] (Magic v)" "AppendInt32 [] (CRC v)"]
  show ?thesis by (simp add: PutUint32_def RecordBatch_AppendTo_eq)
qed

lemma RecordBatch_ReadFrom_put:
  assumes "BatchLength v = 49 + word_of_nat (length (Records v))" and "length (Records v) + 49 < 2 ^ 31"
  shows "RecordBatch_ReadFrom (RecordBatch_AppendTo v []) = Some v"
proof -
  have "BatchLength v = word_of_nat (49 + length (Records v))" using assms(1) by simp
  then have l: "sint (BatchLength v) - 49 = int (length (Records v))"
    using sint_word_of_nat [of "49 + length (Records v)"] assms(2) by simp
  have "rd_Span \<lparr>Src = Records v, bad = False\<rparr> (int (length (Records v))) = (Some (Records v), \<lparr>Src = [], bad = False\<rparr>)"
    using rd_Span_put [of "Records v" "[]" False] by simp
  then show ?thesis
    unfolding RecordBatch_ReadFrom_def RecordBatch_AppendTo_eq Let_def
    by (cases v) (use l in simp)
qed


text \<open>The one law of Snappy that the client relies on: decoding gives back what was compressed.\<close>

definition snappy_law :: "codec \<Rightarrow> bool" where
  "snappy_law cdc \<longleftrightarrow> (\<forall>raw. s2_Decode cdc (EncodeSnappy cdc raw) = Some raw)"

text \<open>The batch that \<open>encodeBatch\<close> writes, with its checksum in place.\<close>

lemma encodeBatch_shape:
  assumes "snappy_law cdc"
  shows "\<exists>v. fst (encodeBatch cdc rs) = RecordBatch_AppendTo v [] \<and>
     BatchLength v = 49 + word_of_nat (length (Records v)) \<and>
     FirstTimestamp v = UnixMilli (r_Timestamp (rs ! 0)) \<and>
     length (Records v) \<le> length (encodeRecordsInto [] rs (UnixMilli (r_Timestamp (rs ! 0)))) \<and>
     snd (encodeBatch cdc rs) =
       (length (encodeRecordsInto [] rs (UnixMilli (r_Timestamp (rs ! 0)))), length (Records v)) \<and>
     (if BatchAttributes v AND 7 = 2 then s2_Decode cdc (Records v) else Some (Records v)) =
       Some (encodeRecordsInto [] rs (UnixMilli (r_Timestamp (rs ! 0))))"
proof -
  let ?raw = "encodeRecordsInto [] rs (UnixMilli (r_Timestamp (rs ! 0)))"
  show ?thesis
  proof (cases "length (EncodeSnappy cdc ?raw) < length ?raw")
    case True
    then show ?thesis
      by (auto simp: encodeBatch_def Let_def PutUint32_CRC assms [unfolded snappy_law_def])
  next
    case False
    then show ?thesis
      by (auto simp: encodeBatch_def Let_def PutUint32_CRC)
  qed
qed

lemma decodeBatch_encodeBatch:
  assumes law: "snappy_law cdc" and "rs \<noteq> []" and "multiRecordBatchEstimateBytes rs \<le> 2 ^ 30"
  shows "decodeBatch cdc (fst (encodeBatch cdc rs)) = Some (map wire_view rs)"
proof -
  let ?first = "UnixMilli (r_Timestamp (rs ! 0))"
  let ?raw = "encodeRecordsInto [] rs ?first"
  have raw: "?raw = wire_records 0 rs ?first" by (simp add: encodeRecordsInto_eq)
  have len: "int (length ?raw) + 49 < 2 ^ 31"
    using estimate_is_length [OF assms(2)] assms(3) by (simp add: recordBatchHeaderBytes_def)
  obtain v where v: "fst (encodeBatch cdc rs) = RecordBatch_AppendTo v []"
      "BatchLength v = 49 + word_of_nat (length (Records v))" "FirstTimestamp v = ?first"
      "length (Records v) \<le> length ?raw"
      "(if BatchAttributes v AND 7 = 2 then s2_Decode cdc (Records v) else Some (Records v)) = Some ?raw"
    using encodeBatch_shape [OF law, of rs] by blast
  have "RecordBatch_ReadFrom (fst (encodeBatch cdc rs)) = Some v"
    unfolding v(1) using len v(4) by (intro RecordBatch_ReadFrom_put v(2)) simp
  moreover have "decode_records ?first ?raw [] = Some (map wire_view rs)"
    using decode_wire_records [of 0 rs ?first "[]"] len by (simp add: raw)
  ultimately show ?thesis unfolding decodeBatch_def by (simp only: bind.bind_lunit v(3,5))
qed

lemma encodeBatch_sizes:
  "fst (snd (encodeBatch cdc rs)) = length (encodeRecordsInto [] rs (UnixMilli (r_Timestamp (rs ! 0))))"
  "length (fst (encodeBatch cdc rs)) = 61 + snd (snd (encodeBatch cdc rs))"
  "snd (snd (encodeBatch cdc rs)) \<le> fst (snd (encodeBatch cdc rs))"
  by (simp_all add: encodeBatch_def Let_def PutUint32_CRC)

text \<open>A codec that compresses runs of a leading zero byte: an instance of the law that does compress.\<close>

definition example_codec :: codec where
  "example_codec =
     \<lparr>EncodeSnappy = (\<lambda>b. let n = length (takeWhile (\<lambda>x. x = 0) b)
                          in if n < 256 then word_of_nat n # drop n b else 255 # drop 255 b),
      s2_Decode = (\<lambda>b. case b of [] \<Rightarrow> None | n # b \<Rightarrow> Some (replicate (unat n) 0 @ b)),
      crc32c = (\<lambda>b. word_of_nat (length b))\<rparr>"

lemma takeWhile_replicate: "takeWhile (\<lambda>x. x = a) b = replicate (length (takeWhile (\<lambda>x. x = a) b)) a"
  by (induction b) simp_all

lemma replicate_drop_takeWhile:
  "n \<le> length (takeWhile (\<lambda>x. x = a) b) \<Longrightarrow> replicate n a @ drop n b = b"
proof -
  assume n: "n \<le> length (takeWhile (\<lambda>x. x = a) b)"
  have "take n b = take n (takeWhile (\<lambda>x. x = a) b)"
    using n by (metis append_eq_conv_conj append_take_drop_id length_take min_def take_all_iff take_append takeWhile_dropWhile_id diff_is_0_eq take_0 append_Nil2)
  also have "\<dots> = replicate n a" using n by (subst takeWhile_replicate) (simp add: min_def)
  finally show ?thesis by (metis append_take_drop_id)
qed

lemma snappy_law_example: "snappy_law example_codec"
  unfolding snappy_law_def
proof
  fix raw :: bytes
  let ?n = "length (takeWhile (\<lambda>x. x = 0) raw)"
  show "s2_Decode example_codec (EncodeSnappy example_codec raw) = Some raw"
  proof (cases "?n < 256")
    case True
    then have "unat (word_of_nat ?n :: 8 word) = ?n" by (simp add: unsigned_of_nat take_bit_nat_eq_self)
    then show ?thesis using True by (simp add: example_codec_def Let_def replicate_drop_takeWhile)
  next
    case False
    then show ?thesis by (simp add: example_codec_def Let_def replicate_drop_takeWhile)
  qed
qed


section \<open>Properties\<close>

lemma wire_view_timestamp:
  assumes "r_Timestamp r mod millisecond = 0" and "- (2 ^ 63) \<le> r_Timestamp r div millisecond"
    and "r_Timestamp r div millisecond < 2 ^ 63"
  shows "r_Timestamp (wire_view r) = r_Timestamp r"
proof -
  have "sint (word_of_int (r_Timestamp r div millisecond) :: 64 word) = r_Timestamp r div millisecond"
    using assms(2,3) by (simp add: signed_of_int signed_take_bit_int_eq_self)
  then show ?thesis
    using assms(1) div_mult_mod_eq [of "r_Timestamp r" millisecond]
    by (simp add: wire_view_def time_UnixMilli_def UnixMilli_def)
qed

definition example_records :: "kgo_Record list" where
  "example_records =
     [\<lparr>r_Key = Some [1, 2], r_Value = Some [0, 0, 0, 7], r_Headers = [\<lparr>h_Key = [65], h_Value = None\<rparr>],
       r_Timestamp = 1700000000123000000, r_Topic = ''t'', r_Partition = 3, r_Context = None\<rparr>,
      \<lparr>r_Key = None, r_Value = Some [], r_Headers = [], r_Timestamp = 1700000000001000000,
       r_Topic = ''t'', r_Partition = 3, r_Context = None\<rparr>]"

text \<open>
  C19: Decoding a batch that the client encoded gives back its records. For every non-empty list of
  records whose estimated size is within the ceiling that the configuration enforces on
  \<open>BatchMaxBytes\<close>, \<open>decodeBatch\<close> of what \<open>encodeBatch\<close> returns terminates without a panic and
  yields the same keys, values and headers in the same order, nil slices as nil, also for timestamps
  that run backwards within the batch; a timestamp of a whole number of milliseconds comes back
  unchanged.
\<close>

theorem batch_round_trip:
  assumes "snappy_law cdc" and "rs \<noteq> []" and "multiRecordBatchEstimateBytes rs \<le> 2 ^ 30"
  shows "decodeBatch cdc (fst (encodeBatch cdc rs)) = Some (map wire_view rs) \<and>
    (\<forall>r\<in>set rs. r_Key (wire_view r) = r_Key r \<and> r_Value (wire_view r) = r_Value r \<and>
       r_Headers (wire_view r) = r_Headers r \<and>
       (r_Timestamp r mod 1000000 = 0 \<and> - (2 ^ 63) \<le> r_Timestamp r div 1000000 \<and>
        r_Timestamp r div 1000000 < 2 ^ 63 \<longrightarrow> r_Timestamp (wire_view r) = r_Timestamp r))"
  using decodeBatch_encodeBatch [OF assms] wire_view_timestamp by (simp add: wire_view_def)

lemma example_records_size: "multiRecordBatchEstimateBytes example_records \<le> 2 ^ 30"
  by code_simp

theorem batch_round_trip_witness:
  "decodeBatch example_codec (fst (encodeBatch example_codec example_records)) = Some (map wire_view example_records) \<and>
   map wire_view example_records \<noteq> [] \<and>
   r_Timestamp (wire_view (example_records ! 0)) = 1700000000123000000"
  using batch_round_trip [OF snappy_law_example _ example_records_size]
  by (simp add: example_records_def)

text \<open>
  C20: The size estimates that gate and split batches are exact before compression. The estimate of a
  non-empty list of records is 65 bytes (the length prefix in the request and the batch header)
  plus the number of uncompressed payload bytes that \<open>encodeBatch\<close> reports; the encoded batch has
  61 bytes plus the reported compressed size, and compression never makes it larger, so an encoded
  batch with its length prefix never exceeds the estimate.
\<close>

theorem batch_size_estimate_exact:
  assumes "rs \<noteq> []"
  shows "multiRecordBatchEstimateBytes rs = 65 + int (fst (snd (encodeBatch cdc rs))) \<and>
    length (fst (encodeBatch cdc rs)) = 61 + snd (snd (encodeBatch cdc rs)) \<and>
    snd (snd (encodeBatch cdc rs)) \<le> fst (snd (encodeBatch cdc rs)) \<and>
    4 + int (length (fst (encodeBatch cdc rs))) \<le> multiRecordBatchEstimateBytes rs \<and>
    multiRecordBatchEstimateBytes [r] = singleRecordBatchEstimateBytes r"
proof -
  have "multiRecordBatchEstimateBytes rs = 65 + int (fst (snd (encodeBatch cdc rs)))"
    using estimate_is_length [OF assms] encodeBatch_sizes(1) [of cdc rs] by (simp add: recordBatchHeaderBytes_def)
  moreover have "multiRecordBatchEstimateBytes [r] = singleRecordBatchEstimateBytes r"
    by (simp add: multiRecordBatchEstimateBytes_def singleRecordBatchEstimateBytes_def)
  ultimately show ?thesis using encodeBatch_sizes(2,3) [of cdc rs] by simp
qed

theorem batch_size_estimate_exact_witness:
  "multiRecordBatchEstimateBytes example_records =
     65 + int (fst (snd (encodeBatch example_codec example_records))) \<and> example_records \<noteq> []"
  using batch_size_estimate_exact [of example_records example_codec] by (simp add: example_records_def)

end
