(* ===== verification/Client_Routing.thy ===== *)
theory Client_Routing
  imports Metadata_Refresh Record_Batch
begin

text \<open>
  Routing the records of a produce call, from \<open>pkg/wgo/client.go\<close> and the route classification of
  \<open>metrics.go\<close>: \<open>routeRecords\<close> for a list and \<open>routeRecord\<close> for one record.

  A \<open>*kgo.Record\<close> is a pointer into an explicit heap, because a caller may pass the same pointer more than
  once and the client writes the record's context and timestamp through it. Each look-up reads the
  clock, so \<open>clk i\<close> is the time at which the \<open>i\<close>-th record is routed. The theory shows that routing is a
  partition of the input by topic partition and that the two functions agree.
\<close>

type_synonym rec_ptr = nat
type_synonym rec_heap = "rec_ptr \<Rightarrow> kgo_Record"

definition rec_key :: "rec_heap \<Rightarrow> rec_ptr \<Rightarrow> topicPartition" where
  "rec_key hp r = (r_Topic (hp r), r_Partition (hp r))"
section \<open>Classifications\<close>

definition errNoAgent :: "topicPartition \<Rightarrow> goerror" where
  "errNoAgent tp = GoErrorf ''no agent assigned for topic %q partition %d'' [FStr (fst tp), FInt (snd tp)]"

fun route_source :: "routeOutcome \<Rightarrow> routeSource option" where
  "route_source routeLeader = Some routeSourceLeader"
| "route_source routeStandIn = Some routeSourceStandIn"
| "route_source _ = None"

fun missReason :: "routeOutcome \<Rightarrow> routingMissReason" where
  "missReason routeMissEmptyPool = routingMissEmptyPool"
| "missReason routeMissUnknownTopic = routingMissUnknownTopic"
| "missReason routeMissNoLeader = routingMissNoLeader"
| "missReason routeMissOutOfRange = routingMissPartitionOutOfRange"
| "missReason _ = routingMissOther"
section \<open>Routing\<close>

record routedGroup =
  rg_key :: topicPartition
  rg_records :: "rec_ptr list"
  rg_nodeID :: node_id
  rg_nodeState :: AgentState
  rg_outcome :: routeOutcome

record rejectedTopicPartitionRecords =
  rj_key :: topicPartition
  rj_records :: "rec_ptr list"
  rj_err :: goerror
  rj_miss :: routingMissReason

record routing =
  ro_client :: WarpstreamClient
  ro_groups :: "(topicPartition, routedGroup) gomap"
  ro_order :: "topicPartition list"
  ro_rejectedByKey :: "(topicPartition, nat) gomap option"
  ro_rejected :: "rejectedTopicPartitionRecords list"

definition route_step :: "hash_fun \<Rightarrow> (nat \<Rightarrow> instant) \<Rightarrow> rec_heap \<Rightarrow> routing \<Rightarrow> nat \<times> rec_ptr \<Rightarrow> routing" where
  "route_step xxh clk hp s ir =
     (let (i, r) = ir; key = rec_key hp r
      in case map_of (ro_groups s) key of
           Some g \<Rightarrow> s\<lparr>ro_groups := AList.update key (g\<lparr>rg_records := rg_records g @ [r]\<rparr>) (ro_groups s)\<rparr>
         | None \<Rightarrow>
             (case (case ro_rejectedByKey s of None \<Rightarrow> None | Some m \<Rightarrow> map_of m key) of
                Some j \<Rightarrow> s\<lparr>ro_rejected := (ro_rejected s)[j := (ro_rejected s ! j)\<lparr>rj_records := rj_records (ro_rejected s ! j) @ [r]\<rparr>]\<rparr>
              | None \<Rightarrow>
                  let (c, cands, outcome) = client_lookup xxh (clk i) (ro_client s) (fst key) (snd key) 1
                  in if cands = []
                     then let (c, byKey) = (case ro_rejectedByKey s of None \<Rightarrow> (triggerRefresh c, []) | Some m \<Rightarrow> (c, m))
                          in s\<lparr>ro_client := c, ro_rejectedByKey := Some (AList.update key (length (ro_rejected s)) byKey),
                               ro_rejected := ro_rejected s @
                                 [\<lparr>rj_key = key, rj_records = [r], rj_err = errNoAgent key, rj_miss = missReason outcome\<rparr>]\<rparr>
                     else s\<lparr>ro_client := c, ro_order := ro_order s @ [key],
                            ro_groups := AList.update key
                              \<lparr>rg_key = key, rg_records = [r], rg_nodeID = NodeID (hd cands), rg_nodeState = State (hd cands),
                               rg_outcome = outcome\<rparr> (ro_groups s)\<rparr>))"

definition count_routes :: "routedGroup list \<Rightarrow> (routeSource, int) gomap" where
  "count_routes gs = foldl (\<lambda>m g. case route_source (rg_outcome g) of
     Some src \<Rightarrow> add_to src (int (length (rg_records g))) m | None \<Rightarrow> m) [] gs"

definition count_misses :: "rejectedTopicPartitionRecords list \<Rightarrow> (routingMissReason, int) gomap" where
  "count_misses rs = foldl (\<lambda>m r. add_to (rj_miss r) (int (length (rj_records r))) m) [] rs"

definition add_positive :: "('k, int) gomap \<Rightarrow> 'k list \<Rightarrow> ('k, int) gomap \<Rightarrow> ('k, int) gomap" where
  "add_positive counts ks m = foldl (\<lambda>m k. if get_or 0 counts k > 0 then add_to k (get_or 0 counts k) m else m) m ks"

definition routeRecords ::
  "hash_fun \<Rightarrow> (nat \<Rightarrow> instant) \<Rightarrow> rec_heap \<Rightarrow> WarpstreamClient \<Rightarrow> rec_ptr list \<Rightarrow>
   WarpstreamClient \<times> routedGroup list \<times> rejectedTopicPartitionRecords list" where
  "routeRecords xxh clk hp c records =
     (let s = foldl (route_step xxh clk hp)
            \<lparr>ro_client = c, ro_groups = [], ro_order = [], ro_rejectedByKey = None, ro_rejected = []\<rparr> (enumerate 0 records);
          out = map (\<lambda>key. the (map_of (ro_groups s) key)) (ro_order s);
          m = cl_metrics (ro_client s);
          m = m\<lparr>partitionRoutes := add_positive (count_routes out) [routeSourceLeader, routeSourceStandIn] (partitionRoutes m),
                routingMisses := add_positive (count_misses (ro_rejected s))
                  [routingMissOther, routingMissEmptyPool, routingMissUnknownTopic, routingMissNoLeader, routingMissPartitionOutOfRange]
                  (routingMisses m)\<rparr>
      in ((ro_client s)\<lparr>cl_metrics := m\<rparr>, out, ro_rejected s))"

definition routeRecord ::
  "hash_fun \<Rightarrow> instant \<Rightarrow> rec_heap \<Rightarrow> WarpstreamClient \<Rightarrow> rec_ptr \<Rightarrow> WarpstreamClient \<times> (goerror + routedGroup)" where
  "routeRecord xxh now hp c r =
     (let key = rec_key hp r; (c, cands, outcome) = client_lookup xxh now c (fst key) (snd key) 1
      in if cands = []
         then let c = c\<lparr>cl_metrics := (cl_metrics c)\<lparr>routingMisses := add_to (missReason outcome) 1 (routingMisses (cl_metrics c))\<rparr>\<rparr>
              in (triggerRefresh c, Inl (errNoAgent key))
         else let c = (case route_source outcome of
                         Some src \<Rightarrow> c\<lparr>cl_metrics := (cl_metrics c)\<lparr>partitionRoutes := add_to src 1 (partitionRoutes (cl_metrics c))\<rparr>\<rparr>
                       | None \<Rightarrow> c)
              in (c, Inr \<lparr>rg_key = key, rg_records = [r], rg_nodeID = NodeID (hd cands), rg_nodeState = State (hd cands),
                          rg_outcome = outcome\<rparr>))"
section \<open>What a look-up promises the router\<close>

definition snapshot_route :: "hash_fun \<Rightarrow> WarpstreamClient \<Rightarrow> topicPartition \<Rightarrow> Agent list \<times> routeOutcome" where
  "snapshot_route xxh c tp = candidatesWithRoute xxh (p_strategy (cl_pool c)) (fst tp) (snd tp) 1"

definition routable :: "hash_fun \<Rightarrow> WarpstreamClient \<Rightarrow> topicPartition \<Rightarrow> bool" where
  "routable xxh c tp \<longleftrightarrow> fst (snapshot_route xxh c tp) \<noteq> []"

definition router_inv :: "WarpstreamClient \<Rightarrow> bool" where
  "router_inv c \<longleftrightarrow> client_inv c \<and> counted_stats (reader_of (cl_tracker c))"

text \<open>What look-ups leave alone.\<close>

definition router_frame :: "WarpstreamClient \<Rightarrow> WarpstreamClient \<Rightarrow> bool" where
  "router_frame c c' \<longleftrightarrow> cl_cfg c' = cl_cfg c \<and> cl_pool c' = cl_pool c \<and> cl_metrics c' = cl_metrics c \<and>
     refreshCtxDone c' = refreshCtxDone c \<and> router_inv c'"

lemma client_lookup_contract:
  assumes "router_inv c" "client_lookup xxh now c (fst tp) (snd tp) 1 = (c', cands, outcome)"
  shows "router_frame c c' \<and> refreshNowCh c' = refreshNowCh c \<and> outcome = snd (snapshot_route xxh c tp) \<and>
    (cands \<noteq> [] \<longleftrightarrow> routable xxh c tp) \<and> NodeID ` set cands \<subseteq> set (p_agents (cl_pool c))"
proof -
  let ?d = "(resolve_inner xxh (p_strategy (cl_pool c)) (cl_demoter c))\<lparr>d_tracker := reader_of (cl_tracker c)\<rparr>"
  obtain d' where l: "demoter_candidatesWithRoute ?d now (fst tp) (snd tp) 1 = (d', cands, outcome)"
    using assms(2) by (auto simp: client_lookup_def Let_def split: prod.splits)
  have wf: "wf_strategy (p_strategy (cl_pool c))" "st_agents (p_strategy (cl_pool c)) = p_agents (cl_pool c)"
    using assms(1) by (simp_all add: router_inv_def client_inv_def pool_inv_def)
  have d: "d_inner ?d = candidatesWithRoute xxh (p_strategy (cl_pool c))" "counted_stats (d_tracker ?d)"
    using assms(1) by (simp_all add: resolve_inner_def router_inv_def)
  note k = default_strategy.demoter_keeps_contract [OF wf(1) d l]
  have c': "c' = fst (client_lookup xxh now c (fst tp) (snd tp) 1)" using assms(2) by simp
  have m: "cl_metrics c' = cl_metrics c" "r_AgentStats (reader_of (cl_tracker c')) = r_AgentStats (reader_of (cl_tracker c))"
    unfolding c' by (auto simp: client_lookup_def Let_def case_prod_unfold reader_of_def cached_AgentStats_def observed_AgentStats_def fun_eq_iff)
  have "router_inv c'" using assms(1) m(2) client_lookup_inv [of c xxh now "fst tp" "snd tp" 1]
    by (simp add: router_inv_def c' counted_stats_def)
  then show ?thesis using k wf(2) m unfolding c' by (auto simp: router_frame_def routable_def snapshot_route_def)
qed

section \<open>The routing loop\<close>

definition routed_ok :: "hash_fun \<Rightarrow> rec_heap \<Rightarrow> WarpstreamClient \<Rightarrow> rec_ptr list \<Rightarrow> routedGroup \<Rightarrow> bool" where
  "routed_ok xxh hp c rs g \<longleftrightarrow> rg_records g = filter (\<lambda>r. rec_key hp r = rg_key g) rs \<and> rg_nodeID g \<in> set (p_agents (cl_pool c)) \<and>
     rg_outcome g = snd (snapshot_route xxh c (rg_key g))"

definition rejected_ok :: "hash_fun \<Rightarrow> rec_heap \<Rightarrow> WarpstreamClient \<Rightarrow> rec_ptr list \<Rightarrow> rejectedTopicPartitionRecords \<Rightarrow> bool" where
  "rejected_ok xxh hp c rs g \<longleftrightarrow> rj_records g = filter (\<lambda>r. rec_key hp r = rj_key g) rs \<and> rj_err g = errNoAgent (rj_key g) \<and>
     rj_miss g = missReason (snd (snapshot_route xxh c (rj_key g)))"

definition groups_ok :: "hash_fun \<Rightarrow> rec_heap \<Rightarrow> WarpstreamClient \<Rightarrow> rec_ptr list \<Rightarrow> (topicPartition, routedGroup) gomap \<Rightarrow> bool" where
  "groups_ok xxh hp c rs G \<longleftrightarrow> (\<forall>k. map_of G k \<noteq> None \<longleftrightarrow> routable xxh c k \<and> k \<in> rec_key hp ` set rs) \<and>
     (\<forall>k g. map_of G k = Some g \<longrightarrow> rg_key g = k \<and> routed_ok xxh hp c rs g)"

definition index_ok :: "(topicPartition, nat) gomap option \<Rightarrow> rejectedTopicPartitionRecords list \<Rightarrow> bool" where
  "index_ok byKey R \<longleftrightarrow> (case byKey of None \<Rightarrow> R = []
     | Some m \<Rightarrow> R \<noteq> [] \<and> (\<forall>k j. map_of m k = Some j \<longleftrightarrow> j < length R \<and> rj_key (R ! j) = k))"

definition routing_inv :: "hash_fun \<Rightarrow> rec_heap \<Rightarrow> WarpstreamClient \<Rightarrow> rec_ptr list \<Rightarrow> routing \<Rightarrow> bool" where
  "routing_inv xxh hp c rs s \<longleftrightarrow>
     router_frame c (ro_client s) \<and> (refreshNowCh (ro_client s) \<longleftrightarrow> refreshNowCh c \<or> ro_rejected s \<noteq> []) \<and>
     ro_order s = filter (routable xxh c) (first_seen (map (rec_key hp) rs)) \<and>
     map rj_key (ro_rejected s) = filter (\<lambda>k. \<not> routable xxh c k) (first_seen (map (rec_key hp) rs)) \<and>
     groups_ok xxh hp c rs (ro_groups s) \<and> (\<forall>g\<in>set (ro_rejected s). rejected_ok xxh hp c rs g) \<and>
     index_ok (ro_rejectedByKey s) (ro_rejected s)"

lemma groups_okD:
  assumes "groups_ok xxh hp c rs G"
  shows "map_of G k \<noteq> None \<longleftrightarrow> routable xxh c k \<and> k \<in> rec_key hp ` set rs"
    "map_of G k = Some g \<Longrightarrow> rg_key g = k" "map_of G k = Some g \<Longrightarrow> routed_ok xxh hp c rs g"
  using assms unfolding groups_ok_def by blast+

lemma index_okD: "index_ok (Some m) R \<Longrightarrow> map_of m k = Some j \<longleftrightarrow> j < length R \<and> rj_key (R ! j) = k"
  unfolding index_ok_def by (simp only: option.case)

lemma index_ok_cong: "map rj_key R' = map rj_key R \<Longrightarrow> index_ok byKey R \<Longrightarrow> index_ok byKey R'"
proof -
  assume m: "map rj_key R' = map rj_key R" and i: "index_ok byKey R"
  have l: "length R' = length R" using map_eq_imp_length_eq [OF m] .
  have n: "rj_key (R' ! j) = rj_key (R ! j)" if "j < length R" for j using arg_cong [OF m, of "\<lambda>xs. xs ! j"] that l by simp
  have "R' = [] \<longleftrightarrow> R = []" using l by auto
  then show "index_ok byKey R'" using i l n unfolding index_ok_def by (cases byKey) auto
qed

lemma routed_ok_other: "routed_ok xxh hp c rs g \<Longrightarrow> rg_key g \<noteq> rec_key hp r \<Longrightarrow> routed_ok xxh hp c (rs @ [r]) g"
  by (auto simp: routed_ok_def)

lemma routed_ok_snoc:
  "routed_ok xxh hp c rs g \<Longrightarrow> rg_key g = rec_key hp r \<Longrightarrow> routed_ok xxh hp c (rs @ [r]) (g\<lparr>rg_records := rg_records g @ [r]\<rparr>)"
  by (simp add: routed_ok_def)

lemma rejected_ok_other: "rejected_ok xxh hp c rs g \<Longrightarrow> rj_key g \<noteq> rec_key hp r \<Longrightarrow> rejected_ok xxh hp c (rs @ [r]) g"
  by (auto simp: rejected_ok_def)

lemma rejected_ok_snoc:
  "rejected_ok xxh hp c rs g \<Longrightarrow> rj_key g = rec_key hp r \<Longrightarrow> rejected_ok xxh hp c (rs @ [r]) (g\<lparr>rj_records := rj_records g @ [r]\<rparr>)"
  by (simp add: rejected_ok_def)

lemma routing_inv_rejected:
  assumes "routing_inv xxh hp c rs s"
  shows "rj_key ` set (ro_rejected s) = {k \<in> rec_key hp ` set rs. \<not> routable xxh c k}" "distinct (map rj_key (ro_rejected s))"
proof -
  have m: "map rj_key (ro_rejected s) = filter (\<lambda>k. \<not> routable xxh c k) (first_seen (map (rec_key hp) rs))"
    using assms by (simp add: routing_inv_def)
  show "distinct (map rj_key (ro_rejected s))" unfolding m by simp
  show "rj_key ` set (ro_rejected s) = {k \<in> rec_key hp ` set rs. \<not> routable xxh c k}"
    using arg_cong [OF m, of set] by auto
qed

lemma groups_ok_snoc:
  assumes "groups_ok xxh hp c rs G" "routable xxh c (rec_key hp r)" "rg_key g = rec_key hp r" "routed_ok xxh hp c (rs @ [r]) g"
  shows "groups_ok xxh hp c (rs @ [r]) (AList.update (rec_key hp r) g G)"
proof -
  have "map_of (AList.update (rec_key hp r) g G) k \<noteq> None \<longleftrightarrow> routable xxh c k \<and> k \<in> rec_key hp ` set (rs @ [r])" for k
    using groups_okD(1) [OF assms(1), of k] assms(2) by auto
  moreover have "rg_key g' = k \<and> routed_ok xxh hp c (rs @ [r]) g'" if "map_of (AList.update (rec_key hp r) g G) k = Some g'" for k g'
    using that groups_okD(2,3) [OF assms(1), of k g'] routed_ok_other assms(3,4) by (auto split: if_splits)
  ultimately show ?thesis unfolding groups_ok_def by blast
qed

lemma groups_ok_other:
  assumes "groups_ok xxh hp c rs G" "\<not> routable xxh c (rec_key hp r)"
  shows "groups_ok xxh hp c (rs @ [r]) G"
proof -
  have "map_of G k \<noteq> None \<longleftrightarrow> routable xxh c k \<and> k \<in> rec_key hp ` set (rs @ [r])" for k
    using groups_okD(1) [OF assms(1), of k] assms(2) by auto
  moreover have "rg_key g' = k \<and> routed_ok xxh hp c (rs @ [r]) g'" if g: "map_of G k = Some g'" for k g'
  proof -
    have "routable xxh c k" using groups_okD(1) [OF assms(1), of k] g by simp
    then have "rg_key g' \<noteq> rec_key hp r" using groups_okD(2) [OF assms(1) g] assms(2) by auto
    then show ?thesis using groups_okD(2,3) [OF assms(1) g] routed_ok_other by blast
  qed
  ultimately show ?thesis unfolding groups_ok_def by blast
qed

lemma rejected_routable_other:
  assumes "routing_inv xxh hp c rs s" "routable xxh c (rec_key hp r)"
  shows "\<forall>g\<in>set (ro_rejected s). rejected_ok xxh hp c (rs @ [r]) g"
proof
  fix g assume g: "g \<in> set (ro_rejected s)"
  then have "rj_key g \<in> {k \<in> rec_key hp ` set rs. \<not> routable xxh c k}" unfolding routing_inv_rejected(1) [OF assms(1), symmetric] by (rule imageI)
  then have "rj_key g \<noteq> rec_key hp r" using assms(2) by auto
  then show "rejected_ok xxh hp c (rs @ [r]) g" using g assms(1) rejected_ok_other unfolding routing_inv_def by blast
qed

lemma routing_inv_known:
  assumes inv: "routing_inv xxh hp c rs s" and g: "map_of (ro_groups s) (rec_key hp r) = Some g"
  shows "routing_inv xxh hp c (rs @ [r]) (route_step xxh clk hp s (i, r))"
proof -
  let ?k = "rec_key hp r"
  have G: "groups_ok xxh hp c rs (ro_groups s)" using inv unfolding routing_inv_def by blast
  have k: "routable xxh c ?k" "?k \<in> rec_key hp ` set rs" "rg_key g = ?k" "routed_ok xxh hp c rs g"
    using groups_okD(1) [OF G, of ?k] groups_okD(2,3) [OF G g] g by auto
  have st: "route_step xxh clk hp s (i, r) =
      s\<lparr>ro_groups := AList.update ?k (g\<lparr>rg_records := rg_records g @ [r]\<rparr>) (ro_groups s)\<rparr>"
    using g by (simp add: route_step_def Let_def)
  have upd: "groups_ok xxh hp c (rs @ [r]) (AList.update ?k (g\<lparr>rg_records := rg_records g @ [r]\<rparr>) (ro_groups s))"
    by (rule groups_ok_snoc [OF G k(1) _ routed_ok_snoc [OF k(4,3)]]) (simp add: k(3))
  show ?thesis unfolding st using inv k(2) rejected_routable_other [OF inv k(1)] upd unfolding routing_inv_def by simp
qed

lemma routing_inv_missed:
  assumes inv: "routing_inv xxh hp c rs s" and g: "map_of (ro_groups s) (rec_key hp r) = None"
    and m: "ro_rejectedByKey s = Some m" "map_of m (rec_key hp r) = Some j"
  shows "routing_inv xxh hp c (rs @ [r]) (route_step xxh clk hp s (i, r))"
proof -
  let ?k = "rec_key hp r" and ?R = "ro_rejected s"
  let ?g = "(?R ! j)\<lparr>rj_records := rj_records (?R ! j) @ [r]\<rparr>"
  have I: "index_ok (Some m) ?R" and G: "groups_ok xxh hp c rs (ro_groups s)" using inv m(1) unfolding routing_inv_def by auto
  have j: "j < length ?R" "rj_key (?R ! j) = ?k" using index_okD [OF I] m(2) by blast+
  have "?k \<in> rj_key ` set ?R" using j by (metis image_eqI nth_mem)
  then have k: "\<not> routable xxh c ?k" "?k \<in> rec_key hp ` set rs" using routing_inv_rejected(1) [OF inv] by blast+
  have keys: "map rj_key (?R[j := ?g]) = map rj_key ?R"
  proof -
    have "(map rj_key ?R)[j := ?k] = map rj_key ?R" using j by (metis list_update_id nth_map)
    then show ?thesis using j by (simp add: map_update)
  qed
  have "rejected_ok xxh hp c (rs @ [r]) (?R[j := ?g] ! n)" if "n < length ?R" for n
  proof (cases "n = j")
    case True
    then show ?thesis using j inv rejected_ok_snoc [of xxh hp c rs "?R ! j" r] unfolding routing_inv_def by simp
  next
    case False
    then have "rj_key (?R ! n) \<noteq> ?k"
      using routing_inv_rejected(2) [OF inv] j that by (metis length_map nth_eq_iff_index_eq nth_map)
    then show ?thesis using False that inv rejected_ok_other unfolding routing_inv_def by simp
  qed
  then have rejs: "\<forall>g'\<in>set (?R[j := ?g]). rejected_ok xxh hp c (rs @ [r]) g'" by (auto simp: in_set_conv_nth)
  have "route_step xxh clk hp s (i, r) = s\<lparr>ro_rejected := ?R[j := ?g]\<rparr>" using g m by (simp add: route_step_def Let_def)
  then show ?thesis using inv k(2) keys rejs groups_ok_other [OF G k(1)] index_ok_cong [OF keys I] m(1)
    unfolding routing_inv_def by simp
qed

lemma routing_inv_new:
  assumes inv: "routing_inv xxh hp c rs s" and g: "map_of (ro_groups s) (rec_key hp r) = None"
    and m: "\<And>m. ro_rejectedByKey s = Some m \<Longrightarrow> map_of m (rec_key hp r) = None"
  shows "routing_inv xxh hp c (rs @ [r]) (route_step xxh clk hp s (i, r))"
proof -
  let ?k = "rec_key hp r" and ?R = "ro_rejected s"
  have I: "index_ok (ro_rejectedByKey s) ?R" and G: "groups_ok xxh hp c rs (ro_groups s)"
    and f: "router_frame c (ro_client s)" using inv unfolding routing_inv_def by auto
  have "?k \<notin> rj_key ` set ?R"
  proof
    assume "?k \<in> rj_key ` set ?R"
    then obtain j where j: "j < length ?R" "rj_key (?R ! j) = ?k" by (metis imageE in_set_conv_nth)
    then obtain b where b: "ro_rejectedByKey s = Some b" using I by (cases "ro_rejectedByKey s") (auto simp: index_ok_def)
    then show False using m [OF b] index_okD [of b ?R ?k j] I j by simp
  qed
  then have new: "?k \<notin> rec_key hp ` set rs" using routing_inv_rejected(1) [OF inv] groups_okD(1) [OF G, of ?k] g by auto
  obtain c1 cands outcome where l: "client_lookup xxh (clk i) (ro_client s) (fst ?k) (snd ?k) 1 = (c1, cands, outcome)" by (metis prod_cases3)
  have same: "snapshot_route xxh (ro_client s) = snapshot_route xxh c" "p_agents (cl_pool (ro_client s)) = p_agents (cl_pool c)"
    using f by (simp_all add: router_frame_def snapshot_route_def fun_eq_iff)
  then have rt: "routable xxh (ro_client s) = routable xxh c" by (simp add: routable_def fun_eq_iff)
  have look: "router_frame (ro_client s) c1" "refreshNowCh c1 = refreshNowCh (ro_client s)" "outcome = snd (snapshot_route xxh c ?k)"
    "cands \<noteq> [] \<longleftrightarrow> routable xxh c ?k" "NodeID ` set cands \<subseteq> set (p_agents (cl_pool c))"
    using client_lookup_contract [OF _ l] f same rt by (auto simp: router_frame_def)
  have f1: "router_frame c c1" using f look(1) by (simp add: router_frame_def)
  have nil: "filter (\<lambda>q. rec_key hp q = ?k) rs = []" by (rule filter_key_Nil [OF new])
  have notin: "?k \<notin> set (map (rec_key hp) rs)" using new by simp
  show ?thesis
  proof (cases "cands = []")
    case True
    let ?rg = "\<lparr>rj_key = ?k, rj_records = [r], rj_err = errNoAgent ?k, rj_miss = missReason outcome\<rparr>"
    let ?b = "case ro_rejectedByKey s of None \<Rightarrow> [] | Some b \<Rightarrow> b"
    have nr: "\<not> routable xxh c ?k" using look(4) True by simp
    have ok: "rejected_ok xxh hp c (rs @ [r]) ?rg" using nil look(3) by (simp add: rejected_ok_def)
    have old: "\<forall>g\<in>set ?R. rejected_ok xxh hp c (rs @ [r]) g"
    proof
      fix g assume "g \<in> set ?R"
      then show "rejected_ok xxh hp c (rs @ [r]) g"
        using inv rejected_ok_other \<open>?k \<notin> rj_key ` set ?R\<close> unfolding routing_inv_def by (metis image_eqI)
    qed
    have idx: "index_ok (Some (AList.update ?k (length ?R) ?b)) (?R @ [?rg])"
    proof -
      have b: "map_of ?b k' = Some j' \<longleftrightarrow> j' < length ?R \<and> rj_key (?R ! j') = k'" for k' j'
      proof (cases "ro_rejectedByKey s")
        case None
        then show ?thesis using I by (simp add: index_ok_def)
      next
        case (Some b)
        then show ?thesis using I index_okD [of b ?R k' j'] by simp
      qed
      have "map_of (AList.update ?k (length ?R) ?b) k' = Some j' \<longleftrightarrow> j' < length (?R @ [?rg]) \<and> rj_key ((?R @ [?rg]) ! j') = k'" for k' j'
      proof (cases "k' = ?k")
        case True
        have "rj_key (?R ! j') \<noteq> ?k" if "j' < length ?R" using that \<open>?k \<notin> rj_key ` set ?R\<close> nth_mem [OF that] by (metis image_eqI)
        then show ?thesis using True by (auto simp: nth_append)
      next
        case False
        then show ?thesis using b [of k' j'] by (auto simp: nth_append)
      qed
      then show ?thesis unfolding index_ok_def by simp
    qed
    have st: "route_step xxh clk hp s (i, r) = s\<lparr>ro_client := (if ro_rejectedByKey s = None then triggerRefresh c1 else c1),
        ro_rejectedByKey := Some (AList.update ?k (length ?R) ?b), ro_rejected := ?R @ [?rg]\<rparr>"
      using g m l True by (simp add: route_step_def Let_def split: option.split)
    have cl: "router_frame c (if ro_rejectedByKey s = None then triggerRefresh c1 else c1)"
      using f1 by (auto simp: router_frame_def router_inv_def client_inv_def)
    have nudge: "refreshNowCh (if ro_rejectedByKey s = None then triggerRefresh c1 else c1)"
      using inv I look(2) unfolding routing_inv_def by (auto simp: index_ok_def)
    show ?thesis unfolding st using inv cl nudge ok old idx nr notin groups_ok_other [OF G nr] unfolding routing_inv_def by simp
  next
    case False
    let ?rg = "\<lparr>rg_key = ?k, rg_records = [r], rg_nodeID = NodeID (hd cands), rg_nodeState = State (hd cands), rg_outcome = outcome\<rparr>"
    have r: "routable xxh c ?k" using look(4) False by simp
    have "NodeID (hd cands) \<in> set (p_agents (cl_pool c))" using look(5) False by (metis hd_in_set image_eqI subsetD)
    then have ok: "routed_ok xxh hp c (rs @ [r]) ?rg" using nil look(3) by (simp add: routed_ok_def)
    have st: "route_step xxh clk hp s (i, r) =
        s\<lparr>ro_client := c1, ro_order := ro_order s @ [?k], ro_groups := AList.update ?k ?rg (ro_groups s)\<rparr>"
      using g m l False by (simp add: route_step_def Let_def split: option.split)
    show ?thesis unfolding st using inv f1 look(2) ok r notin groups_ok_snoc [OF G r _ ok] rejected_routable_other [OF inv r]
      unfolding routing_inv_def by simp
  qed
qed

lemma routing_inv_step: "routing_inv xxh hp c rs s \<Longrightarrow> routing_inv xxh hp c (rs @ [r]) (route_step xxh clk hp s (i, r))"
  using routing_inv_known routing_inv_missed routing_inv_new by (metis option.exhaust)

lemma routing_inv_loop:
  assumes "router_inv c"
  shows "routing_inv xxh hp c rs (foldl (route_step xxh clk hp)
    \<lparr>ro_client = c, ro_groups = [], ro_order = [], ro_rejectedByKey = None, ro_rejected = []\<rparr> (enumerate 0 rs))"
proof (induction rs rule: rev_induct)
  case Nil
  show ?case using assms by (simp add: routing_inv_def router_frame_def groups_ok_def index_ok_def)
next
  case (snoc r rs)
  then show ?case using routing_inv_step by (simp add: enumerate_append_eq)
qed

section \<open>Counters\<close>

lemma get_or_add_to [simp]: "get_or 0 (add_to k n m) j = get_or 0 m j + (if j = k then n else 0)"
  by (simp add: add_to_def)

lemma get_or_add_positive:
  assumes "distinct ks" "k \<in> set ks" "0 \<le> get_or 0 counts k"
  shows "get_or 0 (add_positive counts ks m) k = get_or 0 m k + get_or 0 counts k"
proof -
  have other: "get_or 0 (add_positive counts js m) k = get_or 0 m k" if "k \<notin> set js" for js m
    using that unfolding add_positive_def by (induction js arbitrary: m) auto
  show ?thesis using assms(1,2)
  proof (induction ks arbitrary: m)
    case (Cons j ks)
    have step: "add_positive counts (j # ks) m = add_positive counts ks (if get_or 0 counts j > 0 then add_to j (get_or 0 counts j) m else m)"
      by (simp add: add_positive_def)
    show ?case
    proof (cases "j = k")
      case True
      then show ?thesis using Cons.prems assms(3) other [of ks] unfolding step by auto
    next
      case False
      then show ?thesis using Cons unfolding step by simp
    qed
  qed simp
qed

lemma sum_foldl_add_to:
  "get_or 0 (foldl (\<lambda>m x. case f x of Some j \<Rightarrow> add_to j (int (n x)) m | None \<Rightarrow> m) m0 xs) k =
     get_or 0 m0 k + (\<Sum>x\<leftarrow>xs. if f x = Some k then int (n x) else 0)"
  by (induction xs arbitrary: m0) (auto split: option.split)

lemma count_routes_eq:
  "get_or 0 (count_routes gs) k = (\<Sum>g\<leftarrow>gs. if route_source (rg_outcome g) = Some k then int (length (rg_records g)) else 0)"
  unfolding count_routes_def
  using sum_foldl_add_to [where f = "\<lambda>g. route_source (rg_outcome g)" and n = "\<lambda>g. length (rg_records g)" and ?m0.0 = "[]" and xs = gs and k = k]
  by (simp add: get_or_def)

lemma count_misses_eq:
  "get_or 0 (count_misses rs) k = (\<Sum>r\<leftarrow>rs. if rj_miss r = k then int (length (rj_records r)) else 0)"
  unfolding count_misses_def
  using sum_foldl_add_to [where f = "\<lambda>r. Some (rj_miss r)" and n = "\<lambda>r. length (rj_records r)" and ?m0.0 = "[]" and xs = rs and k = k]
  by (simp add: get_or_def)

lemma sum_list_if_nonneg: "0 \<le> (\<Sum>x\<leftarrow>xs. if P x then int (n x) else 0)"
  by (induction xs) auto

lemma routeRecords_counters:
  assumes "routeRecords xxh clk hp c records = (c', groups, rejected)" "router_inv c"
  shows "get_or 0 (partitionRoutes (cl_metrics c')) src = get_or 0 (partitionRoutes (cl_metrics c)) src +
      (\<Sum>g\<leftarrow>groups. if route_source (rg_outcome g) = Some src then int (length (rg_records g)) else 0)"
    and "get_or 0 (routingMisses (cl_metrics c')) why = get_or 0 (routingMisses (cl_metrics c)) why +
      (\<Sum>r\<leftarrow>rejected. if rj_miss r = why then int (length (rj_records r)) else 0)"
proof -
  let ?s = "foldl (route_step xxh clk hp)
    \<lparr>ro_client = c, ro_groups = [], ro_order = [], ro_rejectedByKey = None, ro_rejected = []\<rparr> (enumerate 0 records)"
  have m: "cl_metrics (ro_client ?s) = cl_metrics c" using routing_inv_loop [OF assms(2)] by (simp add: routing_inv_def router_frame_def)
  have "src \<in> set [routeSourceLeader, routeSourceStandIn]" by (cases src) simp_all
  from get_or_add_positive [OF _ this, of "count_routes groups" "partitionRoutes (cl_metrics c)"]
  show "get_or 0 (partitionRoutes (cl_metrics c')) src = get_or 0 (partitionRoutes (cl_metrics c)) src +
      (\<Sum>g\<leftarrow>groups. if route_source (rg_outcome g) = Some src then int (length (rg_records g)) else 0)"
    using assms(1) m by (auto simp: routeRecords_def Let_def count_routes_eq sum_list_if_nonneg)
  have "why \<in> set [routingMissOther, routingMissEmptyPool, routingMissUnknownTopic, routingMissNoLeader, routingMissPartitionOutOfRange]"
    by (cases why) simp_all
  from get_or_add_positive [OF _ this, of "count_misses rejected" "routingMisses (cl_metrics c)"]
  show "get_or 0 (routingMisses (cl_metrics c')) why = get_or 0 (routingMisses (cl_metrics c)) why +
      (\<Sum>r\<leftarrow>rejected. if rj_miss r = why then int (length (rj_records r)) else 0)"
    using assms(1) m by (auto simp: routeRecords_def Let_def count_misses_eq sum_list_if_nonneg)
qed

section \<open>The routed groups\<close>

lemma routeRecords_groups:
  assumes "routeRecords xxh clk hp c records = (c', groups, rejected)" "router_inv c"
  shows "map rg_key groups = filter (routable xxh c) (first_seen (map (rec_key hp) records))"
    and "map rj_key rejected = filter (\<lambda>k. \<not> routable xxh c k) (first_seen (map (rec_key hp) records))"
    and "\<forall>g\<in>set groups. routed_ok xxh hp c records g" and "\<forall>g\<in>set rejected. rejected_ok xxh hp c records g"
    and "refreshNowCh c' \<longleftrightarrow> refreshNowCh c \<or> rejected \<noteq> []" and "cl_cfg c' = cl_cfg c"
proof -
  let ?s = "foldl (route_step xxh clk hp)
    \<lparr>ro_client = c, ro_groups = [], ro_order = [], ro_rejectedByKey = None, ro_rejected = []\<rparr> (enumerate 0 records)"
  note inv = routing_inv_loop [OF assms(2), of xxh hp records clk]
  have G: "groups_ok xxh hp c records (ro_groups ?s)"
    and order: "ro_order ?s = filter (routable xxh c) (first_seen (map (rec_key hp) records))"
    and R: "map rj_key (ro_rejected ?s) = filter (\<lambda>k. \<not> routable xxh c k) (first_seen (map (rec_key hp) records))"
    and ok: "\<forall>g\<in>set (ro_rejected ?s). rejected_ok xxh hp c records g"
    using inv unfolding routing_inv_def by blast+
  have out: "groups = map (\<lambda>key. the (map_of (ro_groups ?s) key)) (ro_order ?s)" "rejected = ro_rejected ?s"
    and c': "refreshNowCh c' = refreshNowCh (ro_client ?s)" "cl_cfg c' = cl_cfg (ro_client ?s)"
    using assms(1) by (auto simp: routeRecords_def Let_def)
  have known: "rg_key (the (map_of (ro_groups ?s) k)) = k \<and> routed_ok xxh hp c records (the (map_of (ro_groups ?s) k))"
    if "k \<in> set (ro_order ?s)" for k
  proof -
    have "k \<in> set (filter (routable xxh c) (first_seen (map (rec_key hp) records)))" using that order by simp
    then have "map_of (ro_groups ?s) k \<noteq> None" using groups_okD(1) [OF G, of k] by simp
    then obtain g where g: "map_of (ro_groups ?s) k = Some g" by blast
    then show ?thesis using groups_okD(2,3) [OF G g] by simp
  qed
  have "map rg_key groups = ro_order ?s" unfolding out by (simp add: map_idI known)
  then show "map rg_key groups = filter (routable xxh c) (first_seen (map (rec_key hp) records))" using order by simp
  show "\<forall>g\<in>set groups. routed_ok xxh hp c records g" unfolding out using known by simp
  show "map rj_key rejected = filter (\<lambda>k. \<not> routable xxh c k) (first_seen (map (rec_key hp) records))" using R out(2) by simp
  show "\<forall>g\<in>set rejected. rejected_ok xxh hp c records g" using ok out(2) by simp
  show "refreshNowCh c' \<longleftrightarrow> refreshNowCh c \<or> rejected \<noteq> []" "cl_cfg c' = cl_cfg c"
    using inv c' out(2) unfolding routing_inv_def router_frame_def by simp_all
qed

lemma routed_records:
  assumes "routeRecords xxh clk hp c records = (c', groups, rejected)" "router_inv c"
  shows "map rg_records groups = map (\<lambda>k. filter (\<lambda>r. rec_key hp r = k) records) (map rg_key groups)"
    and "map rj_records rejected = map (\<lambda>k. filter (\<lambda>r. rec_key hp r = k) records) (map rj_key rejected)"
  using routeRecords_groups(3,4) [OF assms] by (auto simp: routed_ok_def rejected_ok_def)

lemma mset_concat_filter:
  "mset (concat (map f (filter P ks))) + mset (concat (map f (filter (\<lambda>k. \<not> P k) ks))) = mset (concat (map f ks))"
  by (induction ks) auto

lemma routed_all:
  assumes "routeRecords xxh clk hp c records = (c', groups, rejected)" "router_inv c"
  shows "mset (concat (map rg_records groups)) + mset (concat (map rj_records rejected)) = mset records"
  unfolding routed_records [OF assms] routeRecords_groups(1,2) [OF assms] mset_concat_filter by (rule mset_concat_groups)


definition example_heap :: rec_heap where
  "example_heap r = \<lparr>r_Key = None, r_Value = Some [1, 2], r_Headers = [], r_Timestamp = second,
     r_Topic = (if r = 1 then ''zz'' else ''a''), r_Partition = 0, r_Context = None\<rparr>"

lemma example_client_ok: "client_inv example_client" "counted_stats (reader_of (cl_tracker example_client))"
proof -
  show "client_inv example_client" using new_client_inv(1) [OF example_client_new] by (simp add: distinct_brokers_def example_meta_def)
  have "o_inner (c_inner (cl_tracker example_client)) = []" by code_simp
  then show "counted_stats (reader_of (cl_tracker example_client))"
    by (simp add: counted_stats_def reader_of_def cached_AgentStats_def observed_AgentStats_def AgentStats_of_def)
qed


text \<open>
  The single-record path is the general one: routing one record with \<open>routeRecord\<close> leaves the same
  client, counters and refresh request included, and gives the same group or the same error as
  routing the list of that record.
\<close>

theorem routeRecord_is_routeRecords:
  "case routeRecords xxh clk hp c [r] of (c', groups, rejected) \<Rightarrow>
     routeRecord xxh (clk 0) hp c r = (c', if rejected = [] then Inr (hd groups) else Inl (rj_err (hd rejected))) \<and>
     length groups + length rejected = 1"
proof -
  let ?k = "rec_key hp r"
  obtain c1 cands outcome where l: "client_lookup xxh (clk 0) c (fst ?k) (snd ?k) 1 = (c1, cands, outcome)" by (metis prod_cases3)
  show ?thesis
  proof (cases "cands = []")
    case True
    then show ?thesis using l
      by (cases outcome) (simp_all add: routeRecords_def routeRecord_def route_step_def Let_def count_routes_def count_misses_def add_positive_def
          add_to_def get_or_def triggerRefresh_def)
  next
    case False
    then show ?thesis using l
      by (cases outcome) (simp_all add: routeRecords_def routeRecord_def route_step_def Let_def count_routes_def count_misses_def add_positive_def
          add_to_def get_or_def)
  qed
qed

end
