(* ===== verification/Produce_Request.thy ===== *)
theory Produce_Request
  imports Record_Batch Go_Errors
begin

text \<open>
  Encoded partitions and the request built from them: \<open>encodedTopicPartitionRecords\<close> of
  \<open>encoded_topic_partition.go\<close>, and \<open>produceRequestStats\<close> and
  \<open>buildMultiTopicProduceRequestFromEncoded\<close> of \<open>produce.go\<close>. The lookup of topic UUIDs
  (\<open>AgentPool.TopicID\<close> in the client) is the argument \<open>topicID\<close>.

  The lemmas show which inputs are rejected, and that an accepted request carries every non-empty
  batch exactly once, under its topic, with the statistics of exactly those batches.
\<close>

section \<open>Encoded partitions\<close>

record produceRequestStats =
  s_records :: int
  s_batches :: int
  s_uncompressedBytes :: int
  s_compressedBytes :: int

definition zero_stats :: produceRequestStats where
  "zero_stats = \<lparr>s_records = 0, s_batches = 0, s_uncompressedBytes = 0, s_compressedBytes = 0\<rparr>"

definition stats_add :: "produceRequestStats \<Rightarrow> produceRequestStats \<Rightarrow> produceRequestStats" where
  "stats_add s t =
     \<lparr>s_records = s_records s + s_records t, s_batches = s_batches s + s_batches t,
      s_uncompressedBytes = s_uncompressedBytes s + s_uncompressedBytes t,
      s_compressedBytes = s_compressedBytes s + s_compressedBytes t\<rparr>"

record encodedTopicPartitionRecords =
  e_topic :: topic
  e_partition :: partition
  e_encoded :: bytes
  e_stats :: produceRequestStats

definition newEncodedTopicPartitionRecords ::
  "codec \<Rightarrow> topic \<Rightarrow> partition \<Rightarrow> kgo_Record list \<Rightarrow> encodedTopicPartitionRecords" where
  "newEncodedTopicPartitionRecords cdc topic part rs =
     (let (batch, uncompressed, compressed) = encodeBatch cdc rs
      in \<lparr>e_topic = topic, e_partition = part, e_encoded = batch,
          e_stats = \<lparr>s_records = int (length rs), s_batches = 1, s_uncompressedBytes = int uncompressed,
                     s_compressedBytes = int compressed\<rparr>\<rparr>)"

definition encoded_recordCount :: "encodedTopicPartitionRecords \<Rightarrow> int" where
  "encoded_recordCount p = s_records (e_stats p)"

definition encoded_payloadBytes :: "encodedTopicPartitionRecords \<Rightarrow> int" where
  "encoded_payloadBytes p = 0"

abbreviation e_key :: "encodedTopicPartitionRecords \<Rightarrow> topicPartition" where
  "e_key p \<equiv> (e_topic p, e_partition p)"

section \<open>The produce request\<close>

record ProduceRequestTopicPartition =
  qp_Partition :: partition
  qp_Records :: bytes

record ProduceRequestTopic =
  qt_Topic :: topic
  qt_TopicID :: uuid
  qt_Partitions :: "ProduceRequestTopicPartition list"

record ProduceRequest =
  q_Version :: int
  q_Acks :: int
  q_TimeoutMillis :: int
  q_Topics :: "ProduceRequestTopic list"

definition NewProduceRequest :: ProduceRequest where
  "NewProduceRequest = \<lparr>q_Version = 0, q_Acks = 0, q_TimeoutMillis = 15000, q_Topics = []\<rparr>"

text \<open>The loop over one topic's partitions: \<open>seen\<close>, the entries so far and the statistics.\<close>

fun build_partitions ::
  "topic \<Rightarrow> encodedTopicPartitionRecords list \<Rightarrow> partition set \<Rightarrow> ProduceRequestTopicPartition list \<Rightarrow>
   produceRequestStats \<Rightarrow> goerror + ProduceRequestTopicPartition list \<times> produceRequestStats" where
  "build_partitions topic [] seen reqPartitions stats = Inr (reqPartitions, stats)"
| "build_partitions topic (p # ps) seen reqPartitions stats =
     (if e_partition p \<in> seen
      then Inl (GoErrorf ''duplicate partition %d for topic %q'' [FInt (e_partition p), FStr topic])
      else if e_encoded p = []
      then build_partitions topic ps (insert (e_partition p) seen) reqPartitions stats
      else build_partitions topic ps (insert (e_partition p) seen)
             (reqPartitions @ [\<lparr>qp_Partition = e_partition p, qp_Records = e_encoded p\<rparr>])
             (stats_add stats (e_stats p)))"

fun build_topics ::
  "(topic \<Rightarrow> uuid option) \<Rightarrow> (topic, encodedTopicPartitionRecords list) gomap \<Rightarrow> topic list \<Rightarrow>
   ProduceRequest \<Rightarrow> produceRequestStats \<Rightarrow> goerror + ProduceRequest \<times> produceRequestStats" where
  "build_topics topicID byTopic [] req stats = Inr (req, stats)"
| "build_topics topicID byTopic (topic # ts) req stats =
     (case topicID topic of
        None \<Rightarrow> Inl (GoErrorf ''topic %q not known'' [FStr topic])
      | Some uid \<Rightarrow>
          (case build_partitions topic (get_or [] byTopic topic) {} [] stats of
             Inl err \<Rightarrow> Inl err
           | Inr (reqPartitions, stats) \<Rightarrow>
               build_topics topicID byTopic ts
                 (req\<lparr>q_Topics := q_Topics req @
                        [\<lparr>qt_Topic = topic, qt_TopicID = uid, qt_Partitions = reqPartitions\<rparr>]\<rparr>) stats))"

definition buildMultiTopicProduceRequestFromEncoded ::
  "int \<Rightarrow> (topic \<Rightarrow> uuid option) \<Rightarrow> encodedTopicPartitionRecords list \<Rightarrow>
   goerror + ProduceRequest \<times> produceRequestStats" where
  "buildMultiTopicProduceRequestFromEncoded version topicID partitions =
     (let (topicOrder, byTopic) = group_by e_topic partitions
      in build_topics topicID byTopic topicOrder
           (NewProduceRequest\<lparr>q_Version := version, q_Acks := - 1\<rparr>) zero_stats)"

section \<open>Lemmas\<close>

definition sum_stats :: "encodedTopicPartitionRecords list \<Rightarrow> produceRequestStats" where
  "sum_stats ps = foldl (\<lambda>s p. stats_add s (e_stats p)) zero_stats ps"

definition carried :: "encodedTopicPartitionRecords list \<Rightarrow> encodedTopicPartitionRecords list" where
  "carried ps = filter (\<lambda>p. e_encoded p \<noteq> []) ps"

definition req_partition :: "encodedTopicPartitionRecords \<Rightarrow> ProduceRequestTopicPartition" where
  "req_partition p = \<lparr>qp_Partition = e_partition p, qp_Records = e_encoded p\<rparr>"

lemma build_partitions_ok:
  "distinct (map e_partition ps) \<Longrightarrow> e_partition ` set ps \<inter> seen = {} \<Longrightarrow>
   build_partitions topic ps seen acc stats =
     Inr (acc @ map req_partition (carried ps), foldl (\<lambda>s p. stats_add s (e_stats p)) stats (carried ps))"
proof (induction ps arbitrary: seen acc stats)
  case (Cons p ps)
  then have "distinct (map e_partition ps)" "e_partition ` set ps \<inter> insert (e_partition p) seen = {}"
      "e_partition p \<notin> seen" by auto
  with Cons.IH [OF this(1,2)] show ?case by (simp add: carried_def req_partition_def)
qed (simp add: carried_def)

lemma build_partitions_dup:
  "\<not> (distinct (map e_partition ps) \<and> e_partition ` set ps \<inter> seen = {}) \<Longrightarrow>
   \<exists>err. build_partitions topic ps seen acc stats = Inl err"
proof (induction ps arbitrary: seen acc stats)
  case (Cons p ps)
  show ?case
  proof (cases "e_partition p \<in> seen")
    case False
    then have "\<not> (distinct (map e_partition ps) \<and> e_partition ` set ps \<inter> insert (e_partition p) seen = {})"
      using Cons.prems by auto
    from Cons.IH [OF this] show ?thesis using False by simp
  qed simp
qed simp

definition topic_group :: "encodedTopicPartitionRecords list \<Rightarrow> topic \<Rightarrow> encodedTopicPartitionRecords list" where
  "topic_group ps t = filter (\<lambda>p. e_topic p = t) ps"

definition req_topic :: "(topic \<Rightarrow> uuid option) \<Rightarrow> encodedTopicPartitionRecords list \<Rightarrow> topic \<Rightarrow> ProduceRequestTopic" where
  "req_topic topicID ps t =
     \<lparr>qt_Topic = t, qt_TopicID = the (topicID t), qt_Partitions = map req_partition (carried (topic_group ps t))\<rparr>"

lemma build_topics_ok:
  assumes "\<forall>t\<in>set ts. topicID t \<noteq> None" and "\<forall>t\<in>set ts. distinct (map e_partition (topic_group ps t))"
    and "\<And>t. get_or [] byTopic t = topic_group ps t"
  shows "build_topics topicID byTopic ts req stats =
    Inr (req\<lparr>q_Topics := q_Topics req @ map (req_topic topicID ps) ts\<rparr>,
         foldl (\<lambda>s p. stats_add s (e_stats p)) stats (concat (map (\<lambda>t. carried (topic_group ps t)) ts)))"
  using assms(1,2)
proof (induction ts arbitrary: req stats)
  case (Cons t ts)
  obtain uid where u: "topicID t = Some uid" using Cons.prems by auto
  have "build_partitions t (topic_group ps t) {} [] stats =
      Inr (map req_partition (carried (topic_group ps t)),
           foldl (\<lambda>s p. stats_add s (e_stats p)) stats (carried (topic_group ps t)))"
    using build_partitions_ok [of "topic_group ps t" "{}" t "[]" stats] Cons.prems by simp
  then show ?case using u Cons by (simp add: assms(3) req_topic_def)
qed simp

lemma build_topics_err:
  assumes "\<And>t. get_or [] byTopic t = topic_group ps t"
    and "\<exists>t\<in>set ts. topicID t = None \<or> \<not> distinct (map e_partition (topic_group ps t))"
  shows "\<exists>err. build_topics topicID byTopic ts req stats = Inl err"
  using assms(2)
proof (induction ts arbitrary: req stats)
  case (Cons t ts)
  show ?case
  proof (cases "topicID t = None \<or> \<not> distinct (map e_partition (topic_group ps t))")
    case True
    then show ?thesis using build_partitions_dup [of "topic_group ps t" "{}" t "[]" stats]
      by (auto simp: assms(1) split: option.split)
  next
    case False
    then have "\<exists>t\<in>set ts. topicID t = None \<or> \<not> distinct (map e_partition (topic_group ps t))"
      using Cons.prems by auto
    then show ?thesis using Cons.IH by (auto split: option.split sum.split)
  qed
qed simp

text \<open>The partitions of a topic are distinct for every topic iff no (topic, partition) is repeated.\<close>

lemma distinct_keys_iff:
  "distinct (map e_key ps) \<longleftrightarrow> (\<forall>t\<in>e_topic ` set ps. distinct (map e_partition (topic_group ps t)))"
proof
  assume "distinct (map e_key ps)"
  then show "\<forall>t\<in>e_topic ` set ps. distinct (map e_partition (topic_group ps t))"
    by (auto simp: distinct_map topic_group_def inj_on_def)
next
  assume d: "\<forall>t\<in>e_topic ` set ps. distinct (map e_partition (topic_group ps t))"
  have "distinct (map e_partition (topic_group ps t))" for t
    using d by (cases "t \<in> e_topic ` set ps") (auto simp: topic_group_def filter_key_Nil)
  then have "\<forall>t. distinct (map e_partition (topic_group ps t))" ..
  then show "distinct (map e_key ps)"
  proof (induction ps)
    case (Cons p ps)
    have "distinct (map e_partition (topic_group ps t))" for t
      using spec [OF Cons.prems, of t] by (simp add: topic_group_def split: if_splits)
    moreover have "e_partition p \<notin> e_partition ` set (topic_group ps (e_topic p))"
      using spec [OF Cons.prems, of "e_topic p"] by (simp add: topic_group_def)
    then have "e_key p \<notin> e_key ` set ps" by (auto simp: topic_group_def image_iff)
    ultimately show ?case using Cons.IH by simp
  qed simp
qed

text \<open>The statistics do not depend on the order of the batches.\<close>

lemma fold_stats_add:
  "foldl (\<lambda>s p. stats_add s (e_stats p)) s ps =
     \<lparr>s_records = s_records s + sum_list (map (\<lambda>p. s_records (e_stats p)) ps),
      s_batches = s_batches s + sum_list (map (\<lambda>p. s_batches (e_stats p)) ps),
      s_uncompressedBytes = s_uncompressedBytes s + sum_list (map (\<lambda>p. s_uncompressedBytes (e_stats p)) ps),
      s_compressedBytes = s_compressedBytes s + sum_list (map (\<lambda>p. s_compressedBytes (e_stats p)) ps)\<rparr>"
  by (induction ps arbitrary: s) (simp_all add: stats_add_def)

lemma sum_stats_mset: "mset ps = mset qs \<Longrightarrow> sum_stats ps = sum_stats qs"
  unfolding sum_stats_def fold_stats_add using sum_list_map_mset by (simp cong: sum_list_map_mset)

definition buildable :: "(topic \<Rightarrow> uuid option) \<Rightarrow> encodedTopicPartitionRecords list \<Rightarrow> bool" where
  "buildable topicID ps \<longleftrightarrow> (\<forall>p\<in>set ps. topicID (e_topic p) \<noteq> None) \<and> distinct (map e_key ps)"

lemma build_ok:
  assumes "buildable topicID ps"
  shows "buildMultiTopicProduceRequestFromEncoded version topicID ps =
    Inr (\<lparr>q_Version = version, q_Acks = - 1, q_TimeoutMillis = 15000,
          q_Topics = map (req_topic topicID ps) (first_seen (map e_topic ps))\<rparr>,
         sum_stats (carried ps))"
proof -
  let ?ts = "first_seen (map e_topic ps)"
  have g: "get_or [] (snd (group_by e_topic ps)) t = topic_group ps t" for t
    by (simp add: topic_group_def)
  have "sum_stats (concat (map (\<lambda>t. carried (topic_group ps t)) ?ts)) = sum_stats (carried ps)"
  proof (rule sum_stats_mset)
    have "concat (map (\<lambda>t. carried (topic_group ps t)) ts) = carried (concat (map (topic_group ps) ts))" for ts
      by (induction ts) (simp_all add: carried_def)
    then show "mset (concat (map (\<lambda>t. carried (topic_group ps t)) ?ts)) = mset (carried ps)"
      using mset_concat_groups [of e_topic ps] by (simp add: carried_def topic_group_def [abs_def] mset_filter)
  qed
  then show ?thesis
    using build_topics_ok [of ?ts topicID ps "snd (group_by e_topic ps)", OF _ _ g] assms distinct_keys_iff [of ps]
    by (simp add: buildMultiTopicProduceRequestFromEncoded_def group_by_eq(1) case_prod_unfold NewProduceRequest_def
        buildable_def sum_stats_def)
qed

lemma build_err:
  assumes "\<not> buildable topicID ps"
  shows "\<exists>err. buildMultiTopicProduceRequestFromEncoded version topicID ps = Inl err"
proof -
  have g: "get_or [] (snd (group_by e_topic ps)) t = topic_group ps t" for t
    by (simp add: topic_group_def)
  have "\<exists>t\<in>set (first_seen (map e_topic ps)). topicID t = None \<or> \<not> distinct (map e_partition (topic_group ps t))"
    using assms distinct_keys_iff [of ps] by (auto simp: buildable_def)
  from build_topics_err [OF g this] show ?thesis
    by (simp add: buildMultiTopicProduceRequestFromEncoded_def group_by_eq(1) case_prod_unfold)
qed

section \<open>Properties\<close>

definition request_entries :: "ProduceRequest \<Rightarrow> (topic \<times> uuid \<times> partition \<times> bytes) list" where
  "request_entries req =
     concat (map (\<lambda>t. map (\<lambda>p. (qt_Topic t, qt_TopicID t, qp_Partition p, qp_Records p)) (qt_Partitions t))
       (q_Topics req))"

lemma request_entries_topics:
  "request_entries (req\<lparr>q_Topics := map (req_topic topicID ps) ts\<rparr>) =
     concat (map (\<lambda>t. map (\<lambda>p. (e_topic p, the (topicID (e_topic p)), e_partition p, e_encoded p))
       (carried (topic_group ps t))) ts)"
  unfolding request_entries_def
  by (induction ts) (auto simp: req_topic_def req_partition_def carried_def topic_group_def)

definition example_encoded :: "topic \<Rightarrow> partition \<Rightarrow> bytes \<Rightarrow> encodedTopicPartitionRecords" where
  "example_encoded t p b =
     \<lparr>e_topic = t, e_partition = p, e_encoded = b,
      e_stats = \<lparr>s_records = 2, s_batches = 1, s_uncompressedBytes = int (length b), s_compressedBytes = int (length b)\<rparr>\<rparr>"

text \<open>
  C21: Building a produce request succeeds exactly when every topic is known and no (topic,
  partition) is repeated. The request then asks for acknowledgement by all replicas, names each
  topic once in the order of first appearance, and carries every partition with a non-empty batch
  exactly once, under its own topic and that topic's UUID and with its own bytes; the statistics are
  the sums over exactly those batches.
\<close>

theorem produce_request_carries_each_batch_once:
  "((\<exists>req stats. buildMultiTopicProduceRequestFromEncoded version topicID ps = Inr (req, stats)) \<longleftrightarrow>
      (\<forall>p\<in>set ps. topicID (e_topic p) \<noteq> None) \<and> distinct (map (\<lambda>p. (e_topic p, e_partition p)) ps)) \<and>
   (\<forall>req stats. buildMultiTopicProduceRequestFromEncoded version topicID ps = Inr (req, stats) \<longrightarrow>
      q_Version req = version \<and> q_Acks req = - 1 \<and>
      map qt_Topic (q_Topics req) = first_seen (map e_topic ps) \<and>
      mset (request_entries req) =
        mset (map (\<lambda>p. (e_topic p, the (topicID (e_topic p)), e_partition p, e_encoded p))
          (filter (\<lambda>p. e_encoded p \<noteq> []) ps)) \<and>
      stats = sum_stats (filter (\<lambda>p. e_encoded p \<noteq> []) ps))"
proof (cases "buildable topicID ps")
  case True
  let ?f = "\<lambda>p. (e_topic p, the (topicID (e_topic p)), e_partition p, e_encoded p)"
  let ?ts = "first_seen (map e_topic ps)"
  let ?r = "\<lparr>q_Version = version, q_Acks = - 1, q_TimeoutMillis = 15000, q_Topics = map (req_topic topicID ps) ?ts\<rparr>"
  have "concat (map (\<lambda>t. map ?f (carried (topic_group ps t))) ts) = map ?f (carried (concat (map (topic_group ps) ts)))" for ts
    by (induction ts) (simp_all add: carried_def)
  then have "mset (request_entries ?r) = mset (map ?f (carried ps))"
    using request_entries_topics [of topicID ps ?ts ?r] mset_concat_groups [of e_topic ps]
    by (simp add: carried_def topic_group_def [abs_def] mset_filter)
  moreover have "map qt_Topic (q_Topics ?r) = ?ts" by (simp add: req_topic_def o_def)
  ultimately show ?thesis using build_ok [OF True, of version] True
    by (simp add: carried_def [symmetric] buildable_def)
next
  case False
  then show ?thesis using build_err [OF False, of version] by (auto simp: buildable_def)
qed

theorem produce_request_carries_each_batch_once_witness:
  "buildMultiTopicProduceRequestFromEncoded 11 (\<lambda>t. if t = ''a'' then Some 7 else None)
     [example_encoded ''a'' 0 [1], example_encoded ''a'' 1 [2, 3]] =
   Inr (\<lparr>q_Version = 11, q_Acks = - 1, q_TimeoutMillis = 15000, q_Topics =
          [\<lparr>qt_Topic = ''a'', qt_TopicID = 7, qt_Partitions =
             [\<lparr>qp_Partition = 0, qp_Records = [1]\<rparr>, \<lparr>qp_Partition = 1, qp_Records = [2, 3]\<rparr>]\<rparr>]\<rparr>,
        sum_stats [example_encoded ''a'' 0 [1], example_encoded ''a'' 1 [2, 3]]) \<and>
   \<not> (\<exists>req stats. buildMultiTopicProduceRequestFromEncoded 11 (\<lambda>t. if t = ''a'' then Some 7 else None)
     [example_encoded ''b'' 0 [1]] = Inr (req, stats))"
proof
  show "\<not> (\<exists>req stats. buildMultiTopicProduceRequestFromEncoded 11 (\<lambda>t. if t = ''a'' then Some 7 else None)
     [example_encoded ''b'' 0 [1]] = Inr (req, stats))"
    using conjunct1 [OF produce_request_carries_each_batch_once [of 11 "\<lambda>t. if t = ''a'' then Some 7 else None"
        "[example_encoded ''b'' 0 [1]]"]]
    by (simp add: example_encoded_def)
qed code_simp

end
