(* ===== verification/Produce_Result.thy ===== *)
theory Produce_Result
  imports Produce_Request
begin

text \<open>
  Produce outcomes: \<open>produce_result.go\<close>, the response parsers of \<open>produce.go\<close> and
  \<open>recordErrFromResult\<close> of \<open>client.go\<close>.

  A \<open>ProduceResult\<close> is a pair of optional response and optional error; a nil error is \<open>None\<close>. The
  accumulator's mutex makes each of its methods atomic, so a method is a function on its state. What
  the code asks of foreign error values is the parameter \<open>err_env\<close>: franz-go's
  \<open>kgo.IsRetryableBrokerErr\<close>, which inspects operating system and network errors, and the text of
  an error.

  The lemmas show that classified codes are never zero and keep retriability, that the merged
  response has exactly one entry per requested partition, and that a partition reads as acknowledged
  exactly when an attempt that sent it was answered without a visible error.
\<close>

section \<open>Responses\<close>

record ProduceResponseTopicPartition =
  rp_Partition :: partition
  rp_ErrorCode :: int
  rp_BaseOffset :: int
  rp_LogAppendTime :: int
  rp_LogStartOffset :: int

record ProduceResponseTopic =
  rt_Topic :: topic
  rt_TopicID :: uuid
  rt_Partitions :: "ProduceResponseTopicPartition list"

record ProduceResponse =
  resp_Version :: int
  resp_Topics :: "ProduceResponseTopic list"
  resp_ThrottleMillis :: int

abbreviation (input) kerrNoError :: int where "kerrNoError \<equiv> 0"

text \<open>The order in which the nested loops over topics and partitions visit the entries.\<close>

definition entries :: "ProduceResponse \<Rightarrow> (topicPartition \<times> ProduceResponseTopicPartition) list" where
  "entries resp = concat (map (\<lambda>t. map (\<lambda>p. ((rt_Topic t, rp_Partition p), p)) (rt_Partitions t)) (resp_Topics resp))"

definition parseProduceResponse :: "ProduceResponse \<Rightarrow> goerror option" where
  "parseProduceResponse resp =
     (case find (\<lambda>(tp, p). rp_ErrorCode p \<noteq> kerrNoError) (entries resp) of
        None \<Rightarrow> None
      | Some (tp, p) \<Rightarrow> ErrorForCode (rp_ErrorCode p))"

definition partitionErrorsFromResp :: "ProduceResponse option \<Rightarrow> (topicPartition, goerror) gomap" where
  "partitionErrorsFromResp resp =
     (case resp of
        None \<Rightarrow> []
      | Some resp \<Rightarrow>
          foldl (\<lambda>out (tp, p). if rp_ErrorCode p \<noteq> kerrNoError
                               then AList.update tp (the (ErrorForCode (rp_ErrorCode p))) out else out)
            [] (entries resp))"

definition partitionErrorFromResp :: "ProduceResponse option \<Rightarrow> topicPartition \<Rightarrow> goerror option" where
  "partitionErrorFromResp resp tp =
     (case resp of
        None \<Rightarrow> None
      | Some resp \<Rightarrow>
          (case map_of (entries resp) tp of
             None \<Rightarrow> None
           | Some p \<Rightarrow> if rp_ErrorCode p = kerrNoError then None else ErrorForCode (rp_ErrorCode p)))"

section \<open>Produce results\<close>

record ProduceResult =
  pr_resp :: "ProduceResponse option"
  pr_err :: "goerror option"

definition errEmptyProduceResult :: goerror where
  "errEmptyProduceResult = GoError ''empty ProduceResult: both resp and err are nil''"

definition errIncompleteProduceResponse :: goerror where
  "errIncompleteProduceResponse = GoError ''produce response omits requested partitions''"

definition result_error :: "ProduceResult \<Rightarrow> goerror option" where
  "result_error r =
     (case pr_err r of
        Some e \<Rightarrow> Some e
      | None \<Rightarrow> (case pr_resp r of None \<Rightarrow> Some errEmptyProduceResult | Some resp \<Rightarrow> parseProduceResponse resp))"

definition succeeded :: "ProduceResult \<Rightarrow> bool" where
  "succeeded r \<longleftrightarrow> result_error r = None"

text \<open>The error surfaced for one partition; a retriable Kafka error is wrapped.\<close>

definition recordErrFromResult :: "ProduceResult \<Rightarrow> topicPartition \<Rightarrow> goerror option" where
  "recordErrFromResult res tp =
     (if pr_resp res = None then pr_err res
      else case partitionErrorFromResp (pr_resp res) tp of
             Some (Kerr c) \<Rightarrow> if kerr_Retriable c then Some (Errorf2 ErrRecordTimeout (Kerr c)) else Some (Kerr c)
           | err \<Rightarrow> err)"

record scopedProduceResult =
  sc_raw :: ProduceResult
  sc_own :: "topicPartition set"
  sc_err :: "goerror option"
  sc_allOwned :: bool

definition scope_entry :: "scopedProduceResult \<Rightarrow> topicPartition \<times> ProduceResponseTopicPartition \<Rightarrow> scopedProduceResult" where
  "scope_entry scoped e =
     (let (tp, p) = e
      in if tp \<notin> sc_own scoped then scoped\<lparr>sc_allOwned := False\<rparr>
         else if sc_err scoped = None \<and> rp_ErrorCode p \<noteq> kerrNoError
         then scoped\<lparr>sc_err := ErrorForCode (rp_ErrorCode p)\<rparr>
         else scoped)"

definition scopeProduceResultToPartitions :: "ProduceResult \<Rightarrow> topicPartition set \<Rightarrow> scopedProduceResult" where
  "scopeProduceResultToPartitions res own =
     (let scoped = \<lparr>sc_raw = res, sc_own = own, sc_err = pr_err res, sc_allOwned = (pr_resp res \<noteq> None)\<rparr>
      in case pr_resp res of
           None \<Rightarrow> if sc_err scoped = None then scoped\<lparr>sc_err := Some errEmptyProduceResult\<rparr> else scoped
         | Some resp \<Rightarrow> foldl scope_entry scoped (entries resp))"

definition owns :: "scopedProduceResult \<Rightarrow> topicPartition \<Rightarrow> bool" where
  "owns r tp \<longleftrightarrow> (if sc_allOwned r then True else tp \<in> sc_own r)"

section \<open>Classification of errors\<close>

record err_env =
  IsRetryableBrokerErr :: "goerror \<Rightarrow> bool"
  Error_text :: "goerror \<Rightarrow> string"

record produceResultErr =
  pe_err :: "goerror option"
  pe_reason :: string
  pe_retriable :: bool
  pe_code :: int

fun as_wireError :: "goerror \<Rightarrow> goerror option" where
  "as_wireError (WireError e) = Some (WireError e)"
| "as_wireError _ = None"

fun as_OpError :: "goerror \<Rightarrow> (string \<times> bool) option" where
  "as_OpError (OpError op tmo e) = Some (op, tmo)"
| "as_OpError _ = None"

fun as_TLS :: "goerror \<Rightarrow> unit option" where
  "as_TLS (TLSError k) = Some ()"
| "as_TLS (TLSWrapError k e) = Some ()"
| "as_TLS _ = None"

text \<open>\<open>err.Error()\<close>: a \<open>wireError\<close> delegates to the error it wraps.\<close>

fun error_Error :: "err_env \<Rightarrow> goerror \<Rightarrow> string" where
  "error_Error env (WireError e) = error_Error env e"
| "error_Error env e = Error_text env e"

lemma errors_Unwrap_size: "errors_Unwrap err = Some e \<Longrightarrow> size e < size err"
  by (cases err) auto

function isUnknownBrokerErr :: "err_env \<Rightarrow> goerror \<Rightarrow> bool" where
  "isUnknownBrokerErr env err =
     (if error_Error env err = ''unknown broker'' then True
      else case errors_Unwrap err of None \<Rightarrow> False | Some e \<Rightarrow> isUnknownBrokerErr env e)"
  by pat_completeness auto
termination
  by (relation "measure (\<lambda>(env, err). size err)") (auto dest: errors_Unwrap_size)

declare isUnknownBrokerErr.simps [simp del]

definition isNonTimeoutDialErr :: "goerror \<Rightarrow> bool" where
  "isNonTimeoutDialErr err = (case errors_As as_OpError err of Some (op, tmo) \<Rightarrow> op = ''dial'' \<and> \<not> tmo | None \<Rightarrow> False)"

definition isTLSErr :: "goerror \<Rightarrow> bool" where
  "isTLSErr err \<longleftrightarrow> errors_As as_TLS err \<noteq> None"

definition getProduceResultErr :: "err_env \<Rightarrow> goerror \<Rightarrow> produceResultErr" where
  "getProduceResultErr env err =
     (if errors_Is err Canceled
      then \<lparr>pe_err = Some err, pe_reason = ''canceled'', pe_retriable = False, pe_code = RequestTimedOut\<rparr>
      else if errors_Is err DeadlineExceeded
      then \<lparr>pe_err = Some err, pe_reason = ''timeout'', pe_retriable = True, pe_code = RequestTimedOut\<rparr>
      else if kerr_IsRetriable err
      then \<lparr>pe_err = Some err, pe_reason = ''kafka_retriable_error'', pe_retriable = True,
            pe_code = (case errors_As as_kerr err of Some c \<Rightarrow> c | None \<Rightarrow> UnknownServerError)\<rparr>
      else if IsRetryableBrokerErr env err
      then \<lparr>pe_err = Some err, pe_reason = ''transport'', pe_retriable = True, pe_code = UnknownServerError\<rparr>
      else case errors_As as_kerr err of
        Some c \<Rightarrow> \<lparr>pe_err = Some err, pe_reason = ''kafka_non_retriable_error'', pe_retriable = False, pe_code = c\<rparr>
      | None \<Rightarrow>
          if errors_As as_wireError err \<noteq> None
          then (let (reason, code, retriable) =
                  (if errors_Is err ErrClientClosed then (''client_closed'', UnknownServerError, False)
                   else if isTLSErr err then (''tls'', UnknownServerError, False)
                   else if isUnknownBrokerErr env err then (''unknown_broker'', BrokerNotAvailable, True)
                   else if isNonTimeoutDialErr err then (''dial'', NetworkException, True)
                   else (''wire_other'', NetworkException, True))
                in \<lparr>pe_err = Some err, pe_reason = reason, pe_retriable = retriable, pe_code = code\<rparr>)
          else \<lparr>pe_err = Some err, pe_reason = ''unknown'', pe_retriable = False, pe_code = UnknownServerError\<rparr>)"

section \<open>The accumulator\<close>

record produceResultAccumulator =
  pending :: "(topicPartition, encodedTopicPartitionRecords) gomap"
  resolved :: "(topicPartition, ProduceResponseTopicPartition) gomap"
  failed :: "(topicPartition, ProduceResponseTopicPartition) gomap"
  lastErr :: produceResultErr
  aborted :: bool
  responseVersion :: int
  responseThrottleMillis :: int
  responseTopicIDs :: "(topic, uuid) gomap"

definition zero_produceResultErr :: produceResultErr where
  "zero_produceResultErr = \<lparr>pe_err = None, pe_reason = [], pe_retriable = False, pe_code = 0\<rparr>"

definition empty_accumulator :: produceResultAccumulator where
  "empty_accumulator =
     \<lparr>pending = [], resolved = [], failed = [], lastErr = zero_produceResultErr, aborted = False,
      responseVersion = 0, responseThrottleMillis = 0, responseTopicIDs = []\<rparr>"

fun seed_pending ::
  "encodedTopicPartitionRecords list \<Rightarrow> produceResultAccumulator \<Rightarrow> goerror + produceResultAccumulator" where
  "seed_pending [] a = Inr a"
| "seed_pending (p # ps) a =
     (if map_of (pending a) (e_key p) \<noteq> None
      then Inl (GoErrorf ''duplicate topic-partition in input: topic=%q partition=%d'' [FStr (e_topic p), FInt (e_partition p)])
      else seed_pending ps (a\<lparr>pending := AList.update (e_key p) p (pending a)\<rparr>))"

definition newProduceResultAccumulator :: "encodedTopicPartitionRecords list \<Rightarrow> goerror + produceResultAccumulator" where
  "newProduceResultAccumulator partitions = seed_pending partitions empty_accumulator"

definition remaining :: "produceResultAccumulator \<Rightarrow> encodedTopicPartitionRecords list" where
  "remaining a = map snd (pending a)"

definition record_failed ::
  "scopedProduceResult \<Rightarrow> produceResultAccumulator \<Rightarrow> topicPartition \<times> ProduceResponseTopicPartition \<Rightarrow> produceResultAccumulator" where
  "record_failed res a e =
     (let (tp, entry) = e
      in if rp_ErrorCode entry = kerrNoError then a
         else if \<not> owns res tp then a
         else if map_of (pending a) tp = None then a
         else a\<lparr>failed := AList.update tp entry (failed a)\<rparr>)"

definition resolve_entry ::
  "scopedProduceResult \<Rightarrow> topic \<Rightarrow> produceResultAccumulator \<times> bool \<Rightarrow> ProduceResponseTopicPartition \<Rightarrow>
   produceResultAccumulator \<times> bool" where
  "resolve_entry res topic st entry =
     (let (a, ownedTopic) = st; tp = (topic, rp_Partition entry)
      in if \<not> owns res tp then (a, ownedTopic)
         else (a\<lparr>resolved := AList.update tp entry (resolved a), pending := AList.delete tp (pending a),
                 failed := AList.delete tp (failed a)\<rparr>, True))"

definition resolve_topic ::
  "scopedProduceResult \<Rightarrow> produceResultAccumulator \<Rightarrow> ProduceResponseTopic \<Rightarrow> produceResultAccumulator" where
  "resolve_topic res a t =
     (let (a, ownedTopic) = foldl (resolve_entry res (rt_Topic t)) (a, False) (rt_Partitions t)
      in if ownedTopic \<and> rt_TopicID t \<noteq> 0 \<and> map_of (responseTopicIDs a) (rt_Topic t) = None
         then a\<lparr>responseTopicIDs := AList.update (rt_Topic t) (rt_TopicID t) (responseTopicIDs a)\<rparr>
         else a)"

definition accumulate :: "err_env \<Rightarrow> produceResultAccumulator \<Rightarrow> scopedProduceResult \<Rightarrow> produceResultAccumulator" where
  "accumulate env a res =
     (case sc_err res of
        Some resErr \<Rightarrow>
          let last = getProduceResultErr env resErr;
              a = a\<lparr>lastErr := last, aborted := (aborted a \<or> \<not> pe_retriable last)\<rparr>
          in (case pr_resp (sc_raw res) of
                None \<Rightarrow> a
              | Some resp \<Rightarrow> foldl (record_failed res) a (entries resp))
      | None \<Rightarrow>
          (case pr_resp (sc_raw res) of
             None \<Rightarrow> a
           | Some resp \<Rightarrow>
               let a = a\<lparr>responseVersion := (if responseVersion a = 0 then resp_Version resp else responseVersion a),
                         responseThrottleMillis := max (responseThrottleMillis a) (resp_ThrottleMillis resp)\<rparr>
               in foldl (resolve_topic res) a (resp_Topics resp)))"

definition terminalErr :: "produceResultAccumulator \<Rightarrow> bool \<times> goerror option" where
  "terminalErr a = (if \<not> aborted a then (False, None) else (True, pe_err (lastErr a)))"

definition acc_done :: "produceResultAccumulator \<Rightarrow> bool" where
  "acc_done a \<longleftrightarrow> pending a = [] \<or> aborted a"

text \<open>\<open>responseLocked\<close>: the topics built so far and the index of each by name.\<close>

definition getOrAddTopic ::
  "produceResultAccumulator \<Rightarrow> ProduceResponseTopic list \<times> (topic, nat) gomap \<Rightarrow> topic \<Rightarrow>
   (ProduceResponseTopic list \<times> (topic, nat) gomap) \<times> nat" where
  "getOrAddTopic a m topic =
     (let (topics, topicIdx) = m
      in case map_of topicIdx topic of
           Some idx \<Rightarrow> (m, idx)
         | None \<Rightarrow>
             let idx = length topics;
                 t = \<lparr>rt_Topic = topic, rt_TopicID = get_or 0 (responseTopicIDs a) topic, rt_Partitions = []\<rparr>
             in ((topics @ [t], AList.update topic idx topicIdx), idx))"

definition append_entry ::
  "produceResultAccumulator \<Rightarrow> ProduceResponseTopic list \<times> (topic, nat) gomap \<Rightarrow>
   topicPartition \<times> ProduceResponseTopicPartition \<Rightarrow> ProduceResponseTopic list \<times> (topic, nat) gomap" where
  "append_entry a m e =
     (let (tp, entry) = e; ((topics, topicIdx), idx) = getOrAddTopic a m (fst tp)
      in (topics[idx := (topics ! idx)\<lparr>rt_Partitions := rt_Partitions (topics ! idx) @ [entry]\<rparr>], topicIdx))"

definition pending_entry ::
  "produceResultAccumulator \<Rightarrow> topicPartition \<Rightarrow> ProduceResponseTopicPartition" where
  "pending_entry a tp =
     (case map_of (failed a) tp of
        Some entry \<Rightarrow> entry
      | None \<Rightarrow>
          \<lparr>rp_Partition = snd tp,
           rp_ErrorCode = (if pe_code (lastErr a) \<noteq> 0 then pe_code (lastErr a) else RequestTimedOut),
           rp_BaseOffset = 0, rp_LogAppendTime = 0, rp_LogStartOffset = 0\<rparr>)"

definition responseLocked :: "produceResultAccumulator \<Rightarrow> ProduceResponse" where
  "responseLocked a =
     (let m = foldl (append_entry a) ([], []) (resolved a);
          m = foldl (\<lambda>m (tp, p). append_entry a m (tp, pending_entry a tp)) m (pending a)
      in \<lparr>resp_Version = responseVersion a, resp_Topics = fst m, resp_ThrottleMillis = responseThrottleMillis a\<rparr>)"

definition result :: "produceResultAccumulator \<Rightarrow> ProduceResult" where
  "result a =
     (let resp = responseLocked a
      in if pending a = [] then \<lparr>pr_resp = Some resp, pr_err = None\<rparr>
         else case pe_err (lastErr a) of
                Some e \<Rightarrow> \<lparr>pr_resp = Some resp, pr_err = Some (Errorf2 ErrRecordTimeout e)\<rparr>
              | None \<Rightarrow> \<lparr>pr_resp = Some resp, pr_err = Some ErrRecordTimeout\<rparr>)"

definition selectProduceResult :: "ProduceResult \<Rightarrow> ProduceResult \<Rightarrow> ProduceResult" where
  "selectProduceResult primary fallback =
     (if succeeded primary then primary
      else case pr_err fallback of
        None \<Rightarrow> fallback
      | Some fe \<Rightarrow>
          (case pr_err primary of
             Some pe \<Rightarrow> \<lparr>pr_resp = pr_resp fallback, pr_err = Some (Errorf2 pe fe)\<rparr>
           | None \<Rightarrow> if pr_resp fallback \<noteq> None then fallback else primary))"

definition firstMissingProducePartition ::
  "ProduceResponse option \<Rightarrow> encodedTopicPartitionRecords list \<Rightarrow> topicPartition option" where
  "firstMissingProducePartition resp requested =
     (let seen = (case resp of None \<Rightarrow> {} | Some resp \<Rightarrow> fst ` set (entries resp))
      in find (\<lambda>tp. tp \<notin> seen) (map e_key requested))"


section \<open>Scoping\<close>

lemma scope_fold:
  "sc_raw (foldl scope_entry s es) = sc_raw s" "sc_own (foldl scope_entry s es) = sc_own s"
  "sc_allOwned (foldl scope_entry s es) \<longleftrightarrow> sc_allOwned s \<and> (\<forall>(tp, p)\<in>set es. tp \<in> sc_own s)"
  "sc_err (foldl scope_entry s es) = None \<longleftrightarrow>
     sc_err s = None \<and> (\<forall>(tp, p)\<in>set es. tp \<in> sc_own s \<longrightarrow> rp_ErrorCode p = 0)"
  by (induction es arbitrary: s) (auto simp: scope_entry_def Let_def split: prod.splits)

lemma scope_simps [simp]:
  "sc_raw (scopeProduceResultToPartitions res own) = res"
  "sc_own (scopeProduceResultToPartitions res own) = own"
  by (simp_all add: scopeProduceResultToPartitions_def Let_def scope_fold split: option.split)

definition visible_ok :: "ProduceResult \<Rightarrow> topicPartition set \<Rightarrow> bool" where
  "visible_ok res own \<longleftrightarrow> pr_err res = None \<and>
     (case pr_resp res of None \<Rightarrow> False
      | Some resp \<Rightarrow> \<forall>(tp, p)\<in>set (entries resp). tp \<in> own \<longrightarrow> rp_ErrorCode p = 0)"

lemma scope_err_None: "sc_err (scopeProduceResultToPartitions res own) = None \<longleftrightarrow> visible_ok res own"
  by (auto simp: scopeProduceResultToPartitions_def Let_def scope_fold visible_ok_def split: option.split)

lemma owns_scope:
  assumes "pr_resp res = Some resp" "(tp, p) \<in> set (entries resp)"
  shows "owns (scopeProduceResultToPartitions res own) tp \<longleftrightarrow> tp \<in> own"
  using assms by (auto simp: owns_def scopeProduceResultToPartitions_def Let_def scope_fold)

section \<open>Invariant of the accumulator\<close>

definition acc_keys :: "topicPartition set \<Rightarrow> produceResultAccumulator \<Rightarrow> bool" where
  "acc_keys ks a \<longleftrightarrow>
     fst ` set (pending a) \<union> fst ` set (resolved a) = ks \<and>
     fst ` set (pending a) \<inter> fst ` set (resolved a) = {} \<and>
     fst ` set (failed a) \<subseteq> fst ` set (pending a)"

definition acc_wf :: "produceResultAccumulator \<Rightarrow> bool" where
  "acc_wf a \<longleftrightarrow>
     distinct (map fst (pending a)) \<and> distinct (map fst (resolved a)) \<and> distinct (map fst (failed a)) \<and>
     gomap_all (\<lambda>tp p. e_key p = tp) (pending a) \<and>
     gomap_all (\<lambda>tp e. rp_ErrorCode e = 0 \<and> rp_Partition e = snd tp) (resolved a) \<and>
     gomap_all (\<lambda>tp e. rp_ErrorCode e \<noteq> 0 \<and> rp_Partition e = snd tp) (failed a)"

definition acc_inv :: "topicPartition set \<Rightarrow> produceResultAccumulator \<Rightarrow> bool" where
  "acc_inv ks a \<longleftrightarrow> acc_keys ks a \<and> acc_wf a"

lemma acc_inv_update [simp]:
  "acc_inv ks (a\<lparr>lastErr := l, aborted := b\<rparr>) = acc_inv ks a"
  "acc_inv ks (a\<lparr>responseVersion := v, responseThrottleMillis := th\<rparr>) = acc_inv ks a"
  "acc_inv ks (a\<lparr>responseTopicIDs := i\<rparr>) = acc_inv ks a"
  by (simp_all add: acc_inv_def acc_keys_def acc_wf_def)

lemma acc_inv_new:
  "seed_pending ps a = Inr b \<Longrightarrow> acc_inv ks a \<Longrightarrow> resolved a = [] \<Longrightarrow>
   acc_inv (ks \<union> e_key ` set ps) b \<and> resolved b = []"
proof (induction ps arbitrary: a ks)
  case (Cons p ps)
  let ?a = "a\<lparr>pending := AList.update (e_key p) p (pending a)\<rparr>"
  have s: "seed_pending ps ?a = Inr b" using Cons.prems(1) by (simp split: if_splits)
  have "acc_keys (insert (e_key p) ks) ?a"
    using Cons.prems(2,3) unfolding acc_inv_def acc_keys_def by simp blast
  moreover have "acc_wf ?a" using Cons.prems(2) by (simp add: acc_inv_def acc_wf_def)
  ultimately have "acc_inv (insert (e_key p) ks) ?a" by (simp add: acc_inv_def)
  from Cons.IH [OF s this] Cons.prems(3) show ?case by simp
qed simp

lemma seed_pending_iff:
  "(\<exists>b. seed_pending ps a = Inr b) \<longleftrightarrow> distinct (map e_key ps) \<and> e_key ` set ps \<inter> fst ` set (pending a) = {}"
proof (induction ps arbitrary: a)
  case (Cons p ps)
  show ?case by (auto simp: Cons.IH map_of_eq_None_iff)
qed simp

lemma acc_inv_resolve_entry:
  assumes "acc_inv ks a" and "owns res (t, rp_Partition e) \<Longrightarrow> (t, rp_Partition e) \<in> ks \<and> rp_ErrorCode e = 0"
  shows "acc_inv ks (fst (resolve_entry res t (a, f) e))"
proof (cases "owns res (t, rp_Partition e)")
  case True
  let ?k = "(t, rp_Partition e)"
  let ?a = "fst (resolve_entry res t (a, f) e)"
  have k: "?k \<in> ks" "rp_ErrorCode e = 0" using assms(2) [OF True] by simp_all
  have a: "?a = a\<lparr>resolved := AList.update ?k e (resolved a), pending := AList.delete ?k (pending a),
      failed := AList.delete ?k (failed a)\<rparr>" using True by (simp add: resolve_entry_def Let_def)
  have "acc_keys ks ?a"
    using assms(1) k(1) unfolding a acc_inv_def acc_keys_def by simp blast
  moreover have "acc_wf ?a"
    using assms(1) k(2) unfolding a acc_inv_def acc_wf_def by simp
  ultimately show ?thesis by (simp add: acc_inv_def)
qed (use assms(1) in \<open>simp add: resolve_entry_def\<close>)

lemma acc_inv_resolve_topic:
  assumes "acc_inv ks a"
    and "\<And>e. e \<in> set (rt_Partitions t) \<Longrightarrow> owns res (rt_Topic t, rp_Partition e) \<Longrightarrow>
      (rt_Topic t, rp_Partition e) \<in> ks \<and> rp_ErrorCode e = 0"
  shows "acc_inv ks (resolve_topic res a t)"
proof -
  have "acc_inv ks (fst (foldl (resolve_entry res (rt_Topic t)) (a, False) (rt_Partitions t)))"
  proof (rule foldl_invariant [where P = "\<lambda>st. acc_inv ks (fst st)"])
    fix st :: "produceResultAccumulator \<times> bool" and e
    assume "e \<in> set (rt_Partitions t)" "acc_inv ks (fst st)"
    then show "acc_inv ks (fst (resolve_entry res (rt_Topic t) st e))"
      using acc_inv_resolve_entry [of ks "fst st" res "rt_Topic t" e "snd st"] assms(2) by simp
  qed (simp add: assms(1))
  then show ?thesis by (auto simp: resolve_topic_def Let_def split: prod.split)
qed

lemma acc_inv_record_failed:
  assumes "acc_inv ks a" and "rp_Partition (snd e) = snd (fst e)"
  shows "acc_inv ks (record_failed res a e)"
proof -
  obtain tp x where e: "e = (tp, x)" by (cases e)
  show ?thesis
  proof (cases "rp_ErrorCode x \<noteq> 0 \<and> owns res tp \<and> map_of (pending a) tp \<noteq> None")
    case True
    then have "tp \<in> fst ` set (pending a)" by (simp add: map_of_eq_None_iff)
    then have "acc_inv ks (a\<lparr>failed := AList.update tp x (failed a)\<rparr>)"
      using assms True unfolding acc_inv_def acc_keys_def acc_wf_def by (simp add: e)
    then show ?thesis using True by (auto simp: record_failed_def e)
  next
    case False
    then show ?thesis using assms(1) by (auto simp: record_failed_def e)
  qed
qed

lemma entries_partition: "(tp, p) \<in> set (entries resp) \<Longrightarrow> rp_Partition p = snd tp"
  by (auto simp: entries_def)

lemma entries_topic:
  "t \<in> set (resp_Topics resp) \<Longrightarrow> e \<in> set (rt_Partitions t) \<Longrightarrow> ((rt_Topic t, rp_Partition e), e) \<in> set (entries resp)"
  by (auto simp: entries_def)

lemma acc_inv_accumulate:
  assumes "acc_inv ks a" and "own \<subseteq> ks"
  shows "acc_inv ks (accumulate env a (scopeProduceResultToPartitions res own))"
proof (cases "visible_ok res own")
  case True
  then obtain resp where resp: "pr_resp res = Some resp" by (auto simp: visible_ok_def split: option.splits)
  let ?s = "scopeProduceResultToPartitions res own"
  have k: "(rt_Topic t, rp_Partition e) \<in> ks \<and> rp_ErrorCode e = 0"
    if "t \<in> set (resp_Topics resp)" "e \<in> set (rt_Partitions t)" "owns ?s (rt_Topic t, rp_Partition e)" for t e
    using that entries_topic [OF that(1,2)] owns_scope [OF resp] True resp assms(2) by (auto simp: visible_ok_def)
  have "acc_inv ks (foldl (resolve_topic ?s) b (resp_Topics resp))" if "acc_inv ks b" for b
  proof (rule foldl_invariant)
    fix c t assume "t \<in> set (resp_Topics resp)" "acc_inv ks c"
    then show "acc_inv ks (resolve_topic ?s c t)" using k by (intro acc_inv_resolve_topic)
  qed (rule that)
  then show ?thesis using assms(1) True scope_err_None [of res own] by (simp add: accumulate_def resp Let_def)
next
  case False
  then obtain e where e: "sc_err (scopeProduceResultToPartitions res own) = Some e"
    using scope_err_None [of res own] by auto
  have "acc_inv ks (foldl (record_failed s) b (entries resp))" if "acc_inv ks b" for b s resp
  proof (rule foldl_invariant)
    fix c x assume "x \<in> set (entries resp)" "acc_inv ks c"
    then show "acc_inv ks (record_failed s c x)"
      using entries_partition [of "fst x" "snd x" resp] by (intro acc_inv_record_failed) simp_all
  qed (rule that)
  then show ?thesis using assms(1) e by (simp add: accumulate_def Let_def split: option.split)
qed


section \<open>Which partitions are resolved\<close>

definition acked :: "ProduceResult \<Rightarrow> topicPartition set \<Rightarrow> topicPartition set" where
  "acked res own =
     (if visible_ok res own
      then own \<inter> (case pr_resp res of None \<Rightarrow> {} | Some resp \<Rightarrow> fst ` set (entries resp)) else {})"

lemma resolved_resolve_entries:
  "fst ` set (resolved (fst (foldl (resolve_entry res t) st es))) =
     fst ` set (resolved (fst st)) \<union> {(t, rp_Partition e) | e. e \<in> set es \<and> owns res (t, rp_Partition e)}"
proof (induction es arbitrary: st)
  case (Cons e es)
  have "fst ` set (resolved (fst (resolve_entry res t st e))) =
      fst ` set (resolved (fst st)) \<union> (if owns res (t, rp_Partition e) then {(t, rp_Partition e)} else {})"
    by (simp add: resolve_entry_def Let_def split: prod.split)
  then show ?case unfolding foldl_Cons Cons.IH by auto
qed simp

lemma resolved_resolve_topic:
  "fst ` set (resolved (resolve_topic res a t)) =
     fst ` set (resolved a) \<union> {(rt_Topic t, rp_Partition e) | e. e \<in> set (rt_Partitions t) \<and> owns res (rt_Topic t, rp_Partition e)}"
proof -
  have "resolved (resolve_topic res a t) = resolved (fst (foldl (resolve_entry res (rt_Topic t)) (a, False) (rt_Partitions t)))"
    by (auto simp: resolve_topic_def Let_def split: prod.split)
  then show ?thesis by (simp only: resolved_resolve_entries fst_conv)
qed

lemma resolved_resolve_topics:
  "fst ` set (resolved (foldl (resolve_topic res) a ts)) =
     fst ` set (resolved a) \<union> {(rt_Topic t, rp_Partition e) | t e. t \<in> set ts \<and> e \<in> set (rt_Partitions t) \<and>
       owns res (rt_Topic t, rp_Partition e)}"
proof (induction ts arbitrary: a)
  case (Cons t ts)
  show ?case unfolding foldl_Cons Cons.IH resolved_resolve_topic by auto
qed simp

lemma resolved_record_failed: "resolved (foldl (record_failed res) a es) = resolved a"
  by (rule foldl_invariant [where P = "\<lambda>b. resolved b = resolved a"])
    (simp_all add: record_failed_def Let_def split: prod.split)

lemma entries_keys:
  "fst ` set (entries resp) = {(rt_Topic t, rp_Partition e) | t e. t \<in> set (resp_Topics resp) \<and> e \<in> set (rt_Partitions t)}"
  by (auto simp: entries_def image_iff) blast+

lemma resolved_accumulate:
  "fst ` set (resolved (accumulate env a (scopeProduceResultToPartitions res own))) =
     fst ` set (resolved a) \<union> acked res own"
proof (cases "visible_ok res own")
  case True
  then obtain resp where resp: "pr_resp res = Some resp" by (auto simp: visible_ok_def split: option.splits)
  let ?s = "scopeProduceResultToPartitions res own"
  have "owns ?s (rt_Topic t, rp_Partition e) \<longleftrightarrow> (rt_Topic t, rp_Partition e) \<in> own"
    if "t \<in> set (resp_Topics resp)" "e \<in> set (rt_Partitions t)" for t e
    by (rule owns_scope [OF resp entries_topic [OF that]])
  then have "{(rt_Topic t, rp_Partition e) | t e. t \<in> set (resp_Topics resp) \<and> e \<in> set (rt_Partitions t) \<and>
      owns ?s (rt_Topic t, rp_Partition e)} = own \<inter> fst ` set (entries resp)"
    unfolding entries_keys by blast
  then show ?thesis using True scope_err_None [of res own]
    by (simp add: accumulate_def resp Let_def resolved_resolve_topics acked_def)
next
  case False
  then obtain e where e: "sc_err (scopeProduceResultToPartitions res own) = Some e"
    using scope_err_None [of res own] by auto
  then show ?thesis using False
    by (simp add: accumulate_def Let_def resolved_record_failed acked_def split: option.split)
qed

section \<open>The merged response\<close>

definition topic_entries :: "ProduceResponseTopic list \<Rightarrow> (topicPartition \<times> ProduceResponseTopicPartition) list" where
  "topic_entries ts = concat (map (\<lambda>t. map (\<lambda>p. ((rt_Topic t, rp_Partition p), p)) (rt_Partitions t)) ts)"

definition topics_inv :: "ProduceResponseTopic list \<times> (topic, nat) gomap \<Rightarrow> bool" where
  "topics_inv m \<longleftrightarrow> (\<forall>t i. map_of (snd m) t = Some i \<longleftrightarrow> i < length (fst m) \<and> rt_Topic (fst m ! i) = t)"

lemma getOrAddTopic_inv:
  assumes "topics_inv m"
  shows "topics_inv (fst (getOrAddTopic a m t))" and "snd (getOrAddTopic a m t) < length (fst (fst (getOrAddTopic a m t)))"
    and "rt_Topic (fst (fst (getOrAddTopic a m t)) ! snd (getOrAddTopic a m t)) = t"
    and "topic_entries (fst (fst (getOrAddTopic a m t))) = topic_entries (fst m)"
proof -
  obtain ts ix where m: "m = (ts, ix)" by (cases m)
  consider i where "map_of ix t = Some i" "i < length ts" "rt_Topic (ts ! i) = t"
    | "map_of ix t = None" "\<forall>i < length ts. rt_Topic (ts ! i) \<noteq> t"
    using assms unfolding topics_inv_def m fst_conv snd_conv by (metis option.exhaust option.simps(3))
  then have "topics_inv (fst (getOrAddTopic a m t)) \<and>
      snd (getOrAddTopic a m t) < length (fst (fst (getOrAddTopic a m t))) \<and>
      rt_Topic (fst (fst (getOrAddTopic a m t)) ! snd (getOrAddTopic a m t)) = t \<and>
      topic_entries (fst (fst (getOrAddTopic a m t))) = topic_entries (fst m)"
  proof cases
    case 1
    then show ?thesis using assms by (simp add: getOrAddTopic_def m)
  next
    case 2
    then show ?thesis using assms
      by (auto simp: getOrAddTopic_def m Let_def topics_inv_def nth_append topic_entries_def less_Suc_eq)
  qed
  then show "topics_inv (fst (getOrAddTopic a m t))" "snd (getOrAddTopic a m t) < length (fst (fst (getOrAddTopic a m t)))"
    "rt_Topic (fst (fst (getOrAddTopic a m t)) ! snd (getOrAddTopic a m t)) = t"
    "topic_entries (fst (fst (getOrAddTopic a m t))) = topic_entries (fst m)" by simp_all
qed

lemma mset_topic_entries_update:
  assumes "i < length ts"
  shows "mset (topic_entries (ts[i := (ts ! i)\<lparr>rt_Partitions := rt_Partitions (ts ! i) @ [e]\<rparr>])) =
    add_mset ((rt_Topic (ts ! i), rp_Partition e), e) (mset (topic_entries ts))"
proof -
  have "mset (topic_entries ts) = mset (topic_entries (take i ts @ ts ! i # drop (Suc i) ts))"
    using id_take_nth_drop [OF assms] by simp
  then show ?thesis unfolding upd_conv_take_nth_drop [OF assms] by (simp add: topic_entries_def)
qed

lemma append_entry_inv:
  assumes "topics_inv m" and "rp_Partition e = snd tp"
  shows "topics_inv (append_entry a m (tp, e))"
    and "mset (topic_entries (fst (append_entry a m (tp, e)))) = add_mset (tp, e) (mset (topic_entries (fst m)))"
proof -
  obtain ts ix i where g: "getOrAddTopic a m (fst tp) = ((ts, ix), i)" by (metis prod.exhaust)
  note gi = getOrAddTopic_inv [OF assms(1), of a "fst tp", unfolded g fst_conv snd_conv]
  have "append_entry a m (tp, e) = (ts[i := (ts ! i)\<lparr>rt_Partitions := rt_Partitions (ts ! i) @ [e]\<rparr>], ix)"
    by (simp add: append_entry_def g)
  moreover have "rt_Topic (ts[i := (ts ! i)\<lparr>rt_Partitions := rt_Partitions (ts ! i) @ [e]\<rparr>] ! j) = rt_Topic (ts ! j)"
    if "j < length ts" for j using gi(2) that by (cases "j = i") simp_all
  then have "topics_inv (ts[i := (ts ! i)\<lparr>rt_Partitions := rt_Partitions (ts ! i) @ [e]\<rparr>], ix)"
    using gi(1) by (auto simp: topics_inv_def)
  moreover have "mset (topic_entries (ts[i := (ts ! i)\<lparr>rt_Partitions := rt_Partitions (ts ! i) @ [e]\<rparr>])) =
      add_mset (tp, e) (mset (topic_entries (fst m)))"
    using mset_topic_entries_update [OF gi(2), of e] gi(3,4) assms(2) by simp
  ultimately show "topics_inv (append_entry a m (tp, e))"
    "mset (topic_entries (fst (append_entry a m (tp, e)))) = add_mset (tp, e) (mset (topic_entries (fst m)))"
    by simp_all
qed

lemma fold_append_entry:
  assumes "topics_inv m" and "\<forall>(tp, e)\<in>set es. rp_Partition e = snd tp"
  shows "topics_inv (foldl (append_entry a) m es) \<and>
    mset (topic_entries (fst (foldl (append_entry a) m es))) = mset (topic_entries (fst m)) + mset es"
  using assms
proof (induction es arbitrary: m)
  case (Cons x es)
  obtain tp e where x: "x = (tp, e)" by (cases x)
  have p: "rp_Partition e = snd tp" using Cons.prems(2) by (simp add: x)
  note i = append_entry_inv [OF Cons.prems(1) p, of a]
  from Cons.IH [OF i(1)] Cons.prems(2) i(2) show ?case by (simp add: x)
qed simp

lemma pending_entry_ok:
  assumes "acc_inv ks a"
  shows "rp_Partition (pending_entry a tp) = snd tp \<and> rp_ErrorCode (pending_entry a tp) \<noteq> 0"
proof (cases "map_of (failed a) tp")
  case (Some e)
  then show ?thesis
    using gomap_allD [OF _ map_of_SomeD [OF Some]] assms
    by (fastforce simp: pending_entry_def acc_inv_def acc_wf_def)
qed (simp add: pending_entry_def)

definition merged_entries :: "produceResultAccumulator \<Rightarrow> (topicPartition \<times> ProduceResponseTopicPartition) list" where
  "merged_entries a = resolved a @ map (\<lambda>(tp, p). (tp, pending_entry a tp)) (pending a)"

lemma mset_entries_response:
  assumes "acc_inv ks a"
  shows "mset (entries (responseLocked a)) = mset (merged_entries a)"
proof -
  have f: "foldl (\<lambda>m (tp, p). append_entry a m (tp, pending_entry a tp)) m ps =
      foldl (append_entry a) m (map (\<lambda>(tp, p). (tp, pending_entry a tp)) ps)" for m ps
    by (induction ps arbitrary: m) auto
  have "responseLocked a = \<lparr>resp_Version = responseVersion a,
      resp_Topics = fst (foldl (append_entry a) ([], []) (merged_entries a)),
      resp_ThrottleMillis = responseThrottleMillis a\<rparr>"
    by (simp add: responseLocked_def Let_def f merged_entries_def)
  moreover have "\<forall>(tp, e)\<in>set (merged_entries a). rp_Partition e = snd tp"
    using assms pending_entry_ok [OF assms]
    by (auto simp: merged_entries_def acc_inv_def acc_wf_def gomap_all_def)
  then have "mset (topic_entries (fst (foldl (append_entry a) ([], []) (merged_entries a)))) = mset (merged_entries a)"
    using fold_append_entry [of "([], [])" "merged_entries a" a] by (simp add: topics_inv_def topic_entries_def)
  ultimately show ?thesis by (simp add: entries_def topic_entries_def)
qed

lemma merged_keys: "map fst (merged_entries a) = map fst (resolved a) @ map fst (pending a)"
  by (simp add: merged_entries_def o_def case_prod_unfold)

lemma distinct_merged: "acc_inv ks a \<Longrightarrow> distinct (map fst (merged_entries a))"
  unfolding merged_keys by (auto simp: acc_inv_def acc_keys_def acc_wf_def)

lemma response_lookup:
  assumes "acc_inv ks a"
  shows "map_of (entries (responseLocked a)) tp = map_of (merged_entries a) tp"
  using map_of_mset_eq [OF mset_entries_response [OF assms, symmetric] distinct_merged [OF assms]] by simp


section \<open>Histories of attempts\<close>

text \<open>One attempt: its result and the partitions it sent.\<close>

type_synonym attempt = "ProduceResult \<times> topicPartition set"

definition run_attempts :: "err_env \<Rightarrow> produceResultAccumulator \<Rightarrow> attempt list \<Rightarrow> produceResultAccumulator" where
  "run_attempts env a hs = foldl (\<lambda>a (res, own). accumulate env a (scopeProduceResultToPartitions res own)) a hs"

lemma run_attempts_simps [simp]:
  "run_attempts env a [] = a"
  "run_attempts env a ((res, own) # hs) = run_attempts env (accumulate env a (scopeProduceResultToPartitions res own)) hs"
  by (simp_all add: run_attempts_def)

lemma run_attempts_inv:
  assumes "acc_inv ks a" and "\<forall>(res, own)\<in>set hs. own \<subseteq> ks"
  shows "acc_inv ks (run_attempts env a hs) \<and>
    fst ` set (resolved (run_attempts env a hs)) = fst ` set (resolved a) \<union> (\<Union>(res, own)\<in>set hs. acked res own)"
  using assms
proof (induction hs arbitrary: a)
  case (Cons h hs)
  obtain res own where h: "h = (res, own)" by (cases h)
  have "acc_inv ks (accumulate env a (scopeProduceResultToPartitions res own))"
    using Cons.prems by (intro acc_inv_accumulate) (auto simp: h)
  from Cons.IH [OF this] Cons.prems(2) show ?case by (auto simp: h resolved_accumulate)
qed simp

lemma new_accumulator_inv:
  assumes "newProduceResultAccumulator ps = Inr a"
  shows "acc_inv (e_key ` set ps) a" and "resolved a = []"
proof -
  have "acc_inv {} empty_accumulator"
    by (simp add: acc_inv_def acc_keys_def acc_wf_def empty_accumulator_def)
  from acc_inv_new [OF assms [unfolded newProduceResultAccumulator_def] this]
  show "acc_inv (e_key ` set ps) a" "resolved a = []" by (simp_all add: empty_accumulator_def)
qed

lemma aborted_resolve: "aborted (foldl (resolve_topic res) a ts) = aborted a"
proof -
  have "aborted (fst (foldl (resolve_entry res t) st es)) = aborted (fst st)" for t st es
    by (rule foldl_invariant [where P = "\<lambda>s. aborted (fst s) = aborted (fst st)"])
      (auto simp: resolve_entry_def Let_def split: prod.split)
  from this [of _ "(_, False)"] have "aborted (resolve_topic res b t) = aborted b" for b t
    by (auto simp: resolve_topic_def Let_def split: prod.split) (metis fst_conv)+
  then show ?thesis by (induction ts arbitrary: a) simp_all
qed

lemma aborted_record_failed: "aborted (foldl (record_failed res) a es) = aborted a"
  by (rule foldl_invariant [where P = "\<lambda>b. aborted b = aborted a"])
    (simp_all add: record_failed_def Let_def split: prod.split)

definition terminal_error :: "err_env \<Rightarrow> attempt \<Rightarrow> bool" where
  "terminal_error env h \<longleftrightarrow> (case h of (res, own) \<Rightarrow>
     (case sc_err (scopeProduceResultToPartitions res own) of
        None \<Rightarrow> False | Some e \<Rightarrow> \<not> pe_retriable (getProduceResultErr env e)))"

lemma aborted_accumulate:
  "aborted (accumulate env a (scopeProduceResultToPartitions res own)) \<longleftrightarrow> aborted a \<or> terminal_error env (res, own)"
  by (auto simp: accumulate_def Let_def aborted_resolve aborted_record_failed terminal_error_def split: option.split)

lemma aborted_run_attempts: "aborted (run_attempts env a hs) \<longleftrightarrow> aborted a \<or> (\<exists>h\<in>set hs. terminal_error env h)"
  by (induction hs arbitrary: a) (auto simp: aborted_accumulate)

lemma empty_aborted: "newProduceResultAccumulator ps = Inr a \<Longrightarrow> \<not> aborted a"
proof -
  have "seed_pending ps b = Inr a \<Longrightarrow> aborted a = aborted b" for b
    by (induction ps arbitrary: b) (auto split: if_splits)
  then show "newProduceResultAccumulator ps = Inr a \<Longrightarrow> \<not> aborted a"
    by (auto simp: newProduceResultAccumulator_def empty_accumulator_def)
qed

section \<open>Reading the result\<close>

lemma result_resp [simp]: "pr_resp (result a) = Some (responseLocked a)"
  by (simp add: result_def Let_def split: option.split)

lemma recordErrFromResult_None:
  assumes "pr_resp res = Some resp"
  shows "recordErrFromResult res tp = None \<longleftrightarrow>
    (case map_of (entries resp) tp of None \<Rightarrow> True | Some p \<Rightarrow> rp_ErrorCode p = 0)"
  by (auto simp: recordErrFromResult_def partitionErrorFromResp_def assms split: option.split goerror.split)

lemma map_of_merged:
  assumes "acc_inv ks a" and "tp \<in> ks"
  shows "case map_of (merged_entries a) tp of None \<Rightarrow> False | Some p \<Rightarrow> rp_ErrorCode p = 0 \<longleftrightarrow> tp \<in> fst ` set (resolved a)"
proof (cases "tp \<in> fst ` set (resolved a)")
  case True
  then obtain e where e: "(tp, e) \<in> set (resolved a)" by auto
  then have "map_of (merged_entries a) tp = Some e"
    by (intro map_of_is_SomeI distinct_merged [OF assms(1)]) (simp add: merged_entries_def)
  moreover have "rp_ErrorCode e = 0"
    using e assms(1) by (auto simp: acc_inv_def acc_wf_def dest: gomap_allD)
  ultimately show ?thesis using True by simp
next
  case False
  then have "tp \<in> fst ` set (pending a)" using assms by (auto simp: acc_inv_def acc_keys_def)
  then obtain p where p: "(tp, p) \<in> set (pending a)" by auto
  then have "map_of (merged_entries a) tp = Some (pending_entry a tp)"
    by (intro map_of_is_SomeI distinct_merged [OF assms(1)]) (force simp: merged_entries_def)
  then show ?thesis using False pending_entry_ok [OF assms(1), of tp] by simp
qed

lemma succeeded_result:
  assumes "acc_inv ks a"
  shows "succeeded (result a) \<longleftrightarrow> pending a = []"
proof (cases "pending a = []")
  case True
  have "\<forall>x\<in>set (entries (responseLocked a)). rp_ErrorCode (snd x) = 0"
    using mset_eq_setD [OF mset_entries_response [OF assms]] assms True
    by (auto simp: merged_entries_def acc_inv_def acc_wf_def gomap_all_def)
  then have "find (\<lambda>(tp, p). rp_ErrorCode p \<noteq> 0) (entries (responseLocked a)) = None"
    by (auto simp: find_None_iff)
  then show ?thesis using True
    by (simp add: succeeded_def result_error_def result_def Let_def parseProduceResponse_def)
next
  case False
  then show ?thesis by (simp add: succeeded_def result_error_def result_def Let_def split: option.split)
qed

lemma set_remaining: "acc_inv ks a \<Longrightarrow> e_key ` set (remaining a) = fst ` set (pending a)"
proof -
  assume "acc_inv ks a"
  then have "gomap_all (\<lambda>tp p. e_key p = tp) (pending a)" by (simp add: acc_inv_def acc_wf_def)
  then have "e_key (snd x) = fst x" if "x \<in> set (pending a)" for x
    using gomap_allD [of _ "pending a" "fst x" "snd x"] that by simp
  then show ?thesis by (simp add: remaining_def image_image cong: image_cong)
qed


lemma history_keys:
  assumes "newProduceResultAccumulator ps = Inr a" and "\<forall>(res, own)\<in>set hs. own \<subseteq> e_key ` set ps"
  defines "A \<equiv> \<Union>(res, own)\<in>set hs. acked res own"
  shows "acc_inv (e_key ` set ps) (run_attempts env a hs)" and "fst ` set (resolved (run_attempts env a hs)) = A"
    and "fst ` set (pending (run_attempts env a hs)) = e_key ` set ps - A" and "A \<subseteq> e_key ` set ps"
proof -
  have sets: "P = K - R \<and> R \<subseteq> K" if "P \<union> R = K" "P \<inter> R = {}" for P R K :: "topicPartition set"
    using that by blast
  show inv: "acc_inv (e_key ` set ps) (run_attempts env a hs)" and res: "fst ` set (resolved (run_attempts env a hs)) = A"
    using run_attempts_inv [OF new_accumulator_inv(1) [OF assms(1)] assms(2), of env] new_accumulator_inv(2) [OF assms(1)]
    by (simp_all add: A_def)
  show "fst ` set (pending (run_attempts env a hs)) = e_key ` set ps - A" "A \<subseteq> e_key ` set ps"
  proof -
    have "fst ` set (pending (run_attempts env a hs)) \<union> A = e_key ` set ps"
      "fst ` set (pending (run_attempts env a hs)) \<inter> A = {}"
      using inv by (simp_all add: acc_inv_def acc_keys_def res)
    from sets [OF this] show "fst ` set (pending (run_attempts env a hs)) = e_key ` set ps - A" "A \<subseteq> e_key ` set ps"
      by simp_all
  qed
qed

lemma history_done:
  assumes "newProduceResultAccumulator ps = Inr a" and "\<forall>(res, own)\<in>set hs. own \<subseteq> e_key ` set ps"
  shows "pending (run_attempts env a hs) = [] \<longleftrightarrow> e_key ` set ps \<subseteq> (\<Union>(res, own)\<in>set hs. acked res own)"
proof -
  have "pending (run_attempts env a hs) = [] \<longleftrightarrow> fst ` set (pending (run_attempts env a hs)) = {}" by simp
  then show ?thesis unfolding history_keys(3) [OF assms] by blast
qed

section \<open>Properties\<close>

lemma history_reads_ok:
  assumes "newProduceResultAccumulator ps = Inr a" and "\<forall>(res, own)\<in>set hs. own \<subseteq> e_key ` set ps" and "tp \<in> e_key ` set ps"
  shows "recordErrFromResult (result (run_attempts env a hs)) tp = None \<longleftrightarrow> tp \<in> (\<Union>(res, own)\<in>set hs. acked res own)"
proof -
  note inv = history_keys(1) [OF assms(1,2), of env] and res = history_keys(2) [OF assms(1,2), of env]
  show ?thesis
    using map_of_merged [OF inv assms(3)] recordErrFromResult_None [OF result_resp, of "run_attempts env a hs" tp] res
    by (auto simp: response_lookup [OF inv] split: option.splits)
qed

definition example_env :: err_env where
  "example_env = \<lparr>IsRetryableBrokerErr = (\<lambda>e. False), Error_text = (\<lambda>e. case e of GoError s \<Rightarrow> s | _ \<Rightarrow> [])\<rparr>"

definition example_response :: "(topic \<times> partition \<times> int) list \<Rightarrow> ProduceResponse" where
  "example_response es =
     \<lparr>resp_Version = 11, resp_Topics =
        map (\<lambda>(t, p, c). \<lparr>rt_Topic = t, rt_TopicID = 0, rt_Partitions =
          [\<lparr>rp_Partition = p, rp_ErrorCode = c, rp_BaseOffset = 0, rp_LogAppendTime = 0, rp_LogStartOffset = 0\<rparr>]\<rparr>) es,
      resp_ThrottleMillis = 0\<rparr>"

definition example_parts :: "encodedTopicPartitionRecords list" where
  "example_parts = [example_encoded ''t'' 0 [1], example_encoded ''t'' 1 [2]]"

text \<open>A first attempt that acknowledges partition 0, and one for partition 1 that times out.\<close>

definition example_attempts :: "attempt list" where
  "example_attempts =
     [(\<lparr>pr_resp = Some (example_response [(''t'', 0, 0)]), pr_err = None\<rparr>, {(''t'', 0)}),
      (\<lparr>pr_resp = None, pr_err = Some DeadlineExceeded\<rparr>, {(''t'', 1)})]"

text \<open>
  C3: The merged result of a hedge cascade reports every requested partition exactly once and
  truthfully. Whatever the attempts return, in any order and with any partial overlap, as long as
  each sends only requested partitions: the merged response has one entry per requested partition; a
  partition's outcome is success exactly when some attempt that sent it was answered without an
  error visible to that attempt and with an entry for it; the partitions still to be retried are
  exactly the others; and the result as a whole succeeds exactly when none is left.
\<close>

theorem merged_result_is_truthful:
  assumes "newProduceResultAccumulator ps = Inr a" and "\<forall>(res, own)\<in>set hs. own \<subseteq> e_key ` set ps"
  shows "mset (map fst (entries (the (pr_resp (result (run_attempts env a hs)))))) = mset_set (e_key ` set ps) \<and>
    (\<forall>tp\<in>e_key ` set ps. recordErrFromResult (result (run_attempts env a hs)) tp = None \<longleftrightarrow>
       (\<exists>(res, own)\<in>set hs. tp \<in> acked res own)) \<and>
    e_key ` set (remaining (run_attempts env a hs)) = e_key ` set ps - (\<Union>(res, own)\<in>set hs. acked res own) \<and>
    (succeeded (result (run_attempts env a hs)) \<longleftrightarrow> e_key ` set ps \<subseteq> (\<Union>(res, own)\<in>set hs. acked res own))"
proof -
  let ?ks = "e_key ` set ps" and ?a = "run_attempts env a hs" and ?A = "\<Union>(res, own)\<in>set hs. acked res own"
  note inv = history_keys(1) [OF assms, of env]
    and keys = history_keys(3) [OF assms, of env] history_keys(4) [OF assms]
  have "mset (map fst (entries (responseLocked ?a))) = mset (map fst (merged_entries ?a))"
    unfolding mset_map by (simp add: mset_entries_response [OF inv])
  also have "\<dots> = mset_set (set (map fst (merged_entries ?a)))"
    using distinct_merged [OF inv] by (simp only: mset_set_set)
  also have "set (map fst (merged_entries ?a)) = ?ks"
    using inv by (simp only: merged_keys set_append set_map acc_inv_def acc_keys_def Un_commute simp_thms)
  finally have "mset (map fst (entries (the (pr_resp (result ?a))))) = mset_set ?ks"
    by (simp only: result_resp option.sel)
  moreover have "recordErrFromResult (result ?a) tp = None \<longleftrightarrow> tp \<in> ?A" if "tp \<in> ?ks" for tp
    by (rule history_reads_ok [OF assms that])
  moreover have "succeeded (result ?a) \<longleftrightarrow> ?ks \<subseteq> ?A"
    by (simp only: succeeded_result [OF inv] history_done [OF assms])
  moreover have "tp \<in> ?A \<longleftrightarrow> (\<exists>(res, own)\<in>set hs. tp \<in> acked res own)" for tp by (simp add: case_prod_unfold)
  ultimately show ?thesis using set_remaining [OF inv] keys(1) by simp
qed

theorem merged_result_is_truthful_witness:
  "\<exists>a. newProduceResultAccumulator example_parts = Inr a \<and>
     recordErrFromResult (result (run_attempts example_env a example_attempts)) (''t'', 0) = None \<and>
     recordErrFromResult (result (run_attempts example_env a example_attempts)) (''t'', 1) \<noteq> None"
proof -
  obtain a where a: "newProduceResultAccumulator example_parts = Inr a"
    using seed_pending_iff [of example_parts empty_accumulator]
    by (auto simp: newProduceResultAccumulator_def example_parts_def example_encoded_def empty_accumulator_def)
  have h: "\<forall>(res, own)\<in>set example_attempts. own \<subseteq> e_key ` set example_parts"
    by (simp add: example_attempts_def example_parts_def example_encoded_def)
  have "(\<Union>(res, own)\<in>set example_attempts. acked res own) = {(''t'', 0)}"
    by (simp add: example_attempts_def acked_def visible_ok_def example_response_def entries_def)
  then have "(\<exists>(res, own)\<in>set example_attempts. tp \<in> acked res own) \<longleftrightarrow> tp = (''t'', 0)" for tp by auto
  then show ?thesis
    using merged_result_is_truthful [OF a h, of example_env] a
    by (auto simp: example_parts_def example_encoded_def)
qed

text \<open>
  C22: A cascade is aborted exactly when one of its attempts ended, in its own view, with an error
  that is not retriable; and it is done exactly when it is aborted or every requested partition has
  been acknowledged.
\<close>

theorem abort_exactly_on_terminal_error:
  assumes "newProduceResultAccumulator ps = Inr a" and "\<forall>(res, own)\<in>set hs. own \<subseteq> e_key ` set ps"
  shows "(fst (terminalErr (run_attempts env a hs)) \<longleftrightarrow> (\<exists>(res, own)\<in>set hs. \<exists>e.
       sc_err (scopeProduceResultToPartitions res own) = Some e \<and> \<not> pe_retriable (getProduceResultErr env e))) \<and>
    (acc_done (run_attempts env a hs) \<longleftrightarrow>
       fst (terminalErr (run_attempts env a hs)) \<or> e_key ` set ps \<subseteq> (\<Union>(res, own)\<in>set hs. acked res own))"
proof -
  let ?a = "run_attempts env a hs" and ?A = "\<Union>(res, own)\<in>set hs. acked res own"
  have "pending ?a = [] \<longleftrightarrow> e_key ` set ps \<subseteq> ?A"
    by (rule history_done [OF assms])
  moreover have "aborted ?a \<longleftrightarrow> (\<exists>h\<in>set hs. terminal_error env h)"
    using aborted_run_attempts empty_aborted [OF assms(1)] by simp
  moreover have "(\<exists>h\<in>set hs. terminal_error env h) \<longleftrightarrow> (\<exists>(res, own)\<in>set hs. \<exists>e.
      sc_err (scopeProduceResultToPartitions res own) = Some e \<and> \<not> pe_retriable (getProduceResultErr env e))"
    by (rule bex_cong) (auto simp: terminal_error_def split: option.splits)
  ultimately show ?thesis by (simp add: terminalErr_def acc_done_def disj_commute)
qed

theorem abort_exactly_on_terminal_error_witness:
  "\<exists>a. newProduceResultAccumulator example_parts = Inr a \<and>
     \<not> fst (terminalErr (run_attempts example_env a example_attempts)) \<and>
     \<not> acc_done (run_attempts example_env a example_attempts)"
proof -
  obtain a where a: "newProduceResultAccumulator example_parts = Inr a"
    using seed_pending_iff [of example_parts empty_accumulator]
    by (auto simp: newProduceResultAccumulator_def example_parts_def example_encoded_def empty_accumulator_def)
  have h: "\<forall>(res, own)\<in>set example_attempts. own \<subseteq> e_key ` set example_parts"
    by (simp add: example_attempts_def example_parts_def example_encoded_def)
  show ?thesis using abort_exactly_on_terminal_error [OF a h, of example_env] a
    by (simp add: example_attempts_def example_parts_def example_encoded_def acked_def visible_ok_def
        example_response_def entries_def scopeProduceResultToPartitions_def Let_def scope_entry_def
        getProduceResultErr_def)
qed


text \<open>
  Classifying a produce error. For an error whose Kafka errors are all from the Kafka table, the
  classification keeps the error, its code is never zero, and the code alone tells whether the
  error is retriable, so nothing is lost where only the code survives; the exceptions are a
  cancellation, which carries the retriable REQUEST_TIMED_OUT but is not retriable, and the errors
  franz-go calls retryable, which are retriable but carry UNKNOWN_SERVER_ERROR. A cancellation
  anywhere in the chain is never retriable, and a deadline without one always is.
\<close>

theorem classified_code_keeps_retriability:
  assumes "wf_error err"
  shows "let c = getProduceResultErr env err in
    pe_err c = Some err \<and> pe_code c \<noteq> 0 \<and>
    (pe_reason c \<notin> {''canceled'', ''transport''} \<longrightarrow> (pe_retriable c \<longleftrightarrow> kerr_Retriable (pe_code c))) \<and>
    (pe_reason c = ''canceled'' \<longleftrightarrow> errors_Is err Canceled) \<and>
    (errors_Is err Canceled \<longrightarrow> \<not> pe_retriable c) \<and>
    (errors_Is err DeadlineExceeded \<and> \<not> errors_Is err Canceled \<longrightarrow> pe_retriable c) \<and>
    (pe_reason c = ''transport'' \<longrightarrow> pe_retriable c \<and> IsRetryableBrokerErr env err)"
proof (cases "errors_As as_kerr err")
  case None
  then show ?thesis
    by (simp add: getProduceResultErr_def kerr_IsRetriable_def kerr_Retriable_def Let_def)
next
  case (Some k)
  have "kerr_code k" by (rule wf_error_kerr [OF assms(1) Some])
  then have "k \<noteq> 0" by (auto simp: kerr_code_def)
  then show ?thesis using Some
    by (simp add: Let_def getProduceResultErr_def kerr_IsRetriable_def kerr_Retriable_def [of 7])
qed

theorem classified_code_keeps_retriability_witness:
  "pe_code (getProduceResultErr example_env (WireError (GoError ''unknown broker''))) = 8 \<and>
   pe_retriable (getProduceResultErr example_env (WireError (GoError ''unknown broker''))) = kerr_Retriable 8"
proof -
  let ?e = "WireError (GoError ''unknown broker'')"
  have c: "pe_code (getProduceResultErr example_env ?e) = 8" "pe_reason (getProduceResultErr example_env ?e) = ''unknown_broker''"
    by code_simp+
  have "wf_error ?e" by (simp add: wf_error_def)
  from classified_code_keeps_retriability [OF this, of example_env] show ?thesis
    unfolding Let_def c by simp
qed

text \<open>
  Choosing between the primary's result and the hedges' merged result loses no success: the
  chosen result succeeds exactly when one of the two does, and when both failed at the transport
  level the error carries both causes.
\<close>

lemma selected_result_succeeds_iff_either:
  "(succeeded (selectProduceResult primary fallback) \<longleftrightarrow> succeeded primary \<or> succeeded fallback) \<and>
   (\<forall>pe fe. pr_err primary = Some pe \<longrightarrow> pr_err fallback = Some fe \<longrightarrow>
      pr_err (selectProduceResult primary fallback) = Some (Errorf2 pe fe) \<and>
      (\<forall>t. errors_Is pe t \<or> errors_Is fe t \<longrightarrow> errors_Is (Errorf2 pe fe) t))"
  by (cases "pr_err primary"; cases "pr_err fallback"; cases "pr_resp fallback")
    (auto simp: selectProduceResult_def succeeded_def result_error_def)

section \<open>Coverage of a response\<close>

lemma firstMissing_None:
  "firstMissingProducePartition (Some resp) requested = None \<longleftrightarrow> e_key ` set requested \<subseteq> fst ` set (entries resp)"
  by (auto simp: firstMissingProducePartition_def Let_def find_None_iff)

end
