(* ===== verification/Routed_Batch.thy ===== *)
theory Routed_Batch
  imports Partition_Assignment Produce_Result
begin

text \<open>
  The items that the record buffers batch: \<open>routed_batch.go\<close>, \<open>routed_topic_partition.go\<close> and
  \<open>encoded_topic_partition.go\<close>.

  Go's type parameter \<open>W routedBatch[W]\<close> is the record \<open>routedBatch\<close> of its methods, passed to the
  generic functions; \<open>plainBatch\<close> and \<open>encodedBatch\<close> are the two method sets. A panic of
  \<open>mergeWith\<close> is \<open>None\<close>.

  A \<open>done\<close> closure is an index into the list of callbacks of the state \<open>done_state\<close>, which also
  holds what the closures mutate: the fan-in of a split item, the once-gates and counters of the
  cluster buffer. A closure only ever forwards to one that existed before it, so firing terminates.
  \<open>User\<close> callbacks are the callers' own; \<open>fired\<close> records their invocations in order.
\<close>

section \<open>The item interface\<close>

record 'w routedBatch =
  getTopicPartition :: "'w \<Rightarrow> topicPartition"
  getNodeID :: "'w \<Rightarrow> node_id"
  recordCount :: "'w \<Rightarrow> int"
  payloadBytes :: "'w \<Rightarrow> int"
  uncompressedWireBytes :: "'w \<Rightarrow> int"
  splitByMaxBytes :: "'w \<Rightarrow> int \<Rightarrow> 'w list"
  mergeWith :: "'w \<Rightarrow> 'w list \<Rightarrow> 'w option"

record 'w promised =
  p_item :: 'w
  p_done :: nat

definition unpromise :: "'w promised list \<Rightarrow> 'w list" where
  "unpromise parts = map p_item parts"

section \<open>Unencoded items\<close>

record topicPartitionRecords =
  w_topic :: topic
  w_partition :: partition
  w_records :: "kgo_Record list"

record routedTopicPartitionRecords = topicPartitionRecords +
  w_nodeID :: node_id
  w_nodeState :: AgentState

definition plain_payloadBytes :: "routedTopicPartitionRecords \<Rightarrow> int" where
  "plain_payloadBytes p =
     foldl (\<lambda>n r. foldl (\<lambda>n h. n + int (length (h_Key h) + slice_len (h_Value h)))
                     (n + int (slice_len (r_Key r) + slice_len (r_Value r))) (r_Headers r))
       0 (w_records p)"

text \<open>The loop of \<open>splitByMaxBytes\<close>: the chunks so far, and the open chunk with its size and first timestamp.\<close>

record split_state =
  sp_chunks :: "kgo_Record list list"
  currRecords :: "kgo_Record list"
  currBytes :: int
  sp_firstTS :: "64 word"

definition split_step :: "int \<Rightarrow> split_state \<Rightarrow> kgo_Record \<Rightarrow> split_state" where
  "split_step batchMaxBytes s r =
     (if currRecords s = []
      then s\<lparr>sp_firstTS := UnixMilli (r_Timestamp r), currRecords := [r],
             currBytes := recordBatchHeaderBytes + recordEstimateBytes r 0 0\<rparr>
      else let cost = recordEstimateBytes r (word_of_nat (length (currRecords s)))
                        (UnixMilli (r_Timestamp r) - sp_firstTS s)
           in if currBytes s + cost > batchMaxBytes
              then s\<lparr>sp_chunks := sp_chunks s @ [currRecords s], sp_firstTS := UnixMilli (r_Timestamp r),
                     currRecords := [r], currBytes := recordBatchHeaderBytes + recordEstimateBytes r 0 0\<rparr>
              else s\<lparr>currRecords := currRecords s @ [r], currBytes := currBytes s + cost\<rparr>)"

definition plain_splitByMaxBytes :: "routedTopicPartitionRecords \<Rightarrow> int \<Rightarrow> routedTopicPartitionRecords list" where
  "plain_splitByMaxBytes p batchMaxBytes =
     (if multiRecordBatchEstimateBytes (w_records p) \<le> batchMaxBytes then [p]
      else let s = foldl (split_step batchMaxBytes)
                     \<lparr>sp_chunks = [], currRecords = [], currBytes = 0, sp_firstTS = 0\<rparr> (w_records p)
           in map (\<lambda>c. p\<lparr>w_records := c\<rparr>) (sp_chunks s @ [currRecords s]))"

definition plain_mergeWith ::
  "routedTopicPartitionRecords \<Rightarrow> routedTopicPartitionRecords list \<Rightarrow> routedTopicPartitionRecords option" where
  "plain_mergeWith p others =
     (if others = [] then Some p
      else if \<exists>q\<in>set others. w_topic p \<noteq> w_topic q \<or> w_partition p \<noteq> w_partition q \<or> w_nodeID p \<noteq> w_nodeID q
      then None
      else Some (p\<lparr>w_records := foldl (\<lambda>rs q. rs @ w_records q) (w_records p) others,
                   w_nodeState := w_nodeState (last others)\<rparr>))"

definition plainBatch :: "routedTopicPartitionRecords routedBatch" where
  "plainBatch =
     \<lparr>getTopicPartition = (\<lambda>p. (w_topic p, w_partition p)), getNodeID = w_nodeID,
      recordCount = (\<lambda>p. int (length (w_records p))), payloadBytes = plain_payloadBytes,
      uncompressedWireBytes = (\<lambda>p. multiRecordBatchEstimateBytes (w_records p)),
      splitByMaxBytes = plain_splitByMaxBytes, mergeWith = plain_mergeWith\<rparr>"

section \<open>Encoded items\<close>

record routedEncodedTopicPartitionRecords =
  re_part :: encodedTopicPartitionRecords
  re_nodeID :: node_id
  re_nodeState :: AgentState

definition encoded_uncompressedWireBytes :: "routedEncodedTopicPartitionRecords \<Rightarrow> int" where
  "encoded_uncompressedWireBytes p =
     (if s_records (e_stats (re_part p)) = 0 then 0
      else recordBatchHeaderBytes + s_uncompressedBytes (e_stats (re_part p)))"

text \<open>Decoding all batches in order; a decoding failure panics.\<close>

fun decode_all :: "codec \<Rightarrow> kgo_Record list \<Rightarrow> routedEncodedTopicPartitionRecords list \<Rightarrow> kgo_Record list option" where
  "decode_all cdc rs [] = Some rs"
| "decode_all cdc rs (q # qs) =
     (case decodeBatch cdc (e_encoded (re_part q)) of None \<Rightarrow> None | Some ds \<Rightarrow> decode_all cdc (rs @ ds) qs)"

definition encoded_mergeWith ::
  "codec \<Rightarrow> routedEncodedTopicPartitionRecords \<Rightarrow> routedEncodedTopicPartitionRecords list \<Rightarrow>
   routedEncodedTopicPartitionRecords option" where
  "encoded_mergeWith cdc p others =
     (if others = [] then Some p
      else if \<exists>q\<in>set others. e_key (re_part p) \<noteq> e_key (re_part q) \<or> re_nodeID p \<noteq> re_nodeID q
      then None
      else case decode_all cdc [] (p # others) of
        None \<Rightarrow> None
      | Some rs \<Rightarrow>
          Some \<lparr>re_part = newEncodedTopicPartitionRecords cdc (e_topic (re_part p)) (e_partition (re_part p)) rs,
                re_nodeID = re_nodeID p, re_nodeState = re_nodeState (last others)\<rparr>)"

definition encodedBatch :: "codec \<Rightarrow> routedEncodedTopicPartitionRecords routedBatch" where
  "encodedBatch cdc =
     \<lparr>getTopicPartition = (\<lambda>p. e_key (re_part p)), getNodeID = re_nodeID,
      recordCount = (\<lambda>p. encoded_recordCount (re_part p)), payloadBytes = (\<lambda>p. encoded_payloadBytes (re_part p)),
      uncompressedWireBytes = encoded_uncompressedWireBytes,
      splitByMaxBytes = (\<lambda>p max. [p]), mergeWith = encoded_mergeWith cdc\<rparr>"

definition unrouteEncodedTopicPartitionRecords ::
  "routedEncodedTopicPartitionRecords list \<Rightarrow> encodedTopicPartitionRecords list" where
  "unrouteEncodedTopicPartitionRecords parts = map re_part parts"

definition sumEncodedStats :: "routedEncodedTopicPartitionRecords list \<Rightarrow> produceRequestStats" where
  "sumEncodedStats parts = foldl (\<lambda>s p. stats_add s (e_stats (re_part p))) zero_stats parts"

definition agentFromRouted :: "node_id \<Rightarrow> routedEncodedTopicPartitionRecords list \<Rightarrow> Agent" where
  "agentFromRouted nodeID parts =
     \<lparr>NodeID = nodeID,
      State = (if \<exists>p\<in>set parts. re_nodeState p = AgentStateDemoted then AgentStateDemoted else AgentStateHealthy)\<rparr>"

definition newMultiRoutedEncodedTopicPartitionRecords ::
  "encodedTopicPartitionRecords list \<Rightarrow> node_id \<Rightarrow> nat \<Rightarrow> routedEncodedTopicPartitionRecords promised list" where
  "newMultiRoutedEncodedTopicPartitionRecords parts nodeID dn =
     map (\<lambda>p. \<lparr>p_item = \<lparr>re_part = p, re_nodeID = nodeID, re_nodeState = AgentStateHealthy\<rparr>, p_done = dn\<rparr>) parts"

section \<open>Done callbacks\<close>

record fan_in =
  fan_origDone :: nat
  fan_tp :: topicPartition
  fan_remaining :: int
  fan_chosen :: "ProduceResult option"
  fan_chosenOK :: bool

record ctx_wrap =
  cw_payloadBytes :: int
  cw_recCount :: int
  cw_origDone :: nat
  cw_cancelable :: bool
  cw_origDoneFired :: bool
  cw_ourDoneFired :: bool

datatype callback = User | FanIn fan_in | CtxWrap ctx_wrap

record done_state =
  callbacks :: "callback list"
  fired :: "(nat \<times> ProduceResult) list"
  bufferedBytes :: int
  bufferedRecords :: int

definition new_callback :: "done_state \<Rightarrow> callback \<Rightarrow> done_state \<times> nat" where
  "new_callback d c = (d\<lparr>callbacks := callbacks d @ [c]\<rparr>, length (callbacks d))"

definition fan_failed :: "topicPartition \<Rightarrow> ProduceResult \<Rightarrow> bool" where
  "fan_failed tp res \<longleftrightarrow> recordErrFromResult res tp \<noteq> None"

definition fan_step :: "fan_in \<Rightarrow> ProduceResult \<Rightarrow> fan_in" where
  "fan_step f res =
     (let f = f\<lparr>fan_remaining := fan_remaining f - 1\<rparr>
      in case fan_chosen f of
           None \<Rightarrow> f\<lparr>fan_chosen := Some res, fan_chosenOK := \<not> fan_failed (fan_tp f) res\<rparr>
         | Some _ \<Rightarrow> if fan_chosenOK f \<and> fan_failed (fan_tp f) res
                     then f\<lparr>fan_chosen := Some res, fan_chosenOK := False\<rparr> else f)"

function fire :: "done_state \<Rightarrow> nat \<Rightarrow> ProduceResult \<Rightarrow> done_state" where
  "fire d i res =
     (if length (callbacks d) \<le> i then d
      else case callbacks d ! i of
        User \<Rightarrow> d\<lparr>fired := fired d @ [(i, res)]\<rparr>
      | FanIn f \<Rightarrow>
          let f = fan_step f res; d = d\<lparr>callbacks := (callbacks d)[i := FanIn f]\<rparr>
          in if fan_remaining f = 0 \<and> fan_origDone f < i then fire d (fan_origDone f) (the (fan_chosen f)) else d
      | CtxWrap c \<Rightarrow>
          let first = (\<not> cw_cancelable c \<or> \<not> cw_ourDoneFired c);
              d = (if first
                   then d\<lparr>bufferedBytes := bufferedBytes d - cw_payloadBytes c,
                          bufferedRecords := bufferedRecords d - cw_recCount c\<rparr> else d);
              forward = (\<not> cw_cancelable c \<or> \<not> cw_origDoneFired c);
              d = d\<lparr>callbacks := (callbacks d)[i := CtxWrap (c\<lparr>cw_ourDoneFired := True, cw_origDoneFired := True\<rparr>)]\<rparr>
          in if forward \<and> cw_origDone c < i then fire d (cw_origDone c) res else d)"
  by pat_completeness auto
termination
  by (relation "measure (\<lambda>(d, i, res). i)") (auto simp: fan_step_def Let_def split: option.splits if_splits)

declare fire.simps [simp del]

section \<open>Splitting and merging promised items\<close>

definition splitPromisedRoutedBatchByBatchMaxBytes ::
  "'w routedBatch \<Rightarrow> done_state \<Rightarrow> 'w promised \<Rightarrow> int \<Rightarrow> done_state \<times> 'w promised list" where
  "splitPromisedRoutedBatchByBatchMaxBytes B d inp batchMaxBytes =
     (let chunks = splitByMaxBytes B (p_item inp) batchMaxBytes
      in if length chunks \<le> 1 then (d, [inp])
         else let (d, done) = new_callback d
                    (FanIn \<lparr>fan_origDone = p_done inp, fan_tp = getTopicPartition B (p_item inp),
                            fan_remaining = int (length chunks), fan_chosen = None, fan_chosenOK = False\<rparr>)
              in (d, map (\<lambda>c. \<lparr>p_item = c, p_done = done\<rparr>) chunks))"

definition mergePromisedRoutedBatchByTopicPartition :: "'w routedBatch \<Rightarrow> 'w promised list \<Rightarrow> 'w list option" where
  "mergePromisedRoutedBatchByTopicPartition B es =
     (let (order, groups) = group_by (getTopicPartition B) (map p_item es)
      in those (map (\<lambda>tp. let g = get_or [] groups tp in mergeWith B (hd g) (tl g)) order))"


section \<open>Splitting unencoded items\<close>

lemma estimate_single: "multiRecordBatchEstimateBytes [r] = recordBatchHeaderBytes + recordEstimateBytes r 0 0"
  by (simp add: multiRecordBatchEstimateBytes_def)

lemma estimate_snoc:
  "rs \<noteq> [] \<Longrightarrow> multiRecordBatchEstimateBytes (rs @ [r]) =
     multiRecordBatchEstimateBytes rs + recordEstimateBytes r (word_of_nat (length rs))
       (UnixMilli (r_Timestamp r) - UnixMilli (r_Timestamp (rs ! 0)))"
  by (simp add: multiRecordBatchEstimateBytes_def nth_append enumerate_append_eq Let_def)

definition split_inv :: "int \<Rightarrow> kgo_Record list \<Rightarrow> split_state \<Rightarrow> bool" where
  "split_inv m xs s \<longleftrightarrow> concat (sp_chunks s) @ currRecords s = xs \<and> currRecords s \<noteq> [] \<and>
     currBytes s = multiRecordBatchEstimateBytes (currRecords s) \<and>
     sp_firstTS s = UnixMilli (r_Timestamp (currRecords s ! 0)) \<and>
     (\<forall>c\<in>set (sp_chunks s @ [currRecords s]). c \<noteq> [] \<and> multiRecordBatchEstimateBytes c \<le> m)"

lemma split_inv_step:
  assumes "split_inv m xs s" and "multiRecordBatchEstimateBytes [r] \<le> m"
  shows "split_inv m (xs @ [r]) (split_step m s r)"
  using assms estimate_snoc [of "currRecords s" r]
  by (auto simp: split_inv_def split_step_def Let_def estimate_single nth_append)

lemma split_inv_fold:
  assumes "rs \<noteq> []" and "\<forall>r\<in>set rs. multiRecordBatchEstimateBytes [r] \<le> m"
  shows "split_inv m rs (foldl (split_step m) \<lparr>sp_chunks = [], currRecords = [], currBytes = 0, sp_firstTS = 0\<rparr> rs)"
  using assms
proof (induction rs rule: rev_induct)
  case (snoc r rs)
  show ?case
  proof (cases "rs = []")
    case True
    then show ?thesis using snoc.prems by (simp add: split_step_def split_inv_def estimate_single)
  next
    case False
    then show ?thesis using snoc split_inv_step [of m rs] by simp
  qed
qed simp

lemma split_concat_fold:
  "concat (sp_chunks (foldl (split_step m) s rs)) @ currRecords (foldl (split_step m) s rs) =
     concat (sp_chunks s) @ currRecords s @ rs"
proof (induction rs arbitrary: s)
  case (Cons r rs)
  have "concat (sp_chunks (split_step m s r)) @ currRecords (split_step m s r) = concat (sp_chunks s) @ currRecords s @ [r]"
    by (simp add: split_step_def Let_def)
  then show ?case unfolding foldl_Cons Cons.IH by simp
qed simp

lemma split_fold_full:
  "[] \<notin> set (sp_chunks s) \<Longrightarrow> rs \<noteq> [] \<or> currRecords s \<noteq> [] \<Longrightarrow>
     [] \<notin> set (sp_chunks (foldl (split_step m) s rs) @ [currRecords (foldl (split_step m) s rs)])"
proof (induction rs arbitrary: s)
  case (Cons r rs)
  have "[] \<notin> set (sp_chunks (split_step m s r)) \<and> currRecords (split_step m s r) \<noteq> []"
    using Cons.prems by (auto simp: split_step_def Let_def)
  then show ?case using Cons.IH [of "split_step m s r"] by simp
qed auto

lemma plain_split_full: "w_records p \<noteq> [] \<Longrightarrow> c \<in> set (plain_splitByMaxBytes p m) \<Longrightarrow> w_records c \<noteq> []"
  using split_fold_full [of "\<lparr>sp_chunks = [], currRecords = [], currBytes = 0, sp_firstTS = 0\<rparr>" "w_records p" m]
  by (auto simp: plain_splitByMaxBytes_def Let_def split: if_splits)

lemma plain_split_contents: "concat (map w_records (plain_splitByMaxBytes p m)) = w_records p"
  using split_concat_fold [of m "\<lparr>sp_chunks = [], currRecords = [], currBytes = 0, sp_firstTS = 0\<rparr>" "w_records p"]
  by (simp add: plain_splitByMaxBytes_def Let_def o_def)

lemma plain_split_bounded:
  assumes "w_records p \<noteq> []" and "\<forall>r\<in>set (w_records p). singleRecordBatchEstimateBytes r \<le> m"
    and "c \<in> set (plain_splitByMaxBytes p m)"
  shows "w_records c \<noteq> [] \<and> multiRecordBatchEstimateBytes (w_records c) \<le> m"
proof -
  have "\<forall>r\<in>set (w_records p). multiRecordBatchEstimateBytes [r] \<le> m"
    using assms(2) by (simp add: estimate_single singleRecordBatchEstimateBytes_def)
  from split_inv_fold [OF assms(1) this] assms(1,3) show ?thesis
    by (auto simp: plain_splitByMaxBytes_def Let_def split_inv_def split: if_splits)
qed

lemma plain_split_routing:
  "c \<in> set (plain_splitByMaxBytes p m) \<Longrightarrow> \<exists>rs. c = p\<lparr>w_records := rs\<rparr>"
  by (auto simp: plain_splitByMaxBytes_def Let_def split: if_splits intro: exI [of _ "w_records p"])

lemma length_concat_int: "int (length (concat (map f xs))) = (\<Sum>x\<leftarrow>xs. int (length (f x)))"
  by (induction xs) simp_all

section \<open>The contract of an item type\<close>

text \<open>
  What the buffers rely on. \<open>contents\<close> are the records of an item, \<open>valid\<close> holds of the items the
  client builds, and \<open>mergeable\<close> of those whose union still fits a record batch.
\<close>

locale routed_batch =
  fixes B :: "'w routedBatch" and valid :: "'w \<Rightarrow> bool" and contents :: "'w \<Rightarrow> kgo_Record list"
    and mergeable :: "'w list \<Rightarrow> bool"
  assumes count: "valid x \<Longrightarrow> recordCount B x = int (length (contents x))"
    and split_nonempty: "splitByMaxBytes B x m \<noteq> []"
    and split_valid: "valid x \<Longrightarrow> c \<in> set (splitByMaxBytes B x m) \<Longrightarrow> valid c"
    and split_routing: "c \<in> set (splitByMaxBytes B x m) \<Longrightarrow>
      getTopicPartition B c = getTopicPartition B x \<and> getNodeID B c = getNodeID B x"
    and split_contents: "valid x \<Longrightarrow> concat (map contents (splitByMaxBytes B x m)) = contents x"
    and split_one: "splitByMaxBytes B x m = [c] \<Longrightarrow> c = x"
    and split_full: "0 < recordCount B x \<Longrightarrow> c \<in> set (splitByMaxBytes B x m) \<Longrightarrow> 0 < recordCount B c"
    and merge_total: "valid x \<Longrightarrow> (\<And>q. q \<in> set qs \<Longrightarrow> valid q \<and> getTopicPartition B q = getTopicPartition B x \<and>
        getNodeID B q = getNodeID B x) \<Longrightarrow>
      \<exists>y. mergeWith B x qs = Some y \<and> getTopicPartition B y = getTopicPartition B x \<and> getNodeID B y = getNodeID B x \<and>
        recordCount B y = (\<Sum>q\<leftarrow>x # qs. recordCount B q) \<and>
        (mergeable (x # qs) \<longrightarrow> contents y = concat (map contents (x # qs)))"
begin

lemma split_records:
  assumes "valid x"
  shows "(\<Sum>c\<leftarrow>splitByMaxBytes B x m. recordCount B c) = recordCount B x"
proof -
  have "(\<Sum>c\<leftarrow>splitByMaxBytes B x m. recordCount B c) = (\<Sum>c\<leftarrow>splitByMaxBytes B x m. int (length (contents c)))"
    using count split_valid [OF assms] by (simp cong: map_cong)
  also have "\<dots> = int (length (concat (map contents (splitByMaxBytes B x m))))"
    by (simp only: length_concat_int)
  finally show ?thesis using split_contents [OF assms] count [OF assms] by simp
qed

text \<open>The group of items of one partition, in arrival order.\<close>

abbreviation part_group :: "'w promised list \<Rightarrow> topicPartition \<Rightarrow> 'w list" where
  "part_group es tp \<equiv> filter (\<lambda>x. getTopicPartition B x = tp) (map p_item es)"

lemma merge_groups:
  assumes "\<And>e. e \<in> set es \<Longrightarrow> valid (p_item e) \<and> getNodeID B (p_item e) = nd"
  obtains f where "mergePromisedRoutedBatchByTopicPartition B es =
      Some (map f (first_seen (map (getTopicPartition B \<circ> p_item) es)))"
    and "\<And>tp. tp \<in> getTopicPartition B ` p_item ` set es \<Longrightarrow>
      getTopicPartition B (f tp) = tp \<and> getNodeID B (f tp) = nd \<and>
      recordCount B (f tp) = (\<Sum>x\<leftarrow>part_group es tp. recordCount B x) \<and>
      (mergeable (part_group es tp) \<longrightarrow> contents (f tp) = concat (map contents (part_group es tp)))"
proof -
  define g where "g tp = mergeWith B (hd (part_group es tp)) (tl (part_group es tp))" for tp
  have ok: "\<exists>y. g tp = Some y \<and> getTopicPartition B y = tp \<and> getNodeID B y = nd \<and>
      recordCount B y = (\<Sum>x\<leftarrow>part_group es tp. recordCount B x) \<and>
      (mergeable (part_group es tp) \<longrightarrow> contents y = concat (map contents (part_group es tp)))"
    if "tp \<in> getTopicPartition B ` p_item ` set es" for tp
  proof -
    have "part_group es tp \<noteq> []" using that by (auto simp: filter_empty_conv)
    then obtain x qs where g: "part_group es tp = x # qs" by (cases "part_group es tp") auto
    have v: "valid q \<and> getTopicPartition B q = tp \<and> getNodeID B q = nd" if "q \<in> set (x # qs)" for q
      using that assms unfolding g [symmetric] by auto
    from merge_total [of x qs] v [of x] v show ?thesis unfolding g_def g by auto
  qed
  define f where "f tp = the (g tp)" for tp
  have "those (map g tps) = Some (map f tps)" if "set tps \<subseteq> getTopicPartition B ` p_item ` set es" for tps
    using that
  proof (induction tps)
    case (Cons tp tps)
    then show ?case using ok [of tp] by (auto simp: f_def)
  qed simp
  from this [of "first_seen (map (getTopicPartition B \<circ> p_item) es)"]
  have "mergePromisedRoutedBatchByTopicPartition B es =
      Some (map f (first_seen (map (getTopicPartition B \<circ> p_item) es)))"
    by (simp add: mergePromisedRoutedBatchByTopicPartition_def case_prod_unfold group_by_eq(1) Let_def g_def [abs_def] image_image o_def)
  then show thesis
  proof (rule that)
    fix tp assume "tp \<in> getTopicPartition B ` p_item ` set es"
    from ok [OF this] obtain y where "g tp = Some y" "getTopicPartition B y = tp" "getNodeID B y = nd"
        "recordCount B y = (\<Sum>x\<leftarrow>part_group es tp. recordCount B x)"
        "mergeable (part_group es tp) \<longrightarrow> contents y = concat (map contents (part_group es tp))" by blast
    then show "getTopicPartition B (f tp) = tp \<and> getNodeID B (f tp) = nd \<and>
      recordCount B (f tp) = (\<Sum>x\<leftarrow>part_group es tp. recordCount B x) \<and>
      (mergeable (part_group es tp) \<longrightarrow> contents (f tp) = concat (map contents (part_group es tp)))"
      by (simp add: f_def)
  qed
qed

lemma merge_wire:
  assumes "\<And>e. e \<in> set es \<Longrightarrow> valid (p_item e) \<and> getNodeID B (p_item e) = nd"
  shows "\<exists>ws. mergePromisedRoutedBatchByTopicPartition B es = Some ws \<and>
    map (getTopicPartition B) ws = first_seen (map (getTopicPartition B \<circ> p_item) es) \<and>
    (\<forall>w\<in>set ws. getNodeID B w = nd \<and>
       recordCount B w = (\<Sum>x\<leftarrow>part_group es (getTopicPartition B w). recordCount B x) \<and>
       (mergeable (part_group es (getTopicPartition B w)) \<longrightarrow>
          contents w = concat (map contents (part_group es (getTopicPartition B w)))))"
proof -
  let ?tps = "first_seen (map (getTopicPartition B \<circ> p_item) es)"
  obtain f where f: "mergePromisedRoutedBatchByTopicPartition B es = Some (map f ?tps)"
    and ok: "\<And>tp. tp \<in> getTopicPartition B ` p_item ` set es \<Longrightarrow>
      getTopicPartition B (f tp) = tp \<and> getNodeID B (f tp) = nd \<and>
      recordCount B (f tp) = (\<Sum>x\<leftarrow>part_group es tp. recordCount B x) \<and>
      (mergeable (part_group es tp) \<longrightarrow> contents (f tp) = concat (map contents (part_group es tp)))"
    using merge_groups [OF assms] by blast
  have in_keys: "tp \<in> getTopicPartition B ` p_item ` set es" if "tp \<in> set ?tps" for tp
    using that by (simp add: image_comp)
  have "map (getTopicPartition B) (map f ?tps) = map id ?tps"
    unfolding map_map by (rule map_cong) (use ok [OF in_keys] in simp_all)
  moreover have "getNodeID B w = nd \<and> recordCount B w = (\<Sum>x\<leftarrow>part_group es (getTopicPartition B w). recordCount B x) \<and>
      (mergeable (part_group es (getTopicPartition B w)) \<longrightarrow>
         contents w = concat (map contents (part_group es (getTopicPartition B w))))" if w: "w \<in> set (map f ?tps)" for w
  proof -
    obtain tp where "tp \<in> set ?tps" "w = f tp" using w unfolding set_map by blast
    then show ?thesis using ok [OF in_keys] by simp
  qed
  ultimately show ?thesis using f by (metis list.map_id)
qed

end

section \<open>The two item types keep the contract\<close>

lemma foldl_append_records: "foldl (\<lambda>rs q. rs @ f q) a qs = a @ concat (map f qs)"
  by (induction qs arbitrary: a) simp_all

interpretation plain: routed_batch plainBatch "\<lambda>p. True" w_records "\<lambda>ps. True"
proof unfold_locales
  fix x :: routedTopicPartitionRecords and m
  show "splitByMaxBytes plainBatch x m \<noteq> []" by (simp add: plainBatch_def plain_splitByMaxBytes_def Let_def)
next
  fix c x :: routedTopicPartitionRecords and m
  assume "c \<in> set (splitByMaxBytes plainBatch x m)"
  then show "getTopicPartition plainBatch c = getTopicPartition plainBatch x \<and> getNodeID plainBatch c = getNodeID plainBatch x"
    using plain_split_routing [of c x m] by (auto simp: plainBatch_def)
next
  fix x :: routedTopicPartitionRecords and m
  show "concat (map w_records (splitByMaxBytes plainBatch x m)) = w_records x"
    by (simp add: plainBatch_def plain_split_contents)
next
  fix x c :: routedTopicPartitionRecords and m
  assume a: "splitByMaxBytes plainBatch x m = [c]"
  then have "w_records c = w_records x" using plain_split_contents [of x m] by (simp add: plainBatch_def)
  moreover obtain rs where "c = x\<lparr>w_records := rs\<rparr>" using plain_split_routing [of c x m] a by (auto simp: plainBatch_def)
  ultimately show "c = x" by simp
next
  fix x c :: routedTopicPartitionRecords and m
  assume "0 < recordCount plainBatch x" "c \<in> set (splitByMaxBytes plainBatch x m)"
  then show "0 < recordCount plainBatch c" using plain_split_full [of x c m] by (simp add: plainBatch_def)
next
  fix x :: routedTopicPartitionRecords and qs
  assume q: "\<And>q. q \<in> set qs \<Longrightarrow> True \<and> getTopicPartition plainBatch q = getTopicPartition plainBatch x \<and>
      getNodeID plainBatch q = getNodeID plainBatch x"
  then have "\<not> (\<exists>q\<in>set qs. w_topic x \<noteq> w_topic q \<or> w_partition x \<noteq> w_partition q \<or> w_nodeID x \<noteq> w_nodeID q)"
    by (auto simp: plainBatch_def)
  then show "\<exists>y. mergeWith plainBatch x qs = Some y \<and> getTopicPartition plainBatch y = getTopicPartition plainBatch x \<and>
      getNodeID plainBatch y = getNodeID plainBatch x \<and>
      recordCount plainBatch y = (\<Sum>q\<leftarrow>x # qs. recordCount plainBatch q) \<and>
      (True \<longrightarrow> w_records y = concat (map w_records (x # qs)))"
    by (auto simp: plainBatch_def plain_mergeWith_def foldl_append_records length_concat_int)
qed (simp_all add: plainBatch_def)

lemma plain_methods:
  "getTopicPartition plainBatch = (\<lambda>p. (w_topic p, w_partition p))" "getNodeID plainBatch = w_nodeID"
  "recordCount plainBatch = (\<lambda>p. int (length (w_records p)))"
  by (simp_all add: plainBatch_def)

lemma encoded_methods:
  "getTopicPartition (encodedBatch cdc) = (\<lambda>p. e_key (re_part p))" "getNodeID (encodedBatch cdc) = re_nodeID"
  by (simp_all add: encodedBatch_def)

text \<open>An encoded item is valid when it is what the client's encoder made of some records.\<close>

definition encoded_of :: "codec \<Rightarrow> routedEncodedTopicPartitionRecords \<Rightarrow> kgo_Record list \<Rightarrow> bool" where
  "encoded_of cdc p rs \<longleftrightarrow> rs \<noteq> [] \<and> multiRecordBatchEstimateBytes rs \<le> 2 ^ 30 \<and>
     re_part p = newEncodedTopicPartitionRecords cdc (e_topic (re_part p)) (e_partition (re_part p)) rs"

definition encoded_valid :: "codec \<Rightarrow> routedEncodedTopicPartitionRecords \<Rightarrow> bool" where
  "encoded_valid cdc p \<longleftrightarrow> snappy_law cdc \<and> (\<exists>rs. encoded_of cdc p rs)"

definition encoded_contents :: "codec \<Rightarrow> routedEncodedTopicPartitionRecords \<Rightarrow> kgo_Record list" where
  "encoded_contents cdc p = the (decodeBatch cdc (e_encoded (re_part p)))"

lemma newEncoded_simps [simp]:
  "e_topic (newEncodedTopicPartitionRecords cdc t p rs) = t"
  "e_partition (newEncodedTopicPartitionRecords cdc t p rs) = p"
  "e_encoded (newEncodedTopicPartitionRecords cdc t p rs) = fst (encodeBatch cdc rs)"
  "s_records (e_stats (newEncodedTopicPartitionRecords cdc t p rs)) = int (length rs)"
  "s_uncompressedBytes (e_stats (newEncodedTopicPartitionRecords cdc t p rs)) = int (fst (snd (encodeBatch cdc rs)))"
  by (simp_all add: newEncodedTopicPartitionRecords_def case_prod_unfold Let_def)

lemma encoded_of_stats: "encoded_of cdc p rs \<Longrightarrow> s_records (e_stats (re_part p)) = int (length rs)"
  unfolding encoded_of_def by (metis newEncoded_simps(4))

lemma encoded_of_contents:
  assumes "snappy_law cdc" "encoded_of cdc p rs"
  shows "decodeBatch cdc (e_encoded (re_part p)) = Some (map wire_view rs)"
    and "encoded_contents cdc p = map wire_view rs"
proof -
  have "e_encoded (re_part p) = fst (encodeBatch cdc rs)"
    using assms(2) unfolding encoded_of_def by (metis newEncoded_simps(3))
  then show "decodeBatch cdc (e_encoded (re_part p)) = Some (map wire_view rs)"
    using decodeBatch_encodeBatch [OF assms(1)] assms(2) by (simp add: encoded_of_def)
  then show "encoded_contents cdc p = map wire_view rs" by (simp add: encoded_contents_def)
qed

lemma wire_view_idem: "wire_view (wire_view r) = wire_view r"
  by (simp add: wire_view_def UnixMilli_def time_UnixMilli_def)

lemma encoded_valid_contents:
  assumes "encoded_valid cdc p"
  shows "decodeBatch cdc (e_encoded (re_part p)) = Some (encoded_contents cdc p)"
    and "map wire_view (encoded_contents cdc p) = encoded_contents cdc p" and "encoded_contents cdc p \<noteq> []"
    and "encoded_recordCount (re_part p) = int (length (encoded_contents cdc p))"
proof -
  obtain rs where rs: "snappy_law cdc" "encoded_of cdc p rs" using assms by (auto simp: encoded_valid_def)
  note c = encoded_of_contents [OF rs]
  show "decodeBatch cdc (e_encoded (re_part p)) = Some (encoded_contents cdc p)" using c by simp
  show "map wire_view (encoded_contents cdc p) = encoded_contents cdc p" by (simp add: c(2) wire_view_idem)
  show "encoded_contents cdc p \<noteq> []" using rs(2) by (simp add: c(2) encoded_of_def)
  show "encoded_recordCount (re_part p) = int (length (encoded_contents cdc p))"
    by (simp add: c(2) encoded_recordCount_def encoded_of_stats [OF rs(2)])
qed

lemma decode_all_valid:
  "\<forall>q\<in>set qs. encoded_valid cdc q \<Longrightarrow> decode_all cdc rs qs = Some (rs @ concat (map (encoded_contents cdc) qs))"
  by (induction qs arbitrary: rs) (simp_all add: encoded_valid_contents(1))

definition encoded_mergeable :: "codec \<Rightarrow> routedEncodedTopicPartitionRecords list \<Rightarrow> bool" where
  "encoded_mergeable cdc ps \<longleftrightarrow> multiRecordBatchEstimateBytes (concat (map (encoded_contents cdc) ps)) \<le> 2 ^ 30"

lemma encoded_merge:
  assumes "encoded_valid cdc x" and "\<forall>q\<in>set qs. encoded_valid cdc q \<and> e_key (re_part q) = e_key (re_part x) \<and> re_nodeID q = re_nodeID x"
  shows "\<exists>y. encoded_mergeWith cdc x qs = Some y \<and> e_key (re_part y) = e_key (re_part x) \<and> re_nodeID y = re_nodeID x \<and>
    encoded_recordCount (re_part y) = (\<Sum>q\<leftarrow>x # qs. encoded_recordCount (re_part q)) \<and>
    (encoded_mergeable cdc (x # qs) \<longrightarrow> encoded_contents cdc y = concat (map (encoded_contents cdc) (x # qs)))"
proof (cases "qs = []")
  case False
  let ?cs = "concat (map (encoded_contents cdc) (x # qs))"
  let ?e = "newEncodedTopicPartitionRecords cdc (e_topic (re_part x)) (e_partition (re_part x)) ?cs"
  let ?y = "\<lparr>re_part = ?e, re_nodeID = re_nodeID x, re_nodeState = re_nodeState (last qs)\<rparr>"
  have v: "\<forall>q\<in>set (x # qs). encoded_valid cdc q" using assms by auto
  have "encoded_mergeWith cdc x qs = Some ?y"
    using decode_all_valid [OF v, of "[]"] assms(2) False by (auto simp: encoded_mergeWith_def)
  moreover have "encoded_recordCount ?e = (\<Sum>q\<leftarrow>x # qs. encoded_recordCount (re_part q))"
  proof -
    have "map (\<lambda>q. encoded_recordCount (re_part q)) (x # qs) = map (\<lambda>q. int (length (encoded_contents cdc q))) (x # qs)"
      using v encoded_valid_contents(4) by (intro map_cong) auto
    then show ?thesis by (simp only: encoded_recordCount_def newEncoded_simps length_concat_int)
  qed
  moreover have "encoded_contents cdc ?y = ?cs" if "encoded_mergeable cdc (x # qs)"
  proof -
    have "?cs \<noteq> []" using encoded_valid_contents(3) [OF assms(1)] by simp
    moreover have "map wire_view ?cs = ?cs"
      using v encoded_valid_contents(2) by (simp add: map_concat o_def cong: map_cong)
    moreover have "decodeBatch cdc (fst (encodeBatch cdc ?cs)) = Some (map wire_view ?cs)"
      using calculation(1) that assms(1)
      by (intro decodeBatch_encodeBatch) (simp_all only: encoded_mergeable_def encoded_valid_def simp_thms)
    ultimately have "decodeBatch cdc (e_encoded (re_part ?y)) = Some ?cs" by simp
    then show ?thesis unfolding encoded_contents_def [of cdc ?y] by (simp only: option.sel)
  qed
  ultimately show ?thesis by (intro exI [of _ ?y]) simp
qed (use assms(1) in \<open>simp add: encoded_mergeWith_def\<close>)

interpretation encoded: routed_batch "encodedBatch cdc" "encoded_valid cdc" "encoded_contents cdc" "encoded_mergeable cdc" for cdc
proof unfold_locales
  fix x qs
  assume "encoded_valid cdc x"
    and "\<And>q. q \<in> set qs \<Longrightarrow> encoded_valid cdc q \<and> getTopicPartition (encodedBatch cdc) q = getTopicPartition (encodedBatch cdc) x \<and>
      getNodeID (encodedBatch cdc) q = getNodeID (encodedBatch cdc) x"
  then show "\<exists>y. mergeWith (encodedBatch cdc) x qs = Some y \<and>
      getTopicPartition (encodedBatch cdc) y = getTopicPartition (encodedBatch cdc) x \<and>
      getNodeID (encodedBatch cdc) y = getNodeID (encodedBatch cdc) x \<and>
      recordCount (encodedBatch cdc) y = (\<Sum>q\<leftarrow>x # qs. recordCount (encodedBatch cdc) q) \<and>
      (encoded_mergeable cdc (x # qs) \<longrightarrow> encoded_contents cdc y = concat (map (encoded_contents cdc) (x # qs)))"
    using encoded_merge [of cdc x qs] by (simp add: encodedBatch_def)
qed (simp_all add: encodedBatch_def encoded_valid_contents(4))


section \<open>The fan-in of a split item\<close>

lemma fan_step_simps [simp]:
  "fan_origDone (fan_step f res) = fan_origDone f" "fan_tp (fan_step f res) = fan_tp f"
  "fan_remaining (fan_step f res) = fan_remaining f - 1"
  by (auto simp: fan_step_def Let_def split: option.split)

lemma fire_FanIn:
  assumes "i < length (callbacks d)" "callbacks d ! i = FanIn f" "fan_origDone f < i"
  shows "fire d i res =
    (let f = fan_step f res; d = d\<lparr>callbacks := (callbacks d)[i := FanIn f]\<rparr>
     in if fan_remaining f = 0 then fire d (fan_origDone f) (the (fan_chosen f)) else d)"
  using assms by (subst fire.simps) (simp add: Let_def)

text \<open>The result a fan-in chooses: the first failure of the partition, or else the first result.\<close>

definition fan_choice :: "topicPartition \<Rightarrow> ProduceResult list \<Rightarrow> ProduceResult" where
  "fan_choice tp rs = (case find (fan_failed tp) rs of Some r \<Rightarrow> r | None \<Rightarrow> hd rs)"

lemma find_SomeD: "find P xs = Some x \<Longrightarrow> x \<in> set xs \<and> P x"
  by (induction xs) (auto split: if_splits)

lemma fan_choice_in: "rs \<noteq> [] \<Longrightarrow> fan_choice tp rs \<in> set rs"
  by (cases "find (fan_failed tp) rs") (simp_all add: fan_choice_def find_SomeD)

lemma fan_choice_ok:
  assumes "rs \<noteq> []"
  shows "recordErrFromResult (fan_choice tp rs) tp = None \<longleftrightarrow> (\<forall>r\<in>set rs. recordErrFromResult r tp = None)"
proof (cases "find (fan_failed tp) rs")
  case None
  then have "\<forall>r\<in>set rs. recordErrFromResult r tp = None" by (auto simp: find_None_iff fan_failed_def)
  then show ?thesis using None assms by (simp add: fan_choice_def)
next
  case (Some r)
  then show ?thesis using find_SomeD [OF Some] by (auto simp: fan_choice_def fan_failed_def)
qed

lemma fan_steps_chosen:
  assumes "fan_chosen f = None" and "rs \<noteq> []"
  shows "fan_chosen (foldl fan_step f rs) = Some (fan_choice (fan_tp f) rs)"
proof -
  have later: "fan_chosen (foldl fan_step g qs) =
      Some (if fan_chosenOK g then (case find (fan_failed (fan_tp g)) qs of Some r \<Rightarrow> r | None \<Rightarrow> c) else c)"
    if "fan_chosen g = Some c" for g c qs using that
  proof (induction qs arbitrary: g c)
    case (Cons q qs)
    show ?case
    proof (cases "fan_chosenOK g \<and> fan_failed (fan_tp g) q")
      case True
      then have "fan_chosen (fan_step g q) = Some q" "\<not> fan_chosenOK (fan_step g q)"
        using Cons.prems by (simp_all add: fan_step_def Let_def)
      then show ?thesis using Cons.IH [of "fan_step g q" q] True by simp
    next
      case False
      then have "fan_chosen (fan_step g q) = Some c" "fan_chosenOK (fan_step g q) = fan_chosenOK g"
        using Cons.prems by (auto simp: fan_step_def Let_def)
      then show ?thesis using Cons.IH [of "fan_step g q" c] False by simp
    qed
  qed simp
  obtain r qs where rs: "rs = r # qs" using assms(2) by (cases rs) auto
  have "fan_chosen (fan_step f r) = Some r" "fan_chosenOK (fan_step f r) = (\<not> fan_failed (fan_tp f) r)"
    using assms(1) by (simp_all add: fan_step_def Let_def)
  then show ?thesis using later [of "fan_step f r" r qs] by (simp add: rs fan_choice_def split: option.split)
qed

lemma fire_fan_in_early:
  assumes "i < length (callbacks d)" "callbacks d ! i = FanIn f" "fan_origDone f < i" "int (length rs) < fan_remaining f"
  shows "foldl (\<lambda>d r. fire d i r) d rs = d\<lparr>callbacks := (callbacks d)[i := FanIn (foldl fan_step f rs)]\<rparr>"
  using assms
proof (induction rs arbitrary: d f)
  case Nil
  have "(callbacks d)[i := FanIn f] = callbacks d" using Nil by (metis list_update_id)
  then show ?case by simp
next
  case (Cons r rs)
  let ?d = "d\<lparr>callbacks := (callbacks d)[i := FanIn (fan_step f r)]\<rparr>"
  have "fire d i r = ?d" using fire_FanIn [OF Cons.prems(1-3), of r] Cons.prems(4) by (simp add: Let_def)
  then show ?case using Cons.IH [of ?d "fan_step f r"] Cons.prems by simp
qed

lemma fire_fan_in:
  assumes "i < length (callbacks d)" "callbacks d ! i = FanIn f" "fan_origDone f < i"
    and "rs \<noteq> []" "fan_remaining f = int (length rs)" "fan_chosen f = None"
  shows "foldl (\<lambda>d r. fire d i r) d rs =
    fire (d\<lparr>callbacks := (callbacks d)[i := FanIn (foldl fan_step f rs)]\<rparr>) (fan_origDone f) (fan_choice (fan_tp f) rs)"
proof -
  obtain qs r where rs: "rs = qs @ [r]" using assms(4) by (cases rs rule: rev_cases) auto
  let ?f = "foldl fan_step f qs" and ?d = "d\<lparr>callbacks := (callbacks d)[i := FanIn (foldl fan_step f qs)]\<rparr>"
  have fields: "fan_remaining (foldl fan_step g xs) = fan_remaining g - int (length xs) \<and>
      fan_origDone (foldl fan_step g xs) = fan_origDone g" for g xs
    by (induction xs arbitrary: g) simp_all
  have "foldl (\<lambda>d r. fire d i r) d rs = fire ?d i r"
    using fire_fan_in_early [OF assms(1-3), of qs] assms(5) by (simp add: rs)
  also have "\<dots> = fire (?d\<lparr>callbacks := (callbacks ?d)[i := FanIn (fan_step ?f r)]\<rparr>) (fan_origDone f)
      (the (fan_chosen (fan_step ?f r)))"
    using fire_FanIn [of i ?d ?f r] fields [of f qs] assms(1,3,5) by (simp add: Let_def rs)
  finally show ?thesis using fan_steps_chosen [OF assms(6,4)] by (simp add: rs)
qed

section \<open>Properties\<close>

definition example_done :: done_state where
  "example_done = \<lparr>callbacks = [User], fired = [], bufferedBytes = 0, bufferedRecords = 0\<rparr>"

definition example_big :: routedTopicPartitionRecords where
  "example_big = \<lparr>w_topic = ''t'', w_partition = 3, w_records = example_records, w_nodeID = 9, w_nodeState = AgentStateHealthy\<rparr>"

text \<open>
  C31: Splitting a partition's records by the batch size. When every record passes the per-record
  gate of the client, the chunks are non-empty, keep topic, partition and agent, are within the
  limit both as estimated and as encoded, and together are exactly the records in their order; a
  group that fits is left alone.
\<close>

theorem split_chunks_fit:
  assumes "w_records p \<noteq> []" and "\<forall>r\<in>set (w_records p). singleRecordBatchEstimateBytes r \<le> batchMaxBytes"
  shows "concat (map w_records (plain_splitByMaxBytes p batchMaxBytes)) = w_records p \<and>
    (\<forall>c\<in>set (plain_splitByMaxBytes p batchMaxBytes).
       w_records c \<noteq> [] \<and> c = p\<lparr>w_records := w_records c\<rparr> \<and>
       multiRecordBatchEstimateBytes (w_records c) \<le> batchMaxBytes \<and>
       4 + int (length (fst (encodeBatch cdc (w_records c)))) \<le> batchMaxBytes) \<and>
    (multiRecordBatchEstimateBytes (w_records p) \<le> batchMaxBytes \<longrightarrow> plain_splitByMaxBytes p batchMaxBytes = [p])"
proof -
  have "4 + int (length (fst (encodeBatch cdc (w_records c)))) \<le> batchMaxBytes"
    if "w_records c \<noteq> []" "multiRecordBatchEstimateBytes (w_records c) \<le> batchMaxBytes" for c :: routedTopicPartitionRecords
    using estimate_is_length [OF that(1)] encodeBatch_sizes [of cdc "w_records c"] that(2)
    by (simp add: recordBatchHeaderBytes_def)
  moreover have "c = p\<lparr>w_records := w_records c\<rparr>" if "c \<in> set (plain_splitByMaxBytes p batchMaxBytes)" for c
    using plain_split_routing [OF that] by auto
  moreover have "multiRecordBatchEstimateBytes (w_records p) \<le> batchMaxBytes \<longrightarrow> plain_splitByMaxBytes p batchMaxBytes = [p]"
    by (simp add: plain_splitByMaxBytes_def)
  ultimately show ?thesis
    using plain_split_contents [of p batchMaxBytes] plain_split_bounded [OF assms] by blast
qed

lemma example_big_gate:
  "\<forall>r\<in>set (w_records example_big). singleRecordBatchEstimateBytes r \<le> 85" "\<not> multiRecordBatchEstimateBytes example_records \<le> 85"
  by code_simp+

theorem split_chunks_fit_witness:
  "concat (map w_records (plain_splitByMaxBytes example_big 85)) = example_records \<and>
   plain_splitByMaxBytes example_big 85 \<noteq> [example_big]"
proof -
  have ne: "w_records example_big \<noteq> []" by (simp add: example_big_def example_records_def)
  have "plain_splitByMaxBytes example_big 85 \<noteq> [example_big]"
  proof
    assume "plain_splitByMaxBytes example_big 85 = [example_big]"
    then show False using split_chunks_fit [OF ne example_big_gate(1)] example_big_gate(2)
      by (simp add: example_big_def)
  qed
  then show ?thesis using split_chunks_fit [OF ne example_big_gate(1)] by (simp add: example_big_def)
qed

text \<open>
  C29: The completion of a split item. However the chunks of a split complete, the item's own
  callback does not run before the last of them, and with the last it runs exactly once; it reports
  success for the partition exactly when every chunk did, and otherwise the first chunk failure.
\<close>

theorem split_completes_once_with_worst_outcome:
  assumes "callbacks d ! j = User" and "j < length (callbacks d)" and "p_done inp = j"
    and "1 < length (splitByMaxBytes B (p_item inp) m)"
    and "splitPromisedRoutedBatchByBatchMaxBytes B d inp m = (d', chunks)"
    and "length rs = length chunks" and "n < length rs"
  shows "(\<forall>c\<in>set chunks. p_done c = length (callbacks d)) \<and>
    fired (foldl (\<lambda>e r. fire e (length (callbacks d)) r) d' (take n rs)) = fired d \<and>
    (\<exists>res\<in>set rs. fired (foldl (\<lambda>e r. fire e (length (callbacks d)) r) d' rs) = fired d @ [(j, res)] \<and>
       (recordErrFromResult res (getTopicPartition B (p_item inp)) = None \<longleftrightarrow>
          (\<forall>r\<in>set rs. recordErrFromResult r (getTopicPartition B (p_item inp)) = None)))"
proof -
  let ?tp = "getTopicPartition B (p_item inp)"
  let ?f = "\<lparr>fan_origDone = j, fan_tp = ?tp, fan_remaining = int (length (splitByMaxBytes B (p_item inp) m)),
      fan_chosen = None, fan_chosenOK = False\<rparr>"
  let ?i = "length (callbacks d)"
  have d': "d' = d\<lparr>callbacks := callbacks d @ [FanIn ?f]\<rparr>"
    and ch: "chunks = map (\<lambda>c. \<lparr>p_item = c, p_done = ?i\<rparr>) (splitByMaxBytes B (p_item inp) m)"
    using assms(3,4,5) by (auto simp: splitPromisedRoutedBatchByBatchMaxBytes_def new_callback_def Let_def)
  have len: "length rs = length (splitByMaxBytes B (p_item inp) m)" "rs \<noteq> []"
    using assms(4,6) ch by auto
  have i: "?i < length (callbacks d')" "callbacks d' ! ?i = FanIn ?f" "fan_origDone ?f < ?i"
    using assms(2) by (simp_all add: d')
  have "fired (foldl (\<lambda>e r. fire e ?i r) d' (take n rs)) = fired d"
    using fire_fan_in_early [OF i, of "take n rs"] assms(7) len by (simp add: d')
  moreover have "fired (foldl (\<lambda>e r. fire e ?i r) d' rs) = fired d @ [(j, fan_choice ?tp rs)]"
  proof -
    have "foldl (\<lambda>e r. fire e ?i r) d' rs =
        fire (d'\<lparr>callbacks := (callbacks d')[?i := FanIn (foldl fan_step ?f rs)]\<rparr>) j (fan_choice ?tp rs)"
      using fire_fan_in [OF i len(2)] len(1) by simp
    moreover have "fired (fire e j x) = fired e @ [(j, x)]" if "j < length (callbacks e)" "callbacks e ! j = User" for e x
      using that by (subst fire.simps) simp
    ultimately show ?thesis using assms(1,2) by (simp add: d' nth_append nth_list_update)
  qed
  moreover have "fan_choice ?tp rs \<in> set rs" by (rule fan_choice_in [OF len(2)])
  moreover have "recordErrFromResult (fan_choice ?tp rs) ?tp = None \<longleftrightarrow> (\<forall>r\<in>set rs. recordErrFromResult r ?tp = None)"
    by (rule fan_choice_ok [OF len(2)])
  ultimately show ?thesis using ch by auto
qed


lemma example_big_chunks: "length (plain_splitByMaxBytes example_big 85) = 2"
  by code_simp

definition example_outcome :: "int \<Rightarrow> ProduceResult" where
  "example_outcome c = \<lparr>pr_resp = Some (example_response [(''t'', 3, c)]), pr_err = None\<rparr>"

theorem split_completes_once_with_worst_outcome_witness:
  "\<exists>d' chunks res. splitPromisedRoutedBatchByBatchMaxBytes plainBatch example_done \<lparr>p_item = example_big, p_done = 0\<rparr> 85 = (d', chunks) \<and>
     fired (foldl (\<lambda>e r. fire e 1 r) d' [example_outcome 0, example_outcome 7]) = [(0, res)] \<and>
     recordErrFromResult res (''t'', 3) \<noteq> None"
proof -
  let ?in = "\<lparr>p_item = example_big, p_done = 0\<rparr>" and ?rs = "[example_outcome 0, example_outcome 7]"
  obtain d' chunks where s: "splitPromisedRoutedBatchByBatchMaxBytes plainBatch example_done ?in 85 = (d', chunks)"
    by (metis prod.exhaust)
  have l: "length (splitByMaxBytes plainBatch (p_item ?in) 85) = 2" by (simp add: plainBatch_def example_big_chunks)
  then have "length chunks = 2" using s
    by (auto simp: splitPromisedRoutedBatchByBatchMaxBytes_def new_callback_def Let_def)
  then have len: "length ?rs = length chunks" by simp
  have tp: "getTopicPartition plainBatch (p_item ?in) = (''t'', 3)" by (simp add: plainBatch_def example_big_def)
  have u: "callbacks example_done ! 0 = User" "0 < length (callbacks example_done)" "length (callbacks example_done) = 1"
      "fired example_done = []"
    by (simp_all add: example_done_def)
  have bad: "recordErrFromResult (example_outcome 7) (''t'', 3) \<noteq> None"
    by (simp add: recordErrFromResult_None example_outcome_def example_response_def entries_def)
  have "1 < length (splitByMaxBytes plainBatch (p_item ?in) 85)" "(1::nat) < length ?rs" using l by simp_all
  from split_completes_once_with_worst_outcome [OF u(1,2) _ this(1) s len this(2), unfolded tp u(3,4)] bad s
  show ?thesis by auto
qed

text \<open>
  C30: Merging the items of one flush. Items bound for the same agent merge without a panic into
  one wire item per partition, in the order in which the partitions first appear; each carries
  exactly the records of its partition's items in arrival order. The same holds for items that are
  already encoded, whose batches are decoded and encoded again, when they are batches that this
  client encoded and each merged batch stays within the ceiling of a batch.
\<close>

theorem merge_keeps_every_record:
  "((\<forall>e\<in>set es. w_nodeID (p_item e) = nd) \<longrightarrow>
     (\<exists>ws. mergePromisedRoutedBatchByTopicPartition plainBatch es = Some ws \<and>
       map (\<lambda>w. (w_topic w, w_partition w)) ws =
         first_seen (map (\<lambda>e. (w_topic (p_item e), w_partition (p_item e))) es) \<and>
       (\<forall>w\<in>set ws. w_nodeID w = nd \<and> w_records w = concat (map w_records
          (filter (\<lambda>x. (w_topic x, w_partition x) = (w_topic w, w_partition w)) (map p_item es)))))) \<and>
   ((\<forall>e\<in>set fs. encoded_valid cdc (p_item e) \<and> re_nodeID (p_item e) = nd) \<longrightarrow>
    (\<forall>tp. encoded_mergeable cdc (filter (\<lambda>x. e_key (re_part x) = tp) (map p_item fs))) \<longrightarrow>
     (\<exists>ws. mergePromisedRoutedBatchByTopicPartition (encodedBatch cdc) fs = Some ws \<and>
       map (\<lambda>w. e_key (re_part w)) ws = first_seen (map (\<lambda>e. e_key (re_part (p_item e))) fs) \<and>
       (\<forall>w\<in>set ws. re_nodeID w = nd \<and> encoded_contents cdc w = concat (map (encoded_contents cdc)
          (filter (\<lambda>x. e_key (re_part x) = e_key (re_part w)) (map p_item fs))))))"
proof (intro conjI impI)
  assume nd: "\<forall>e\<in>set es. w_nodeID (p_item e) = nd"
  then have "\<And>e. e \<in> set es \<Longrightarrow> True \<and> getNodeID plainBatch (p_item e) = nd" by (simp add: plainBatch_def)
  from plain.merge_wire [OF this]
  show "\<exists>ws. mergePromisedRoutedBatchByTopicPartition plainBatch es = Some ws \<and>
       map (\<lambda>w. (w_topic w, w_partition w)) ws =
         first_seen (map (\<lambda>e. (w_topic (p_item e), w_partition (p_item e))) es) \<and>
       (\<forall>w\<in>set ws. w_nodeID w = nd \<and> w_records w = concat (map w_records
          (filter (\<lambda>x. (w_topic x, w_partition x) = (w_topic w, w_partition w)) (map p_item es))))"
    by (simp add: o_def plain_methods) blast
next
  assume v: "\<forall>e\<in>set fs. encoded_valid cdc (p_item e) \<and> re_nodeID (p_item e) = nd"
    and m: "\<forall>tp. encoded_mergeable cdc (filter (\<lambda>x. e_key (re_part x) = tp) (map p_item fs))"
  from v have "\<And>e. e \<in> set fs \<Longrightarrow> encoded_valid cdc (p_item e) \<and> getNodeID (encodedBatch cdc) (p_item e) = nd"
    by (simp add: encodedBatch_def)
  from encoded.merge_wire [OF this] m
  show "\<exists>ws. mergePromisedRoutedBatchByTopicPartition (encodedBatch cdc) fs = Some ws \<and>
       map (\<lambda>w. e_key (re_part w)) ws = first_seen (map (\<lambda>e. e_key (re_part (p_item e))) fs) \<and>
       (\<forall>w\<in>set ws. re_nodeID w = nd \<and> encoded_contents cdc w = concat (map (encoded_contents cdc)
          (filter (\<lambda>x. e_key (re_part x) = e_key (re_part w)) (map p_item fs))))"
    unfolding o_def encoded_methods by blast
qed


theorem merge_keeps_every_record_witness:
  "\<exists>ws. mergePromisedRoutedBatchByTopicPartition plainBatch
       [\<lparr>p_item = example_big, p_done = 0\<rparr>, \<lparr>p_item = example_big, p_done = 1\<rparr>] = Some ws \<and>
     (\<forall>w\<in>set ws. w_nodeID w = 9)"
  using merge_keeps_every_record [of "[\<lparr>p_item = example_big, p_done = 0\<rparr>, \<lparr>p_item = example_big, p_done = 1\<rparr>]" 9 "[]"]
  by (simp add: example_big_def) blast

end
