(* ===== verification/Completion.thy ===== *)
theory Completion
  imports Routed_Batch
begin

text \<open>
  The bookkeeping of completions, abstractly. Whoever holds a \<open>done\<close> closure holds a token for it;
  the buffers hold a multiset of tokens. Only two things happen to a token: it is exchanged for
  several tokens of a new fan-in when its item is split, and it is spent when the closure is called.
  \<open>token_step\<close> is that game on a \<open>done_state\<close>. The buffers are shown to refine it, so that what
  is proved of the game here, in particular that no completion is lost or duplicated, holds of them.
\<close>

section \<open>Calling a closure\<close>

definition fan_at :: "done_state \<Rightarrow> nat \<Rightarrow> fan_in option" where
  "fan_at d i = (case callbacks d ! i of FanIn f \<Rightarrow> Some f | _ \<Rightarrow> None)"

lemma fan_at_simps [simp]:
  "callbacks d ! i = User \<Longrightarrow> fan_at d i = None" "callbacks d ! i = CtxWrap c \<Longrightarrow> fan_at d i = None"
  "callbacks d ! i = FanIn f \<Longrightarrow> fan_at d i = Some f" "fan_at (d\<lparr>fired := z\<rparr>) i = fan_at d i"
  by (simp_all add: fan_at_def)

lemma fan_at_Some: "fan_at d i = Some f \<longleftrightarrow> callbacks d ! i = FanIn f"
  by (simp add: fan_at_def split: callback.split)

lemma callback_kinds:
  obtains (user) "callbacks d ! i = User" "fan_at d i = None" | (fan) f where "callbacks d ! i = FanIn f" "fan_at d i = Some f"
  | (wrap) c where "callbacks d ! i = CtxWrap c" "fan_at d i = None"
  by (cases "callbacks d ! i") auto

lemma fire_User:
  "i < length (callbacks d) \<Longrightarrow> callbacks d ! i = User \<Longrightarrow> fire d i res = d\<lparr>fired := fired d @ [(i, res)]\<rparr>"
  by (subst fire.simps) simp

lemma fire_CtxWrap:
  assumes "i < length (callbacks d)" "callbacks d ! i = CtxWrap c" "cw_origDone c < i" "callbacks d ! cw_origDone c = User"
  shows "fire d i res =
    d\<lparr>callbacks := (callbacks d)[i := CtxWrap (c\<lparr>cw_ourDoneFired := True, cw_origDoneFired := True\<rparr>)],
      bufferedBytes := bufferedBytes d - (if cw_cancelable c \<and> cw_ourDoneFired c then 0 else cw_payloadBytes c),
      bufferedRecords := bufferedRecords d - (if cw_cancelable c \<and> cw_ourDoneFired c then 0 else cw_recCount c),
      fired := fired d @ (if cw_cancelable c \<and> cw_origDoneFired c then [] else [(cw_origDone c, res)])\<rparr>"
  using assms by (subst fire.simps) (auto simp: Let_def fire_User)

section \<open>The token game\<close>

definition callback_ok :: "done_state \<Rightarrow> nat multiset \<Rightarrow> nat \<Rightarrow> bool" where
  "callback_ok d N k =
     (case callbacks d ! k of
        User \<Rightarrow> True
      | FanIn f \<Rightarrow> fan_remaining f = int (count N k) \<and> fan_origDone f < k \<and> fan_at d (fan_origDone f) = None
      | CtxWrap c \<Rightarrow> cw_origDone c < k \<and> callbacks d ! cw_origDone c = User)"

definition tokens_ok :: "done_state \<Rightarrow> nat multiset \<Rightarrow> bool" where
  "tokens_ok d N \<longleftrightarrow> (\<forall>i\<in>#N. i < length (callbacks d)) \<and> (\<forall>k<length (callbacks d). callback_ok d N k)"

inductive token_step :: "done_state \<times> nat multiset \<Rightarrow> done_state \<times> nat multiset \<Rightarrow> bool" where
  exchange: "i \<in># N \<Longrightarrow> fan_at d i = None \<Longrightarrow> 1 < n \<Longrightarrow>
    token_step (d, N)
      (d\<lparr>callbacks := callbacks d @ [FanIn \<lparr>fan_origDone = i, fan_tp = tp, fan_remaining = int n, fan_chosen = None, fan_chosenOK = False\<rparr>]\<rparr>,
       N - {#i#} + replicate_mset n (length (callbacks d)))"
| spend: "i \<in># N \<Longrightarrow> token_step (d, N) (fire d i res, N - {#i#})"

abbreviation token_steps :: "done_state \<times> nat multiset \<Rightarrow> done_state \<times> nat multiset \<Rightarrow> bool" where
  "token_steps \<equiv> token_step\<^sup>*\<^sup>*"

text \<open>How many calls of closure \<open>i\<close> are still to come.\<close>

definition fans_into :: "done_state \<Rightarrow> nat \<Rightarrow> nat set" where
  "fans_into d i = {k. k < length (callbacks d) \<and>
     (case fan_at d k of Some f \<Rightarrow> 0 < fan_remaining f \<and> fan_origDone f = i | None \<Rightarrow> False)}"

definition demand :: "done_state \<Rightarrow> nat multiset \<Rightarrow> nat \<Rightarrow> nat" where
  "demand d N i = count N i + card (fans_into d i)"

lemma finite_fans_into [simp]: "finite (fans_into d i)"
  by (simp add: fans_into_def)

text \<open>States that differ at most in their fan-ins.\<close>

definition same_base :: "done_state \<Rightarrow> done_state \<Rightarrow> bool" where
  "same_base d e \<longleftrightarrow> length (callbacks d) \<le> length (callbacks e) \<and>
     (\<forall>i<length (callbacks d). if fan_at d i = None then callbacks e ! i = callbacks d ! i else fan_at e i \<noteq> None) \<and>
     (\<forall>i. length (callbacks d) \<le> i \<longrightarrow> i < length (callbacks e) \<longrightarrow> fan_at e i \<noteq> None) \<and>
     fired e = fired d \<and> bufferedBytes e = bufferedBytes d \<and> bufferedRecords e = bufferedRecords d"

lemma same_base_refl [simp]: "same_base d d"
  by (simp add: same_base_def)

lemma same_base_nonfan:
  assumes "same_base d e" "k < length (callbacks e)" "fan_at e k = None"
  shows "k < length (callbacks d) \<and> fan_at d k = None \<and> callbacks e ! k = callbacks d ! k"
  using assms unfolding same_base_def by (metis not_less)

text \<open>Spending a token of a closure that is not a fan-in.\<close>

lemma fire_base_shape:
  assumes "tokens_ok d N" "i < length (callbacks d)" "fan_at d i = None"
  obtains (user) "callbacks d ! i = User" "fire d i res = d\<lparr>fired := fired d @ [(i, res)]\<rparr>"
  | (wrap) c c' x y z where "callbacks d ! i = CtxWrap c" "cw_origDone c' = cw_origDone c" "fire d i res =
      d\<lparr>callbacks := (callbacks d)[i := CtxWrap c'], bufferedBytes := x, bufferedRecords := y, fired := z\<rparr>"
proof (cases d i rule: callback_kinds)
  case user
  then show thesis using that(1) fire_User assms(2) by blast
next
  case (wrap c)
  then have "cw_origDone c < i" "callbacks d ! cw_origDone c = User"
    using assms by (auto simp: tokens_ok_def callback_ok_def)
  from that(2) [OF wrap(1) _ fire_CtxWrap [OF assms(2) wrap(1) this]] show thesis by simp
qed (use assms(3) in simp)

lemma fire_base_fans:
  assumes "tokens_ok d N" "i < length (callbacks d)" "fan_at d i = None"
  shows "length (callbacks (fire d i res)) = length (callbacks d)"
    and "fan_at (fire d i res) = fan_at d"
    and "\<And>k. k \<noteq> i \<Longrightarrow> callbacks (fire d i res) ! k = callbacks d ! k"
    and "fans_into (fire d i res) = fans_into d"
proof -
  have "length (callbacks (fire d i res)) = length (callbacks d) \<and> (\<forall>k. k \<noteq> i \<longrightarrow> callbacks (fire d i res) ! k = callbacks d ! k)
      \<and> fan_at (fire d i res) i = None"
    using assms by (cases rule: fire_base_shape [OF assms, of res]) simp_all
  moreover from this have "fan_at (fire d i res) k = fan_at d k" for k
    using assms(3) by (cases "k = i") (auto simp: fan_at_def)
  ultimately show "length (callbacks (fire d i res)) = length (callbacks d)"
    and "fan_at (fire d i res) = fan_at d"
    and "\<And>k. k \<noteq> i \<Longrightarrow> callbacks (fire d i res) ! k = callbacks d ! k"
    and "fans_into (fire d i res) = fans_into d"
    by (auto simp: fans_into_def fun_eq_iff)
qed

lemma fire_base_kept:
  assumes "tokens_ok d N" "i < length (callbacks d)" "fan_at d i = None"
  shows "callbacks d ! j = User \<Longrightarrow> callbacks (fire d i res) ! j = User"
    and "callbacks d ! j = CtxWrap c \<Longrightarrow> \<exists>c'. callbacks (fire d i res) ! j = CtxWrap c' \<and> cw_origDone c' = cw_origDone c"
  using fire_base_fans(3) [OF assms] assms by (cases "j = i"; cases rule: fire_base_shape [OF assms, of res]; auto)+

lemma fire_base_ok:
  assumes ok: "tokens_ok d (add_mset i N)" and i: "i < length (callbacks d)" "fan_at d i = None"
  shows "tokens_ok (fire d i res) N"
proof -
  note f = fire_base_fans [OF ok i, where res = res] and kept = fire_base_kept [OF ok i, where res = res]
  have "callback_ok (fire d i res) N k" if "k < length (callbacks d)" for k
  proof (cases d k rule: callback_kinds)
    case user
    then show ?thesis using kept(1) by (simp add: callback_ok_def)
  next
    case (fan g)
    then have "k \<noteq> i" using i(2) by auto
    moreover have "callback_ok d (add_mset i N) k" using ok that by (simp add: tokens_ok_def)
    ultimately show ?thesis using fan f(2,3) by (simp add: callback_ok_def)
  next
    case (wrap c)
    have "callback_ok d (add_mset i N) k" using ok that by (simp add: tokens_ok_def)
    then show ?thesis using wrap kept(1) kept(2) [OF wrap(1)] by (auto simp: callback_ok_def)
  qed
  then show ?thesis using ok f(1) by (auto simp: tokens_ok_def)
qed

section \<open>One step is silent or calls one closure that is not a fan-in\<close>

lemma exchange_silent:
  assumes ok: "tokens_ok d N" and i: "i \<in># N" "fan_at d i = None" and n: "1 < n"
    and e: "e = d\<lparr>callbacks := callbacks d @ [FanIn \<lparr>fan_origDone = i, fan_tp = tp, fan_remaining = int n, fan_chosen = None, fan_chosenOK = False\<rparr>]\<rparr>"
    and M: "M = N - {#i#} + replicate_mset n (length (callbacks d))"
  shows "same_base d e" "tokens_ok e M" "j < length (callbacks d) \<Longrightarrow> fan_at d j = None \<Longrightarrow> demand e M j = demand d N j"
proof -
  let ?l = "length (callbacks d)"
  have range: "k < ?l" if "k \<in># N" for k using ok that by (simp add: tokens_ok_def)
  have fan: "fan_at e k = fan_at d k" if "k < ?l" for k using that by (simp add: fan_at_def e nth_append)
  have new: "fan_at e ?l = Some \<lparr>fan_origDone = i, fan_tp = tp, fan_remaining = int n, fan_chosen = None, fan_chosenOK = False\<rparr>"
    by (simp add: fan_at_def e)
  have cnt: "count M k = count N k - (if k = i then 1 else 0)" if "k < ?l" for k using that by (simp add: M)
  have fresh: "count N ?l = 0" using range [of ?l] by (auto simp: count_eq_zero_iff)
  show "same_base d e" using new by (auto simp: same_base_def e nth_append less_Suc_eq fan_at_def)
  have "callback_ok e M k" if "k < ?l" for k
  proof -
    have "callback_ok d N k" using ok that by (simp add: tokens_ok_def)
    moreover have "callbacks e ! k = callbacks d ! k" using that by (simp add: e nth_append)
    moreover have "k \<noteq> i" if "callbacks d ! k = FanIn g" for g using that i(2) by auto
    ultimately show ?thesis using that cnt fan
      by (auto simp: callback_ok_def e nth_append split: callback.splits)
  qed
  moreover have "callback_ok e M ?l"
    using new i range [of i] fan [of i] fresh by (simp add: callback_ok_def fan_at_Some M)
  ultimately show "tokens_ok e M"
    using range by (auto simp: tokens_ok_def e M less_Suc_eq dest: in_diffD)
  assume j: "j < ?l" "fan_at d j = None"
  have l: "length (callbacks e) = Suc ?l" by (simp add: e)
  have into: "fans_into e j = fans_into d j \<union> (if j = i then {?l} else {})"
    using n fan new by (auto simp: fans_into_def l less_Suc_eq split: option.splits)
  have "?l \<notin> fans_into d j" by (simp add: fans_into_def)
  then show "demand e M j = demand d N j"
    using i(1) cnt [OF j(1)] by (auto simp: demand_def into)
qed

lemma fan_spend:
  assumes ok: "tokens_ok d N" and i: "i \<in># N" "callbacks d ! i = FanIn f"
    and e: "e = d\<lparr>callbacks := (callbacks d)[i := FanIn (fan_step f res)]\<rparr>"
    and M: "M = (if fan_remaining f = 1 then add_mset (fan_origDone f) else id) (N - {#i#})"
  shows "same_base d e" "tokens_ok e M" "fan_at d j = None \<Longrightarrow> demand e M j = demand d N j"
proof -
  have il: "i < length (callbacks d)" using ok i by (simp add: tokens_ok_def)
  then have f: "fan_remaining f = int (count N i)" "fan_origDone f < i" "fan_at d (fan_origDone f) = None"
    using ok i by (auto simp: tokens_ok_def callback_ok_def)
  have pos: "0 < fan_remaining f" using f(1) i(1) by simp
  have fan: "fan_at e k = (if k = i then Some (fan_step f res) else fan_at d k)" for k
    using il by (auto simp: fan_at_def e)
  have "callbacks e ! k = callbacks d ! k" if "k \<noteq> i" for k using that by (simp add: e)
  moreover have "fan_at d i \<noteq> None" "length (callbacks e) = length (callbacks d)" using i(2) by (simp_all add: e)
  ultimately show "same_base d e" using fan by (auto simp: same_base_def e)
  have cnt: "count M k = count N k - (if k = i then 1 else 0)" if "fan_at d k \<noteq> None" for k
    using that f(3) by (auto simp: M)
  have "callback_ok e M k" if k: "k < length (callbacks d)" for k
  proof -
    have "callback_ok d N k" using ok k by (simp add: tokens_ok_def)
    moreover have "callbacks e ! k = (if k = i then FanIn (fan_step f res) else callbacks d ! k)" for k
      using il by (simp add: e nth_list_update)
    moreover have "fan_at d k \<noteq> None" if "callbacks d ! k = FanIn g" for g k using that by simp
    ultimately show ?thesis using f i(2) cnt [of k] pos
      by (cases d k rule: callback_kinds) (auto simp: callback_ok_def fan)
  qed
  moreover have "k < length (callbacks d)" if "k \<in># M" for k
  proof -
    have "k \<in># N \<or> k = fan_origDone f" using that by (auto simp: M dest: in_diffD split: if_splits)
    then show ?thesis using ok f(2) il by (auto simp: tokens_ok_def)
  qed
  moreover have l: "length (callbacks e) = length (callbacks d)" by (simp add: e)
  ultimately show "tokens_ok e M" by (simp add: tokens_ok_def)
  assume j: "fan_at d j = None"
  have ji: "j \<noteq> i" using j i(2) by auto
  have "k \<in> fans_into e j \<longleftrightarrow> k \<in> fans_into d j \<and> \<not> (k = i \<and> fan_remaining f = 1 \<and> j = fan_origDone f)" for k
    using i(2) pos il by (cases "k = i") (simp_all add: fans_into_def l fan, linarith)
  then have into: "fans_into e j = fans_into d j - (if fan_remaining f = 1 \<and> j = fan_origDone f then {i} else {})"
    by auto
  have mem: "i \<in> fans_into d j" if "j = fan_origDone f" using that i(2) il pos by (simp add: fans_into_def)
  have "Suc (card (fans_into d j - {i})) = card (fans_into d j)" if "j = fan_origDone f"
    using mem [OF that] by (intro card_Suc_Diff1) simp_all
  then show "demand e M j = demand d N j" using ji
    unfolding demand_def into by (auto simp: M)
qed

lemma token_step_cases:
  assumes "token_step (d, N) (d', N')" "tokens_ok d N"
  obtains e M where "same_base d e" "tokens_ok e M"
    "\<And>j. j < length (callbacks d) \<Longrightarrow> fan_at d j = None \<Longrightarrow> demand e M j = demand d N j"
    "(d', N') = (e, M) \<or> (\<exists>b res. b \<in># M \<and> fan_at e b = None \<and> d' = fire e b res \<and> N' = M - {#b#})"
  using assms(1)
proof (cases rule: token_step.cases)
  case (exchange i n tp)
  note s = exchange_silent [OF assms(2) exchange(3-5) refl refl, where tp = tp]
  show thesis by (rule that [OF s(1,2)]) (use s(3) exchange(1,2) in auto)
next
  case (spend i res)
  show thesis
  proof (cases d i rule: callback_kinds)
    case (fan f)
    let ?e = "d\<lparr>callbacks := (callbacks d)[i := FanIn (fan_step f res)]\<rparr>"
    let ?M = "(if fan_remaining f = 1 then add_mset (fan_origDone f) else id) (N - {#i#})"
    note s = fan_spend [OF assms(2) spend(3) fan(1) refl refl, where res = res]
    have il: "i < length (callbacks d)" and o: "fan_origDone f < i" "fan_at d (fan_origDone f) = None"
      using assms(2) spend(3) fan by (auto simp: tokens_ok_def callback_ok_def)
    have "fan_at ?e (fan_origDone f) = None" using o by (simp add: fan_at_def)
    then have "(d', N') = (?e, ?M) \<or> (\<exists>b res. b \<in># ?M \<and> fan_at ?e b = None \<and> d' = fire ?e b res \<and> N' = ?M - {#b#})"
      using fire_FanIn [OF il fan(1) o(1), of res] spend(1,2) by (auto simp: Let_def)
    with s show thesis by (intro that [of ?e ?M]) auto
  next
    case user
    then show thesis using spend(1,2,3) by (intro that [OF same_base_refl assms(2)]) auto
  next
    case wrap
    then show thesis using spend(1,2,3) by (intro that [OF same_base_refl assms(2)]) auto
  qed
qed

definition plain_done :: "done_state \<Rightarrow> nat \<Rightarrow> bool" where
  "plain_done d i \<longleftrightarrow> i < length (callbacks d) \<and> fan_at d i = None"

lemma plain_done_append [simp]: "plain_done d i \<Longrightarrow> plain_done (d\<lparr>callbacks := callbacks d @ cs\<rparr>) i"
  by (simp add: plain_done_def fan_at_def nth_append)

lemma same_base_plain_done: "same_base d e \<Longrightarrow> plain_done d i \<Longrightarrow> plain_done e i"
  unfolding same_base_def plain_done_def fan_at_def by force

lemma token_steps_keep:
  assumes "token_steps (d, N) (d', N')" "tokens_ok d N"
  shows "tokens_ok d' N' \<and> (\<forall>i. plain_done d i \<longrightarrow> plain_done d' i)"
  using assms
proof (induction rule: rtranclp_induct2)
  case (step e M e' M')
  then have ok: "tokens_ok e M" by simp
  obtain x X where x: "same_base e x" "tokens_ok x X"
      "\<And>j. j < length (callbacks e) \<Longrightarrow> fan_at e j = None \<Longrightarrow> demand x X j = demand e M j"
      "(e', M') = (x, X) \<or> (\<exists>b res. b \<in># X \<and> fan_at x b = None \<and> e' = fire x b res \<and> M' = X - {#b#})"
    by (rule token_step_cases [OF step.hyps(2) ok]) blast
  have keep: "plain_done d i \<longrightarrow> plain_done x i" for i using step.IH [OF step.prems] same_base_plain_done [OF x(1)] by blast
  from x(4) show ?case
  proof (elim disjE exE conjE)
    fix b res assume b: "b \<in># X" "fan_at x b = None" "e' = fire x b res" "M' = X - {#b#}"
    then have bl: "b < length (callbacks x)" using x(2) by (simp add: tokens_ok_def)
    have "tokens_ok e' M'" unfolding b(3,4) using fire_base_ok [of x b "X - {#b#}" res] x(2) b(1,2) bl by simp
    moreover have "plain_done x i \<longrightarrow> plain_done e' i" for i
      using fire_base_fans(1,2) [OF x(2) bl b(2), of res] by (simp add: plain_done_def b(3))
    ultimately show ?thesis using keep by blast
  qed (use x(2) keep in auto)
qed simp

text \<open>Handing in tokens of closures that are not fan-ins.\<close>

lemma tokens_ok_add:
  assumes "tokens_ok d N" "\<forall>i\<in>#X. plain_done d i"
  shows "tokens_ok d (N + X)" "demand d (N + X) j = demand d N j + count X j"
proof -
  have "count X k = 0" if "fan_at d k \<noteq> None" for k
    using assms(2) that by (auto simp: plain_done_def count_eq_zero_iff)
  then have "callback_ok d (N + X) k \<longleftrightarrow> callback_ok d N k" for k
    by (cases d k rule: callback_kinds) (auto simp: callback_ok_def)
  then show "tokens_ok d (N + X)" using assms by (auto simp: tokens_ok_def plain_done_def)
qed (simp add: demand_def)

lemma demand_empty: "tokens_ok d {#} \<Longrightarrow> demand d {#} j = 0"
proof -
  assume ok: "tokens_ok d {#}"
  have "fan_remaining f = 0" if "k < length (callbacks d)" "fan_at d k = Some f" for k f
    using ok that by (auto simp: tokens_ok_def callback_ok_def fan_at_Some)
  then have "fans_into d j = {}" by (fastforce simp: fans_into_def split: option.splits)
  then show "demand d {#} j = 0" by (simp add: demand_def)
qed

section \<open>No completion is lost or duplicated\<close>

definition calls :: "done_state \<Rightarrow> nat \<Rightarrow> nat" where
  "calls d j = count (mset (map fst (fired d))) j"

definition no_wraps :: "done_state \<Rightarrow> bool" where
  "no_wraps d \<longleftrightarrow> (\<forall>k<length (callbacks d). case callbacks d ! k of CtxWrap c \<Rightarrow> False | _ \<Rightarrow> True)"

lemma same_base_no_wraps: "same_base d e \<Longrightarrow> no_wraps d \<Longrightarrow> no_wraps e"
proof -
  assume a: "same_base d e" "no_wraps d"
  have "callbacks e ! k \<noteq> CtxWrap c" if k: "k < length (callbacks e)" for k c
  proof
    assume "callbacks e ! k = CtxWrap c"
    moreover from this have "fan_at e k = None" by simp
    from same_base_nonfan [OF a(1) k this] have "k < length (callbacks d)" "callbacks e ! k = callbacks d ! k" by auto
    ultimately show False using a(2) by (auto simp: no_wraps_def)
  qed
  then show "no_wraps e" by (auto simp: no_wraps_def split: callback.split)
qed

text \<open>
  Without cancellation hooks, the calls of a user's closure that have happened and those still to
  come are together a constant of the game.
\<close>

definition balanced :: "done_state \<times> nat multiset \<Rightarrow> done_state \<times> nat multiset \<Rightarrow> bool" where
  "balanced s t \<longleftrightarrow> no_wraps (fst t) \<and> tokens_ok (fst t) (snd t) \<and> length (callbacks (fst s)) \<le> length (callbacks (fst t)) \<and>
     (\<forall>j<length (callbacks (fst s)). callbacks (fst s) ! j = User \<longrightarrow> callbacks (fst t) ! j = User \<and>
        calls (fst t) j + demand (fst t) (snd t) j = calls (fst s) j + demand (fst s) (snd s) j)"

lemma fire_user_demand:
  assumes "tokens_ok e M" "b \<in># M" "callbacks e ! b = User"
  shows "calls (fire e b res) j + demand (fire e b res) (M - {#b#}) j = calls e j + demand e M j"
proof -
  have b: "b < length (callbacks e)" using assms by (simp add: tokens_ok_def)
  have "Suc (count M b - Suc 0) = count M b" using assms(2) by simp
  then show ?thesis using assms(3) fire_base_fans(4) [OF assms(1) b, of res]
    by (auto simp: calls_def demand_def fire_User [OF b assms(3)])
qed

lemma token_step_balanced:
  assumes "token_step s t" "no_wraps (fst s)" "tokens_ok (fst s) (snd s)"
  shows "balanced s t"
proof -
  obtain d N d' N' where st: "s = (d, N)" "t = (d', N')" by (cases s, cases t) auto
  from assms have a: "token_step (d, N) (d', N')" "no_wraps d" "tokens_ok d N" by (simp_all add: st)
  from token_step_cases [OF a(1,3)] obtain e M where e: "same_base d e" "tokens_ok e M"
      "\<And>j. j < length (callbacks d) \<Longrightarrow> fan_at d j = None \<Longrightarrow> demand e M j = demand d N j"
      "(d', N') = (e, M) \<or> (\<exists>b res. b \<in># M \<and> fan_at e b = None \<and> d' = fire e b res \<and> N' = M - {#b#})"
    by blast
  have nw: "no_wraps e" by (rule same_base_no_wraps [OF e(1) a(2)])
  have old: "callbacks e ! j = User \<and> calls e j + demand e M j = calls d j + demand d N j"
    if "j < length (callbacks d)" "callbacks d ! j = User" for j
    using that e(1) e(3) [of j] by (auto simp: same_base_def calls_def)
  have "length (callbacks d) \<le> length (callbacks e)" using e(1) by (simp add: same_base_def)
  note base = nw e(2) this old
  from e(4) show ?thesis
  proof (elim disjE exE conjE)
    assume "(d', N') = (e, M)"
    then show ?thesis using base by (auto simp: balanced_def st)
  next
    fix b res assume b: "b \<in># M" "fan_at e b = None" "d' = fire e b res" "N' = M - {#b#}"
    have bl: "b < length (callbacks e)" using b(1) e(2) by (simp add: tokens_ok_def)
    then have u: "callbacks e ! b = User" using nw b(2) by (cases e b rule: callback_kinds) (auto simp: no_wraps_def)
    have "d' = e\<lparr>fired := fired e @ [(b, res)]\<rparr>" using b(3) fire_User [OF bl u] by simp
    moreover have "tokens_ok d' N'"
      unfolding b(3,4) using fire_base_ok [of e b "M - {#b#}" res] e(2) b(1,2) bl by simp
    moreover have "calls d' j + demand d' N' j = calls e j + demand e M j" for j
      unfolding b(3,4) by (rule fire_user_demand [OF e(2) b(1) u])
    ultimately show ?thesis using base by (auto simp: balanced_def st no_wraps_def)
  qed
qed

lemma token_steps_balanced:
  assumes "token_steps s t" "no_wraps (fst s)" "tokens_ok (fst s) (snd s)"
  shows "balanced s t"
  using assms
proof (induction rule: rtranclp_induct)
  case base
  then show ?case by (simp add: balanced_def)
next
  case (step t u)
  then have "balanced s t" by simp
  moreover from this have "balanced t u" using token_step_balanced [OF step.hyps(2)] by (simp add: balanced_def)
  ultimately show ?case by (auto simp: balanced_def)
qed

section \<open>Completions behind cancellation hooks\<close>

fun open_bytes :: "callback \<Rightarrow> int" where
  "open_bytes (CtxWrap c) = (if cw_ourDoneFired c then 0 else cw_payloadBytes c)"
| "open_bytes _ = 0"

fun open_records :: "callback \<Rightarrow> int" where
  "open_records (CtxWrap c) = (if cw_ourDoneFired c then 0 else cw_recCount c)"
| "open_records _ = 0"

fun wraps_of :: "nat \<Rightarrow> callback \<Rightarrow> nat" where
  "wraps_of j (CtxWrap c) = (if cw_origDone c = j then 1 else 0)"
| "wraps_of j _ = 0"

fun settled_of :: "nat \<Rightarrow> callback \<Rightarrow> nat" where
  "settled_of j (CtxWrap c) = (if cw_origDone c = j \<and> cw_origDoneFired c then 1 else 0)"
| "settled_of j _ = 0"

definition total :: "(callback \<Rightarrow> 'a::comm_monoid_add) \<Rightarrow> done_state \<Rightarrow> 'a" where
  "total w d = sum_list (map w (callbacks d))"

lemma total_update:
  "k < length (callbacks d) \<Longrightarrow> total w (d\<lparr>callbacks := (callbacks d)[k := c]\<rparr>) + w (callbacks d ! k) = total w d + w c"
  unfolding total_def by (subst (3) id_take_nth_drop [of k]) (simp_all add: upd_conv_take_nth_drop ac_simps)

lemma total_same_base:
  assumes "same_base d e" "\<And>f. w (FanIn f) = 0"
  shows "total w e = total w d"
proof -
  let ?n = "length (callbacks d)"
  have fan: "w (callbacks x ! k) = 0" if "fan_at x k \<noteq> None" for x k
    using that assms(2) by (auto simp: fan_at_def split: callback.splits)
  have eq: "w (callbacks e ! k) = w (callbacks d ! k)" if "k < ?n" for k
  proof (cases "fan_at d k = None")
    case True
    then have "callbacks e ! k = callbacks d ! k" using assms(1) that by (simp add: same_base_def)
    then show ?thesis by simp
  next
    case False
    then have "fan_at e k \<noteq> None" using assms(1) that by (auto simp: same_base_def)
    then show ?thesis using fan [of e k] fan [of d k] False by simp
  qed
  have new: "w (callbacks e ! k) = 0" if "?n \<le> k" "k < length (callbacks e)" for k
    using that assms(1) fan [of e k] by (auto simp: same_base_def)
  have "(\<Sum>k<length (callbacks e). w (callbacks e ! k)) = (\<Sum>k<?n. w (callbacks e ! k))"
    using assms(1) new by (intro sum.mono_neutral_right) (auto simp: same_base_def)
  also have "\<dots> = (\<Sum>k<?n. w (callbacks d ! k))" using eq by simp
  finally show ?thesis by (simp add: total_def sum_list_sum_nth atLeast0LessThan)
qed

text \<open>
  The accounts of the cluster buffer: a hook is due exactly one call until it has had it, the
  counters are the sums over the hooks not yet called, users are called only through their hooks,
  and as often as their hooks have let a call through.
\<close>

definition hook_ok :: "done_state \<Rightarrow> nat multiset \<Rightarrow> nat \<Rightarrow> bool" where
  "hook_ok d N k =
     (case callbacks d ! k of
        User \<Rightarrow> demand d N k = 0
      | FanIn f \<Rightarrow> True
      | CtxWrap c \<Rightarrow> demand d N k = (if cw_ourDoneFired c then 0 else 1) \<and>
          (cw_ourDoneFired c \<longrightarrow> cw_origDoneFired c) \<and> (\<not> cw_cancelable c \<longrightarrow> cw_origDoneFired c = cw_ourDoneFired c))"

definition accounts_ok :: "done_state \<Rightarrow> nat multiset \<Rightarrow> bool" where
  "accounts_ok d N \<longleftrightarrow> tokens_ok d N \<and> (\<forall>k<length (callbacks d). hook_ok d N k) \<and>
     bufferedBytes d = total open_bytes d \<and> bufferedRecords d = total open_records d \<and>
     (\<forall>j. calls d j = total (settled_of j) d)"

lemma hook_ok_cong:
  "callbacks e ! k = callbacks d ! k \<Longrightarrow> demand e M k = demand d N k \<Longrightarrow> hook_ok e M k = hook_ok d N k"
  by (simp only: hook_ok_def)

lemma same_base_accounts:
  assumes "accounts_ok d N" "same_base d e" "tokens_ok e M"
    and "\<And>j. j < length (callbacks d) \<Longrightarrow> fan_at d j = None \<Longrightarrow> demand e M j = demand d N j"
  shows "accounts_ok e M" "total (wraps_of j) e = total (wraps_of j) d"
proof -
  have "hook_ok e M k" if k: "k < length (callbacks e)" for k
  proof (cases "fan_at e k = None")
    case True
    from same_base_nonfan [OF assms(2) k this] have n: "k < length (callbacks d)" "fan_at d k = None" "callbacks e ! k = callbacks d ! k"
      by auto
    then have "hook_ok d N k" using assms(1) by (simp add: accounts_ok_def)
    then show ?thesis using assms(4) [OF n(1,2)] n(3) by (simp add: hook_ok_def split: callback.splits)
  next
    case False
    then show ?thesis by (auto simp: hook_ok_def fan_at_def split: callback.splits)
  qed
  moreover have "bufferedBytes e = bufferedBytes d" "bufferedRecords e = bufferedRecords d" "fired e = fired d"
    using assms(2) by (simp_all add: same_base_def)
  ultimately show "accounts_ok e M"
    using assms(1,3) by (simp add: accounts_ok_def calls_def total_same_base [OF assms(2)])
  show "total (wraps_of j) e = total (wraps_of j) d" by (rule total_same_base [OF assms(2)]) simp
qed

lemma calls_append [simp]: "calls (d\<lparr>fired := fired d @ [(i, res)]\<rparr>) j = calls d j + (if i = j then 1 else 0)"
  by (simp add: calls_def)

lemma calls_cong: "fired d = fired e \<Longrightarrow> calls d j = calls e j"
  by (simp add: calls_def)

lemma fire_hook_accounts:
  assumes ok: "accounts_ok e M" and b: "b \<in># M" "fan_at e b = None"
  shows "accounts_ok (fire e b res) (M - {#b#})" "total (wraps_of j) (fire e b res) = total (wraps_of j) e"
proof -
  have t: "tokens_ok e M" using ok by (simp add: accounts_ok_def)
  have bl: "b < length (callbacks e)" using t b(1) by (simp add: tokens_ok_def)
  have hook: "hook_ok e M k" if "k < length (callbacks e)" for k using ok that by (simp add: accounts_ok_def)
  have "0 < count M b" using b(1) by simp
  then have "0 < demand e M b" by (simp add: demand_def)
  then obtain c where c: "callbacks e ! b = CtxWrap c" "\<not> cw_ourDoneFired c" "demand e M b = 1"
      "\<not> cw_cancelable c \<longrightarrow> \<not> cw_origDoneFired c"
    using hook [OF bl] b(2) by (cases e b rule: callback_kinds) (auto simp: hook_ok_def split: if_splits)
  have orig: "cw_origDone c < b" "callbacks e ! cw_origDone c = User"
    using t bl c(1) by (auto simp: tokens_ok_def callback_ok_def)
  let ?c = "CtxWrap (c\<lparr>cw_ourDoneFired := True, cw_origDoneFired := True\<rparr>)" and ?f = "fire e b res"
  let ?u = "e\<lparr>callbacks := (callbacks e)[b := ?c]\<rparr>"
  have f: "?f = ?u\<lparr>bufferedBytes := bufferedBytes e - cw_payloadBytes c, bufferedRecords := bufferedRecords e - cw_recCount c,
      fired := fired e @ (if cw_cancelable c \<and> cw_origDoneFired c then [] else [(cw_origDone c, res)])\<rparr>"
    using fire_CtxWrap [OF bl c(1) orig, of res] c(2) by simp
  have tot: "total w ?f + w (CtxWrap c) = total w e + w ?c" for w :: "callback \<Rightarrow> 'x::comm_monoid_add"
    using total_update [OF bl, of w ?c] by (simp add: c(1) f total_def)
  have fans: "fans_into ?f = fans_into e" by (rule fire_base_fans(4) [OF t bl b(2)])
  have "count M b = 1 \<and> card (fans_into e b) = 0" using c(3) \<open>0 < count M b\<close> unfolding demand_def by linarith
  then have dem: "demand ?f (M - {#b#}) k = (if k = b then 0 else demand e M k)" for k
    by (simp add: demand_def fans)
  have "hook_ok ?f (M - {#b#}) k" if k: "k < length (callbacks e)" for k
  proof (cases "k = b")
    case True
    moreover have "callbacks ?f ! b = ?c" using bl by (simp add: f)
    ultimately show ?thesis using dem [of b] by (simp add: hook_ok_def)
  next
    case False
    then have "callbacks ?f ! k = callbacks e ! k" by (simp add: f)
    then show ?thesis using False hook [OF k] dem [of k] hook_ok_cong [of ?f k e] by simp
  qed
  moreover have "calls ?f j = total (settled_of j) ?f" for j
    using tot [of "settled_of j"] ok c(4) by (auto simp: accounts_ok_def calls_def f split: if_splits)
  moreover have "tokens_ok ?f (M - {#b#})"
    using fire_base_ok [of e b "M - {#b#}" res] t b bl by simp
  moreover have "bufferedBytes ?f = total open_bytes ?f" "bufferedRecords ?f = total open_records ?f"
    using tot [of open_bytes] tot [of open_records] ok c(2) by (simp_all add: accounts_ok_def f total_def)
  ultimately show "accounts_ok ?f (M - {#b#})"
    using fire_base_fans(1) [OF t bl b(2), of res] by (simp add: accounts_ok_def)
  show "total (wraps_of j) ?f = total (wraps_of j) e" using tot [of "wraps_of j"] by simp
qed

lemma token_steps_accounts:
  assumes "token_steps (d, N) (d', N')" "accounts_ok d N"
  shows "accounts_ok d' N' \<and> (\<forall>j. total (wraps_of j) d' = total (wraps_of j) d)"
  using assms
proof (induction rule: rtranclp_induct2)
  case (step e M e' M')
  then have IH: "accounts_ok e M" "\<And>j. total (wraps_of j) e = total (wraps_of j) d" by simp_all
  then have "tokens_ok e M" by (simp add: accounts_ok_def)
  then obtain x X where x: "same_base e x" "tokens_ok x X"
      "\<And>j. j < length (callbacks e) \<Longrightarrow> fan_at e j = None \<Longrightarrow> demand x X j = demand e M j"
      "(e', M') = (x, X) \<or> (\<exists>b res. b \<in># X \<and> fan_at x b = None \<and> e' = fire x b res \<and> M' = X - {#b#})"
    by (rule token_step_cases [OF step.hyps(2)]) blast
  note acc = same_base_accounts [OF IH(1) x(1-3)]
  from x(4) show ?case
  proof (elim disjE exE conjE)
    fix b res assume b: "b \<in># X" "fan_at x b = None" "e' = fire x b res" "M' = X - {#b#}"
    then show ?thesis using fire_hook_accounts [OF acc(1) b(1,2), where res = res] acc(2) IH(2) by simp
  qed (use acc IH(2) in simp)
qed simp

lemma settled_le_wraps: "total (settled_of j) d \<le> total (wraps_of j) d"
proof -
  have "settled_of j c \<le> wraps_of j c" for c by (cases c) simp_all
  then show ?thesis unfolding total_def by (intro sum_list_mono) simp
qed

text \<open>With no token left, every hook has been called and the counters are back to zero.\<close>

lemma accounts_settled:
  assumes "accounts_ok d {#}"
  shows "calls d j = total (wraps_of j) d" "bufferedBytes d = 0" "bufferedRecords d = 0"
proof -
  have t: "tokens_ok d {#}" using assms by (simp add: accounts_ok_def)
  have "cw_ourDoneFired c \<and> cw_origDoneFired c" if "CtxWrap c \<in> set (callbacks d)" for c
  proof -
    obtain k where k: "k < length (callbacks d)" "callbacks d ! k = CtxWrap c" using \<open>CtxWrap c \<in> set (callbacks d)\<close> by (auto simp: in_set_conv_nth)
    then have "hook_ok d {#} k" using assms by (simp add: accounts_ok_def)
    then show ?thesis using k demand_empty [OF t, of k] by (auto simp: hook_ok_def split: if_splits)
  qed
  then have w: "settled_of j c = wraps_of j c \<and> open_bytes c = 0 \<and> open_records c = 0" if "c \<in> set (callbacks d)" for c
    using that by (cases c) auto
  have "total (settled_of j) d = total (wraps_of j) d" unfolding total_def using w by (intro arg_cong [of _ _ sum_list] map_cong) auto
  then show "calls d j = total (wraps_of j) d" using assms by (simp add: accounts_ok_def)
  have "sum_list (map open_bytes (callbacks d)) = 0" "sum_list (map open_records (callbacks d)) = 0"
    using w by (simp_all cong: map_cong add: sum_list_0)
  then show "bufferedBytes d = 0" "bufferedRecords d = 0" using assms by (simp_all add: accounts_ok_def total_def)
qed

end
