(* ===== verification/Agent_Buffer.thy ===== *)
theory Agent_Buffer
  imports Completion
begin

text \<open>
  The per-agent buffer of \<open>agent_record_buffer.go\<close>. An operation under the buffer's mutex is one
  function on the state; a panic of \<open>mergeWith\<close> is \<open>None\<close>. The goroutine of a flush is a \<open>flight\<close>
  of the state: it waits for the flush function, whose result an event supplies, and then calls the
  \<open>done\<close> of its entries one by one, each call an event of its own, so that runs cover every
  interleaving of the callers, the linger timer, \<open>Close\<close> and the flushes. The timer event may also
  come late, after the timer was stopped, as Go's timers may. The linger delay itself and the
  in-flight metrics are left out.
\<close>

section \<open>State\<close>

record 'w flight =
  fl_wire :: "'w list"
  fl_entries :: "'w promised list"
  fl_res :: "ProduceResult option"
  fl_next :: nat

record 'w AgentBuffer =
  ab_nodeID :: node_id
  ab_batchMaxBytes :: int
  nextProduceItems :: "'w promised list"
  nextProduceRecords :: int
  nextProduceWireBytes :: int
  nextProduceFlushTimer :: bool
  ab_closed :: bool
  flights :: "'w flight list"
  flushCtxCanceled :: bool

definition errBufferClosed :: goerror where
  "errBufferClosed = GoError ''record buffer is closed''"

definition err_result :: "goerror \<Rightarrow> ProduceResult" where
  "err_result e = \<lparr>pr_resp = None, pr_err = Some e\<rparr>"

definition NewAgentBuffer :: "node_id \<Rightarrow> int \<Rightarrow> 'w AgentBuffer" where
  "NewAgentBuffer nodeID maxBytes =
     \<lparr>ab_nodeID = nodeID, ab_batchMaxBytes = maxBytes, nextProduceItems = [], nextProduceRecords = 0,
      nextProduceWireBytes = 0, nextProduceFlushTimer = False, ab_closed = False, flights = [],
      flushCtxCanceled = False\<rparr>"

section \<open>Operations\<close>

definition startFlushLocked :: "'w routedBatch \<Rightarrow> 'w AgentBuffer \<Rightarrow> 'w AgentBuffer option" where
  "startFlushLocked B a =
     (if nextProduceRecords a = 0 then Some a
      else case mergePromisedRoutedBatchByTopicPartition B (nextProduceItems a) of
        None \<Rightarrow> None
      | Some wire \<Rightarrow>
          Some (a\<lparr>nextProduceFlushTimer := False, nextProduceItems := [], nextProduceRecords := 0,
                  nextProduceWireBytes := 0,
                  flights := flights a @ [\<lparr>fl_wire = wire, fl_entries = nextProduceItems a, fl_res = None, fl_next = 0\<rparr>]\<rparr>))"

definition maybeStartNextFlushTimerLocked :: "'w AgentBuffer \<Rightarrow> 'w AgentBuffer" where
  "maybeStartNextFlushTimerLocked a =
     (if nextProduceRecords a > 0 \<and> \<not> nextProduceFlushTimer a then a\<lparr>nextProduceFlushTimer := True\<rparr> else a)"

definition addToNextProduceLocked :: "'w routedBatch \<Rightarrow> 'w AgentBuffer \<Rightarrow> 'w promised \<Rightarrow> 'w AgentBuffer option" where
  "addToNextProduceLocked B a p =
     (let addBytes = uncompressedWireBytes B (p_item p)
      in case (if nextProduceRecords a > 0 \<and> nextProduceWireBytes a + addBytes > ab_batchMaxBytes a
               then startFlushLocked B a else Some a) of
           None \<Rightarrow> None
         | Some a \<Rightarrow>
             Some (a\<lparr>nextProduceItems := nextProduceItems a @ [p],
                     nextProduceRecords := nextProduceRecords a + recordCount B (p_item p),
                     nextProduceWireBytes := nextProduceWireBytes a + addBytes\<rparr>))"

primrec add_chunks :: "'w routedBatch \<Rightarrow> 'w AgentBuffer \<Rightarrow> 'w promised list \<Rightarrow> 'w AgentBuffer option" where
  "add_chunks B a [] = Some a"
| "add_chunks B a (p # ps) =
     (case addToNextProduceLocked B a p of None \<Rightarrow> None | Some a \<Rightarrow> add_chunks B a ps)"

primrec split_items :: "'w routedBatch \<Rightarrow> int \<Rightarrow> done_state \<Rightarrow> 'w promised list \<Rightarrow> done_state \<times> 'w promised list" where
  "split_items B m d [] = (d, [])"
| "split_items B m d (p # ps) =
     (let (d, cs) = splitPromisedRoutedBatchByBatchMaxBytes B d p m; (d, rest) = split_items B m d ps
      in (d, cs @ rest))"

definition fire_all :: "done_state \<Rightarrow> 'w promised list \<Rightarrow> ProduceResult \<Rightarrow> done_state" where
  "fire_all d ps res = foldl (\<lambda>d p. fire d (p_done p) res) d ps"

definition ab_MultiAdd ::
  "'w routedBatch \<Rightarrow> done_state \<times> 'w AgentBuffer \<Rightarrow> 'w promised list \<Rightarrow> (done_state \<times> 'w AgentBuffer) option" where
  "ab_MultiAdd B s items =
     (let (d, a) = s; incoming = (\<Sum>p\<leftarrow>items. recordCount B (p_item p))
      in if incoming = 0 then Some (d, a)
         else let (d, chunks) = split_items B (ab_batchMaxBytes a) d items
              in if ab_closed a then Some (fire_all d chunks (err_result errBufferClosed), a)
                 else case add_chunks B a chunks of
                        None \<Rightarrow> None
                      | Some a \<Rightarrow> Some (d, maybeStartNextFlushTimerLocked a))"

definition ab_Add ::
  "'w routedBatch \<Rightarrow> done_state \<times> 'w AgentBuffer \<Rightarrow> 'w promised \<Rightarrow> (done_state \<times> 'w AgentBuffer) option" where
  "ab_Add B s p =
     (let (d, a) = s
      in if recordCount B (p_item p) = 0 then Some (d, a)
         else if uncompressedWireBytes B (p_item p) > ab_batchMaxBytes a then ab_MultiAdd B s [p]
         else if ab_closed a then Some (fire d (p_done p) (err_result errBufferClosed), a)
         else case addToNextProduceLocked B a p of
                None \<Rightarrow> None
              | Some a \<Rightarrow> Some (d, maybeStartNextFlushTimerLocked a))"

definition timerFlush :: "'w routedBatch \<Rightarrow> 'w AgentBuffer \<Rightarrow> 'w AgentBuffer option" where
  "timerFlush B a = startFlushLocked B a"

text \<open>\<open>Close\<close> up to its wait, and from the end of the wait on.\<close>

definition ab_Close :: "'w routedBatch \<Rightarrow> 'w AgentBuffer \<Rightarrow> 'w AgentBuffer option" where
  "ab_Close B a = (if ab_closed a then Some a else startFlushLocked B (a\<lparr>ab_closed := True\<rparr>))"

definition ab_Close_end :: "'w AgentBuffer \<Rightarrow> 'w AgentBuffer" where
  "ab_Close_end a = (if ab_closed a \<and> flights a = [] then a\<lparr>flushCtxCanceled := True\<rparr> else a)"

text \<open>The goroutine of flight \<open>k\<close>: the flush function returns; the next \<open>done\<close> is called.\<close>

definition flush_returns :: "'w AgentBuffer \<Rightarrow> nat \<Rightarrow> ProduceResult \<Rightarrow> 'w AgentBuffer" where
  "flush_returns a k res =
     (if k < length (flights a) \<and> fl_res (flights a ! k) = None
      then a\<lparr>flights := (flights a)[k := (flights a ! k)\<lparr>fl_res := Some res\<rparr>]\<rparr> else a)"

definition report_next :: "done_state \<times> 'w AgentBuffer \<Rightarrow> nat \<Rightarrow> done_state \<times> 'w AgentBuffer" where
  "report_next s k =
     (let (d, a) = s
      in if k < length (flights a)
         then let f = flights a ! k
              in case fl_res f of
                   None \<Rightarrow> (d, a)
                 | Some res \<Rightarrow>
                     (fire d (p_done (fl_entries f ! fl_next f)) res,
                      a\<lparr>flights := (if Suc (fl_next f) < length (fl_entries f)
                                    then (flights a)[k := f\<lparr>fl_next := Suc (fl_next f)\<rparr>]
                                    else take k (flights a) @ drop (Suc k) (flights a))\<rparr>)
         else (d, a))"

datatype 'w ab_event =
    AddItem "'w promised" | MultiAddItems "'w promised list" | TimerFires | CloseStarts | CloseEnds
  | FlushReturns nat ProduceResult | ReportNext nat

fun ab_step :: "'w routedBatch \<Rightarrow> done_state \<times> 'w AgentBuffer \<Rightarrow> 'w ab_event \<Rightarrow> (done_state \<times> 'w AgentBuffer) option" where
  "ab_step B s (AddItem p) = ab_Add B s p"
| "ab_step B s (MultiAddItems ps) = ab_MultiAdd B s ps"
| "ab_step B (d, a) TimerFires = map_option (Pair d) (timerFlush B a)"
| "ab_step B (d, a) CloseStarts = map_option (Pair d) (ab_Close B a)"
| "ab_step B (d, a) CloseEnds = Some (d, ab_Close_end a)"
| "ab_step B (d, a) (FlushReturns k res) = Some (d, flush_returns a k res)"
| "ab_step B s (ReportNext k) = Some (report_next s k)"

primrec ab_run :: "'w routedBatch \<Rightarrow> done_state \<times> 'w AgentBuffer \<Rightarrow> 'w ab_event list \<Rightarrow> (done_state \<times> 'w AgentBuffer) option" where
  "ab_run B s [] = Some s"
| "ab_run B s (ev # evs) = (case ab_step B s ev of None \<Rightarrow> None | Some s \<Rightarrow> ab_run B s evs)"

section \<open>Tokens held by the buffer\<close>

definition flight_tokens :: "'w flight \<Rightarrow> nat multiset" where
  "flight_tokens f = mset (map p_done (drop (fl_next f) (fl_entries f)))"

definition ab_tokens :: "'w AgentBuffer \<Rightarrow> nat multiset" where
  "ab_tokens a = mset (map p_done (nextProduceItems a)) + sum_list (map flight_tokens (flights a))"

fun ev_items :: "'w ab_event \<Rightarrow> 'w promised list" where
  "ev_items (AddItem p) = [p]"
| "ev_items (MultiAddItems ps) = ps"
| "ev_items _ = []"

abbreviation ev_tokens :: "'w ab_event \<Rightarrow> nat multiset" where
  "ev_tokens ev \<equiv> mset (map p_done (ev_items ev))"

text \<open>The steps the goroutines of the flights still have to take.\<close>

definition flight_work :: "'w flight \<Rightarrow> nat" where
  "flight_work f = length (fl_entries f) - fl_next f + (if fl_res f = None then 1 else 0)"

definition outstanding :: "'w AgentBuffer \<Rightarrow> nat" where
  "outstanding a = sum_list (map flight_work (flights a))"

fun completion_enabled :: "'w AgentBuffer \<Rightarrow> 'w ab_event \<Rightarrow> bool" where
  "completion_enabled a (FlushReturns k res) \<longleftrightarrow> k < length (flights a) \<and> fl_res (flights a ! k) = None"
| "completion_enabled a (ReportNext k) \<longleftrightarrow> k < length (flights a) \<and> fl_res (flights a ! k) \<noteq> None"
| "completion_enabled a ev \<longleftrightarrow> False"

section \<open>The buffer invariant\<close>

definition item_ok :: "'w routedBatch \<Rightarrow> ('w \<Rightarrow> bool) \<Rightarrow> node_id \<Rightarrow> 'w promised \<Rightarrow> bool" where
  "item_ok B valid nd p \<longleftrightarrow> valid (p_item p) \<and> getNodeID B (p_item p) = nd \<and> 0 < recordCount B (p_item p)"

definition fits :: "'w routedBatch \<Rightarrow> int \<Rightarrow> 'w promised list \<Rightarrow> bool" where
  "fits B m es \<longleftrightarrow> (\<Sum>e\<leftarrow>es. uncompressedWireBytes B (p_item e)) \<le> m \<or> length es \<le> 1"

lemma sum_list_map_split:
  "k < length fs \<Longrightarrow> sum_list (map w fs) = w (fs ! k) + (sum_list (map w (take k fs @ drop (Suc k) fs)) :: 'b::comm_monoid_add)"
  by (subst id_take_nth_drop [of k fs]) (simp_all add: ac_simps)

lemma sum_list_map_update:
  "k < length fs \<Longrightarrow> sum_list (map w (fs[k := f])) = w f + (sum_list (map w (take k fs @ drop (Suc k) fs)) :: 'b::comm_monoid_add)"
  by (simp add: upd_conv_take_nth_drop ac_simps)

context routed_batch
begin

definition flight_ok :: "'w AgentBuffer \<Rightarrow> 'w flight \<Rightarrow> bool" where
  "flight_ok a f \<longleftrightarrow> (\<forall>e\<in>set (fl_entries f). item_ok B valid (ab_nodeID a) e) \<and> fl_next f < length (fl_entries f) \<and>
     mergePromisedRoutedBatchByTopicPartition B (fl_entries f) = Some (fl_wire f) \<and>
     fits B (ab_batchMaxBytes a) (fl_entries f)"

definition pending_ok :: "'w AgentBuffer \<Rightarrow> bool" where
  "pending_ok a \<longleftrightarrow> (\<forall>e\<in>set (nextProduceItems a). item_ok B valid (ab_nodeID a) e) \<and>
     nextProduceRecords a = (\<Sum>e\<leftarrow>nextProduceItems a. recordCount B (p_item e)) \<and>
     nextProduceWireBytes a = (\<Sum>e\<leftarrow>nextProduceItems a. uncompressedWireBytes B (p_item e)) \<and>
     fits B (ab_batchMaxBytes a) (nextProduceItems a) \<and>
     (nextProduceFlushTimer a \<longrightarrow> nextProduceItems a \<noteq> []) \<and> (\<forall>f\<in>set (flights a). flight_ok a f)"

definition buffer_ok :: "'w AgentBuffer \<Rightarrow> bool" where
  "buffer_ok a \<longleftrightarrow> pending_ok a \<and> (nextProduceFlushTimer a \<longleftrightarrow> nextProduceItems a \<noteq> []) \<and>
     (ab_closed a \<longrightarrow> nextProduceItems a = []) \<and> (flushCtxCanceled a \<longrightarrow> ab_closed a \<and> flights a = [])"

lemma records_zero: "pending_ok a \<Longrightarrow> 0 \<le> nextProduceRecords a \<and> (nextProduceRecords a = 0 \<longleftrightarrow> nextProduceItems a = [])"
proof -
  assume "pending_ok a"
  then have "nextProduceRecords a = (\<Sum>e\<leftarrow>nextProduceItems a. recordCount B (p_item e))"
    "\<forall>e\<in>set (nextProduceItems a). 0 < recordCount B (p_item e)" by (auto simp: pending_ok_def item_ok_def)
  moreover have "0 \<le> (\<Sum>e\<leftarrow>es. recordCount B (p_item e)) \<and> ((\<Sum>e\<leftarrow>es. recordCount B (p_item e)) = 0 \<longleftrightarrow> es = [])"
    if "\<forall>e\<in>set es. 0 < recordCount B (p_item e)" for es using that by (induction es) auto
  ultimately show ?thesis by auto
qed

lemma startFlush_ok:
  assumes "pending_ok a"
  obtains a' where "startFlushLocked B a = Some a'" "pending_ok a'" "nextProduceItems a' = []" "\<not> nextProduceFlushTimer a'"
    "ab_tokens a' = ab_tokens a" "ab_closed a' = ab_closed a" "flushCtxCanceled a' = flushCtxCanceled a"
    "ab_nodeID a' = ab_nodeID a" "ab_batchMaxBytes a' = ab_batchMaxBytes a" "nextProduceItems a = [] \<Longrightarrow> a' = a"
proof (cases "nextProduceItems a = []")
  case True
  then show thesis using assms records_zero [OF assms]
    by (intro that [of a]) (auto simp: startFlushLocked_def pending_ok_def)
next
  case False
  then have r: "nextProduceRecords a \<noteq> 0" using records_zero [OF assms] by simp
  have "\<And>e. e \<in> set (nextProduceItems a) \<Longrightarrow> valid (p_item e) \<and> getNodeID B (p_item e) = ab_nodeID a"
    using assms by (auto simp: pending_ok_def item_ok_def)
  from merge_wire [OF this] obtain ws where ws: "mergePromisedRoutedBatchByTopicPartition B (nextProduceItems a) = Some ws" by blast
  show thesis
    using assms r False ws
    by (intro that [of "the (startFlushLocked B a)"])
       (auto simp: startFlushLocked_def pending_ok_def flight_ok_def fits_def ab_tokens_def flight_tokens_def)
qed

lemma addToNext_ok:
  assumes "pending_ok a" "item_ok B valid (ab_nodeID a) p"
  obtains a' where "addToNextProduceLocked B a p = Some a'" "pending_ok a'" "nextProduceItems a' \<noteq> []"
    "ab_tokens a' = ab_tokens a + {#p_done p#}" "ab_closed a' = ab_closed a" "flushCtxCanceled a' = flushCtxCanceled a"
    "ab_nodeID a' = ab_nodeID a" "ab_batchMaxBytes a' = ab_batchMaxBytes a"
proof -
  let ?add = "uncompressedWireBytes B (p_item p)"
  let ?over = "nextProduceRecords a > 0 \<and> nextProduceWireBytes a + ?add > ab_batchMaxBytes a"
  obtain b where b: "(if ?over then startFlushLocked B a else Some a) = Some b" "pending_ok b"
      "ab_tokens b = ab_tokens a" "ab_closed b = ab_closed a" "flushCtxCanceled b = flushCtxCanceled a"
      "ab_nodeID b = ab_nodeID a" "ab_batchMaxBytes b = ab_batchMaxBytes a"
      "nextProduceItems b = [] \<or> nextProduceWireBytes b + ?add \<le> ab_batchMaxBytes b"
  proof (cases ?over)
    case True
    with startFlush_ok [OF assms(1)] that show thesis by (metis (full_types))
  next
    case False
    have "nextProduceItems a = [] \<or> nextProduceWireBytes a + ?add \<le> ab_batchMaxBytes a"
      using False records_zero [OF assms(1)] by linarith
    then show thesis using that [of a] False assms(1) by auto
  qed
  let ?c = "b\<lparr>nextProduceItems := nextProduceItems b @ [p], nextProduceRecords := nextProduceRecords b + recordCount B (p_item p),
      nextProduceWireBytes := nextProduceWireBytes b + ?add\<rparr>"
  have "addToNextProduceLocked B a p = Some ?c" using b(1) by (auto simp: addToNextProduceLocked_def Let_def)
  moreover have "pending_ok ?c" using b(2,6,8) assms(2)
    by (auto simp: pending_ok_def flight_ok_def fits_def)
  ultimately show thesis using that [of ?c] b by (simp add: ab_tokens_def)
qed

lemma add_chunks_ok:
  assumes "pending_ok a" "\<forall>p\<in>set ps. item_ok B valid (ab_nodeID a) p"
  shows "\<exists>a'. add_chunks B a ps = Some a' \<and> pending_ok a' \<and> (ps \<noteq> [] \<longrightarrow> nextProduceItems a' \<noteq> []) \<and>
    ab_tokens a' = ab_tokens a + mset (map p_done ps) \<and> ab_closed a' = ab_closed a \<and> flushCtxCanceled a' = flushCtxCanceled a \<and>
    ab_nodeID a' = ab_nodeID a \<and> ab_batchMaxBytes a' = ab_batchMaxBytes a"
  using assms
proof (induction ps arbitrary: a)
  case (Cons p ps)
  obtain b where b: "addToNextProduceLocked B a p = Some b" "pending_ok b" "nextProduceItems b \<noteq> []"
    "ab_tokens b = ab_tokens a + {#p_done p#}" "ab_closed b = ab_closed a" "flushCtxCanceled b = flushCtxCanceled a"
    "ab_nodeID b = ab_nodeID a" "ab_batchMaxBytes b = ab_batchMaxBytes a"
    using addToNext_ok [of a p] Cons.prems by auto
  from Cons.IH [OF b(2)] Cons.prems(2) b(7) obtain c where c: "add_chunks B b ps = Some c" "pending_ok c"
    "ps \<noteq> [] \<longrightarrow> nextProduceItems c \<noteq> []" "ab_tokens c = ab_tokens b + mset (map p_done ps)" "ab_closed c = ab_closed b"
    "flushCtxCanceled c = flushCtxCanceled b" "ab_nodeID c = ab_nodeID b" "ab_batchMaxBytes c = ab_batchMaxBytes b" by auto
  then show ?case using b by (cases "ps = []") auto
qed simp

lemma maybeStart_ok:
  assumes "pending_ok a" "\<not> ab_closed a" "\<not> flushCtxCanceled a"
  shows "buffer_ok (maybeStartNextFlushTimerLocked a)" "ab_tokens (maybeStartNextFlushTimerLocked a) = ab_tokens a"
proof -
  have "nextProduceRecords a > 0 \<longleftrightarrow> nextProduceItems a \<noteq> []" using records_zero [OF assms(1)] by linarith
  then show "buffer_ok (maybeStartNextFlushTimerLocked a)" "ab_tokens (maybeStartNextFlushTimerLocked a) = ab_tokens a"
    using assms by (auto simp: buffer_ok_def maybeStartNextFlushTimerLocked_def pending_ok_def flight_ok_def ab_tokens_def)
qed

end

section \<open>Splitting and firing are moves of the token game\<close>

lemma token_steps_fire_all: "token_steps (d, N + mset (map p_done ps)) (fire_all d ps res, N)"
proof (induction ps arbitrary: d)
  case (Cons p ps)
  have "token_step (d, N + mset (map p_done (p # ps))) (fire d (p_done p) res, N + mset (map p_done (p # ps)) - {#p_done p#})"
    by (rule token_step.spend) simp
  then have "token_step (d, N + mset (map p_done (p # ps))) (fire d (p_done p) res, N + mset (map p_done ps))" by simp
  also have "token_steps \<dots> (fire_all (fire d (p_done p) res) ps res, N)" by (rule Cons.IH)
  finally (converse_rtranclp_into_rtranclp) show ?case by (simp add: fire_all_def)
qed (simp add: fire_all_def)

context routed_batch
begin

lemma split_promised_tokens:
  assumes "item_ok B valid nd p" "plain_done d (p_done p)" and s: "splitPromisedRoutedBatchByBatchMaxBytes B d p m = (d', cs)"
  shows "token_steps (d, N + {#p_done p#}) (d', N + mset (map p_done cs))" "\<forall>c\<in>set cs. item_ok B valid nd c"
    "\<And>i. plain_done d i \<Longrightarrow> plain_done d' i" "cs \<noteq> []"
proof -
  let ?ks = "splitByMaxBytes B (p_item p) m"
  have ok: "item_ok B valid nd \<lparr>p_item = c, p_done = i\<rparr>" if "c \<in> set ?ks" for c i
    using that assms(1) split_valid split_routing split_full by (auto simp: item_ok_def)
  have "token_steps (d, N + {#p_done p#}) (d', N + mset (map p_done cs)) \<and> (\<forall>c\<in>set cs. item_ok B valid nd c) \<and>
    (\<forall>i. plain_done d i \<longrightarrow> plain_done d' i) \<and> cs \<noteq> []"
  proof (cases "length ?ks \<le> 1")
    case True
    then show ?thesis using s assms(1) by (auto simp: splitPromisedRoutedBatchByBatchMaxBytes_def Let_def)
  next
    case False
    define f where "f = \<lparr>fan_origDone = p_done p, fan_tp = getTopicPartition B (p_item p), fan_remaining = int (length ?ks),
        fan_chosen = None, fan_chosenOK = False\<rparr>"
    have d': "d' = d\<lparr>callbacks := callbacks d @ [FanIn f]\<rparr>" and cs: "cs = map (\<lambda>c. \<lparr>p_item = c, p_done = length (callbacks d)\<rparr>) ?ks"
      using False s by (auto simp: splitPromisedRoutedBatchByBatchMaxBytes_def new_callback_def Let_def f_def)
    have "mset (map p_done cs) = replicate_mset (length ?ks) (length (callbacks d))"
      by (simp add: cs o_def map_replicate_const)
    moreover have "token_step (d, N + {#p_done p#}) (d', N + {#p_done p#} - {#p_done p#} + replicate_mset (length ?ks) (length (callbacks d)))"
      unfolding d' f_def using False assms(2) by (intro token_step.exchange) (auto simp: plain_done_def)
    ultimately have "token_steps (d, N + {#p_done p#}) (d', N + mset (map p_done cs))" by auto
    moreover have "cs \<noteq> []" using False by (auto simp: cs)
    ultimately show ?thesis using ok by (auto simp: cs d')
  qed
  then show "token_steps (d, N + {#p_done p#}) (d', N + mset (map p_done cs))" "\<forall>c\<in>set cs. item_ok B valid nd c"
    "\<And>i. plain_done d i \<Longrightarrow> plain_done d' i" "cs \<noteq> []" by auto
qed

lemma split_items_tokens:
  assumes "\<forall>p\<in>set ps. item_ok B valid nd p \<and> plain_done d (p_done p)" "split_items B m d ps = (d', cs)"
  shows "token_steps (d, N + mset (map p_done ps)) (d', N + mset (map p_done cs)) \<and> (\<forall>c\<in>set cs. item_ok B valid nd c) \<and>
    (\<forall>i. plain_done d i \<longrightarrow> plain_done d' i) \<and> (ps \<noteq> [] \<longrightarrow> cs \<noteq> [])"
  using assms
proof (induction ps arbitrary: d d' cs N)
  case (Cons p ps)
  obtain e bs where e: "splitPromisedRoutedBatchByBatchMaxBytes B d p m = (e, bs)" by force
  obtain d'' rest where r: "split_items B m e ps = (d'', rest)" by force
  have eq: "d' = d''" "cs = bs @ rest" using Cons.prems(2) e r by (simp_all add: Let_def)
  note sp = split_promised_tokens [OF _ _ e, of nd]
  have p: "item_ok B valid nd p" "plain_done d (p_done p)" using Cons.prems(1) by auto
  have "token_steps (d, N + mset (map p_done (p # ps))) (e, N + mset (map p_done ps) + mset (map p_done bs))"
    using sp(1) [OF p, of "N + mset (map p_done ps)"] by (simp add: ac_simps)
  moreover have "token_steps (e, (N + mset (map p_done bs)) + mset (map p_done ps)) (d'', (N + mset (map p_done bs)) + mset (map p_done rest))"
    and "\<forall>c\<in>set rest. item_ok B valid nd c" "\<forall>i. plain_done e i \<longrightarrow> plain_done d'' i"
    using Cons.IH [OF _ r, of "N + mset (map p_done bs)"] Cons.prems(1) sp(3) [OF p] by auto
  ultimately show ?case using sp(2-4) [OF p] by (auto simp: eq ac_simps)
qed simp

lemma multiAdd_ok:
  assumes ok: "buffer_ok a" and items: "\<forall>p\<in>set ps. item_ok B valid (ab_nodeID a) p \<and> plain_done d (p_done p)"
  shows "\<exists>d' a'. ab_MultiAdd B (d, a) ps = Some (d', a') \<and> buffer_ok a' \<and> ab_nodeID a' = ab_nodeID a \<and>
    ab_batchMaxBytes a' = ab_batchMaxBytes a \<and> (ab_closed a' \<longleftrightarrow> ab_closed a) \<and>
    token_steps (d, ab_tokens a + mset (map p_done ps)) (d', ab_tokens a')"
proof (cases "ps = []")
  case True
  then show ?thesis using ok by (simp add: ab_MultiAdd_def)
next
  case False
  have "0 < (\<Sum>p\<leftarrow>qs. recordCount B (p_item p)) \<or> qs = []" if "\<forall>p\<in>set qs. item_ok B valid (ab_nodeID a) p" for qs
    using that by (induction qs) (auto simp: item_ok_def)
  from this [of ps] items False have inc: "(\<Sum>p\<leftarrow>ps. recordCount B (p_item p)) \<noteq> 0" by auto
  obtain e cs where sp: "split_items B (ab_batchMaxBytes a) d ps = (e, cs)" by force
  note t = split_items_tokens [OF items sp, of "ab_tokens a"]
  show ?thesis
  proof (cases "ab_closed a")
    case True
    have "token_steps (e, ab_tokens a + mset (map p_done cs)) (fire_all e cs (err_result errBufferClosed), ab_tokens a)"
      by (rule token_steps_fire_all)
    with t have "token_steps (d, ab_tokens a + mset (map p_done ps)) (fire_all e cs (err_result errBufferClosed), ab_tokens a)"
      by (metis rtranclp_trans)
    then show ?thesis using ok inc sp True by (simp add: ab_MultiAdd_def Let_def)
  next
    case opened: False
    then have nc: "\<not> flushCtxCanceled a" and pend: "pending_ok a" using ok by (auto simp: buffer_ok_def)
    from add_chunks_ok [OF pend, of cs] t obtain b where b: "add_chunks B a cs = Some b" "pending_ok b"
      "ab_tokens b = ab_tokens a + mset (map p_done cs)" "ab_closed b = ab_closed a" "flushCtxCanceled b = flushCtxCanceled a"
      "ab_nodeID b = ab_nodeID a" "ab_batchMaxBytes b = ab_batchMaxBytes a" by auto
    let ?b = "maybeStartNextFlushTimerLocked b"
    have "buffer_ok ?b" "ab_tokens ?b = ab_tokens b" using maybeStart_ok [of b] b opened nc by auto
    moreover have "ab_nodeID ?b = ab_nodeID b" "ab_batchMaxBytes ?b = ab_batchMaxBytes b" "ab_closed ?b = ab_closed b"
      by (simp_all add: maybeStartNextFlushTimerLocked_def)
    ultimately show ?thesis using t inc sp opened b by (simp add: ab_MultiAdd_def Let_def)
  qed
qed

lemma add_ok:
  assumes ok: "buffer_ok a" and item: "item_ok B valid (ab_nodeID a) p" "plain_done d (p_done p)"
  shows "\<exists>d' a'. ab_Add B (d, a) p = Some (d', a') \<and> buffer_ok a' \<and> ab_nodeID a' = ab_nodeID a \<and>
    ab_batchMaxBytes a' = ab_batchMaxBytes a \<and> (ab_closed a' \<longleftrightarrow> ab_closed a) \<and>
    token_steps (d, ab_tokens a + {#p_done p#}) (d', ab_tokens a')"
proof -
  have r: "recordCount B (p_item p) \<noteq> 0" using item(1) by (simp add: item_ok_def)
  consider (big) "uncompressedWireBytes B (p_item p) > ab_batchMaxBytes a"
    | (closed) "\<not> uncompressedWireBytes B (p_item p) > ab_batchMaxBytes a" "ab_closed a"
    | (add) "\<not> uncompressedWireBytes B (p_item p) > ab_batchMaxBytes a" "\<not> ab_closed a" by blast
  then show ?thesis
  proof cases
    case big
    then show ?thesis using multiAdd_ok [OF ok, of "[p]" d] item r by (simp add: ab_Add_def)
  next
    case closed
    have "token_step (d, ab_tokens a + {#p_done p#})
        (fire d (p_done p) (err_result errBufferClosed), ab_tokens a + {#p_done p#} - {#p_done p#})"
      by (rule token_step.spend) simp
    then show ?thesis using closed r ok by (simp add: ab_Add_def r_into_rtranclp)
  next
    case add
    then have nc: "\<not> flushCtxCanceled a" and pend: "pending_ok a" using ok by (auto simp: buffer_ok_def)
    from addToNext_ok [OF pend item(1)] obtain b where b: "addToNextProduceLocked B a p = Some b" "pending_ok b"
      "ab_tokens b = ab_tokens a + {#p_done p#}" "ab_closed b = ab_closed a" "flushCtxCanceled b = flushCtxCanceled a"
      "ab_nodeID b = ab_nodeID a" "ab_batchMaxBytes b = ab_batchMaxBytes a" by metis
    let ?b = "maybeStartNextFlushTimerLocked b"
    have "buffer_ok ?b" "ab_tokens ?b = ab_tokens b" using maybeStart_ok [of b] b add nc by auto
    moreover have "ab_nodeID ?b = ab_nodeID b" "ab_batchMaxBytes ?b = ab_batchMaxBytes b" "ab_closed ?b = ab_closed b"
      by (simp_all add: maybeStartNextFlushTimerLocked_def)
    ultimately show ?thesis using r add b by (simp add: ab_Add_def)
  qed
qed

lemma close_ok:
  assumes "buffer_ok a"
  shows "\<exists>a'. ab_Close B a = Some a' \<and> buffer_ok a' \<and> ab_closed a' \<and> ab_nodeID a' = ab_nodeID a \<and>
    ab_batchMaxBytes a' = ab_batchMaxBytes a \<and> ab_tokens a' = ab_tokens a"
proof (cases "ab_closed a")
  case False
  let ?c = "a\<lparr>ab_closed := True\<rparr>"
  have "pending_ok ?c" "\<not> flushCtxCanceled a" using assms False by (auto simp: buffer_ok_def pending_ok_def flight_ok_def)
  moreover obtain a' where "startFlushLocked B ?c = Some a'" "pending_ok a'" "nextProduceItems a' = []" "\<not> nextProduceFlushTimer a'"
    "ab_tokens a' = ab_tokens ?c" "ab_closed a' = ab_closed ?c" "flushCtxCanceled a' = flushCtxCanceled ?c"
    "ab_nodeID a' = ab_nodeID ?c" "ab_batchMaxBytes a' = ab_batchMaxBytes ?c"
    using startFlush_ok [OF calculation(1)] by metis
  ultimately show ?thesis using False by (simp add: ab_Close_def buffer_ok_def ab_tokens_def)
qed (use assms in \<open>simp add: ab_Close_def\<close>)

lemma timer_ok:
  assumes "buffer_ok a"
  shows "\<exists>a'. timerFlush B a = Some a' \<and> buffer_ok a' \<and> ab_nodeID a' = ab_nodeID a \<and> ab_closed a' = ab_closed a \<and>
    ab_batchMaxBytes a' = ab_batchMaxBytes a \<and> ab_tokens a' = ab_tokens a"
proof (cases "nextProduceItems a = []")
  case True
  then show ?thesis using assms records_zero [of a] by (simp add: timerFlush_def startFlushLocked_def buffer_ok_def)
next
  case False
  then have "pending_ok a" "\<not> flushCtxCanceled a" using assms by (auto simp: buffer_ok_def)
  moreover obtain a' where "startFlushLocked B a = Some a'" "pending_ok a'" "nextProduceItems a' = []" "\<not> nextProduceFlushTimer a'"
    "ab_tokens a' = ab_tokens a" "ab_closed a' = ab_closed a" "flushCtxCanceled a' = flushCtxCanceled a"
    "ab_nodeID a' = ab_nodeID a" "ab_batchMaxBytes a' = ab_batchMaxBytes a"
    using startFlush_ok [OF calculation(1)] by metis
  ultimately show ?thesis by (simp add: timerFlush_def buffer_ok_def)
qed

lemma report_ok:
  assumes ok: "buffer_ok a" and r: "report_next (d, a) k = (d', a')"
  shows "buffer_ok a' \<and> ab_nodeID a' = ab_nodeID a \<and> ab_batchMaxBytes a' = ab_batchMaxBytes a \<and>
    (ab_closed a' \<longleftrightarrow> ab_closed a) \<and> token_steps (d, ab_tokens a) (d', ab_tokens a')"
proof (cases "k < length (flights a) \<and> fl_res (flights a ! k) \<noteq> None")
  case True
  then obtain res where k: "k < length (flights a)" and res: "fl_res (flights a ! k) = Some res" by auto
  let ?f = "flights a ! k" and ?rest = "take k (flights a) @ drop (Suc k) (flights a)"
  have f: "flight_ok a ?f" using ok k by (auto simp: buffer_ok_def pending_ok_def)
  then have nx: "fl_next ?f < length (fl_entries ?f)" by (simp add: flight_ok_def)
  let ?p = "fl_entries ?f ! fl_next ?f"
  have a': "d' = fire d (p_done ?p) res" "a' = a\<lparr>flights := (if Suc (fl_next ?f) < length (fl_entries ?f)
      then (flights a)[k := ?f\<lparr>fl_next := Suc (fl_next ?f)\<rparr>] else ?rest)\<rparr>"
    using r k res by (auto simp: report_next_def Let_def)
  have "ab_tokens a = ab_tokens a' + {#p_done ?p#}"
  proof -
    have "drop (fl_next ?f) (fl_entries ?f) = ?p # drop (Suc (fl_next ?f)) (fl_entries ?f)"
      using nx by (simp add: Cons_nth_drop_Suc)
    then have "flight_tokens ?f = {#p_done ?p#} + flight_tokens (?f\<lparr>fl_next := Suc (fl_next ?f)\<rparr>)" by (simp add: flight_tokens_def)
    moreover have "flight_tokens (?f\<lparr>fl_next := Suc (fl_next ?f)\<rparr>) = {#}" if "\<not> Suc (fl_next ?f) < length (fl_entries ?f)"
      using that by (simp add: flight_tokens_def)
    ultimately show ?thesis
      using sum_list_map_split [OF k, of flight_tokens] sum_list_map_update [OF k, of flight_tokens "?f\<lparr>fl_next := Suc (fl_next ?f)\<rparr>"]
      by (auto simp: ab_tokens_def a'(2))
  qed
  then have "token_step (d, ab_tokens a) (d', ab_tokens a')"
    using token_step.spend [of "p_done ?p" "ab_tokens a" d res] by (simp add: a'(1))
  moreover have "set (flights a') \<subseteq> insert (?f\<lparr>fl_next := Suc (fl_next ?f)\<rparr>) (set (flights a)) \<and>
      (\<not> Suc (fl_next ?f) < length (fl_entries ?f) \<longrightarrow> set (flights a') \<subseteq> set (flights a))"
    using set_update_subset_insert [of "flights a" k] by (auto simp: a'(2) dest: in_set_takeD in_set_dropD)
  then have "\<forall>g\<in>set (flights a'). flight_ok a g"
    using ok f by (cases "Suc (fl_next ?f) < length (fl_entries ?f)") (auto simp: buffer_ok_def pending_ok_def flight_ok_def)
  then have "buffer_ok a'" using ok k by (auto simp: a'(2) buffer_ok_def pending_ok_def flight_ok_def)
  ultimately show ?thesis by (auto simp: a'(2))
next
  case False
  then have "(d', a') = (d, a)" using r by (auto simp: report_next_def Let_def split: if_splits)
  then show ?thesis using ok by simp
qed

lemma returns_ok:
  assumes "buffer_ok a"
  shows "buffer_ok (flush_returns a k res)" "ab_tokens (flush_returns a k res) = ab_tokens a"
proof -
  let ?f = "(flights a ! k)\<lparr>fl_res := Some res\<rparr>"
  have "flight_ok a ?f" if "k < length (flights a)" using that assms by (auto simp: buffer_ok_def pending_ok_def flight_ok_def)
  then have "\<forall>g\<in>set ((flights a)[k := ?f]). flight_ok a g" if "k < length (flights a)"
    using that assms set_update_subset_insert [of "flights a" k ?f] by (auto simp: buffer_ok_def pending_ok_def)
  then show "buffer_ok (flush_returns a k res)"
    using assms by (auto simp: flush_returns_def buffer_ok_def pending_ok_def flight_ok_def)
  have "flight_tokens ?f = flight_tokens (flights a ! k)" by (simp add: flight_tokens_def)
  then show "ab_tokens (flush_returns a k res) = ab_tokens a"
    using sum_list_map_split [of k "flights a" flight_tokens] sum_list_map_update [of k "flights a" flight_tokens ?f]
    by (simp add: flush_returns_def ab_tokens_def)
qed

text \<open>Every step of the buffer keeps its invariant and is a sequence of moves of the token game.\<close>

lemma step_ok:
  assumes ok: "buffer_ok a" and items: "\<forall>p\<in>set (ev_items ev). item_ok B valid (ab_nodeID a) p \<and> plain_done d (p_done p)"
  shows "\<exists>d' a'. ab_step B (d, a) ev = Some (d', a') \<and> buffer_ok a' \<and> ab_nodeID a' = ab_nodeID a \<and>
    ab_batchMaxBytes a' = ab_batchMaxBytes a \<and> token_steps (d, ab_tokens a + ev_tokens ev) (d', ab_tokens a')"
proof (cases ev)
  case (AddItem p)
  then show ?thesis using add_ok [OF ok, of p d] items by auto
next
  case (MultiAddItems ps)
  then show ?thesis using multiAdd_ok [OF ok, of ps d] items by auto
next
  case TimerFires
  then show ?thesis using timer_ok [OF ok] by auto
next
  case CloseStarts
  then show ?thesis using close_ok [OF ok] by auto
next
  case CloseEnds
  then show ?thesis using ok by (auto simp: ab_Close_end_def buffer_ok_def pending_ok_def flight_ok_def ab_tokens_def)
next
  case (FlushReturns k res)
  then show ?thesis using returns_ok [OF ok, of k res] by (simp add: flush_returns_def)
next
  case (ReportNext k)
  obtain d' a' where "report_next (d, a) k = (d', a')" by force
  then show ?thesis using ReportNext report_ok [OF ok] by auto
qed

definition balance_ok :: "done_state \<times> 'w AgentBuffer \<Rightarrow> bool" where
  "balance_ok s \<longleftrightarrow> buffer_ok (snd s) \<and> no_wraps (fst s) \<and> tokens_ok (fst s) (ab_tokens (snd s))"

lemma run_ok:
  assumes "balance_ok (d, a)" "\<forall>j<n. callbacks d ! j = User" "n \<le> length (callbacks d)" "ab_nodeID a = nd"
    and "\<forall>ev\<in>set evs. \<forall>p\<in>set (ev_items ev). item_ok B valid nd p \<and> p_done p < n"
  shows "\<exists>d' a'. ab_run B (d, a) evs = Some (d', a') \<and> balance_ok (d', a') \<and>
    ab_batchMaxBytes a' = ab_batchMaxBytes a \<and>
    (\<forall>j<n. calls d' j + demand d' (ab_tokens a') j =
       calls d j + demand d (ab_tokens a) j + count (mset (map p_done (concat (map ev_items evs)))) j)"
  using assms
proof (induction evs arbitrary: d a)
  case (Cons ev evs)
  have plain: "plain_done d j" if "j < n" for j using Cons.prems(2,3) that by (simp add: plain_done_def)
  have inv: "buffer_ok a" "no_wraps d" "tokens_ok d (ab_tokens a)" using Cons.prems(1) by (simp_all add: balance_ok_def)
  obtain e b where e: "ab_step B (d, a) ev = Some (e, b)" "buffer_ok b" "ab_nodeID b = nd" "ab_batchMaxBytes b = ab_batchMaxBytes a"
      "token_steps (d, ab_tokens a + ev_tokens ev) (e, ab_tokens b)"
    using step_ok [OF inv(1), of ev d] Cons.prems(4,5) plain by auto
  have new: "\<forall>i\<in>#ev_tokens ev. plain_done d i" using Cons.prems(5) plain by auto
  have bal: "balanced (d, ab_tokens a + ev_tokens ev) (e, ab_tokens b)"
    using token_steps_balanced [OF e(5)] inv tokens_ok_add(1) [OF inv(3) new] by simp
  then have "balance_ok (e, b)" "\<forall>j<n. callbacks e ! j = User" "n \<le> length (callbacks e)"
    using Cons.prems(2,3) e(2) by (auto simp: balance_ok_def balanced_def)
  from Cons.IH [OF this e(3)] Cons.prems(5) obtain d' a' where d': "ab_run B (e, b) evs = Some (d', a')" "balance_ok (d', a')"
      "ab_batchMaxBytes a' = ab_batchMaxBytes b"
      "\<forall>j<n. calls d' j + demand d' (ab_tokens a') j =
         calls e j + demand e (ab_tokens b) j + count (mset (map p_done (concat (map ev_items evs)))) j" by auto
  moreover have "calls e j + demand e (ab_tokens b) j = calls d j + demand d (ab_tokens a) j + count (ev_tokens ev) j" if "j < n" for j
    using bal Cons.prems(2,3) that tokens_ok_add(2) [OF inv(3) new] by (simp add: balanced_def)
  ultimately show ?case using e(1,4) by simp
qed simp

text \<open>A closed buffer starts no flush, and each completion step brings it nearer to being drained.\<close>

lemma closed_step:
  assumes ok: "buffer_ok a" and closed: "ab_closed a"
    and st: "ab_step B (d, a) ev = Some (d', a')"
  shows "ab_closed a' \<and> outstanding a' + (if completion_enabled a ev then 1 else 0) = outstanding a"
proof (cases ev)
  case TimerFires
  have "nextProduceRecords a = 0" using ok closed records_zero by (auto simp: buffer_ok_def)
  then show ?thesis using st closed TimerFires by (auto simp: timerFlush_def startFlushLocked_def)
next
  case (FlushReturns k res)
  then have a': "a' = flush_returns a k res" using st by simp
  let ?f = "(flights a ! k)\<lparr>fl_res := Some res\<rparr>"
  have "flight_work (flights a ! k) = Suc (flight_work ?f)" if "fl_res (flights a ! k) = None" using that by (simp add: flight_work_def)
  then show ?thesis using FlushReturns closed
    sum_list_map_split [of k "flights a" flight_work] sum_list_map_update [of k "flights a" flight_work ?f]
    by (auto simp: a' flush_returns_def outstanding_def)
next
  case (ReportNext k)
  show ?thesis
  proof (cases "completion_enabled a ev")
    case True
    then obtain res where k: "k < length (flights a)" "fl_res (flights a ! k) = Some res" using ReportNext by auto
    let ?f = "flights a ! k" and ?g = "(flights a ! k)\<lparr>fl_next := Suc (fl_next (flights a ! k))\<rparr>"
    have nx: "fl_next ?f < length (fl_entries ?f)" using ok k(1) by (auto simp: buffer_ok_def pending_ok_def flight_ok_def)
    have a': "a' = a\<lparr>flights := (if Suc (fl_next ?f) < length (fl_entries ?f) then (flights a)[k := ?g]
        else take k (flights a) @ drop (Suc k) (flights a))\<rparr>"
      using st k ReportNext by (auto simp: report_next_def Let_def)
    have "flight_work ?f = Suc (flight_work ?g)" "\<not> Suc (fl_next ?f) < length (fl_entries ?f) \<Longrightarrow> flight_work ?f = 1"
      using nx k(2) by (auto simp: flight_work_def)
    then show ?thesis using True closed
      sum_list_map_split [OF k(1), of flight_work] sum_list_map_update [OF k(1), of flight_work ?g]
      by (auto simp: a' outstanding_def)
  next
    case False
    then show ?thesis using st ReportNext closed by (auto simp: report_next_def Let_def split: if_splits)
  qed
qed (use st closed in \<open>auto simp: ab_Add_def ab_MultiAdd_def ab_Close_def ab_Close_end_def outstanding_def Let_def
       split: if_splits prod.splits\<close>)

lemma drained_iff: "buffer_ok a \<Longrightarrow> outstanding a = 0 \<longleftrightarrow> flights a = []"
  by (cases "flights a") (auto simp: outstanding_def flight_work_def buffer_ok_def pending_ok_def flight_ok_def)

lemma new_buffer_ok: "buffer_ok (NewAgentBuffer nd m)"
  by (simp add: buffer_ok_def pending_ok_def NewAgentBuffer_def fits_def)

lemma run_new:
  assumes "callbacks d = replicate n User"
    and "\<forall>ev\<in>set evs. \<forall>p\<in>set (ev_items ev). item_ok B valid nd p \<and> p_done p < n"
  obtains d' a' where "ab_run B (d, NewAgentBuffer nd m) evs = Some (d', a')" "balance_ok (d', a')" "ab_batchMaxBytes a' = m"
    "\<And>j. j < n \<Longrightarrow> calls d' j + demand d' (ab_tokens a') j =
       calls d j + count (mset (map p_done (concat (map ev_items evs)))) j"
proof -
  let ?a = "NewAgentBuffer nd m :: 'w AgentBuffer"
  have t: "ab_tokens ?a = {#}" "ab_nodeID ?a = nd" "ab_batchMaxBytes ?a = m" by (simp_all add: ab_tokens_def NewAgentBuffer_def)
  have "tokens_ok d {#}" using assms(1) by (simp add: tokens_ok_def callback_ok_def)
  then have z: "balance_ok (d, ?a)" "demand d {#} j = 0" for j
    using assms(1) new_buffer_ok demand_empty by (simp_all add: balance_ok_def no_wraps_def t)
  from run_ok [OF z(1) _ _ t(2) assms(2)] assms(1) obtain d' a' where "ab_run B (d, ?a) evs = Some (d', a')" "balance_ok (d', a')"
      "ab_batchMaxBytes a' = m" "\<forall>j<n. calls d' j + demand d' (ab_tokens a') j =
       calls d j + demand d (ab_tokens ?a) j + count (mset (map p_done (concat (map ev_items evs)))) j" by (auto simp: t)
  then show thesis using that z(2) by (simp add: t)
qed

end

section \<open>Properties\<close>


definition example_buffer_run :: "routedTopicPartitionRecords ab_event list" where
  "example_buffer_run =
     [AddItem \<lparr>p_item = example_big, p_done = 0\<rparr>, CloseStarts, AddItem \<lparr>p_item = example_big, p_done = 0\<rparr>,
      FlushReturns 0 (example_outcome 0), ReportNext 0]"

lemma example_buffer_items:
  "\<forall>ev\<in>set example_buffer_run. \<forall>p\<in>set (ev_items ev). item_ok plainBatch (\<lambda>p. True) 9 p \<and> p_done p < 1"
  by (simp add: example_buffer_run_def item_ok_def plainBatch_def example_big_def example_records_def)




text \<open>
  C26: \<open>Close\<close> drains. A closed buffer stays closed and starts no new flush; as long as a flush is
  in flight one of its goroutines can take a step, each such step uses up one unit of a finite
  amount of outstanding work, no other step adds to it, and when none is left nothing is in flight,
  so that \<open>Close\<close> returns after exactly that many steps.
\<close>

theorem closed_buffer_drains:
  assumes "routed_batch B valid contents mergeable" and "callbacks d = replicate n User"
    and "\<forall>ev\<in>set evs. \<forall>p\<in>set (ev_items ev). item_ok B valid nd p \<and> p_done p < n"
    and "ab_run B (d, NewAgentBuffer nd m) evs = Some (d', a')" and "ab_closed a'"
  shows "(flights a' \<noteq> [] \<longrightarrow> (\<exists>ev. completion_enabled a' ev)) \<and> (outstanding a' = 0 \<longleftrightarrow> flights a' = []) \<and>
    (\<forall>ev d'' a''. ab_step B (d', a') ev = Some (d'', a'') \<longrightarrow>
       ab_closed a'' \<and> outstanding a'' + (if completion_enabled a' ev then 1 else 0) = outstanding a')"
proof -
  have ok: "routed_batch.buffer_ok B valid a'"
    using routed_batch.run_new [OF assms(1-3), of m] assms(4) by (auto simp: routed_batch.balance_ok_def [OF assms(1)])
  have "\<exists>ev. completion_enabled a' ev" if "flights a' \<noteq> []"
  proof (cases "fl_res (flights a' ! 0)")
    case None
    then have "completion_enabled a' (FlushReturns 0 (err_result errBufferClosed))" using that by simp
    then show ?thesis by blast
  next
    case (Some res)
    then have "completion_enabled a' (ReportNext 0)" using that by simp
    then show ?thesis by blast
  qed
  then show ?thesis
    using routed_batch.drained_iff [OF assms(1) ok] routed_batch.closed_step [OF assms(1) ok assms(5)] by blast
qed

definition example_closing_run :: "routedTopicPartitionRecords ab_event list" where
  "example_closing_run = [AddItem \<lparr>p_item = example_big, p_done = 0\<rparr>, CloseStarts]"

lemma example_closing_state:
  "case ab_run plainBatch (example_done, NewAgentBuffer 9 100) example_closing_run of
     Some (d, a) \<Rightarrow> ab_closed a \<and> length (flights a) = 1 | None \<Rightarrow> False"
  by code_simp

theorem closed_buffer_drains_witness:
  "\<exists>d' a' ev. ab_run plainBatch (example_done, NewAgentBuffer 9 100) example_closing_run = Some (d', a') \<and>
     ab_closed a' \<and> completion_enabled a' ev"
proof -
  obtain d' a' where r: "ab_run plainBatch (example_done, NewAgentBuffer 9 100) example_closing_run = Some (d', a')"
      "ab_closed a'" "length (flights a') = 1"
    using example_closing_state by (auto split: option.splits)
  have "\<forall>ev\<in>set example_closing_run. \<forall>p\<in>set (ev_items ev). item_ok plainBatch (\<lambda>p. True) 9 p \<and> p_done p < 1"
    by (simp add: example_closing_run_def item_ok_def plainBatch_def example_big_def example_records_def)
  from closed_buffer_drains [OF plain.routed_batch_axioms _ this r(1,2)] r show ?thesis by (auto simp: example_done_def)
qed

end
