(* ===== verification/Cluster_Buffer.thy ===== *)
theory Cluster_Buffer
  imports Agent_Buffer
begin

text \<open>
  The cluster-wide buffer of \<open>cluster_record_buffer.go\<close>: it wraps every item's \<open>done\<close> with the
  accounting and cancellation hooks, bins the items by agent, and closes the agents' buffers.

  The agents' buffers live in a store and the Go map holds handles into it, so that a goroutine that
  has looked a buffer up can use it after \<open>Close\<close> has taken the map. What a call does after its
  checks is a list of tasks, one per agent in the case of \<open>MultiAdd\<close>, which run in any order
  and interleaved with everything else; this covers the arbitrary iteration order of Go maps. The
  firing of a context is an event too, possible at any time for a hook on a cancelable context.
\<close>

section \<open>State\<close>

datatype 'w cb_task =
    DispatchOne "'w promised" | Dispatch node_id "'w promised list"
  | AddOne nat "'w promised" | AddMany nat "'w promised list"
  | CloseAgent nat

record 'w ClusterBuffer =
  cb_batchMaxBytes :: int
  cb_agentBuffers :: "(node_id, nat) gomap"
  cb_closed :: bool
  cb_store :: "'w AgentBuffer list"
  cb_tasks :: "'w cb_task list"

record ctx =
  ctx_cancelable :: bool
  ctx_Err :: "goerror option"

definition NewClusterBuffer :: "int \<Rightarrow> 'w ClusterBuffer" where
  "NewClusterBuffer maxBytes =
     \<lparr>cb_batchMaxBytes = maxBytes, cb_agentBuffers = [], cb_closed = False, cb_store = [], cb_tasks = []\<rparr>"

section \<open>Operations\<close>

definition wrap :: "'w routedBatch \<Rightarrow> bool \<Rightarrow> done_state \<Rightarrow> 'w promised \<Rightarrow> done_state \<times> 'w promised" where
  "wrap B cancelable d p =
     (let bytes = payloadBytes B (p_item p); recCount = recordCount B (p_item p);
          (d, done) = new_callback (d\<lparr>bufferedBytes := bufferedBytes d + bytes, bufferedRecords := bufferedRecords d + recCount\<rparr>)
            (CtxWrap \<lparr>cw_payloadBytes = bytes, cw_recCount = recCount, cw_origDone = p_done p, cw_cancelable = cancelable,
                      cw_origDoneFired = False, cw_ourDoneFired = False\<rparr>)
      in (d, p\<lparr>p_done := done\<rparr>))"

primrec wrap_all :: "'w routedBatch \<Rightarrow> bool \<Rightarrow> done_state \<Rightarrow> 'w promised list \<Rightarrow> done_state \<times> 'w promised list" where
  "wrap_all B cancelable d [] = (d, [])"
| "wrap_all B cancelable d (p # ps) =
     (let (d, q) = wrap B cancelable d p; (d, qs) = wrap_all B cancelable d ps in (d, q # qs))"

text \<open>The context of hook \<open>k\<close> is cancelled.\<close>

definition ctx_fires :: "done_state \<Rightarrow> nat \<Rightarrow> goerror \<Rightarrow> done_state" where
  "ctx_fires d k err =
     (if k < length (callbacks d)
      then case callbacks d ! k of
             CtxWrap c \<Rightarrow>
               if cw_cancelable c \<and> \<not> cw_origDoneFired c
               then fire (d\<lparr>callbacks := (callbacks d)[k := CtxWrap (c\<lparr>cw_origDoneFired := True\<rparr>)]\<rparr>)
                      (cw_origDone c) (err_result err)
               else d
           | _ \<Rightarrow> d
      else d)"

definition agentBufferFor :: "'w ClusterBuffer \<Rightarrow> node_id \<Rightarrow> 'w ClusterBuffer \<times> (goerror + nat)" where
  "agentBufferFor c nodeID =
     (if cb_closed c then (c, Inl errBufferClosed)
      else case map_of (cb_agentBuffers c) nodeID of
             Some h \<Rightarrow> (c, Inr h)
           | None \<Rightarrow>
               let h = length (cb_store c)
               in (c\<lparr>cb_store := cb_store c @ [NewAgentBuffer nodeID (cb_batchMaxBytes c)],
                     cb_agentBuffers := AList.update nodeID h (cb_agentBuffers c)\<rparr>, Inr h))"

definition push_tasks :: "'w ClusterBuffer \<Rightarrow> 'w cb_task list \<Rightarrow> 'w ClusterBuffer" where
  "push_tasks c ts = c\<lparr>cb_tasks := cb_tasks c @ ts\<rparr>"

definition addToBuffer :: "ctx \<Rightarrow> done_state \<times> 'w ClusterBuffer \<Rightarrow> 'w promised \<Rightarrow> done_state \<times> 'w ClusterBuffer" where
  "addToBuffer ctx s p =
     (let (d, c) = s
      in case ctx_Err ctx of
           Some err \<Rightarrow> (fire d (p_done p) (err_result err), c)
         | None \<Rightarrow> (d, push_tasks c [DispatchOne p]))"

definition addToBuffers ::
  "'w routedBatch \<Rightarrow> ctx \<Rightarrow> done_state \<times> 'w ClusterBuffer \<Rightarrow> 'w promised list \<Rightarrow> done_state \<times> 'w ClusterBuffer" where
  "addToBuffers B ctx s items =
     (let (d, c) = s
      in if items = [] then s
         else case ctx_Err ctx of
                Some err \<Rightarrow> (fire_all d items (err_result err), c)
              | None \<Rightarrow>
                  let (order, byAgent) = group_by (\<lambda>p. getNodeID B (p_item p)) items
                  in (d, push_tasks c (map (\<lambda>nd. Dispatch nd (get_or [] byAgent nd)) order)))"

definition cb_Add :: "'w routedBatch \<Rightarrow> ctx \<Rightarrow> done_state \<times> 'w ClusterBuffer \<Rightarrow> 'w promised \<Rightarrow> done_state \<times> 'w ClusterBuffer" where
  "cb_Add B ctx s p =
     (let (d, c) = s; (d, q) = wrap B (ctx_cancelable ctx) d p in addToBuffer ctx (d, c) q)"

definition cb_MultiAdd ::
  "'w routedBatch \<Rightarrow> ctx \<Rightarrow> done_state \<times> 'w ClusterBuffer \<Rightarrow> 'w promised list \<Rightarrow> done_state \<times> 'w ClusterBuffer" where
  "cb_MultiAdd B ctx s items =
     (let (d, c) = s
      in if items = [] then s
         else let (d, wrapped) = wrap_all B (ctx_cancelable ctx) d items in addToBuffers B ctx (d, c) wrapped)"

definition cb_Close :: "'w ClusterBuffer \<Rightarrow> 'w ClusterBuffer" where
  "cb_Close c =
     (if cb_closed c then c
      else push_tasks (c\<lparr>cb_closed := True, cb_agentBuffers := []\<rparr>) (map (CloseAgent \<circ> snd) (cb_agentBuffers c)))"

text \<open>The operation \<open>f\<close> on the buffer of handle \<open>h\<close>.\<close>

definition on_agent ::
  "done_state \<times> 'w ClusterBuffer \<Rightarrow> nat \<Rightarrow> (done_state \<times> 'w AgentBuffer \<Rightarrow> (done_state \<times> 'w AgentBuffer) option) \<Rightarrow>
   (done_state \<times> 'w ClusterBuffer) option" where
  "on_agent s h f =
     (let (d, c) = s
      in if h < length (cb_store c)
         then case f (d, cb_store c ! h) of
                None \<Rightarrow> None
              | Some (d, a) \<Rightarrow> Some (d, c\<lparr>cb_store := (cb_store c)[h := a]\<rparr>)
         else Some s)"

fun run_task :: "'w routedBatch \<Rightarrow> done_state \<times> 'w ClusterBuffer \<Rightarrow> 'w cb_task \<Rightarrow> (done_state \<times> 'w ClusterBuffer) option" where
  "run_task B (d, c) (DispatchOne p) =
     (case agentBufferFor c (getNodeID B (p_item p)) of
        (c, Inl err) \<Rightarrow> Some (fire d (p_done p) (err_result err), c)
      | (c, Inr h) \<Rightarrow> Some (d, push_tasks c [AddOne h p]))"
| "run_task B (d, c) (Dispatch nodeID ps) =
     (case agentBufferFor c nodeID of
        (c, Inl err) \<Rightarrow> Some (fire_all d ps (err_result err), c)
      | (c, Inr h) \<Rightarrow> Some (d, push_tasks c [AddMany h ps]))"
| "run_task B s (AddOne h p) = on_agent s h (\<lambda>s. ab_Add B s p)"
| "run_task B s (AddMany h ps) = on_agent s h (\<lambda>s. ab_MultiAdd B s ps)"
| "run_task B s (CloseAgent h) = on_agent s h (\<lambda>(d, a). map_option (Pair d) (ab_Close B a))"

datatype 'w cb_event =
    Submit ctx "'w promised" | MultiSubmit ctx "'w promised list" | CtxFires nat goerror | ClusterCloses
  | RunTask nat | AgentTimer nat | AgentCloseEnds nat | AgentFlushReturns nat nat ProduceResult | AgentReports nat nat

definition run_task_at :: "'w routedBatch \<Rightarrow> done_state \<times> 'w ClusterBuffer \<Rightarrow> nat \<Rightarrow> (done_state \<times> 'w ClusterBuffer) option" where
  "run_task_at B s k =
     (let (d, c) = s; ts = cb_tasks c
      in if k < length ts then run_task B (d, c\<lparr>cb_tasks := take k ts @ drop (Suc k) ts\<rparr>) (ts ! k) else Some s)"

fun cb_step :: "'w routedBatch \<Rightarrow> done_state \<times> 'w ClusterBuffer \<Rightarrow> 'w cb_event \<Rightarrow> (done_state \<times> 'w ClusterBuffer) option" where
  "cb_step B s (Submit ctx p) = Some (cb_Add B ctx s p)"
| "cb_step B s (MultiSubmit ctx ps) = Some (cb_MultiAdd B ctx s ps)"
| "cb_step B (d, c) (CtxFires k err) = Some (ctx_fires d k err, c)"
| "cb_step B (d, c) ClusterCloses = Some (d, cb_Close c)"
| "cb_step B s (RunTask k) = run_task_at B s k"
| "cb_step B s (AgentTimer h) = on_agent s h (\<lambda>s. ab_step B s TimerFires)"
| "cb_step B s (AgentCloseEnds h) = on_agent s h (\<lambda>s. ab_step B s CloseEnds)"
| "cb_step B s (AgentFlushReturns h k res) = on_agent s h (\<lambda>s. ab_step B s (FlushReturns k res))"
| "cb_step B s (AgentReports h k) = on_agent s h (\<lambda>s. ab_step B s (ReportNext k))"

primrec cb_run :: "'w routedBatch \<Rightarrow> done_state \<times> 'w ClusterBuffer \<Rightarrow> 'w cb_event list \<Rightarrow> (done_state \<times> 'w ClusterBuffer) option" where
  "cb_run B s [] = Some s"
| "cb_run B s (ev # evs) = (case cb_step B s ev of None \<Rightarrow> None | Some s \<Rightarrow> cb_run B s evs)"

fun cb_items :: "'w cb_event \<Rightarrow> 'w promised list" where
  "cb_items (Submit ctx p) = [p]"
| "cb_items (MultiSubmit ctx ps) = ps"
| "cb_items _ = []"

section \<open>Tokens\<close>

fun task_items :: "'w cb_task \<Rightarrow> 'w promised list" where
  "task_items (DispatchOne p) = [p]"
| "task_items (Dispatch nd ps) = ps"
| "task_items (AddOne h p) = [p]"
| "task_items (AddMany h ps) = ps"
| "task_items (CloseAgent h) = []"

abbreviation task_tokens :: "'w cb_task \<Rightarrow> nat multiset" where
  "task_tokens t \<equiv> mset (map p_done (task_items t))"

definition cb_tokens :: "'w ClusterBuffer \<Rightarrow> nat multiset" where
  "cb_tokens c = sum_list (map ab_tokens (cb_store c)) + sum_list (map task_tokens (cb_tasks c))"

section \<open>The hooks\<close>

lemma total_append: "total w (d\<lparr>callbacks := callbacks d @ [c]\<rparr>) = total w d + w c"
  by (simp add: total_def)

lemma wrap_accounts:
  assumes ok: "accounts_ok d N" and u: "p_done p < length (callbacks d)" "callbacks d ! p_done p = User"
    and w: "wrap B cancelable d p = (d', q)"
  shows "accounts_ok d' (N + {#p_done q#})" "q = p\<lparr>p_done := length (callbacks d)\<rparr>" "plain_done d' (p_done q)"
    "\<And>i. plain_done d i \<Longrightarrow> plain_done d' i" "\<And>j. j < length (callbacks d) \<Longrightarrow> callbacks d ! j = User \<Longrightarrow> callbacks d' ! j = User"
    "length (callbacks d) \<le> length (callbacks d')" "total (wraps_of j) d' = total (wraps_of j) d + (if p_done p = j then 1 else 0)"
proof -
  let ?l = "length (callbacks d)"
  define c where "c = \<lparr>cw_payloadBytes = payloadBytes B (p_item p), cw_recCount = recordCount B (p_item p), cw_origDone = p_done p,
    cw_cancelable = cancelable, cw_origDoneFired = False, cw_ourDoneFired = False\<rparr>"
  have d': "d' = d\<lparr>callbacks := callbacks d @ [CtxWrap c], bufferedBytes := bufferedBytes d + payloadBytes B (p_item p),
      bufferedRecords := bufferedRecords d + recordCount B (p_item p)\<rparr>"
    and q: "q = p\<lparr>p_done := ?l\<rparr>" using w by (auto simp: wrap_def new_callback_def Let_def c_def)
  have t: "tokens_ok d N" using ok by (simp add: accounts_ok_def)
  have fresh: "count N ?l = 0" using t by (auto simp: tokens_ok_def count_eq_zero_iff)
  have old: "callbacks d' ! k = callbacks d ! k" "fan_at d' k = fan_at d k" if "k < ?l" for k
    using that by (simp_all add: d' nth_append fan_at_def)
  have new: "callbacks d' ! ?l = CtxWrap c" "fan_at d' ?l = None" by (simp_all add: d' fan_at_def)
  have fo: "fan_origDone f < k" if "k < ?l" "fan_at d k = Some f" for k f
    using t that by (auto simp: tokens_ok_def callback_ok_def fan_at_Some)
  have into: "fans_into d' j = fans_into d j" for j
    using old new by (auto simp: fans_into_def d' less_Suc_eq split: option.splits)
  have empty: "fans_into d ?l = {}" using fo by (fastforce simp: fans_into_def split: option.splits)
  have dem: "demand d' (add_mset ?l N) k = demand d N k + (if k = ?l then 1 else 0)" for k by (simp add: demand_def into)
  have "demand d N ?l = 0" by (simp add: demand_def fresh empty)
  then have "hook_ok d' (add_mset ?l N) ?l" using new by (simp add: hook_ok_def dem c_def)
  moreover have "hook_ok d' (add_mset ?l N) k" if "k < ?l" for k
    using ok that hook_ok_cong [OF old(1) [OF that], of "add_mset ?l N" N] dem [of k] by (simp add: accounts_ok_def)
  moreover have "callback_ok d' (add_mset ?l N) k" if "k < ?l" for k
  proof -
    have ck: "callback_ok d N k" using t that by (simp add: tokens_ok_def)
    show ?thesis
    proof (cases d k rule: callback_kinds)
      case (fan f)
      then show ?thesis using ck that old by (auto simp: callback_ok_def)
    qed (use ck that old in \<open>auto simp: callback_ok_def\<close>)
  qed
  moreover have "callback_ok d' (add_mset ?l N) ?l" using new u old by (simp add: callback_ok_def c_def)
  moreover have "calls d' j = calls d j" for j by (rule calls_cong) (simp add: d')
  moreover have tot: "total w d' = total w d + w (CtxWrap c)" for w :: "callback \<Rightarrow> 'x::comm_monoid_add"
    by (simp add: total_def d')
  ultimately show "accounts_ok d' (N + {#p_done q#})"
    using ok t tot [of open_bytes] tot [of open_records] tot [of "settled_of _"]
    by (auto simp: accounts_ok_def tokens_ok_def q d' c_def less_Suc_eq)
  show "q = p\<lparr>p_done := ?l\<rparr>" by (rule q)
  show "plain_done d' (p_done q)" using new by (simp add: plain_done_def q d')
  show "\<And>i. plain_done d i \<Longrightarrow> plain_done d' i" using old by (auto simp: plain_done_def d')
  show "\<And>j. j < ?l \<Longrightarrow> callbacks d ! j = User \<Longrightarrow> callbacks d' ! j = User" using old by simp
  show "?l \<le> length (callbacks d')" by (simp add: d')
  show "total (wraps_of j) d' = total (wraps_of j) d + (if p_done p = j then 1 else 0)" using tot [of "wraps_of j"] by (simp add: c_def)
qed

text \<open>What persists of a state's closures.\<close>

definition user_at :: "done_state \<Rightarrow> nat \<Rightarrow> bool" where
  "user_at d j \<longleftrightarrow> j < length (callbacks d) \<and> callbacks d ! j = User"

definition persists :: "done_state \<Rightarrow> done_state \<Rightarrow> bool" where
  "persists d e \<longleftrightarrow> (\<forall>i. plain_done d i \<longrightarrow> plain_done e i) \<and> (\<forall>j. user_at d j \<longrightarrow> user_at e j)"

lemma persists_refl [simp]: "persists d d"
  by (simp add: persists_def)

lemma persists_trans [trans]: "persists d e \<Longrightarrow> persists e f \<Longrightarrow> persists d f"
  by (simp add: persists_def)

lemma token_steps_persist:
  assumes "token_steps (d, N) (d', N')" "tokens_ok d N"
  shows "persists d d'"
proof -
  have "\<forall>j. user_at d j \<longrightarrow> user_at d' j" using assms
  proof (induction rule: rtranclp_induct2)
    case (step e M e' M')
    have "tokens_ok e M" using token_steps_keep [OF step.hyps(1) step.prems] by simp
    then obtain x X where x: "same_base e x" "tokens_ok x X"
        "\<And>j. j < length (callbacks e) \<Longrightarrow> fan_at e j = None \<Longrightarrow> demand x X j = demand e M j"
        "(e', M') = (x, X) \<or> (\<exists>b res. b \<in># X \<and> fan_at x b = None \<and> e' = fire x b res \<and> M' = X - {#b#})"
      by (rule token_step_cases [OF step.hyps(2)]) blast
    have sb: "user_at e j \<longrightarrow> user_at x j" for j
    proof
      assume "user_at e j"
      then have "j < length (callbacks e)" "fan_at e j = None" "callbacks e ! j = User" by (simp_all add: user_at_def)
      moreover from this have "callbacks x ! j = callbacks e ! j" "length (callbacks e) \<le> length (callbacks x)"
        using x(1) by (simp_all add: same_base_def)
      ultimately show "user_at x j" by (simp add: user_at_def)
    qed
    from x(4) show ?case
    proof (elim disjE exE conjE)
      fix b res assume b: "b \<in># X" "fan_at x b = None" "e' = fire x b res" "M' = X - {#b#}"
      then have bl: "b < length (callbacks x)" using x(2) by (simp add: tokens_ok_def)
      have "user_at x j \<longrightarrow> user_at e' j" for j
        using fire_base_kept(1) [OF x(2) bl b(2), of j res] fire_base_fans(1) [OF x(2) bl b(2), of res] by (auto simp: user_at_def b(3))
      then show ?thesis using step.IH [OF step.prems] sb by blast
    qed (use step.IH [OF step.prems] sb in auto)
  qed simp
  then show ?thesis using token_steps_keep [OF assms] by (simp add: persists_def)
qed

lemma wrap_all_accounts:
  assumes "accounts_ok d N" "\<forall>p\<in>set ps. user_at d (p_done p)" "wrap_all B cancelable d ps = (d', qs)"
  shows "accounts_ok d' (N + mset (map p_done qs)) \<and> map p_item qs = map p_item ps \<and> (\<forall>q\<in>set qs. plain_done d' (p_done q)) \<and>
    persists d d' \<and> (\<forall>j. total (wraps_of j) d' = total (wraps_of j) d + length (filter (\<lambda>p. p_done p = j) ps))"
  using assms
proof (induction ps arbitrary: d d' qs N)
  case (Cons p ps)
  obtain e q where e: "wrap B cancelable d p = (e, q)" by force
  obtain f rs where f: "wrap_all B cancelable e ps = (f, rs)" by force
  have eq: "d' = f" "qs = q # rs" using Cons.prems(3) e f by (simp_all add: Let_def)
  have u: "p_done p < length (callbacks d)" "callbacks d ! p_done p = User" using Cons.prems(2) by (simp_all add: user_at_def)
  note w = wrap_accounts [OF Cons.prems(1) u e]
  have pers: "persists d e" using w(4,5,6) by (auto simp: persists_def user_at_def)
  then have "\<forall>p\<in>set ps. user_at e (p_done p)" using Cons.prems(2) by (simp add: persists_def)
  from Cons.IH [OF w(1) this f] have IH: "accounts_ok f (N + {#p_done q#} + mset (map p_done rs))" "map p_item rs = map p_item ps"
    "\<forall>q\<in>set rs. plain_done f (p_done q)" "persists e f"
    "\<forall>j. total (wraps_of j) f = total (wraps_of j) e + length (filter (\<lambda>p. p_done p = j) ps)" by auto
  moreover have "plain_done f (p_done q)" using IH(4) w(3) by (simp add: persists_def)
  moreover have "persists d f" using pers IH(4) by (rule persists_trans)
  ultimately show ?case using w(2,7) by (simp add: eq ac_simps)
qed simp

lemma ctx_fires_accounts:
  assumes ok: "accounts_ok d N"
  shows "accounts_ok (ctx_fires d k err) N \<and> persists d (ctx_fires d k err) \<and>
    (\<forall>j. total (wraps_of j) (ctx_fires d k err) = total (wraps_of j) d)"
proof (cases "k < length (callbacks d) \<and> (\<exists>c. callbacks d ! k = CtxWrap c \<and> cw_cancelable c \<and> \<not> cw_origDoneFired c)")
  case True
  then obtain c where k: "k < length (callbacks d)" and c: "callbacks d ! k = CtxWrap c" "cw_cancelable c" "\<not> cw_origDoneFired c" by blast
  let ?c = "CtxWrap (c\<lparr>cw_origDoneFired := True\<rparr>)" and ?e = "ctx_fires d k err"
  have t: "tokens_ok d N" and h: "\<And>i. i < length (callbacks d) \<Longrightarrow> hook_ok d N i" using ok by (simp_all add: accounts_ok_def)
  have o: "cw_origDone c < k" "callbacks d ! cw_origDone c = User" using t k c(1) by (auto simp: tokens_ok_def callback_ok_def)
  have e: "?e = d\<lparr>callbacks := (callbacks d)[k := ?c], fired := fired d @ [(cw_origDone c, err_result err)]\<rparr>"
    using k c o by (simp add: ctx_fires_def fire_User)
  have cb: "callbacks ?e ! i = (if i = k then ?c else callbacks d ! i)" "length (callbacks ?e) = length (callbacks d)" for i
    using k by (simp_all add: e)
  then have fan: "fan_at ?e i = fan_at d i" for i using c(1) by (simp add: fan_at_def)
  then have dem: "demand ?e N i = demand d N i" for i by (simp add: demand_def fans_into_def cb)
  have tot: "total w ?e + w (CtxWrap c) = total w d + w ?c" for w :: "callback \<Rightarrow> 'x::comm_monoid_add"
    using total_update [OF k, of w ?c] by (simp add: c(1) e total_def)
  have "hook_ok ?e N i" if "i < length (callbacks d)" for i
  proof (cases "i = k")
    case True
    then show ?thesis using h [OF that] c cb(1) [of k] dem [of k] by (auto simp: hook_ok_def)
  next
    case False
    then show ?thesis using h [OF that] hook_ok_cong [of ?e i d, OF _ dem] cb(1) [of i] by simp
  qed
  moreover have "callback_ok ?e N i" if "i < length (callbacks d)" for i
  proof -
    have ci: "callback_ok d N i" using t that by (simp add: tokens_ok_def)
    then have "callbacks d ! cw_origDone x = User" "cw_origDone x \<noteq> k" if "callbacks d ! i = CtxWrap x" for x
      using that c(1) by (auto simp: callback_ok_def)
    then show ?thesis using ci o c(1) cb(1) fan
      by (cases d i rule: callback_kinds) (auto simp: callback_ok_def)
  qed
  moreover have "calls ?e j = total (settled_of j) ?e" for j
    using tot [of "settled_of j"] ok c(3) by (auto simp: accounts_ok_def calls_def e split: if_splits)
  moreover have "total open_bytes ?e = total open_bytes d" "total open_records ?e = total open_records d"
      "total (wraps_of j) ?e = total (wraps_of j) d" for j
    using tot [of open_bytes] tot [of open_records] tot [of "wraps_of j"] by (simp_all split: if_splits)
  moreover have "persists d ?e" using cb fan c(1) by (auto simp: persists_def plain_done_def user_at_def)
  moreover have "bufferedBytes ?e = bufferedBytes d" "bufferedRecords ?e = bufferedRecords d" by (simp_all add: e)
  ultimately show ?thesis using ok cb(2) by (simp add: accounts_ok_def tokens_ok_def)
next
  case False
  then have "ctx_fires d k err = d" by (auto simp: ctx_fires_def split: callback.splits)
  then show ?thesis using ok by simp
qed

section \<open>The cluster invariant\<close>

lemma token_step_frame: "token_step (d, N) (d', N') \<Longrightarrow> token_step (d, N + R) (d', N' + R)"
proof (erule token_step.cases, goal_cases)
  case (1 i M e n tp)
  then have "N + R - {#i#} = N - {#i#} + R" by simp
  then have "N' + R = N + R - {#i#} + replicate_mset n (length (callbacks e))" using 1 by (simp add: ac_simps)
  then show ?case using 1 token_step.exchange [of i "N + R" e n tp] by simp
next
  case (2 i M e res)
  then have "N' + R = N + R - {#i#}" by simp
  then show ?case using 2 token_step.spend [of i "N + R" e res] by simp
qed

lemma token_steps_frame: "token_steps (d, N) (d', N') \<Longrightarrow> token_steps (d, N + R) (d', N' + R)"
proof (induction rule: rtranclp_induct2)
  case (step e M e' M')
  then show ?case using token_step_frame [OF step.hyps(2), of R] by simp
qed simp

abbreviation nodes :: "'w ClusterBuffer \<Rightarrow> node_id list" where
  "nodes c \<equiv> map ab_nodeID (cb_store c)"

context routed_batch
begin

fun task_ok :: "node_id list \<Rightarrow> 'w cb_task \<Rightarrow> bool" where
  "task_ok ns (DispatchOne p) \<longleftrightarrow> item_ok B valid (getNodeID B (p_item p)) p"
| "task_ok ns (Dispatch nd ps) \<longleftrightarrow> (\<forall>p\<in>set ps. item_ok B valid nd p)"
| "task_ok ns (AddOne h p) \<longleftrightarrow> h < length ns \<and> item_ok B valid (ns ! h) p"
| "task_ok ns (AddMany h ps) \<longleftrightarrow> h < length ns \<and> (\<forall>p\<in>set ps. item_ok B valid (ns ! h) p)"
| "task_ok ns (CloseAgent h) \<longleftrightarrow> h < length ns"

definition cluster_ok :: "done_state \<Rightarrow> 'w ClusterBuffer \<Rightarrow> bool" where
  "cluster_ok d c \<longleftrightarrow> (\<forall>a\<in>set (cb_store c). buffer_ok a) \<and>
     gomap_all (\<lambda>nd h. h < length (nodes c) \<and> nodes c ! h = nd) (cb_agentBuffers c) \<and>
     (\<forall>t\<in>set (cb_tasks c). task_ok (nodes c) t \<and> (\<forall>p\<in>set (task_items t). plain_done d (p_done p)))"

lemma task_ok_append: "task_ok ns t \<Longrightarrow> task_ok (ns @ xs) t"
  by (cases t) (auto simp: nth_append)

lemma cluster_ok_persists: "cluster_ok d c \<Longrightarrow> persists d e \<Longrightarrow> cluster_ok e c"
  by (auto simp: cluster_ok_def persists_def)

lemma cluster_ok_push:
  "cluster_ok d c \<Longrightarrow> \<forall>t\<in>set ts. task_ok (nodes c) t \<and> (\<forall>p\<in>set (task_items t). plain_done d (p_done p)) \<Longrightarrow> cluster_ok d (push_tasks c ts)"
  by (auto simp: cluster_ok_def push_tasks_def)

lemma cb_tokens_push: "cb_tokens (push_tasks c ts) = cb_tokens c + sum_list (map task_tokens ts)"
  by (simp add: cb_tokens_def push_tasks_def ac_simps)

lemma agentBufferFor_ok:
  assumes "cluster_ok d c" "agentBufferFor c nd = (c', r)"
  shows "cluster_ok d c'" "cb_tokens c' = cb_tokens c"
    "\<And>h. r = Inr h \<Longrightarrow> h < length (nodes c') \<and> nodes c' ! h = nd"
proof -
  let ?new = "c\<lparr>cb_store := cb_store c @ [NewAgentBuffer nd (cb_batchMaxBytes c)],
      cb_agentBuffers := AList.update nd (length (cb_store c)) (cb_agentBuffers c)\<rparr>"
  have n: "nodes ?new = nodes c @ [nd]" by (simp add: NewAgentBuffer_def)
  let ?P = "\<lambda>x h. h < length (nodes ?new) \<and> nodes ?new ! h = x"
  have "gomap_all ?P (cb_agentBuffers c)"
    using assms(1) unfolding n by (fastforce simp: cluster_ok_def gomap_all_def nth_append)
  moreover have "?P nd (length (cb_store c))" unfolding n by (simp add: nth_append)
  ultimately have "gomap_all ?P (cb_agentBuffers ?new)" by simp
  then have ok: "cluster_ok d ?new"
    using assms(1) new_buffer_ok [of nd "cb_batchMaxBytes c"] task_ok_append unfolding cluster_ok_def n by auto
  have tk: "cb_tokens ?new = cb_tokens c" by (simp add: cb_tokens_def ab_tokens_def NewAgentBuffer_def)
  have known: "h < length (nodes c) \<and> nodes c ! h = nd" if "map_of (cb_agentBuffers c) nd = Some h" for h
    using that assms(1) gomap_allD [OF _ map_of_SomeD] unfolding cluster_ok_def by fastforce
  show "cluster_ok d c'" "cb_tokens c' = cb_tokens c" "\<And>h. r = Inr h \<Longrightarrow> h < length (nodes c') \<and> nodes c' ! h = nd"
    using assms ok tk known n by (auto simp: agentBufferFor_def Let_def nth_append split: if_splits option.splits)
qed

lemma on_agent_ok:
  assumes ok: "cluster_ok d c" and h: "h < length (cb_store c)"
    and f: "f (d, cb_store c ! h) = Some (d', a')" "buffer_ok a'" "ab_nodeID a' = ab_nodeID (cb_store c ! h)"
    and t: "token_steps (d, ab_tokens (cb_store c ! h) + X) (d', ab_tokens a')" and tok: "tokens_ok d (cb_tokens c + X)"
  shows "\<exists>c'. on_agent (d, c) h f = Some (d', c') \<and> cluster_ok d' c' \<and> token_steps (d, cb_tokens c + X) (d', cb_tokens c')"
proof -
  let ?c = "c\<lparr>cb_store := (cb_store c)[h := a']\<rparr>"
  let ?rest = "sum_list (map ab_tokens (take h (cb_store c) @ drop (Suc h) (cb_store c))) + sum_list (map task_tokens (cb_tasks c))"
  have eq: "cb_tokens c + X = ab_tokens (cb_store c ! h) + X + ?rest" "cb_tokens ?c = ab_tokens a' + ?rest"
    using sum_list_map_split [OF h, of ab_tokens] sum_list_map_update [OF h, of ab_tokens a'] by (simp_all add: cb_tokens_def)
  have st: "token_steps (d, cb_tokens c + X) (d', cb_tokens ?c)" unfolding eq by (rule token_steps_frame [OF t])
  have n: "nodes ?c = nodes c" using f(3) h by (simp add: map_update list_update_same_conv)
  have "\<forall>a\<in>set (cb_store ?c). buffer_ok a"
    using ok f(2) set_update_subset_insert [of "cb_store c" h a'] by (auto simp: cluster_ok_def)
  then have "cluster_ok d' ?c" using cluster_ok_persists [OF ok token_steps_persist [OF st tok]] n by (auto simp: cluster_ok_def)
  moreover have "on_agent (d, c) h f = Some (d', ?c)" using f(1) h by (simp add: on_agent_def)
  ultimately show ?thesis using st by blast
qed

lemma run_task_ok:
  assumes ok: "cluster_ok d c" and t: "task_ok (nodes c) t" "\<forall>p\<in>set (task_items t). plain_done d (p_done p)"
    and tok: "tokens_ok d (cb_tokens c + task_tokens t)"
  shows "\<exists>d' c'. run_task B (d, c) t = Some (d', c') \<and> cluster_ok d' c' \<and>
    token_steps (d, cb_tokens c + task_tokens t) (d', cb_tokens c')"
proof -
  have keep: "persists d e" if "token_steps (d, N) (e, M)" "tokens_ok d N" for e N M using that by (rule token_steps_persist)
  show ?thesis
  proof (cases t)
    case (DispatchOne p)
    obtain c' r where r: "agentBufferFor c (getNodeID B (p_item p)) = (c', r)" by force
    note a = agentBufferFor_ok [OF ok r]
    show ?thesis
    proof (cases r)
      case (Inl err)
      have "token_step (d, cb_tokens c + {#p_done p#}) (fire d (p_done p) (err_result err), cb_tokens c + {#p_done p#} - {#p_done p#})"
        by (rule token_step.spend) simp
      then have st: "token_steps (d, cb_tokens c + task_tokens t) (fire d (p_done p) (err_result err), cb_tokens c')"
        using DispatchOne a(2) by auto
      then show ?thesis using DispatchOne Inl r cluster_ok_persists [OF a(1) keep [OF st tok]] by auto
    next
      case (Inr h)
      have "cluster_ok d (push_tasks c' [AddOne h p])"
        using DispatchOne t a(3) [OF Inr] by (intro cluster_ok_push [OF a(1)]) auto
      then show ?thesis using DispatchOne Inr r a(2) by (simp add: cb_tokens_push)
    qed
  next
    case (Dispatch nd ps)
    obtain c' r where r: "agentBufferFor c nd = (c', r)" by force
    note a = agentBufferFor_ok [OF ok r]
    show ?thesis
    proof (cases r)
      case (Inl err)
      have st: "token_steps (d, cb_tokens c + task_tokens t) (fire_all d ps (err_result err), cb_tokens c')"
        using token_steps_fire_all [of d "cb_tokens c" ps "err_result err"] Dispatch a(2) by simp
      then show ?thesis using Dispatch Inl r cluster_ok_persists [OF a(1) keep [OF st tok]] by auto
    next
      case (Inr h)
      have "cluster_ok d (push_tasks c' [AddMany h ps])"
        using Dispatch t a(3) [OF Inr] by (intro cluster_ok_push [OF a(1)]) auto
      then show ?thesis using Dispatch Inr r a(2) by (simp add: cb_tokens_push)
    qed
  next
    case (AddOne h p)
    then have h: "h < length (cb_store c)" and i: "item_ok B valid (ab_nodeID (cb_store c ! h)) p" "plain_done d (p_done p)"
      using t by auto
    have "buffer_ok (cb_store c ! h)" using ok h by (simp add: cluster_ok_def)
    from add_ok [OF this i] obtain d' a' where a: "ab_Add B (d, cb_store c ! h) p = Some (d', a')" "buffer_ok a'"
      "ab_nodeID a' = ab_nodeID (cb_store c ! h)" "token_steps (d, ab_tokens (cb_store c ! h) + {#p_done p#}) (d', ab_tokens a')" by blast
    from on_agent_ok [OF ok h, of "\<lambda>s. ab_Add B s p", OF a] tok AddOne show ?thesis by auto
  next
    case (AddMany h ps)
    then have h: "h < length (cb_store c)" and i: "\<forall>p\<in>set ps. item_ok B valid (ab_nodeID (cb_store c ! h)) p \<and> plain_done d (p_done p)"
      using t by auto
    have "buffer_ok (cb_store c ! h)" using ok h by (simp add: cluster_ok_def)
    from multiAdd_ok [OF this i] obtain d' a' where a: "ab_MultiAdd B (d, cb_store c ! h) ps = Some (d', a')" "buffer_ok a'"
      "ab_nodeID a' = ab_nodeID (cb_store c ! h)" "token_steps (d, ab_tokens (cb_store c ! h) + mset (map p_done ps)) (d', ab_tokens a')" by blast
    from on_agent_ok [OF ok h, of "\<lambda>s. ab_MultiAdd B s ps", OF a] tok AddMany show ?thesis by auto
  next
    case (CloseAgent h)
    then have h: "h < length (cb_store c)" using t by simp
    have "buffer_ok (cb_store c ! h)" using ok h by (simp add: cluster_ok_def)
    from close_ok [OF this] obtain a' where a: "ab_Close B (cb_store c ! h) = Some a'" "buffer_ok a'"
      "ab_nodeID a' = ab_nodeID (cb_store c ! h)" "ab_tokens a' = ab_tokens (cb_store c ! h)" by blast
    from on_agent_ok [OF ok h, of "\<lambda>(d, a). map_option (Pair d) (ab_Close B a)" d a' "{#}"] a tok CloseAgent show ?thesis by auto
  qed
qed

lemma agent_event_ok:
  assumes ok: "cluster_ok d c" and acc: "accounts_ok d (cb_tokens c)" and ev: "ev_items ev = []"
  shows "\<exists>d' c'. on_agent (d, c) h (\<lambda>s. ab_step B s ev) = Some (d', c') \<and> cluster_ok d' c' \<and>
    token_steps (d, cb_tokens c) (d', cb_tokens c')"
proof (cases "h < length (cb_store c)")
  case True
  then have "buffer_ok (cb_store c ! h)" using ok by (simp add: cluster_ok_def)
  from step_ok [OF this, of ev d] ev obtain d' a' where a: "ab_step B (d, cb_store c ! h) ev = Some (d', a')" "buffer_ok a'"
    "ab_nodeID a' = ab_nodeID (cb_store c ! h)" "token_steps (d, ab_tokens (cb_store c ! h) + {#}) (d', ab_tokens a')" by auto
  have "tokens_ok d (cb_tokens c + {#})" using acc by (simp add: accounts_ok_def)
  from on_agent_ok [OF ok True, of "\<lambda>s. ab_step B s ev", OF a this] show ?thesis by auto
qed (use ok in \<open>simp add: on_agent_def\<close>)

definition cluster_inv :: "done_state \<times> 'w ClusterBuffer \<Rightarrow> bool" where
  "cluster_inv s \<longleftrightarrow> cluster_ok (fst s) (snd s) \<and> accounts_ok (fst s) (cb_tokens (snd s))"

definition cluster_next :: "done_state \<times> 'w ClusterBuffer \<Rightarrow> 'w promised list \<Rightarrow> done_state \<times> 'w ClusterBuffer \<Rightarrow> bool" where
  "cluster_next s ps t \<longleftrightarrow> cluster_inv t \<and> persists (fst s) (fst t) \<and>
     (\<forall>j. total (wraps_of j) (fst t) = total (wraps_of j) (fst s) + length (filter (\<lambda>p. p_done p = j) ps))"

lemma token_moves_next:
  assumes "accounts_ok d N" "token_steps (d, N) (d', cb_tokens c')" "cluster_ok d' c'"
  shows "accounts_ok d' (cb_tokens c') \<and> persists d d' \<and> (\<forall>j. total (wraps_of j) d' = total (wraps_of j) d)"
  using token_steps_accounts [OF assms(2,1)] token_steps_persist [OF assms(2)] assms(1) by (simp add: accounts_ok_def)

lemma quiet_next:
  assumes "cluster_inv (d, c)" "token_steps (d, cb_tokens c) (d', cb_tokens c')" "cluster_ok d' c'"
  shows "cluster_next (d, c) [] (d', c')"
  using assms token_moves_next [of d "cb_tokens c" d' c'] by (simp add: cluster_inv_def cluster_next_def)

lemma task_at_ok:
  assumes "cluster_inv (d, c)"
  shows "\<exists>s. run_task_at B (d, c) k = Some s \<and> cluster_next (d, c) [] s"
proof (cases "k < length (cb_tasks c)")
  case True
  let ?ts = "cb_tasks c" and ?rest = "take k (cb_tasks c) @ drop (Suc k) (cb_tasks c)"
  let ?c = "c\<lparr>cb_tasks := ?rest\<rparr>"
  have ok: "cluster_ok d c" "accounts_ok d (cb_tokens c)" using assms by (simp_all add: cluster_inv_def)
  have sub: "set ?rest \<subseteq> set ?ts" by (auto dest: in_set_takeD in_set_dropD)
  then have c: "cluster_ok d ?c" using ok(1) by (auto simp: cluster_ok_def)
  have t: "task_ok (nodes ?c) (?ts ! k)" "\<forall>p\<in>set (task_items (?ts ! k)). plain_done d (p_done p)"
    using ok(1) nth_mem [OF True] by (auto simp: cluster_ok_def)
  have tk: "cb_tokens c = cb_tokens ?c + task_tokens (?ts ! k)"
    using sum_list_map_split [OF True, of task_tokens] by (simp add: cb_tokens_def ac_simps)
  then have "tokens_ok d (cb_tokens ?c + task_tokens (?ts ! k))" using ok(2) by (simp add: accounts_ok_def)
  from run_task_ok [OF c t this] obtain d' c' where r: "run_task B (d, ?c) (?ts ! k) = Some (d', c')" "cluster_ok d' c'"
    "token_steps (d, cb_tokens c) (d', cb_tokens c')" unfolding tk by blast
  then show ?thesis using True quiet_next [OF assms r(3,2)] by (simp add: run_task_at_def Let_def)
next
  case False
  then show ?thesis using assms by (simp add: run_task_at_def Let_def cluster_next_def)
qed

lemma submit_ok:
  assumes inv: "cluster_inv (d, c)" and p: "item_ok B valid (getNodeID B (p_item p)) p" "user_at d (p_done p)"
  shows "cluster_next (d, c) [p] (cb_Add B ctx (d, c) p)"
proof -
  obtain e q where w: "wrap B (ctx_cancelable ctx) d p = (e, q)" by force
  then have "wrap_all B (ctx_cancelable ctx) d [p] = (e, [q])" by simp
  from wrap_all_accounts [OF _ _ this, of "cb_tokens c"] inv p(2)
  have a: "accounts_ok e (cb_tokens c + {#p_done q#})" "p_item q = p_item p" "plain_done e (p_done q)" "persists d e"
    "\<forall>j. total (wraps_of j) e = total (wraps_of j) d + length (filter (\<lambda>p. p_done p = j) [p])" by (auto simp: cluster_inv_def)
  have c: "cluster_ok e c" using inv cluster_ok_persists [OF _ a(4)] by (simp add: cluster_inv_def)
  have q: "item_ok B valid (getNodeID B (p_item q)) q" using p(1) a(2) by (simp add: item_ok_def)
  show ?thesis
  proof (cases "ctx_Err ctx")
    case None
    have "cluster_ok e (push_tasks c [DispatchOne q])" using q a(3) by (intro cluster_ok_push [OF c]) simp
    then show ?thesis using None w a by (simp add: cb_Add_def addToBuffer_def cluster_next_def cluster_inv_def cb_tokens_push)
  next
    case (Some err)
    have st: "token_steps (e, cb_tokens c + {#p_done q#}) (fire e (p_done q) (err_result err), cb_tokens c)"
      using token_step.spend [of "p_done q" "cb_tokens c + {#p_done q#}" e "err_result err"] by auto
    have "tokens_ok e (cb_tokens c + {#p_done q#})" using a(1) by (simp add: accounts_ok_def)
    then have c': "cluster_ok (fire e (p_done q) (err_result err)) c" using cluster_ok_persists [OF c token_steps_persist [OF st]] by simp
    then show ?thesis using Some w a token_moves_next [OF a(1) st c'] persists_trans [OF a(4)]
      by (simp add: cb_Add_def addToBuffer_def cluster_next_def cluster_inv_def)
  qed
qed

lemma group_tasks:
  assumes "\<forall>q\<in>set qs. item_ok B valid (getNodeID B (p_item q)) q \<and> plain_done e (p_done q)"
    and "group_by (\<lambda>p. getNodeID B (p_item p)) qs = (order, byAgent)"
  shows "\<forall>t\<in>set (map (\<lambda>nd. Dispatch nd (get_or [] byAgent nd)) order). task_ok ns t \<and> (\<forall>p\<in>set (task_items t). plain_done e (p_done p))"
    "sum_list (map task_tokens (map (\<lambda>nd. Dispatch nd (get_or [] byAgent nd)) order)) = mset (map p_done qs)"
proof -
  let ?key = "\<lambda>p. getNodeID B (p_item p)"
  have o: "order = first_seen (map ?key qs)" and g: "get_or [] byAgent nd = filter (\<lambda>q. ?key q = nd) qs" for nd
    using group_by_eq(1) [of ?key qs] get_or_group_by [of ?key qs nd] assms(2) by simp_all
  show "\<forall>t\<in>set (map (\<lambda>nd. Dispatch nd (get_or [] byAgent nd)) order). task_ok ns t \<and> (\<forall>p\<in>set (task_items t). plain_done e (p_done p))"
    using assms(1) by (auto simp: g)
  have "sum_list (map task_tokens (map (\<lambda>nd. Dispatch nd (get_or [] byAgent nd)) order)) =
      image_mset p_done (mset (concat (map (\<lambda>nd. filter (\<lambda>q. ?key q = nd) qs) ks)))" if "ks = order" for ks
    unfolding that [symmetric] by (induction ks) (simp_all add: g)
  from this [OF refl] show "sum_list (map task_tokens (map (\<lambda>nd. Dispatch nd (get_or [] byAgent nd)) order)) = mset (map p_done qs)"
    unfolding o mset_concat_groups by simp
qed

lemma multi_submit_ok:
  assumes inv: "cluster_inv (d, c)" and p: "\<forall>p\<in>set ps. item_ok B valid (getNodeID B (p_item p)) p \<and> user_at d (p_done p)"
  shows "cluster_next (d, c) ps (cb_MultiAdd B ctx (d, c) ps)"
proof (cases "ps = []")
  case True
  then show ?thesis using inv by (simp add: cb_MultiAdd_def cluster_next_def)
next
  case ne: False
  obtain e qs where w: "wrap_all B (ctx_cancelable ctx) d ps = (e, qs)" by force
  from wrap_all_accounts [OF _ _ w, of "cb_tokens c"] inv p
  have a: "accounts_ok e (cb_tokens c + mset (map p_done qs))" "map p_item qs = map p_item ps" "\<forall>q\<in>set qs. plain_done e (p_done q)"
    "persists d e" "\<forall>j. total (wraps_of j) e = total (wraps_of j) d + length (filter (\<lambda>p. p_done p = j) ps)" by (auto simp: cluster_inv_def)
  have c: "cluster_ok e c" using inv cluster_ok_persists [OF _ a(4)] by (simp add: cluster_inv_def)
  have "p_item ` set qs = p_item ` set ps" using a(2) by (metis list.set_map)
  moreover have "item_ok B valid (getNodeID B x) y \<longleftrightarrow> valid x \<and> 0 < recordCount B x" if "p_item y = x" for x and y :: "'w promised"
    using that by (auto simp: item_ok_def)
  ultimately have q: "\<forall>q\<in>set qs. item_ok B valid (getNodeID B (p_item q)) q \<and> plain_done e (p_done q)"
    using p a(3) by (metis (no_types, lifting) imageE imageI)
  have nq: "qs \<noteq> []" using ne a(2) by auto
  show ?thesis
  proof (cases "ctx_Err ctx")
    case None
    obtain order byAgent where g: "group_by (\<lambda>p. getNodeID B (p_item p)) qs = (order, byAgent)" by force
    let ?c = "push_tasks c (map (\<lambda>nd. Dispatch nd (get_or [] byAgent nd)) order)"
    have "cluster_ok e ?c" by (rule cluster_ok_push [OF c group_tasks(1) [OF q g]])
    moreover have "cb_tokens ?c = cb_tokens c + mset (map p_done qs)" unfolding cb_tokens_push group_tasks(2) [OF q g] ..
    ultimately show ?thesis using None w a ne nq g
      by (simp add: cb_MultiAdd_def addToBuffers_def cluster_next_def cluster_inv_def)
  next
    case (Some err)
    have st: "token_steps (e, cb_tokens c + mset (map p_done qs)) (fire_all e qs (err_result err), cb_tokens c)"
      by (rule token_steps_fire_all)
    have "tokens_ok e (cb_tokens c + mset (map p_done qs))" using a(1) by (simp add: accounts_ok_def)
    then have c': "cluster_ok (fire_all e qs (err_result err)) c" using cluster_ok_persists [OF c token_steps_persist [OF st]] by simp
    then show ?thesis using Some w a ne nq token_moves_next [OF a(1) st c'] persists_trans [OF a(4)]
      by (simp add: cb_MultiAdd_def addToBuffers_def cluster_next_def cluster_inv_def)
  qed
qed

lemma cluster_close_ok:
  assumes "cluster_inv (d, c)"
  shows "cluster_next (d, c) [] (d, cb_Close c)"
proof (cases "cb_closed c")
  case False
  let ?c = "c\<lparr>cb_closed := True, cb_agentBuffers := []\<rparr>" and ?ts = "map (CloseAgent \<circ> snd) (cb_agentBuffers c)"
  have "cluster_ok d ?c" using assms by (simp add: cluster_inv_def cluster_ok_def)
  moreover have "\<forall>t\<in>set ?ts. task_ok (nodes ?c) t \<and> (\<forall>p\<in>set (task_items t). plain_done d (p_done p))"
    using assms by (fastforce simp: cluster_inv_def cluster_ok_def gomap_all_def)
  ultimately have "cluster_ok d (push_tasks ?c ?ts)" by (rule cluster_ok_push)
  moreover have "sum_list (map task_tokens (map (CloseAgent \<circ> snd) xs)) = {#}" for xs :: "(node_id \<times> nat) list"
    by (induction xs) simp_all
  then have "cb_tokens (push_tasks ?c ?ts) = cb_tokens c" unfolding cb_tokens_push by (simp add: cb_tokens_def)
  ultimately show ?thesis using assms False by (simp add: cb_Close_def cluster_next_def cluster_inv_def)
qed (use assms in \<open>simp add: cb_Close_def cluster_next_def\<close>)

lemma cluster_step_ok:
  assumes inv: "cluster_inv (d, c)"
    and p: "\<forall>p\<in>set (cb_items ev). item_ok B valid (getNodeID B (p_item p)) p \<and> user_at d (p_done p)"
  shows "\<exists>s. cb_step B (d, c) ev = Some s \<and> cluster_next (d, c) (cb_items ev) s"
proof -
  have ok: "cluster_ok d c" "accounts_ok d (cb_tokens c)" using inv by (simp_all add: cluster_inv_def)
  have agent: "\<exists>s. on_agent (d, c) h (\<lambda>s. ab_step B s x) = Some s \<and> cluster_next (d, c) [] s" if "ev_items x = []" for h x
    using agent_event_ok [OF ok that, of h] quiet_next [OF inv] by blast
  show ?thesis
  proof (cases ev)
    case (CtxFires k err)
    have "cluster_ok (ctx_fires d k err) c"
      using cluster_ok_persists [OF ok(1), of "ctx_fires d k err"] ctx_fires_accounts [OF ok(2)] by blast
    then show ?thesis using CtxFires ctx_fires_accounts [OF ok(2), of k err] by (simp add: cluster_next_def cluster_inv_def)
  next
    case (RunTask k)
    then show ?thesis using task_at_ok [OF inv] by simp
  next
    case (AgentReports h k)
    then show ?thesis using agent [of "ReportNext k" h] by simp
  qed (use p submit_ok [OF inv] multi_submit_ok [OF inv] cluster_close_ok [OF inv] agent in auto)
qed

lemma cluster_run_ok:
  assumes "cluster_inv s"
    and "\<forall>ev\<in>set evs. \<forall>p\<in>set (cb_items ev). item_ok B valid (getNodeID B (p_item p)) p \<and> user_at (fst s) (p_done p)"
  shows "\<exists>t. cb_run B s evs = Some t \<and> cluster_next s (concat (map cb_items evs)) t"
  using assms
proof (induction evs arbitrary: s)
  case (Cons ev evs)
  obtain d c where s: "s = (d, c)" by force
  from cluster_step_ok [of d c ev] Cons.prems obtain t where t: "cb_step B s ev = Some t" "cluster_next s (cb_items ev) t"
    unfolding s by auto
  have "\<forall>ev\<in>set evs. \<forall>p\<in>set (cb_items ev). item_ok B valid (getNodeID B (p_item p)) p \<and> user_at (fst t) (p_done p)"
    using Cons.prems(2) t(2) by (auto simp: cluster_next_def persists_def)
  with Cons.IH [of t] t(2) obtain u where u: "cb_run B t evs = Some u" "cluster_next t (concat (map cb_items evs)) u"
    by (auto simp: cluster_next_def)
  then have "cluster_next s (concat (map cb_items (ev # evs))) u"
    using t(2) persists_trans by (auto simp: cluster_next_def)
  then show ?case using t(1) u(1) by simp
qed (simp add: cluster_next_def)

end

section \<open>Properties\<close>

lemma initial_accounts:
  assumes "callbacks d = replicate n User" "fired d = []" "bufferedBytes d = 0" "bufferedRecords d = 0"
  shows "accounts_ok d {#}" "total (wraps_of j) d = 0" "user_at d j \<longleftrightarrow> j < n"
proof -
  have z: "total w d = 0" if "w User = 0" for w :: "callback \<Rightarrow> 'x::comm_monoid_add"
  proof -
    have "sum_list (replicate k 0) = (0 :: 'x)" for k by (induction k) simp_all
    then show ?thesis using that assms(1) by (simp add: total_def)
  qed
  have t: "tokens_ok d {#}" using assms(1) by (simp add: tokens_ok_def callback_ok_def)
  have "hook_ok d {#} k" if "k < length (callbacks d)" for k
    using that assms(1) demand_empty [OF t, of k] by (simp add: hook_ok_def)
  then show "accounts_ok d {#}" 
    using t z [of open_bytes] z [of open_records] z [of "settled_of _"] assms(2-4) by (simp add: accounts_ok_def calls_def)
  show "total (wraps_of j) d = 0" by (rule z) simp
  show "user_at d j \<longleftrightarrow> j < n" using assms(1) by (auto simp: user_at_def)
qed


definition example_cluster_run :: "routedTopicPartitionRecords cb_event list" where
  "example_cluster_run =
     [Submit \<lparr>ctx_cancelable = True, ctx_Err = None\<rparr> \<lparr>p_item = example_big, p_done = 0\<rparr>, RunTask 0, RunTask 0,
      CtxFires 1 Canceled, ClusterCloses, RunTask 0, AgentFlushReturns 0 0 (example_outcome 0), AgentReports 0 0]"

lemma example_cluster_drained:
  "case cb_run plainBatch (example_done, NewClusterBuffer 100) example_cluster_run of
     Some (d, c) \<Rightarrow> length (cb_tasks c) = 0 \<and>
       list_all (\<lambda>a. length (nextProduceItems a) = 0 \<and> length (flights a) = 0) (cb_store c) | None \<Rightarrow> False"
  by code_simp


end
