(* ===== verification/Hedged_Produce.thy ===== *)
theory Hedged_Produce
  imports Demoter_Policy Cluster_Buffer
begin

text \<open>
  The produce orchestration of \<open>hedger.go\<close>: the hedge decision, the waves of attempts on other
  agents, the race with the primary, and the reason a failed produce is filed under.

  What the hedger waits for is an argument of its functions. A wave gets the list of what its
  \<open>select\<close> loop receives, leg results or the end of the context; the cascade gets, per iteration,
  the context error it reads and the wave's list; \<open>ProduceSync\<close> gets the primary's result and who
  comes first in its \<open>select\<close> statements. A list that ends early stands for a loop that blocks, and
  the function returns \<open>None\<close>. The cascade loop has fuel; a property shows that \<open>MaxHedgeAgents\<close>
  is enough. The strategy is a state-passing function, because a look-up may use up a probe.
  Counters other than the reasons they are filed under, and log lines, are left out.
\<close>

section \<open>The hedge decision\<close>

datatype hedgeTrigger = hedgeTriggerLatency | hedgeTriggerPrimaryFailure | hedgeTriggerDemotedProbe
datatype hedgeCause = hedgeCauseLatency | hedgeCauseDemotedProbe

record hedgeDecision =
  hd_delay :: duration
  hd_eligible :: bool
  hd_cause :: hedgeCause

definition zero_decision :: hedgeDecision where
  "zero_decision = \<lparr>hd_delay = 0, hd_eligible = False, hd_cause = hedgeCauseLatency\<rparr>"

definition trigger :: "hedgeDecision \<Rightarrow> hedgeTrigger" where
  "trigger d = (if hd_cause d = hedgeCauseDemotedProbe then hedgeTriggerDemotedProbe else hedgeTriggerLatency)"

datatype hedgeSuppressed =
  hedgeSuppressedNoAgentStats | hedgeSuppressedNoClusterStats | hedgeSuppressedSlowFraction | hedgeSuppressedFaultyFraction

definition shouldHedge ::
  "AgentStatsReader \<Rightarrow> HealthCheckConfig \<Rightarrow> HedgerConfig \<Rightarrow> instant \<Rightarrow> node_id \<Rightarrow>
   routedEncodedTopicPartitionRecords list \<Rightarrow> hedgeDecision \<times> hedgeSuppressed option" where
  "shouldHedge tracker health cfg now primaryID partitions =
     (if \<exists>p\<in>set partitions. re_nodeID p = primaryID \<and> re_nodeState p = AgentStateDemoted
      then (\<lparr>hd_delay = 0, hd_eligible = True, hd_cause = hedgeCauseDemotedProbe\<rparr>, None)
      else case r_AgentStats tracker now primaryID of
        None \<Rightarrow> (zero_decision, Some hedgeSuppressedNoAgentStats)
      | Some primary \<Rightarrow>
          (case r_ClusterStats tracker now (SlowMultiplier health) (cfg_FaultyThreshold health) of
             None \<Rightarrow> (zero_decision, Some hedgeSuppressedNoClusterStats)
           | Some cs \<Rightarrow>
               if SlowFraction cs > maxFractionFloor (MaxSlowFraction health) (SlowContributorsCount cs)
               then (zero_decision, Some hedgeSuppressedSlowFraction)
               else if FaultyFraction cs > maxFractionFloor (MaxFaultyFraction health) (FaultyContributorsCount cs)
               then (zero_decision, Some hedgeSuppressedFaultyFraction)
               else let primarySlow = Latency primary > SlowThreshold cs;
                        primaryFaulty = (RequestCount primary \<ge> errorRateMinRequests cs \<and> ErrorRate primary > FaultyThreshold cs);
                        baseline = (if \<not> primarySlow \<and> \<not> primaryFaulty
                                    then int_of_f64 (f64_mul (f64_of_int (BaselineLatency cs)) (SlowMultiplier health))
                                    else BaselineLatency cs)
                    in (\<lparr>hd_delay = max baseline (MinHedgeDelay cfg), hd_eligible = True, hd_cause = hedgeCauseLatency\<rparr>, None)))"

section \<open>Why a produce stopped\<close>

datatype produceStop =
    produceStopNone | produceStopNoAlternate | produceStopListDrained | produceStopBudgetCap
  | produceStopTerminalError | produceStopWriteTimeout | produceStopCanceled | produceStopInternal

definition exhausted :: "produceStop \<Rightarrow> bool" where
  "exhausted s \<longleftrightarrow> s = produceStopNoAlternate \<or> s = produceStopListDrained \<or> s = produceStopBudgetCap"

datatype produceFailureReason =
    produceFailureReasonNoAlternate | produceFailureReasonListDrained | produceFailureReasonBudgetCap
  | produceFailureReasonTerminalError | produceFailureReasonWriteTimeout | produceFailureReasonInternalError

fun observeProduceFailure :: "produceStop \<Rightarrow> produceFailureReason option" where
  "observeProduceFailure produceStopNone = None"
| "observeProduceFailure produceStopCanceled = None"
| "observeProduceFailure produceStopNoAlternate = Some produceFailureReasonNoAlternate"
| "observeProduceFailure produceStopListDrained = Some produceFailureReasonListDrained"
| "observeProduceFailure produceStopBudgetCap = Some produceFailureReasonBudgetCap"
| "observeProduceFailure produceStopTerminalError = Some produceFailureReasonTerminalError"
| "observeProduceFailure produceStopWriteTimeout = Some produceFailureReasonWriteTimeout"
| "observeProduceFailure produceStopInternal = Some produceFailureReasonInternalError"

definition is_err :: "goerror option \<Rightarrow> goerror \<Rightarrow> bool" where
  "is_err err target = (case err of None \<Rightarrow> False | Some e \<Rightarrow> errors_Is e target)"

definition classifyProduceStop :: "bool \<Rightarrow> goerror option \<Rightarrow> goerror option \<Rightarrow> produceStop \<Rightarrow> produceStop" where
  "classifyProduceStop terminal termErr ctxErr exhaustion =
     (if terminal \<and> \<not> is_err termErr Canceled then produceStopTerminalError
      else if ctxErr \<noteq> None \<and> is_err ctxErr Canceled then produceStopCanceled
      else if ctxErr \<noteq> None \<and> is_err ctxErr DeadlineExceeded then produceStopWriteTimeout
      else if exhausted exhaustion then exhaustion
      else if terminal then produceStopTerminalError
      else produceStopNone)"

text \<open>What a context shows when it is asked: its error, its deadline and the time.\<close>

record ctx_view =
  cv_Err :: "goerror option"
  cv_Deadline :: "instant option"
  cv_Now :: instant

definition ctxStopErr :: "ctx_view \<Rightarrow> goerror option" where
  "ctxStopErr c =
     (case cv_Err c of
        Some e \<Rightarrow> Some e
      | None \<Rightarrow> (case cv_Deadline c of
                   Some deadline \<Rightarrow> if \<not> cv_Now c < deadline then Some DeadlineExceeded else None
                 | None \<Rightarrow> None))"

definition finalStop :: "err_env \<Rightarrow> ctx_view \<Rightarrow> ProduceResult \<Rightarrow> ProduceResult \<Rightarrow> produceStop \<Rightarrow> produceStop" where
  "finalStop env workCtx primary res stop =
     (if (\<not> exhausted stop \<and> stop \<noteq> produceStopWriteTimeout) \<or> succeeded res then stop
      else if (case result_error primary of
                 Some err \<Rightarrow> \<not> errors_Is err Canceled \<and> \<not> pe_retriable (getProduceResultErr env err)
               | None \<Rightarrow> False) then produceStopTerminalError
      else if stop = produceStopWriteTimeout then stop
      else if is_err (ctxStopErr workCtx) DeadlineExceeded then produceStopWriteTimeout
      else if is_err (ctxStopErr workCtx) Canceled then produceStopCanceled
      else stop)"

definition withCoverageCheck :: "ProduceResult \<Rightarrow> encodedTopicPartitionRecords list \<Rightarrow> ProduceResult" where
  "withCoverageCheck res requested =
     (if pr_err res \<noteq> None then res
      else case firstMissingProducePartition (pr_resp res) requested of
             Some missing \<Rightarrow> res\<lparr>pr_err := Some errIncompleteProduceResponse\<rparr>
           | None \<Rightarrow> res)"

section \<open>Candidate lists\<close>

record 's hedgerCandidates =
  hc_strategy :: "'s \<Rightarrow> topicPartition \<Rightarrow> int \<Rightarrow> 's \<times> Agent list"
  hc_state :: 's
  hc_maxHedgeAgents :: int
  hc_cache :: "(topicPartition, Agent list) gomap"

definition newHedgerCandidates ::
  "('s \<Rightarrow> topicPartition \<Rightarrow> int \<Rightarrow> 's \<times> Agent list) \<Rightarrow> 's \<Rightarrow> int \<Rightarrow> 's hedgerCandidates" where
  "newHedgerCandidates strategy s maxHedgeAgents =
     \<lparr>hc_strategy = strategy, hc_state = s, hc_maxHedgeAgents = maxHedgeAgents, hc_cache = []\<rparr>"

definition fetch :: "'s hedgerCandidates \<Rightarrow> topicPartition \<Rightarrow> 's hedgerCandidates \<times> Agent list" where
  "fetch h tp =
     (case map_of (hc_cache h) tp of
        Some cached \<Rightarrow> (h, cached)
      | None \<Rightarrow>
          let (s, list) = hc_strategy h (hc_state h) tp (hc_maxHedgeAgents h)
          in (h\<lparr>hc_state := s, hc_cache := AList.update tp list (hc_cache h)\<rparr>, list))"

datatype primaryState = primaryStateHealthy | primaryStateDemoted

primrec fewest_candidates ::
  "node_id \<Rightarrow> encodedTopicPartitionRecords list \<Rightarrow> 's hedgerCandidates \<Rightarrow> int option \<Rightarrow> 's hedgerCandidates \<times> int option" where
  "fewest_candidates primaryID [] h fewest = (h, fewest)"
| "fewest_candidates primaryID (p # ps) h fewest =
     (let (h, list) = fetch h (e_key p);
          n = int (card (set (filter (\<lambda>nd. nd \<noteq> primaryID) (map NodeID list))))
      in fewest_candidates primaryID ps h (Some (case fewest of None \<Rightarrow> n | Some m \<Rightarrow> min m n)))"

text \<open>The label set that \<open>observeCandidates\<close> counts under: state, size of the shortest list, and whether it is full.\<close>

definition hedgeCandidateSet :: "primaryState \<Rightarrow> int \<Rightarrow> int \<Rightarrow> primaryState \<times> int \<times> bool" where
  "hedgeCandidateSet state cands maxHedgeAgents = (state, cands, cands = maxHedgeAgents - 1)"

definition observeCandidates ::
  "HedgerConfig \<Rightarrow> hedgeTrigger \<Rightarrow> node_id \<Rightarrow> encodedTopicPartitionRecords list \<Rightarrow> 's hedgerCandidates \<Rightarrow>
   's hedgerCandidates \<times> (primaryState \<times> int \<times> bool) option" where
  "observeCandidates cfg trig primaryID partitions h =
     (if partitions = [] then (h, None)
      else let (h, fewest) = fewest_candidates primaryID partitions h None;
               state = (if trig = hedgeTriggerDemotedProbe then primaryStateDemoted else primaryStateHealthy)
           in (h, Some (hedgeCandidateSet state (min (the fewest) (MaxHedgeAgents cfg - 1)) (MaxHedgeAgents cfg))))"

section \<open>One wave\<close>

type_synonym tried_map = "(topicPartition, node_id list) gomap"
type_synonym wave_groups = "(node_id, encodedTopicPartitionRecords list) gomap"

fun pick_next ::
  "int \<Rightarrow> encodedTopicPartitionRecords list \<Rightarrow> 's hedgerCandidates \<Rightarrow> tried_map \<Rightarrow> wave_groups \<Rightarrow>
   's hedgerCandidates \<times> tried_map \<times> (produceStop + wave_groups)" where
  "pick_next maxAgents [] h tried groups = (h, tried, Inr groups)"
| "pick_next maxAgents (p # ps) h tried groups =
     (let tp = e_key p; seen = get_or [] tried tp
      in if int (length seen) \<ge> maxAgents then (h, tried, Inl produceStopBudgetCap)
         else let (h, list) = fetch h tp
              in case find (\<lambda>nd. nd \<notin> set seen) (map NodeID list) of
                   None \<Rightarrow> (h, tried, Inl (if length seen = 1 then produceStopNoAlternate else produceStopListDrained))
                 | Some next \<Rightarrow>
                     pick_next maxAgents ps h (AList.update tp (seen @ [next]) tried)
                       (AList.update next (get_or [] groups next @ [p]) groups))"

datatype wave_event = LegDone node_id ProduceResult | AttemptCtxDone

fun collect_legs ::
  "err_env \<Rightarrow> wave_groups \<Rightarrow> nat \<Rightarrow> produceResultAccumulator \<Rightarrow> wave_event list \<Rightarrow> (produceResultAccumulator \<times> bool) option" where
  "collect_legs env groups 0 acc evs = Some (acc, True)"
| "collect_legs env groups (Suc n) acc [] = None"
| "collect_legs env groups (Suc n) acc (LegDone agent res # evs) =
     (let acc = accumulate env acc (scopeProduceResultToPartitions res (e_key ` set (get_or [] groups agent)))
      in if acc_done acc then Some (acc, False) else collect_legs env groups n acc evs)"
| "collect_legs env groups (Suc n) acc (AttemptCtxDone # evs) = Some (acc, False)"

record 's wave_out =
  wo_acc :: produceResultAccumulator
  wo_tried :: tried_map
  wo_cands :: "'s hedgerCandidates"
  wo_dispatched :: bool
  wo_canRetry :: bool
  wo_exhaustion :: produceStop

definition runHedgingAttempt ::
  "err_env \<Rightarrow> int \<Rightarrow> produceResultAccumulator \<Rightarrow> tried_map \<Rightarrow> 's hedgerCandidates \<Rightarrow> wave_event list \<Rightarrow> 's wave_out option" where
  "runHedgingAttempt env maxAgents acc tried h evs =
     (if remaining acc = []
      then Some \<lparr>wo_acc = acc, wo_tried = tried, wo_cands = h, wo_dispatched = False, wo_canRetry = False, wo_exhaustion = produceStopNone\<rparr>
      else let (h, tried, picked) = pick_next maxAgents (remaining acc) h tried []
           in case picked of
                Inl stop \<Rightarrow> Some \<lparr>wo_acc = acc, wo_tried = tried, wo_cands = h, wo_dispatched = False, wo_canRetry = False, wo_exhaustion = stop\<rparr>
              | Inr groups \<Rightarrow>
                  (case collect_legs env groups (length groups) acc evs of
                     None \<Rightarrow> None
                   | Some (acc, canRetry) \<Rightarrow>
                       Some \<lparr>wo_acc = acc, wo_tried = tried, wo_cands = h, wo_dispatched = True, wo_canRetry = canRetry,
                             wo_exhaustion = produceStopNone\<rparr>))"

section \<open>The cascade\<close>

record wave_world =
  ww_ctxErr :: "goerror option"
  ww_events :: "wave_event list"

record hedgerProduceResult =
  hp_result :: ProduceResult
  hp_attempts :: nat
  hp_stop :: produceStop

fun hedge_loop ::
  "err_env \<Rightarrow> int \<Rightarrow> (nat \<Rightarrow> wave_world) \<Rightarrow> nat \<Rightarrow> nat \<Rightarrow> produceResultAccumulator \<Rightarrow> tried_map \<Rightarrow> 's hedgerCandidates \<Rightarrow> nat \<Rightarrow>
   (produceResultAccumulator \<times> tried_map \<times> nat \<times> produceStop) option" where
  "hedge_loop env maxAgents w 0 k acc tried h attempts = None"
| "hedge_loop env maxAgents w (Suc fuel) k acc tried h attempts =
     (if ww_ctxErr (w k) \<noteq> None then Some (acc, tried, attempts, produceStopNone)
      else case runHedgingAttempt env maxAgents acc tried h (ww_events (w k)) of
        None \<Rightarrow> None
      | Some out \<Rightarrow>
          let attempts = (if wo_dispatched out then Suc attempts else attempts)
          in if \<not> wo_canRetry out then Some (wo_acc out, wo_tried out, attempts, wo_exhaustion out)
             else hedge_loop env maxAgents w fuel (Suc k) (wo_acc out) (wo_tried out) (wo_cands out) attempts)"

definition seed_tried :: "node_id \<Rightarrow> encodedTopicPartitionRecords list \<Rightarrow> tried_map" where
  "seed_tried primaryID partitions = foldl (\<lambda>t p. AList.update (e_key p) [primaryID] t) [] partitions"

definition runHedgingAttempts ::
  "err_env \<Rightarrow> HedgerConfig \<Rightarrow> (nat \<Rightarrow> wave_world) \<Rightarrow> ctx_view \<Rightarrow> nat \<Rightarrow> node_id \<Rightarrow> encodedTopicPartitionRecords list \<Rightarrow>
   's hedgerCandidates \<Rightarrow> hedgeTrigger \<Rightarrow> hedgerProduceResult option" where
  "runHedgingAttempts env cfg w endCtx fuel primaryID partitions h trig =
     (case newProduceResultAccumulator partitions of
        Inl err \<Rightarrow> Some \<lparr>hp_result = err_result err, hp_attempts = 0, hp_stop = produceStopInternal\<rparr>
      | Inr acc \<Rightarrow>
          let (h, labels) = observeCandidates cfg trig primaryID partitions h
          in case hedge_loop env (MaxHedgeAgents cfg) w fuel 0 acc (seed_tried primaryID partitions) h 1 of
               None \<Rightarrow> None
             | Some (acc, tried, attempts, exhaustion) \<Rightarrow>
                 let res = result acc;
                     res = (case cv_Err endCtx of Some e \<Rightarrow> res\<lparr>pr_err := Some e\<rparr> | None \<Rightarrow> res);
                     (terminal, termErr) = terminalErr acc
                 in Some \<lparr>hp_result = res, hp_attempts = attempts,
                          hp_stop = classifyProduceStop terminal termErr (ctxStopErr endCtx) exhaustion\<rparr>)"

section \<open>The race and the whole produce\<close>

definition race_with_primary ::
  "err_env \<Rightarrow> ctx_view \<Rightarrow> bool \<Rightarrow> ProduceResult \<Rightarrow> hedgerProduceResult option \<Rightarrow> hedgerProduceResult option" where
  "race_with_primary env finalCtx primaryFirst primaryResult fallback =
     (if primaryFirst \<and> succeeded primaryResult
      then Some \<lparr>hp_result = primaryResult, hp_attempts = 1, hp_stop = produceStopNone\<rparr>
      else case fallback of
        None \<Rightarrow> None
      | Some fb \<Rightarrow>
          if primaryFirst
          then let res = selectProduceResult primaryResult (hp_result fb)
               in Some \<lparr>hp_result = res, hp_attempts = hp_attempts fb, hp_stop = finalStop env finalCtx primaryResult res (hp_stop fb)\<rparr>
          else if succeeded (hp_result fb) then Some fb
          else let attempts = (if succeeded primaryResult then 1 else hp_attempts fb);
                   res = selectProduceResult primaryResult (hp_result fb)
               in Some \<lparr>hp_result = res, hp_attempts = attempts, hp_stop = finalStop env finalCtx primaryResult res (hp_stop fb)\<rparr>)"

record 's produce_world =
  pw_now :: instant
  pw_primary :: ProduceResult
  pw_primaryBeforeTimer :: bool
  pw_primaryBeforeFallback :: bool
  pw_waves :: "nat \<Rightarrow> wave_world"
  pw_endCtx :: ctx_view
  pw_finalCtx :: ctx_view
  pw_strategy :: "'s \<Rightarrow> topicPartition \<Rightarrow> int \<Rightarrow> 's \<times> Agent list"
  pw_state :: 's

definition after_primary_failure ::
  "err_env \<Rightarrow> ctx_view \<Rightarrow> ProduceResult \<Rightarrow> hedgerProduceResult option \<Rightarrow> hedgerProduceResult option" where
  "after_primary_failure env finalCtx primaryResult fallback =
     (if succeeded primaryResult then Some \<lparr>hp_result = primaryResult, hp_attempts = 1, hp_stop = produceStopNone\<rparr>
      else case fallback of
        None \<Rightarrow> None
      | Some fb \<Rightarrow>
          let res = selectProduceResult primaryResult (hp_result fb)
          in Some \<lparr>hp_result = res, hp_attempts = hp_attempts fb, hp_stop = finalStop env finalCtx primaryResult res (hp_stop fb)\<rparr>)"

definition hedger_ProduceSync ::
  "err_env \<Rightarrow> AgentStatsReader \<Rightarrow> HealthCheckConfig \<Rightarrow> HedgerConfig \<Rightarrow> nat \<Rightarrow> 's produce_world \<Rightarrow> node_id \<Rightarrow>
   routedEncodedTopicPartitionRecords list \<Rightarrow> hedgerProduceResult option" where
  "hedger_ProduceSync env tracker health cfg fuel w primaryID routed =
     (if routed = []
      then Some \<lparr>hp_result = \<lparr>pr_resp = Some \<lparr>resp_Version = 0, resp_Topics = [], resp_ThrottleMillis = 0\<rparr>, pr_err = None\<rparr>,
                 hp_attempts = 0, hp_stop = produceStopNone\<rparr>
      else case find (\<lambda>p. re_nodeID p \<noteq> primaryID) routed of
        Some p \<Rightarrow>
          Some \<lparr>hp_result = err_result (GoErrorf ''hedger: partition %s/%d routed to nodeID=%d but primaryID=%d''
                   [FStr (e_topic (re_part p)), FInt (e_partition (re_part p)), FInt (re_nodeID p), FInt primaryID]),
                hp_attempts = 0, hp_stop = produceStopInternal\<rparr>
      | None \<Rightarrow>
          let (decision, suppressed) = shouldHedge tracker health cfg (pw_now w) primaryID routed;
              partitions = unrouteEncodedTopicPartitionRecords routed;
              primaryResult = withCoverageCheck (pw_primary w) partitions;
              h = newHedgerCandidates (pw_strategy w) (pw_state w) (MaxHedgeAgents cfg);
              cascade = runHedgingAttempts env cfg (pw_waves w) (pw_endCtx w) fuel primaryID partitions h
          in if hd_eligible decision
             then if hd_delay decision = 0
                  then race_with_primary env (pw_finalCtx w) (pw_primaryBeforeFallback w) primaryResult (cascade (trigger decision))
                  else if pw_primaryBeforeTimer w
                  then after_primary_failure env (pw_finalCtx w) primaryResult (cascade hedgeTriggerPrimaryFailure)
                  else race_with_primary env (pw_finalCtx w) (pw_primaryBeforeFallback w) primaryResult (cascade hedgeTriggerLatency)
             else after_primary_failure env (pw_finalCtx w) primaryResult (cascade hedgeTriggerPrimaryFailure))"

definition observeAttempts :: "hedgerProduceResult \<Rightarrow> bool \<times> nat \<times> produceFailureReason option" where
  "observeAttempts r =
     (if succeeded (hp_result r) then (True, hp_attempts r, None)
      else (False, hp_attempts r,
            observeProduceFailure (if hp_stop r = produceStopNone then produceStopInternal else hp_stop r)))"

section \<open>A wave asks each partition's next candidate\<close>

lemma pending_resolve_entry: "set (pending (fst (resolve_entry res t st e))) \<subseteq> set (pending (fst st))"
  by (auto simp: resolve_entry_def Let_def case_prod_unfold dest: set_delete_subset [THEN subsetD])

lemma pending_resolve_topic: "set (pending (resolve_topic res a t)) \<subseteq> set (pending a)"
proof -
  have "set (pending (fst (foldl (resolve_entry res (rt_Topic t)) (a, False) (rt_Partitions t)))) \<subseteq> set (pending a)"
    by (rule foldl_invariant) (use pending_resolve_entry in fastforce, simp)
  then show ?thesis by (simp add: resolve_topic_def case_prod_unfold Let_def)
qed

lemma pending_accumulate: "set (pending (accumulate env a res)) \<subseteq> set (pending a)"
proof -
  have "pending (foldl (record_failed res) b es) = pending b" for b es
    by (induction es arbitrary: b) (simp_all add: record_failed_def Let_def case_prod_unfold)
  moreover have "set (pending (foldl (resolve_topic res) b ts)) \<subseteq> set (pending a)" if "pending b = pending a" for b ts
    by (rule foldl_invariant) (use pending_resolve_topic in fastforce, simp add: that)
  ultimately show ?thesis
    by (cases "sc_err res"; cases "pr_resp (sc_raw res)") (simp_all add: accumulate_def Let_def)
qed

definition tried_ok :: "node_id \<Rightarrow> int \<Rightarrow> topicPartition set \<Rightarrow> tried_map \<Rightarrow> bool" where
  "tried_ok primaryID maxAgents ks tried \<longleftrightarrow> (\<forall>tp\<in>ks. \<exists>xs. get_or [] tried tp = primaryID # xs \<and> distinct (primaryID # xs) \<and>
     int (length xs) \<le> max 0 (maxAgents - 1))"

lemma tried_ok_extend:
  assumes "tried_ok primaryID m ks tried" "tp \<in> ks" "nd \<notin> set (get_or [] tried tp)" "int (length (get_or [] tried tp)) < m"
  shows "tried_ok primaryID m ks (AList.update tp (get_or [] tried tp @ [nd]) tried)"
  using assms by (fastforce simp: tried_ok_def)

lemma find_fresh: "find (\<lambda>nd. nd \<notin> set seen) xs = Some nd \<Longrightarrow> nd \<notin> set seen"
  by (drule find_SomeD) simp

lemma group_update_parts:
  "(\<Union>nd. set (get_or [] (AList.update x (get_or [] g x @ [p]) g) nd)) = insert p (\<Union>nd. set (get_or [] g nd))"
  by (auto split: if_splits)

lemma length_update_le: "length (AList.update k v m) \<le> Suc (length m)"
  by (induction m) auto

lemma pick_next_ok:
  assumes "tried_ok primaryID m ks tried" "e_key ` set ps \<subseteq> ks" "distinct (map e_key ps)"
    and "\<And>p. p \<in> set ps \<Longrightarrow> length (get_or [] tried (e_key p)) = n"
    and "pick_next m ps h tried groups = (h', tried', r)"
  shows "tried_ok primaryID m ks tried' \<and> (\<forall>tp. tp \<notin> e_key ` set ps \<longrightarrow> get_or [] tried' tp = get_or [] tried tp) \<and>
    (\<forall>groups'. r = Inr groups' \<longrightarrow> (ps \<noteq> [] \<longrightarrow> int n < m) \<and>
       (\<forall>p\<in>set ps. length (get_or [] tried' (e_key p)) = Suc n) \<and>
       (\<Union>nd. set (get_or [] groups' nd)) = (\<Union>nd. set (get_or [] groups nd)) \<union> set ps \<and>
       length groups' \<le> length groups + length ps)"
  using assms
proof (induction ps arbitrary: h tried groups h' tried' r)
  case (Cons p ps)
  let ?tp = "e_key p" and ?seen = "get_or [] tried (e_key p)"
  obtain h1 list where f: "fetch h ?tp = (h1, list)" by force
  show ?case
  proof (cases "int (length ?seen) \<ge> m \<or> find (\<lambda>nd. nd \<notin> set ?seen) (map NodeID list) = None")
    case True
    then show ?thesis using Cons.prems f by (auto simp: Let_def split: if_splits)
  next
    case False
    then obtain nd where nd: "find (\<lambda>nd. nd \<notin> set ?seen) (map NodeID list) = Some nd" and lt: "int (length ?seen) < m" by auto
    let ?t = "AList.update ?tp (?seen @ [nd]) tried" and ?g = "AList.update nd (get_or [] groups nd @ [p]) groups"
    have rec: "pick_next m ps h1 ?t ?g = (h', tried', r)" using Cons.prems(5) f nd lt by (simp add: Let_def)
    have t: "tried_ok primaryID m ks ?t" using tried_ok_extend [OF Cons.prems(1)] Cons.prems(2) find_fresh [OF nd] lt by simp
    have other: "length (get_or [] ?t (e_key q)) = n" if "q \<in> set ps" for q
      using that Cons.prems(3,4) by (auto simp: image_iff)
    note IH = Cons.IH [OF t _ _ other rec]
    have "?tp \<notin> e_key ` set ps" using Cons.prems(3) by auto
    then have "get_or [] tried' ?tp = ?seen @ [nd]" using IH Cons.prems(2,3) by simp
    then have "length (get_or [] tried' ?tp) = Suc n" using Cons.prems(4) by simp
    then show ?thesis using IH Cons.prems lt group_update_parts [of nd groups p] length_update_le [of nd "get_or [] groups nd @ [p]" groups]
      by auto
  qed
qed simp

section \<open>A wave's legs\<close>

definition wave_live :: "nat \<Rightarrow> wave_event list \<Rightarrow> bool" where
  "wave_live n evs \<longleftrightarrow> AttemptCtxDone \<in> set evs \<or> n \<le> length evs"

lemma collect_legs_returns: "wave_live n evs \<Longrightarrow> \<exists>r. collect_legs env groups n acc evs = Some r"
proof (induction env groups n acc evs rule: collect_legs.induct)
  case (3 env groups n acc agent res evs)
  then have "wave_live n evs" by (auto simp: wave_live_def)
  then show ?case using 3 by (auto simp: Let_def)
qed (auto simp: wave_live_def)

text \<open>A history: what a cascade has accumulated, each result delivered by a leg and scoped to its own partitions.\<close>

definition delivered :: "(nat \<Rightarrow> wave_world) \<Rightarrow> topicPartition set \<Rightarrow> attempt list \<Rightarrow> bool" where
  "delivered w ks hs \<longleftrightarrow> (\<forall>(res, own)\<in>set hs. own \<subseteq> ks \<and> (\<exists>k agent. LegDone agent res \<in> set (ww_events (w k))))"

lemma run_attempts_append: "run_attempts env a (hs @ gs) = run_attempts env (run_attempts env a hs) gs"
  by (simp add: run_attempts_def)

lemma collect_legs_history:
  assumes "collect_legs env groups n acc evs = Some (acc', c)" "(\<Union>nd. set (get_or [] groups nd)) \<subseteq> ps" "set evs \<subseteq> set (ww_events (w k))"
  shows "\<exists>hs. acc' = run_attempts env acc hs \<and> delivered w (e_key ` ps) hs"
  using assms
proof (induction env groups n acc evs rule: collect_legs.induct)
  case (1 env groups acc evs)
  then show ?case by (intro exI [of _ "[]"]) (simp add: delivered_def)
next
  case (3 env groups n acc agent res evs)
  let ?own = "e_key ` set (get_or [] groups agent)"
  let ?acc = "accumulate env acc (scopeProduceResultToPartitions res ?own)"
  have one: "delivered w (e_key ` ps) [(res, ?own)]" using 3(3,4) by (fastforce simp: delivered_def)
  show ?case
  proof (cases "acc_done ?acc")
    case True
    then show ?thesis using 3(2) one by (intro exI [of _ "[(res, ?own)]"]) (simp add: Let_def)
  next
    case False
    then obtain hs where "acc' = run_attempts env ?acc hs" "delivered w (e_key ` ps) hs"
      using 3 by (auto simp: Let_def)
    then show ?thesis using one by (intro exI [of _ "(res, ?own) # hs"]) (simp add: delivered_def)
  qed
next
  case (4 env groups n acc evs)
  then show ?case by (intro exI [of _ "[]"]) (simp add: delivered_def)
qed simp

lemma pending_run_attempts: "set (pending (run_attempts env a hs)) \<subseteq> set (pending a)"
proof (induction hs arbitrary: a)
  case (Cons h hs)
  obtain res own where h: "h = (res, own)" by force
  show ?case unfolding h run_attempts_simps using Cons.IH pending_accumulate by (rule order_trans)
qed simp

lemma acc_inv_keys:
  assumes "acc_inv ks a"
  shows "e_key ` set (remaining a) \<subseteq> ks" "distinct (map e_key (remaining a))"
proof -
  have "map e_key (remaining a) = map fst (pending a)"
    using assms unfolding remaining_def map_map by (intro map_cong) (auto simp: acc_inv_def acc_wf_def gomap_all_def)
  then show "distinct (map e_key (remaining a))" using assms by (simp add: acc_inv_def acc_wf_def)
  show "e_key ` set (remaining a) \<subseteq> ks" unfolding set_remaining [OF assms] using assms by (auto simp: acc_inv_def acc_keys_def)
qed

section \<open>The cascade ends and stays within its budget\<close>

text \<open>The state of the cascade at the head of iteration \<open>k\<close>.\<close>

definition cascade_inv :: "node_id \<Rightarrow> int \<Rightarrow> topicPartition set \<Rightarrow> nat \<Rightarrow> produceResultAccumulator \<Rightarrow> tried_map \<Rightarrow> bool" where
  "cascade_inv primaryID m ks k acc tried \<longleftrightarrow> acc_inv ks acc \<and> tried_ok primaryID m ks tried \<and>
     (\<forall>p\<in>set (remaining acc). length (get_or [] tried (e_key p)) = Suc k)"

lemma wave_ok:
  assumes inv: "cascade_inv primaryID m ks k acc tried"
    and r: "runHedgingAttempt env m acc tried h (ww_events (w k)) = Some out"
  shows "(\<exists>hs. wo_acc out = run_attempts env acc hs \<and> delivered w ks hs) \<and> tried_ok primaryID m ks (wo_tried out) \<and>
    (wo_dispatched out \<longrightarrow> int (Suc k) < m) \<and>
    (wo_canRetry out \<longrightarrow> wo_dispatched out \<and> cascade_inv primaryID m ks (Suc k) (wo_acc out) (wo_tried out))"
proof (cases "remaining acc = []")
  case True
  then have "out = \<lparr>wo_acc = acc, wo_tried = tried, wo_cands = h, wo_dispatched = False, wo_canRetry = False, wo_exhaustion = produceStopNone\<rparr>"
    using r by (simp add: runHedgingAttempt_def)
  moreover have "\<exists>hs. acc = run_attempts env acc hs \<and> delivered w ks hs" by (intro exI [of _ "[]"]) (simp add: delivered_def)
  ultimately show ?thesis using inv by (simp add: cascade_inv_def)
next
  case False
  have a: "acc_inv ks acc" "tried_ok primaryID m ks tried" "\<And>p. p \<in> set (remaining acc) \<Longrightarrow> length (get_or [] tried (e_key p)) = Suc k"
    using inv by (simp_all add: cascade_inv_def)
  note keys = acc_inv_keys [OF a(1)]
  obtain h' tried' picked where pk: "pick_next m (remaining acc) h tried [] = (h', tried', picked)" by (metis prod_cases3)
  note ok = pick_next_ok [OF a(2) keys a(3) pk]
  show ?thesis
  proof (cases picked)
    case (Inl stop)
    then have "out = \<lparr>wo_acc = acc, wo_tried = tried', wo_cands = h', wo_dispatched = False, wo_canRetry = False, wo_exhaustion = stop\<rparr>"
      using r False pk by (simp add: runHedgingAttempt_def)
    moreover have "\<exists>hs. acc = run_attempts env acc hs \<and> delivered w ks hs" by (intro exI [of _ "[]"]) (simp add: delivered_def)
    ultimately show ?thesis using ok by simp
  next
    case (Inr groups)
    then obtain acc' c where col: "collect_legs env groups (length groups) acc (ww_events (w k)) = Some (acc', c)"
      and out: "out = \<lparr>wo_acc = acc', wo_tried = tried', wo_cands = h', wo_dispatched = True, wo_canRetry = c, wo_exhaustion = produceStopNone\<rparr>"
      using r False pk by (auto simp: runHedgingAttempt_def split: option.splits)
    have parts: "(\<Union>nd. set (get_or [] groups nd)) = set (remaining acc)" using ok Inr by (simp add: get_or_def)
    obtain hs where hs: "acc' = run_attempts env acc hs" "delivered w (e_key ` set (remaining acc)) hs"
      using collect_legs_history [OF col, of "set (remaining acc)" w k] parts by auto
    have d: "delivered w ks hs" using hs(2) keys by (fastforce simp: delivered_def)
    have inv': "acc_inv ks acc'" using run_attempts_inv [OF a(1), of hs env] d hs(1) by (auto simp: delivered_def)
    moreover have "set (remaining acc') \<subseteq> set (remaining acc)"
      using pending_run_attempts [of env acc hs] by (auto simp: remaining_def hs(1))
    then have "\<forall>p\<in>set (remaining acc'). length (get_or [] tried' (e_key p)) = Suc (Suc k)" using ok Inr by auto
    ultimately show ?thesis using ok Inr False out hs(1) d by (auto simp: cascade_inv_def)
  qed
qed

lemma hedge_loop_ok:
  assumes "cascade_inv primaryID m ks k acc tried"
    and "hedge_loop env m w fuel k acc tried h (Suc k) = Some (acc', tried', attempts, exhaustion)"
  shows "(\<exists>hs. acc' = run_attempts env acc hs \<and> delivered w ks hs) \<and> tried_ok primaryID m ks tried' \<and>
    Suc k \<le> attempts \<and> int attempts \<le> max (int (Suc k)) m"
  using assms
proof (induction fuel arbitrary: k acc tried h)
  case (Suc fuel)
  show ?case
  proof (cases "ww_ctxErr (w k) = None")
    case False
    then have "acc' = acc" "tried' = tried" "attempts = Suc k" using Suc.prems(2) by auto
    moreover have "\<exists>hs. acc = run_attempts env acc hs \<and> delivered w ks hs" by (intro exI [of _ "[]"]) (simp add: delivered_def)
    ultimately show ?thesis using Suc.prems(1) by (simp add: cascade_inv_def)
  next
    case True
    then obtain out where out: "runHedgingAttempt env m acc tried h (ww_events (w k)) = Some out"
      using Suc.prems(2) by (auto split: option.splits)
    note wv = wave_ok [where w = w, OF Suc.prems(1) out]
    show ?thesis
    proof (cases "wo_canRetry out")
      case False
      then have "acc' = wo_acc out" "tried' = wo_tried out" "attempts = (if wo_dispatched out then Suc (Suc k) else Suc k)"
        using Suc.prems(2) True out by (auto simp: Let_def)
      then show ?thesis using wv by auto
    next
      case retry: True
      then have d: "wo_dispatched out" "cascade_inv primaryID m ks (Suc k) (wo_acc out) (wo_tried out)" "int (Suc k) < m" using wv by auto
      obtain hs where hs: "wo_acc out = run_attempts env acc hs" "delivered w ks hs" using wv by blast
      have "hedge_loop env m w fuel (Suc k) (wo_acc out) (wo_tried out) (wo_cands out) (Suc (Suc k)) = Some (acc', tried', attempts, exhaustion)"
        using Suc.prems(2) True out retry d(1) by (simp add: Let_def)
      from Suc.IH [OF d(2) this] obtain gs where gs: "acc' = run_attempts env (wo_acc out) gs" "delivered w ks gs"
        "tried_ok primaryID m ks tried'" "Suc (Suc k) \<le> attempts" "int attempts \<le> max (int (Suc (Suc k))) m" by blast
      have "acc' = run_attempts env acc (hs @ gs)" "delivered w ks (hs @ gs)"
        using gs hs by (auto simp: run_attempts_append delivered_def)
      then show ?thesis using gs d(3) by auto
    qed
  qed
qed simp

lemma wave_returns:
  assumes inv: "cascade_inv primaryID m ks k acc tried" and live: "wave_live (length (remaining acc)) evs"
  shows "\<exists>out. runHedgingAttempt env m acc tried h evs = Some out"
proof (cases "remaining acc = []")
  case False
  have a: "acc_inv ks acc" "tried_ok primaryID m ks tried" "\<And>p. p \<in> set (remaining acc) \<Longrightarrow> length (get_or [] tried (e_key p)) = Suc k"
    using inv by (simp_all add: cascade_inv_def)
  obtain h' tried' picked where pk: "pick_next m (remaining acc) h tried [] = (h', tried', picked)" by (metis prod_cases3)
  note ok = pick_next_ok [OF a(2) acc_inv_keys [OF a(1)] a(3) pk]
  show ?thesis
  proof (cases picked)
    case (Inr groups)
    then have "wave_live (length groups) evs" using ok live by (auto simp: wave_live_def)
    from collect_legs_returns [OF this, of env groups acc] show ?thesis using False pk Inr by (auto simp: runHedgingAttempt_def)
  qed (use False pk in \<open>simp add: runHedgingAttempt_def\<close>)
qed (simp add: runHedgingAttempt_def)

lemma remaining_length:
  assumes "acc_inv ks a" "finite ks"
  shows "length (remaining a) \<le> card ks"
proof -
  have "length (remaining a) = card (e_key ` set (remaining a))"
    using distinct_card [OF acc_inv_keys(2) [OF assms(1)]] by simp
  also have "\<dots> \<le> card ks" by (rule card_mono [OF assms(2) acc_inv_keys(1) [OF assms(1)]])
  finally show ?thesis .
qed

lemma hedge_loop_returns:
  assumes "cascade_inv primaryID m ks k acc tried" "finite ks" "\<And>j. wave_live (card ks) (ww_events (w j))"
    and "0 < fuel" "m \<le> int fuel + int k"
  shows "\<exists>r. hedge_loop env m w fuel k acc tried h (Suc k) = Some r"
  using assms
proof (induction fuel arbitrary: k acc tried h)
  case (Suc fuel)
  have "wave_live (length (remaining acc)) (ww_events (w k))"
    using Suc.prems(3) [of k] remaining_length [of ks acc] Suc.prems(1,2) by (auto simp: wave_live_def cascade_inv_def)
  from wave_returns [OF Suc.prems(1) this] obtain out where out: "runHedgingAttempt env m acc tried h (ww_events (w k)) = Some out" by blast
  note wv = wave_ok [where w = w, OF Suc.prems(1) out]
  show ?case
  proof (cases "wo_canRetry out \<and> ww_ctxErr (w k) = None")
    case True
    then have d: "wo_dispatched out" "cascade_inv primaryID m ks (Suc k) (wo_acc out) (wo_tried out)" "int (Suc k) < m" using wv by auto
    then have "0 < fuel" "m \<le> int fuel + int (Suc k)" using Suc.prems(5) by auto
    from Suc.IH [OF d(2) Suc.prems(2,3) this] show ?thesis using out True d(1) by (simp add: Let_def)
  next
    case False
    then show ?thesis using out by (auto simp: Let_def)
  qed
qed simp

lemma seed_tried_lookup:
  "get_or [] (foldl (\<lambda>t p. AList.update (e_key p) [primaryID] t) t0 ps) tp = (if tp \<in> e_key ` set ps then [primaryID] else get_or [] t0 tp)"
  by (induction ps arbitrary: t0) auto

lemma cascade_starts:
  assumes "newProduceResultAccumulator ps = Inr a"
  shows "cascade_inv primaryID m (e_key ` set ps) 0 a (seed_tried primaryID ps)"
proof -
  note inv = new_accumulator_inv(1) [OF assms]
  have "get_or [] (seed_tried primaryID ps) tp = [primaryID]" if "tp \<in> e_key ` set ps" for tp
    using that by (simp add: seed_tried_def seed_tried_lookup)
  moreover have "e_key p \<in> e_key ` set ps" if "p \<in> set (remaining a)" for p using that acc_inv_keys(1) [OF inv] by blast
  ultimately show ?thesis using inv by (simp add: cascade_inv_def tried_ok_def)
qed

section \<open>Properties\<close>


definition example_hedger :: HedgerConfig where
  "example_hedger = \<lparr>MinHedgeDelay = 0, MaxHedgeAgents = 3\<rparr>"

definition example_strategy :: "unit \<Rightarrow> topicPartition \<Rightarrow> int \<Rightarrow> unit \<times> Agent list" where
  "example_strategy s tp n = ((), map (\<lambda>nd. \<lparr>NodeID = nd, State = AgentStateHealthy\<rparr>) [1, 2, 2, 3])"

definition example_waves :: "nat \<Rightarrow> wave_world" where
  "example_waves k = \<lparr>ww_ctxErr = None, ww_events = [LegDone 2 (err_result DeadlineExceeded), AttemptCtxDone]\<rparr>"

definition example_ctx :: ctx_view where
  "example_ctx = \<lparr>cv_Err = None, cv_Deadline = None, cv_Now = 0\<rparr>"

lemma example_accumulator: "\<exists>a. newProduceResultAccumulator example_parts = Inr a"
  using seed_pending_iff [of example_parts empty_accumulator]
  by (auto simp: newProduceResultAccumulator_def example_parts_def example_encoded_def empty_accumulator_def)


section \<open>No false acknowledgement\<close>

text \<open>A result acknowledges a partition when its response has an entry for it without an error.\<close>

definition acknowledges :: "ProduceResult \<Rightarrow> topicPartition \<Rightarrow> bool" where
  "acknowledges res tp \<longleftrightarrow> (case pr_resp res of None \<Rightarrow> False
     | Some resp \<Rightarrow> \<exists>p. (tp, p) \<in> set (entries resp) \<and> rp_ErrorCode p = 0)"

lemma acked_acknowledges: "tp \<in> acked res own \<Longrightarrow> acknowledges res tp"
  by (fastforce simp: acked_def visible_ok_def acknowledges_def split: option.splits if_splits)

lemma covered_acknowledges:
  assumes "tp \<in> e_key ` set requested" "pr_err (withCoverageCheck res requested) = None"
    "recordErrFromResult (withCoverageCheck res requested) tp = None"
  shows "acknowledges res tp"
proof -
  have c: "withCoverageCheck res requested = res" "firstMissingProducePartition (pr_resp res) requested = None"
    using assms(2) by (auto simp: withCoverageCheck_def split: if_splits option.splits)
  have "pr_resp res \<noteq> None"
  proof
    assume "pr_resp res = None"
    then show False using c(2) assms(1) by (auto simp: firstMissingProducePartition_def find_None_iff)
  qed
  then obtain resp where r: "pr_resp res = Some resp" by auto
  then have "tp \<in> fst ` set (entries resp)" using c(2) assms(1) firstMissing_None by auto
  then obtain p where p: "map_of (entries resp) tp = Some p" by (metis map_of_eq_None_iff option.exhaust)
  then have "rp_ErrorCode p = 0" using assms(3) recordErrFromResult_None [OF r, of tp] by (simp add: c(1))
  then show ?thesis using map_of_SomeD [OF p] r by (auto simp: acknowledges_def)
qed

lemma cascade_acknowledges:
  assumes "runHedgingAttempts env cfg w endCtx fuel primaryID partitions h trig = Some out"
    and "tp \<in> e_key ` set partitions" "recordErrFromResult (hp_result out) tp = None"
  shows "\<exists>k agent res. LegDone agent res \<in> set (ww_events (w k)) \<and> acknowledges res tp"
proof (cases "newProduceResultAccumulator partitions")
  case (Inl err)
  then show ?thesis using assms by (auto simp: runHedgingAttempts_def recordErrFromResult_def err_result_def)
next
  case (Inr acc)
  let ?h = "fst (observeCandidates cfg trig primaryID partitions h)"
  obtain acc' tried attempts exhaustion where
    r: "hedge_loop env (MaxHedgeAgents cfg) w fuel 0 acc (seed_tried primaryID partitions) ?h (Suc 0) = Some (acc', tried, attempts, exhaustion)"
    and out: "pr_resp (hp_result out) = pr_resp (result acc')"
    using assms(1) Inr by (auto simp: runHedgingAttempts_def case_prod_unfold Let_def split: option.splits)
  from hedge_loop_ok [OF cascade_starts [OF Inr] r] obtain hs where
    hs: "acc' = run_attempts env acc hs" "delivered w (e_key ` set partitions) hs" by blast
  have own: "\<forall>(res, own)\<in>set hs. own \<subseteq> e_key ` set partitions" using hs(2) by (auto simp: delivered_def)
  have "recordErrFromResult (result acc') tp = None"
    using assms(3) out by (simp add: recordErrFromResult_def)
  then have "tp \<in> (\<Union>(res, own)\<in>set hs. acked res own)" using history_reads_ok [OF Inr own assms(2)] hs(1) by simp
  then obtain res own where h: "(res, own) \<in> set hs" "tp \<in> acked res own" by auto
  from h(1) hs(2) have "\<exists>k agent. LegDone agent res \<in> set (ww_events (w k))" by (auto simp: delivered_def)
  with acked_acknowledges [OF h(2)] show ?thesis by blast
qed

lemma selected_acknowledges:
  assumes "recordErrFromResult (selectProduceResult primary fb) tp = None"
    and "pr_err primary = None \<Longrightarrow> recordErrFromResult primary tp = None \<Longrightarrow> P"
    and "recordErrFromResult fb tp = None \<Longrightarrow> P"
  shows P
proof (cases "succeeded primary")
  case True
  then have "pr_err primary = None" by (auto simp: succeeded_def result_error_def split: option.splits)
  then show P using True assms(1,2) by (simp add: selectProduceResult_def)
next
  case False
  then show P using assms
    by (cases "pr_err fb"; cases "pr_err primary"; cases "pr_resp fb")
      (auto simp: selectProduceResult_def recordErrFromResult_def)
qed

lemma hedged_acknowledges:
  assumes "hedger_ProduceSync env tracker health cfg fuel w primaryID routed = Some out"
    and "p \<in> set routed" and "recordErrFromResult (hp_result out) (e_key (re_part p)) = None"
  shows "acknowledges (pw_primary w) (e_key (re_part p)) \<or>
    (\<exists>k agent res. LegDone agent res \<in> set (ww_events (pw_waves w k)) \<and> acknowledges res (e_key (re_part p)))"
proof -
  let ?tp = "e_key (re_part p)" and ?parts = "unrouteEncodedTopicPartitionRecords routed"
  let ?prim = "withCoverageCheck (pw_primary w) (unrouteEncodedTopicPartitionRecords routed)"
  let ?casc = "runHedgingAttempts env cfg (pw_waves w) (pw_endCtx w) fuel primaryID ?parts
      (newHedgerCandidates (pw_strategy w) (pw_state w) (MaxHedgeAgents cfg))"
  let ?leg = "\<exists>k agent res. LegDone agent res \<in> set (ww_events (pw_waves w k)) \<and> acknowledges res ?tp"
  have tp: "?tp \<in> e_key ` set ?parts" using assms(2) by (auto simp: unrouteEncodedTopicPartitionRecords_def)
  have ne: "routed \<noteq> []" using assms(2) by auto
  have match: "find (\<lambda>p. re_nodeID p \<noteq> primaryID) routed = None"
    using assms(1,3) ne by (auto simp: hedger_ProduceSync_def err_result_def recordErrFromResult_def split: option.splits)
  have prim: "acknowledges (pw_primary w) ?tp" if "pr_err ?prim = None" "recordErrFromResult ?prim ?tp = None"
    using covered_acknowledges [OF tp that] .
  have leg: ?leg if "?casc trig = Some fb" "recordErrFromResult (hp_result fb) ?tp = None" for trig fb
    using cascade_acknowledges [OF that(1) tp that(2)] .
  have ok: "succeeded ?prim \<Longrightarrow> pr_err ?prim = None" by (auto simp: succeeded_def result_error_def split: option.splits)
  have sel: ?thesis if "?casc trig = Some fb" "recordErrFromResult (selectProduceResult ?prim (hp_result fb)) ?tp = None" for trig fb
    using that(2)
  proof (rule selected_acknowledges)
    show ?thesis if "recordErrFromResult (hp_result fb) ?tp = None" using leg [OF \<open>?casc trig = Some fb\<close> that] ..
  qed (use prim in simp)
  have race: ?thesis if "race_with_primary env fc b ?prim (?casc trig) = Some out" for b trig fc
    using that assms(3) prim ok leg [of trig] sel [of trig]
    by (auto simp: race_with_primary_def Let_def split: if_splits option.splits)
  have after: ?thesis if "after_primary_failure env fc ?prim (?casc trig) = Some out" for trig fc
    using that assms(3) prim ok sel [of trig]
    by (auto simp: after_primary_failure_def Let_def split: if_splits option.splits)
  show ?thesis using assms(1) ne match race after
    by (auto simp: hedger_ProduceSync_def Let_def split: prod.splits if_splits)
qed


definition example_acks :: ProduceResult where
  "example_acks = \<lparr>pr_resp = Some (example_response [(''t'', 0, 0), (''t'', 1, 0)]), pr_err = None\<rparr>"

text \<open>A world in which the primary has failed and agent 2 acknowledges both partitions, in one wave.\<close>

definition example_world :: "unit produce_world" where
  "example_world = \<lparr>pw_now = 0, pw_primary = err_result DeadlineExceeded, pw_primaryBeforeTimer = True,
     pw_primaryBeforeFallback = True, pw_waves = (\<lambda>k. \<lparr>ww_ctxErr = None, ww_events = [LegDone 2 example_acks]\<rparr>),
     pw_endCtx = example_ctx, pw_finalCtx = example_ctx, pw_strategy = example_strategy, pw_state = ()\<rparr>"

definition example_routed :: "routedEncodedTopicPartitionRecords list" where
  "example_routed = map (\<lambda>p. \<lparr>re_part = p, re_nodeID = 1, re_nodeState = AgentStateDemoted\<rparr>) example_parts"

definition example_no_stats :: AgentStatsReader where
  "example_no_stats = \<lparr>r_AgentStats = (\<lambda>now nd. None), r_ClusterStats = (\<lambda>now a b. None)\<rparr>"


section \<open>Both legs must fail\<close>

lemma cascade_ignores_trigger:
  "runHedgingAttempts env cfg w c fuel nd ps h trig = runHedgingAttempts env cfg w c fuel nd ps h hedgeTriggerPrimaryFailure"
proof -
  have "fst (observeCandidates cfg trig nd ps h) = fst (observeCandidates cfg hedgeTriggerPrimaryFailure nd ps h)"
    by (simp add: observeCandidates_def case_prod_unfold Let_def)
  then show ?thesis by (simp add: runHedgingAttempts_def case_prod_unfold Let_def split: sum.split)
qed

lemma race_succeeds_iff:
  "race_with_primary env c b prim casc = Some out \<Longrightarrow>
   succeeded (hp_result out) \<longleftrightarrow> succeeded prim \<or> (\<exists>fb. casc = Some fb \<and> succeeded (hp_result fb))"
  by (auto simp: race_with_primary_def Let_def selected_result_succeeds_iff_either split: if_splits option.splits)

lemma after_failure_succeeds_iff:
  "after_primary_failure env c prim casc = Some out \<Longrightarrow>
   succeeded (hp_result out) \<longleftrightarrow> succeeded prim \<or> (\<exists>fb. casc = Some fb \<and> succeeded (hp_result fb))"
  by (auto simp: after_primary_failure_def Let_def selected_result_succeeds_iff_either split: if_splits option.splits)

text \<open>
  C27: A hedged produce fails only when everybody has failed. Whatever the hedge decision is and
  whoever comes first, a produce of partitions routed to the primary succeeds exactly when the
  primary's covered response succeeds or the cascade's merged result does; with a partition routed
  to another agent it fails before anything is sent.
\<close>

theorem hedged_produce_succeeds_iff_either:
  assumes "hedger_ProduceSync env tracker health cfg fuel w primaryID routed = Some out" and "routed \<noteq> []"
  shows "succeeded (hp_result out) \<longleftrightarrow>
    (\<forall>p\<in>set routed. re_nodeID p = primaryID) \<and>
    (succeeded (withCoverageCheck (pw_primary w) (unrouteEncodedTopicPartitionRecords routed)) \<or>
     (\<exists>fb. runHedgingAttempts env cfg (pw_waves w) (pw_endCtx w) fuel primaryID (unrouteEncodedTopicPartitionRecords routed)
         (newHedgerCandidates (pw_strategy w) (pw_state w) (MaxHedgeAgents cfg)) hedgeTriggerPrimaryFailure = Some fb \<and>
       succeeded (hp_result fb)))"
proof (cases "find (\<lambda>p. re_nodeID p \<noteq> primaryID) routed")
  case None
  then have all: "\<forall>p\<in>set routed. re_nodeID p = primaryID" by (auto simp: find_None_iff)
  let ?prim = "withCoverageCheck (pw_primary w) (unrouteEncodedTopicPartitionRecords routed)"
  let ?casc = "runHedgingAttempts env cfg (pw_waves w) (pw_endCtx w) fuel primaryID (unrouteEncodedTopicPartitionRecords routed)
    (newHedgerCandidates (pw_strategy w) (pw_state w) (MaxHedgeAgents cfg))"
  have "(\<exists>b trig. race_with_primary env (pw_finalCtx w) b ?prim (?casc trig) = Some out) \<or>
      (\<exists>trig. after_primary_failure env (pw_finalCtx w) ?prim (?casc trig) = Some out)"
    using assms None by (auto simp: hedger_ProduceSync_def Let_def case_prod_unfold split: if_splits)
  then have "\<exists>trig. succeeded (hp_result out) \<longleftrightarrow> succeeded ?prim \<or> (\<exists>fb. ?casc trig = Some fb \<and> succeeded (hp_result fb))"
    using race_succeeds_iff after_failure_succeeds_iff by blast
  then obtain trig where "succeeded (hp_result out) \<longleftrightarrow> succeeded ?prim \<or> (\<exists>fb. ?casc trig = Some fb \<and> succeeded (hp_result fb))" by blast
  then show ?thesis using all by (simp add: cascade_ignores_trigger [where trig = trig])
next
  case (Some p)
  then have "p \<in> set routed" "re_nodeID p \<noteq> primaryID" by (auto simp: find_Some_iff)
  then show ?thesis using assms Some
    by (auto simp: hedger_ProduceSync_def err_result_def succeeded_def result_error_def)
qed

theorem hedged_produce_succeeds_iff_either_witness:
  "\<exists>out. hedger_ProduceSync example_env example_no_stats (HealthCheck DefaultConfig) example_hedger 3 example_world 1 example_routed = Some out \<and>
     succeeded (hp_result out)"
proof -
  have "hedger_ProduceSync example_env example_no_stats (HealthCheck DefaultConfig) example_hedger 3 example_world 1 example_routed \<noteq> None"
    by code_simp
  then obtain out where out: "hedger_ProduceSync example_env example_no_stats (HealthCheck DefaultConfig) example_hedger 3 example_world 1 example_routed = Some out"
    by auto
  have ne: "example_routed \<noteq> []" by code_simp
  have "\<forall>p\<in>set example_routed. re_nodeID p = 1" by code_simp
  moreover have "case runHedgingAttempts example_env example_hedger (pw_waves example_world) (pw_endCtx example_world) 3 1
      (unrouteEncodedTopicPartitionRecords example_routed) (newHedgerCandidates (pw_strategy example_world) (pw_state example_world) (MaxHedgeAgents example_hedger))
      hedgeTriggerPrimaryFailure of None \<Rightarrow> False | Some fb \<Rightarrow> succeeded (hp_result fb)"
    by code_simp
  ultimately show ?thesis using hedged_produce_succeeds_iff_either [OF out ne] out by (auto split: option.splits)
qed

section \<open>How long a hedge waits\<close>

lemma scaled_baseline_ge:
  assumes "1 \<le> m" "0 \<le> b" "b \<le> 2 ^ 53"
  shows "b \<le> int_of_f64 (f64_mul (f64_of_int b) m)"
proof -
  have "(of_int b :: rat) \<le> of_int b * m" using assms mult_left_mono [of 1 m "of_int b"] by simp
  from f64_mono [OF this] have "of_int b \<le> f64_mul (f64_of_int b) m"
    using f64_of_int_exact [OF assms(2,3)] by (simp add: f64_mul_def f64_of_int_def)
  then show ?thesis using assms(2) by (simp add: int_of_f64_def le_floor_iff order_trans [of 0 "of_int b :: rat"])
qed


definition example_slow_primary :: AgentStatsReader where
  "example_slow_primary = \<lparr>r_AgentStats = (\<lambda>now nd. Some \<lparr>Latency = 900 * millisecond, ErrorRate = 0, RequestCount = 50\<rparr>),
     r_ClusterStats = (\<lambda>now a b. Some \<lparr>BaselineLatency = 100 * millisecond, SlowThreshold = 200 * millisecond, SlowFraction = 0,
       SlowContributorsCount = 5, BaselineErrorRate = 0, FaultyThreshold = 1 / 2, AvgRequestsPerAgent = 50, FaultyFraction = 0,
       FaultyContributorsCount = 5\<rparr>)\<rparr>"


end
