(* ===== verification/Client_Produce.thy ===== *)
theory Client_Produce
  imports Client_Routing Hedged_Produce
begin

text \<open>
  The produce calls of \<open>pkg/wgo/client.go\<close> with the hooks of \<open>produce_hooks.go\<close>: \<open>Produce\<close>, \<open>ProduceSync\<close>, the
  flush function that hands a batch to the hedger, and \<open>Close\<close>.

  What the buffer delivers to the callbacks of the groups, and in which order, is the list \<open>evs\<close>;
  \<open>ProduceSync\<close> is \<open>None\<close> when it waits for ever or its wait group goes negative. \<open>Close\<close> is a sequence of
  phases, each of which waits for what the code waits for.
\<close>

section \<open>Hooks\<close>

text \<open>A hook may implement either callback or both. A buffered hook may write the record; calls of unbuffered hooks are logged.\<close>

record hook =
  OnProduceRecordBuffered :: "(rec_ptr \<Rightarrow> rec_heap \<Rightarrow> rec_heap) option"
  OnProduceRecordUnbuffered :: "nat option"

record produceHooks =
  ph_buffered :: "(rec_ptr \<Rightarrow> rec_heap \<Rightarrow> rec_heap) list"
  ph_unbuffered :: "nat list"

datatype produce_event = HookUnbuffered nat rec_ptr "goerror option" | Promise rec_ptr "goerror option"

definition newProduceHooks :: "hook list \<Rightarrow> produceHooks" where
  "newProduceHooks hooks =
     foldl (\<lambda>ph h.
       let ph = (case OnProduceRecordBuffered h of Some hb \<Rightarrow> ph\<lparr>ph_buffered := ph_buffered ph @ [hb]\<rparr> | None \<Rightarrow> ph)
       in case OnProduceRecordUnbuffered h of Some hu \<Rightarrow> ph\<lparr>ph_unbuffered := ph_unbuffered ph @ [hu]\<rparr> | None \<Rightarrow> ph)
     \<lparr>ph_buffered = [], ph_unbuffered = []\<rparr> hooks"

definition hooks_enabled :: "produceHooks \<Rightarrow> bool" where
  "hooks_enabled p \<longleftrightarrow> length (ph_buffered p) > 0 \<or> length (ph_unbuffered p) > 0"

definition fireBuffered :: "produceHooks \<Rightarrow> rec_ptr \<Rightarrow> rec_heap \<Rightarrow> rec_heap" where
  "fireBuffered p r hp = foldl (\<lambda>hp h. h r hp) hp (ph_buffered p)"

definition fireUnbuffered :: "produceHooks \<Rightarrow> rec_ptr \<Rightarrow> goerror option \<Rightarrow> produce_event list" where
  "fireUnbuffered p r err = map (\<lambda>h. HookUnbuffered h r err) (ph_unbuffered p)"

section \<open>The size error\<close>

definition errRecordTooLarge :: "kgo_Record \<Rightarrow> goerror" where
  "errRecordTooLarge r = Errorf [] (Kerr 10) ('' (uncompressed_bytes='' @ decimal (singleRecordBatchEstimateBytes r) @ '')'')"

section \<open>Produce\<close>

definition reject_records :: "produceRejected \<Rightarrow> int \<Rightarrow> WarpstreamClient \<Rightarrow> WarpstreamClient" where
  "reject_records why n c =
     c\<lparr>cl_metrics := (cl_metrics c)\<lparr>produceRecordsRejectedTotal := add_to why n (produceRecordsRejectedTotal (cl_metrics c))\<rparr>\<rparr>"

definition fail_records :: "int \<Rightarrow> WarpstreamClient \<Rightarrow> WarpstreamClient" where
  "fail_records n c = c\<lparr>cl_metrics := (cl_metrics c)\<lparr>produceRecordsFailedTotal := produceRecordsFailedTotal (cl_metrics c) + n\<rparr>\<rparr>"

definition too_large :: "WarpstreamClient \<Rightarrow> kgo_Record \<Rightarrow> bool" where
  "too_large c r \<longleftrightarrow> singleRecordBatchEstimateBytes r > BatchMaxBytes (cl_cfg c)"

text \<open>The promise as the caller sees it: the unbuffered hooks first, when there are hooks.\<close>

definition promise_events :: "produceHooks \<Rightarrow> rec_ptr \<Rightarrow> goerror option \<Rightarrow> produce_event list" where
  "promise_events ph r err = (if hooks_enabled ph then fireUnbuffered ph r err else []) @ [Promise r err]"

definition buffer_record :: "produceHooks \<Rightarrow> nat \<Rightarrow> rec_heap \<Rightarrow> rec_ptr \<Rightarrow> rec_heap" where
  "buffer_record ph ctx hp r =
     (let hp = hp(r := ensureRecordContext (hp r) ctx) in if hooks_enabled ph then fireBuffered ph r hp else hp)"

text \<open>\<open>Produce\<close> up to the hand-over: either the promise has been called, or the group goes to the buffer.\<close>

definition client_Produce ::
  "hash_fun \<Rightarrow> produceHooks \<Rightarrow> nat \<Rightarrow> instant \<Rightarrow> instant \<Rightarrow> rec_heap \<Rightarrow> WarpstreamClient \<Rightarrow> rec_ptr \<Rightarrow>
   WarpstreamClient \<times> rec_heap \<times> (produce_event list + routedGroup)" where
  "client_Produce xxh ph ctx now stampAt hp c r =
     (let hp = buffer_record ph ctx hp r;
          c = c\<lparr>cl_metrics := (cl_metrics c)\<lparr>produceRecordsTotal := produceRecordsTotal (cl_metrics c) + 1\<rparr>\<rparr>
      in if too_large c (hp r)
         then (reject_records produceRejectedRecordTooLarge 1 c, hp, Inl (promise_events ph r (Some (errRecordTooLarge (hp r)))))
         else case routeRecord xxh now hp c r of
                (c, Inl err) \<Rightarrow> (reject_records produceRejectedNoAgentAssigned 1 c, hp, Inl (promise_events ph r (Some err)))
              | (c, Inr g) \<Rightarrow> (c, hp(r := ensureRecordTimestamp (hp r) stampAt), Inr g))"

text \<open>The callback that \<open>Produce\<close> leaves with the buffer.\<close>

definition produce_done :: "produceHooks \<Rightarrow> rec_heap \<Rightarrow> WarpstreamClient \<Rightarrow> rec_ptr \<Rightarrow> ProduceResult \<Rightarrow> WarpstreamClient \<times> produce_event list" where
  "produce_done ph hp c r res =
     (let resErr = recordErrFromResult res (rec_key hp r)
      in (if resErr \<noteq> None then fail_records 1 c else c, promise_events ph r resErr))"

section \<open>ProduceSync\<close>

record kgo_ProduceResult =
  kp_Record :: "rec_ptr option"
  kp_Err :: "goerror option"

text \<open>The slots, the wait group and the client while a call is in progress.\<close>

record sync_state =
  sy_client :: WarpstreamClient
  sy_results :: "kgo_ProduceResult list"
  sy_wg :: int

definition reject_oversize ::
  "rec_heap \<Rightarrow> WarpstreamClient \<times> kgo_ProduceResult list \<times> nat list \<Rightarrow> nat \<times> rec_ptr \<Rightarrow>
   WarpstreamClient \<times> kgo_ProduceResult list \<times> nat list" where
  "reject_oversize hp st ir =
     (let (c, results, okIndices) = st; (i, r) = ir
      in if too_large c (hp r)
         then (reject_records produceRejectedRecordTooLarge 1 c,
               results[i := \<lparr>kp_Record = Some r, kp_Err = Some (errRecordTooLarge (hp r))\<rparr>], okIndices)
         else (c, results, okIndices @ [i]))"

definition write_results :: "(rec_ptr, nat) gomap \<Rightarrow> rec_ptr list \<Rightarrow> goerror option \<Rightarrow> sync_state \<Rightarrow> sync_state" where
  "write_results indexOf recs err s =
     foldl (\<lambda>s r. s\<lparr>sy_results := (sy_results s)[get_or 0 indexOf r := \<lparr>kp_Record = Some r, kp_Err = err\<rparr>], sy_wg := sy_wg s - 1\<rparr>) s recs"

definition perPartitionDone :: "topicPartition \<Rightarrow> ProduceResult \<Rightarrow> goerror option" where
  "perPartitionDone tp res = recordErrFromResult res tp"

definition group_done :: "rec_heap \<Rightarrow> (rec_ptr, nat) gomap \<Rightarrow> routedGroup \<Rightarrow> ProduceResult \<Rightarrow> sync_state \<Rightarrow> sync_state" where
  "group_done hp indexOf g res s =
     (let err = perPartitionDone (rec_key hp (hd (rg_records g))) res;
          s = (if err \<noteq> None then s\<lparr>sy_client := fail_records (int (length (rg_records g))) (sy_client s)\<rparr> else s)
      in write_results indexOf (rg_records g) err s)"

text \<open>A group that found no agent, and one that the buffer completes.\<close>

definition reject_group :: "(rec_ptr, nat) gomap \<Rightarrow> sync_state \<Rightarrow> rejectedTopicPartitionRecords \<Rightarrow> sync_state" where
  "reject_group indexOf s rg =
     write_results indexOf (rj_records rg) (Some (rj_err rg))
       (s\<lparr>sy_client := reject_records produceRejectedNoAgentAssigned (int (length (rj_records rg))) (sy_client s)\<rparr>)"

definition complete_group :: "rec_heap \<Rightarrow> (rec_ptr, nat) gomap \<Rightarrow> routedGroup list \<Rightarrow> sync_state \<Rightarrow> nat \<times> ProduceResult \<Rightarrow> sync_state" where
  "complete_group hp indexOf routed s ev = group_done hp indexOf (routed ! fst ev) (snd ev) s"

definition copy_shared :: "rec_ptr list \<Rightarrow> (rec_ptr, nat) gomap \<Rightarrow> nat list \<Rightarrow> kgo_ProduceResult list \<Rightarrow> kgo_ProduceResult list" where
  "copy_shared records indexOf okIndices results =
     foldl (\<lambda>res idx. let canon = get_or 0 indexOf (records ! idx) in if idx \<noteq> canon then res[idx := res ! canon] else res)
       results okIndices"

definition stamp_groups :: "instant \<Rightarrow> routedGroup list \<Rightarrow> rec_heap \<Rightarrow> rec_heap" where
  "stamp_groups now gs hp = foldl (\<lambda>hp g. foldl (\<lambda>hp r. hp(r := ensureRecordTimestamp (hp r) now)) hp (rg_records g)) hp gs"

text \<open>What runs when the call returns: the shared slots are copied, then the hooks fire in input order.\<close>

definition sync_return ::
  "produceHooks \<Rightarrow> rec_ptr list \<Rightarrow> (rec_ptr, nat) gomap \<Rightarrow> nat list \<Rightarrow> rec_heap \<Rightarrow> sync_state \<Rightarrow>
   WarpstreamClient \<times> rec_heap \<times> kgo_ProduceResult list \<times> produce_event list" where
  "sync_return ph records indexOf okIndices hp s =
     (let results = (if length indexOf < length okIndices then copy_shared records indexOf okIndices (sy_results s) else sy_results s);
          events = (if hooks_enabled ph
                    then concat (map (\<lambda>(i, r). fireUnbuffered ph r (kp_Err (results ! i))) (enumerate 0 records)) else [])
      in (sy_client s, hp, results, events))"

definition client_ProduceSync ::
  "hash_fun \<Rightarrow> produceHooks \<Rightarrow> nat \<Rightarrow> (nat \<Rightarrow> instant) \<Rightarrow> instant \<Rightarrow> (nat \<times> ProduceResult) list \<Rightarrow> rec_heap \<Rightarrow> WarpstreamClient \<Rightarrow>
   rec_ptr list \<Rightarrow> (WarpstreamClient \<times> rec_heap \<times> kgo_ProduceResult list \<times> produce_event list) option" where
  "client_ProduceSync xxh ph ctx clk stampAt evs hp c records =
     (if records = [] then Some (c, hp, [], [])
      else
        let c = c\<lparr>cl_metrics := (cl_metrics c)\<lparr>produceRecordsTotal := produceRecordsTotal (cl_metrics c) + int (length records)\<rparr>\<rparr>;
            hp = foldl (buffer_record ph ctx) hp records;
            (c, results, okIndices) =
              foldl (reject_oversize hp) (c, replicate (length records) \<lparr>kp_Record = None, kp_Err = None\<rparr>, []) (enumerate 0 records);
            okRecords = map ((!) records) okIndices;
            indexOf = foldl (\<lambda>m idx. AList.update (records ! idx) idx m) [] okIndices
        in if okRecords = []
           then Some (sync_return ph records [] [] hp \<lparr>sy_client = c, sy_results = results, sy_wg = 0\<rparr>)
           else
             let (c, routed, rejected) = routeRecords xxh clk hp c okRecords;
                 s = \<lparr>sy_client = c, sy_results = results, sy_wg = int (length okRecords)\<rparr>;
                 s = foldl (reject_group indexOf) s rejected
             in if routed = [] then Some (sync_return ph records indexOf okIndices hp s)
                else
                  let hp = stamp_groups stampAt routed hp;
                      s = foldl (complete_group hp indexOf routed) s evs
                  in if sy_wg s = 0 then Some (sync_return ph records indexOf okIndices hp s) else None)"

section \<open>The flush function\<close>

text \<open>The items of a group as the buffer holds them, and what \<open>flushBatch\<close> encodes.\<close>

definition group_item :: "rec_heap \<Rightarrow> routedGroup \<Rightarrow> routedTopicPartitionRecords" where
  "group_item hp g = \<lparr>w_topic = fst (rg_key g), w_partition = snd (rg_key g), w_records = map hp (rg_records g),
     w_nodeID = rg_nodeID g, w_nodeState = rg_nodeState g\<rparr>"

definition encode_partitions :: "codec \<Rightarrow> routedTopicPartitionRecords list \<Rightarrow> routedEncodedTopicPartitionRecords list" where
  "encode_partitions cdc partitions =
     foldl (\<lambda>encoded p. if length (w_records p) = 0 then encoded
       else encoded @ [\<lparr>re_part = newEncodedTopicPartitionRecords cdc (w_topic p) (w_partition p) (w_records p),
                        re_nodeID = w_nodeID p, re_nodeState = w_nodeState p\<rparr>]) [] partitions"

text \<open>The contexts that the hedger is shown end with the write timeout; they are part of its world.\<close>

definition flushBatch ::
  "codec \<Rightarrow> err_env \<Rightarrow> AgentStatsReader \<Rightarrow> Config \<Rightarrow> nat \<Rightarrow> 's produce_world \<Rightarrow> node_id \<Rightarrow> routedTopicPartitionRecords list \<Rightarrow>
   hedgerProduceResult option" where
  "flushBatch cdc env tracker cfg fuel w nodeID partitions =
     hedger_ProduceSync env tracker (HealthCheck cfg) (Hedger cfg) fuel w nodeID (encode_partitions cdc partitions)"

section \<open>Close\<close>

datatype close_phase = NotClosed | RefreshCanceled | BufferClosing | HedgerClosing | Closed

text \<open>The cluster buffer's \<open>Close\<close> returns when the agents' buffers that it took are closed and drained.\<close>

definition cb_close_returned :: "'w ClusterBuffer \<Rightarrow> bool" where
  "cb_close_returned c \<longleftrightarrow> cb_closed c \<and> list_all (\<lambda>t. case t of CloseAgent h \<Rightarrow> False | _ \<Rightarrow> True) (cb_tasks c) \<and>
     list_all (\<lambda>a. ab_closed a \<and> length (flights a) = 0) (cb_store c)"

fun client_Close ::
  "close_phase \<Rightarrow> refresh_loop \<times> routedTopicPartitionRecords ClusterBuffer \<times> routedEncodedTopicPartitionRecords ClusterBuffer \<Rightarrow>
   (close_phase \<times> refresh_loop \<times> routedTopicPartitionRecords ClusterBuffer \<times> routedEncodedTopicPartitionRecords ClusterBuffer) option" where
  "client_Close NotClosed (s, buffer, hedge) =
     Some (RefreshCanceled, s\<lparr>rl_client := (rl_client s)\<lparr>refreshCtxDone := True\<rparr>\<rparr>, buffer, hedge)"
| "client_Close RefreshCanceled (s, buffer, hedge) =
     (if rl_pc s = Exited then Some (BufferClosing, s, cb_Close buffer, hedge) else None)"
| "client_Close BufferClosing (s, buffer, hedge) =
     (if cb_close_returned buffer then Some (HedgerClosing, s, buffer, cb_Close hedge) else None)"
| "client_Close HedgerClosing (s, buffer, hedge) =
     (if cb_close_returned hedge then Some (Closed, s, buffer, hedge) else None)"
| "client_Close Closed (s, buffer, hedge) = Some (Closed, s, buffer, hedge)"

section \<open>The slots of a synchronous produce\<close>

text \<open>Two clients that differ in their counters only.\<close>

definition same_core :: "WarpstreamClient \<Rightarrow> WarpstreamClient \<Rightarrow> bool" where
  "same_core c c' \<longleftrightarrow> (\<exists>m. c' = c\<lparr>cl_metrics := m\<rparr>)"

lemma same_core_simps:
  assumes "same_core c c'"
  shows "too_large c' = too_large c" "routable xxh c' = routable xxh c" "router_inv c' = router_inv c"
proof -
  obtain m where "c' = c\<lparr>cl_metrics := m\<rparr>" using assms by (auto simp: same_core_def)
  then show "too_large c' = too_large c" "routable xxh c' = routable xxh c" "router_inv c' = router_inv c"
    by (auto simp: too_large_def routable_def snapshot_route_def router_inv_def client_inv_def fun_eq_iff)
qed

lemma same_core_refl: "same_core c c"
  unfolding same_core_def by (rule exI [of _ "cl_metrics c"]) simp

lemma same_core_reject: "same_core c c' \<Longrightarrow> same_core c (reject_records why n c')"
  by (auto simp: same_core_def reject_records_def)

definition oversize_slot :: "WarpstreamClient \<Rightarrow> rec_heap \<Rightarrow> rec_ptr \<Rightarrow> kgo_ProduceResult \<Rightarrow> kgo_ProduceResult" where
  "oversize_slot c hp r old = (if too_large c (hp r) then \<lparr>kp_Record = Some r, kp_Err = Some (errRecordTooLarge (hp r))\<rparr> else old)"

lemma oversize_loop:
  assumes "foldl (reject_oversize hp) (c, res0, []) (enumerate 0 rs) = (c', res, okI)" "length rs \<le> length res0"
  shows "same_core c c' \<and> okI = filter (\<lambda>i. \<not> too_large c (hp (rs ! i))) [0..<length rs] \<and> length res = length res0 \<and>
    (\<forall>i<length res0. res ! i = (if i < length rs then oversize_slot c hp (rs ! i) (res0 ! i) else res0 ! i))"
  using assms
proof (induction rs arbitrary: c' res okI rule: rev_induct)
  case Nil
  then show ?case by (auto simp: same_core_refl)
next
  case (snoc r rs)
  obtain c1 res1 ok1 where f: "foldl (reject_oversize hp) (c, res0, []) (enumerate 0 rs) = (c1, res1, ok1)" by (metis prod_cases3)
  have IH: "same_core c c1" "ok1 = filter (\<lambda>i. \<not> too_large c (hp (rs ! i))) [0..<length rs]" "length res1 = length res0"
    "\<And>i. i < length res0 \<Longrightarrow> res1 ! i = (if i < length rs then oversize_slot c hp (rs ! i) (res0 ! i) else res0 ! i)"
    using snoc.IH [OF f] snoc.prems(2) by auto
  have step: "(c', res, okI) = reject_oversize hp (c1, res1, ok1) (length rs, r)"
    using snoc.prems(1) f by (simp add: enumerate_append_eq)
  have tl: "too_large c1 (hp r) = too_large c (hp r)" using same_core_simps(1) [OF IH(1)] by simp
  have ok: "filter (\<lambda>i. \<not> too_large c (hp ((rs @ [r]) ! i))) [0..<length rs] = ok1"
    unfolding IH(2) by (rule filter_cong) (auto simp: nth_append)
  show ?case
  proof (cases "too_large c (hp r)")
    case True
    then show ?thesis using step tl IH ok same_core_reject [OF IH(1)] snoc.prems(2)
      by (auto simp: reject_oversize_def oversize_slot_def nth_append nth_list_update)
  next
    case False
    then show ?thesis using step tl IH ok snoc.prems(2)
      by (auto simp: reject_oversize_def oversize_slot_def nth_append)
  qed
qed

text \<open>Each pointer's slot is its last accepted position.\<close>

definition index_of :: "rec_ptr list \<Rightarrow> nat list \<Rightarrow> (rec_ptr, nat) gomap" where
  "index_of records okI = foldl (\<lambda>m idx. AList.update (records ! idx) idx m) [] okI"

lemma index_of_keys: "fst ` set (index_of records okI) = (!) records ` set okI" "distinct (map fst (index_of records okI))"
  unfolding index_of_def
  by (induction okI rule: rev_induct) auto

lemma index_of_canon:
  assumes "i \<in> set okI"
  shows "get_or 0 (index_of records okI) (records ! i) \<in> set okI \<and> records ! get_or 0 (index_of records okI) (records ! i) = records ! i"
  using assms unfolding index_of_def
  by (induction okI rule: rev_induct) auto

lemma index_of_length: "length (index_of records okI) = card ((!) records ` set okI)"
  using index_of_keys [of records okI] by (metis distinct_card length_map list.set_map)

section \<open>Writing the slots\<close>

definition put_slot :: "(rec_ptr, nat) gomap \<Rightarrow> kgo_ProduceResult list \<Rightarrow> rec_ptr \<times> goerror option \<Rightarrow> kgo_ProduceResult list" where
  "put_slot ix res p = res[get_or 0 ix (fst p) := \<lparr>kp_Record = Some (fst p), kp_Err = snd p\<rparr>]"

lemma write_results_eq:
  "sy_results (write_results ix recs err s) = foldl (put_slot ix) (sy_results s) (map (\<lambda>r. (r, err)) recs)"
  "sy_wg (write_results ix recs err s) = sy_wg s - int (length recs)" "sy_client (write_results ix recs err s) = sy_client s"
  unfolding write_results_def by (induction recs arbitrary: s) (simp_all add: put_slot_def)

lemma put_slots_length [simp]: "length (foldl (put_slot ix) res ps) = length res"
  by (induction ps arbitrary: res) (simp_all add: put_slot_def)

lemma put_slots_miss: "(\<forall>p\<in>set ps. get_or 0 ix (fst p) \<noteq> i) \<Longrightarrow> foldl (put_slot ix) res ps ! i = res ! i"
  by (induction ps arbitrary: res) (simp_all add: put_slot_def)

lemma put_slots_hit:
  assumes "\<forall>p\<in>set ps. get_or 0 ix (fst p) = i \<longrightarrow> p = p0" "p0 \<in> set ps" "get_or 0 ix (fst p0) = i" "i < length res"
  shows "foldl (put_slot ix) res ps ! i = \<lparr>kp_Record = Some (fst p0), kp_Err = snd p0\<rparr>"
  using assms(1,2)
proof (induction ps rule: rev_induct)
  case (snoc p ps)
  show ?case
  proof (cases "get_or 0 ix (fst p) = i")
    case True
    then show ?thesis using snoc.prems(1) assms(4) by (auto simp: put_slot_def [of ix _ p0])
  next
    case False
    then have "p0 \<in> set ps" using snoc.prems assms(3) by auto
    then show ?thesis using snoc False by (simp add: put_slot_def [of ix _ p])
  qed
qed simp

lemma copy_shared_eq:
  assumes "length res = length records" "set okI \<subseteq> {..<length records}" "distinct okI"
    "\<And>i. i \<in> set okI \<Longrightarrow> get_or 0 ix (records ! i) \<in> set okI \<and> records ! get_or 0 ix (records ! i) = records ! i"
    and "i < length records"
  shows "copy_shared records ix okI res ! i = (if i \<in> set okI then res ! get_or 0 ix (records ! i) else res ! i)"
proof -
  let ?canon = "\<lambda>i. get_or 0 ix (records ! i)"
  have idem: "?canon (?canon i) = ?canon i" if "i \<in> set okI" for i using assms(4) [OF that] by simp
  have "length (copy_shared records ix js res) = length res \<and>
      (\<forall>i<length records. copy_shared records ix js res ! i = (if i \<in> set js then res ! ?canon i else res ! i))"
    if "set js \<subseteq> set okI" "distinct js" for js
    using that
  proof (induction js rule: rev_induct)
    case (snoc j js)
    let ?r = "copy_shared records ix js res"
    have IH: "length ?r = length res" "\<And>i. i < length records \<Longrightarrow> ?r ! i = (if i \<in> set js then res ! ?canon i else res ! i)"
      using snoc by auto
    have j: "j < length records" "?canon j < length records" "?canon (?canon j) = ?canon j" using snoc.prems(1) assms(2,4) idem by auto
    have step: "copy_shared records ix (js @ [j]) res = (if j \<noteq> ?canon j then ?r[j := ?r ! ?canon j] else ?r)"
      by (simp add: copy_shared_def Let_def)
    have "?r ! ?canon j = res ! ?canon j" using IH(2) [OF j(2)] j(3) by simp
    then show ?case using IH j snoc.prems(2) assms(1) unfolding step by (auto simp: nth_list_update)
  qed (simp add: copy_shared_def)
  from this [of okI] show ?thesis using assms(3,5) by simp
qed

section \<open>All completions together\<close>

definition reject_writes :: "rejectedTopicPartitionRecords list \<Rightarrow> (rec_ptr \<times> goerror option) list" where
  "reject_writes rejected = concat (map (\<lambda>rg. map (\<lambda>r. (r, Some (rj_err rg))) (rj_records rg)) rejected)"

definition done_writes :: "rec_heap \<Rightarrow> routedGroup list \<Rightarrow> (nat \<times> ProduceResult) list \<Rightarrow> (rec_ptr \<times> goerror option) list" where
  "done_writes hp routed evs = concat (map (\<lambda>(g, res). map (\<lambda>r. (r, recordErrFromResult res (rec_key hp (hd (rg_records (routed ! g))))))
     (rg_records (routed ! g))) evs)"

lemma reject_loop:
  "sy_results (foldl (reject_group ix) s rejected) = foldl (put_slot ix) (sy_results s) (reject_writes rejected)"
  "sy_wg (foldl (reject_group ix) s rejected) = sy_wg s - int (length (reject_writes rejected))"
  by (induction rejected arbitrary: s) (simp_all add: reject_group_def write_results_eq reject_writes_def)

lemma complete_group_eq:
  "sy_results (complete_group hp ix routed s (g, res)) = foldl (put_slot ix) (sy_results s)
     (map (\<lambda>r. (r, recordErrFromResult res (rec_key hp (hd (rg_records (routed ! g)))))) (rg_records (routed ! g)))"
  "sy_wg (complete_group hp ix routed s (g, res)) = sy_wg s - int (length (rg_records (routed ! g)))"
  by (simp_all add: complete_group_def group_done_def perPartitionDone_def write_results_eq Let_def)

lemma done_loop:
  "sy_results (foldl (complete_group hp ix routed) s evs) = foldl (put_slot ix) (sy_results s) (done_writes hp routed evs)"
  "sy_wg (foldl (complete_group hp ix routed) s evs) = sy_wg s - int (length (done_writes hp routed evs))"
  by (induction evs arbitrary: s) (auto simp: done_writes_def complete_group_eq)

lemma stamp_rec_key [simp]: "rec_key (stamp_groups now gs hp) = rec_key hp"
proof -
  have one: "rec_key (foldl (\<lambda>hp r. hp(r := ensureRecordTimestamp (hp r) now)) h rs) = rec_key h" for h rs
  proof (induction rs arbitrary: h)
    case (Cons r rs)
    have "rec_key (h(r := ensureRecordTimestamp (h r) now)) = rec_key h"
      by (auto simp: rec_key_def ensureRecordTimestamp_def fun_eq_iff)
    then show ?case unfolding foldl_Cons Cons.IH .
  qed simp
  show ?thesis unfolding stamp_groups_def by (induction gs arbitrary: hp) (simp_all add: one)
qed

text \<open>What each position should report, given what was delivered for the groups.\<close>

definition routed_keys :: "hash_fun \<Rightarrow> WarpstreamClient \<Rightarrow> rec_heap \<Rightarrow> rec_ptr list \<Rightarrow> topicPartition list" where
  "routed_keys xxh c hp records = filter (routable xxh c) (first_seen (map (rec_key hp) (filter (\<lambda>r. \<not> too_large c (hp r)) records)))"

definition sync_outcome ::
  "hash_fun \<Rightarrow> WarpstreamClient \<Rightarrow> rec_heap \<Rightarrow> topicPartition list \<Rightarrow> (nat \<times> ProduceResult) list \<Rightarrow> rec_ptr \<Rightarrow> goerror option" where
  "sync_outcome xxh c hp ks evs r =
     (if too_large c (hp r) then Some (errRecordTooLarge (hp r))
      else if \<not> routable xxh c (rec_key hp r) then Some (errNoAgent (rec_key hp r))
      else recordErrFromResult (the (map_of (map (\<lambda>(g, res). (ks ! g, res)) evs) (rec_key hp r))) (rec_key hp r))"

lemma delivered_result:
  assumes "mset (map fst evs) = mset [0..<length ks]" "distinct ks" "(g, res) \<in> set evs"
  shows "map_of (map (\<lambda>(g, res). (ks ! g, res)) evs) (ks ! g) = Some res"
proof -
  have d: "distinct (map fst evs)" using assms(1) by (metis distinct_upt mset_eq_imp_distinct_iff)
  have s: "fst ` set evs = {..<length ks}" using arg_cong [OF assms(1), of set_mset] by (simp add: lessThan_atLeast0)
  have "map fst (map (\<lambda>(g, res). (ks ! g, res)) evs) = map ((!) ks) (map fst evs)" by (simp add: case_prod_unfold)
  moreover have "inj_on ((!) ks) (set (map fst evs))" using s assms(2) by (simp add: inj_on_nth)
  then have "distinct (map ((!) ks) (map fst evs))" using d by (simp only: distinct_map [of "(!) ks" "map fst evs"])
  ultimately have "distinct (map fst (map (\<lambda>(g, res). (ks ! g, res)) evs))" by (simp only:)
  moreover have "(ks ! g, res) \<in> set (map (\<lambda>(g, res). (ks ! g, res)) evs)" using assms(3) by force
  ultimately show ?thesis by (rule map_of_is_SomeI)
qed

lemma mset_concat_sum: "mset (concat (map f xs)) = (\<Sum>x\<in>#mset xs. mset (f x))"
  by (induction xs) auto

lemma writes_ok:
  assumes r: "routeRecords xxh clk hp c ok = (c', routed, rejected)" "router_inv c"
    and ok: "ok = filter (\<lambda>r. \<not> too_large c (hp r)) records"
    and evs: "mset (map fst evs) = mset [0..<length (routed_keys xxh c hp records)]"
  shows "mset (map fst (reject_writes rejected @ done_writes hp routed evs)) = mset ok"
    and "\<forall>p\<in>set (reject_writes rejected @ done_writes hp routed evs). snd p = sync_outcome xxh c hp (routed_keys xxh c hp records) evs (fst p)"
proof -
  let ?ks = "routed_keys xxh c hp records"
  have ks: "map rg_key routed = ?ks" using routeRecords_groups(1) [OF r] ok by (simp add: routed_keys_def)
  then have len: "length routed = length ?ks" by (metis length_map)
  have perm: "mset (map (\<lambda>(g, res). routed ! g) evs) = mset routed"
  proof -
    have "map (\<lambda>(g, res). routed ! g) evs = map ((!) routed) (map fst evs)" by (simp add: case_prod_unfold)
    then have "mset (map (\<lambda>(g, res). routed ! g) evs) = image_mset ((!) routed) (mset (map fst evs))" by (simp only: mset_map)
    also have "\<dots> = mset (map ((!) routed) [0..<length routed])" unfolding evs len [symmetric] by (simp only: mset_map)
    finally show ?thesis by (simp add: map_nth)
  qed
  have "map fst (done_writes hp routed es) = concat (map (\<lambda>(g, res). rg_records (routed ! g)) es)" for es
    unfolding done_writes_def by (induction es) (auto simp: comp_def)
  then have "mset (map fst (done_writes hp routed evs)) = mset (concat (map (\<lambda>(g, res). rg_records (routed ! g)) evs))" by (simp only:)
  also have "\<dots> = (\<Sum>x\<in>#mset (map (\<lambda>(g, res). routed ! g) evs). mset (rg_records x))"
    unfolding mset_concat_sum [symmetric] by (simp add: case_prod_unfold comp_def)
  also have "\<dots> = mset (concat (map rg_records routed))" unfolding perm by (simp add: mset_concat_sum)
  finally have d: "mset (map fst (done_writes hp routed evs)) = mset (concat (map rg_records routed))" .
  have "map fst (reject_writes rs) = concat (map rj_records rs)" for rs
    unfolding reject_writes_def by (induction rs) (auto simp: comp_def)
  then show "mset (map fst (reject_writes rejected @ done_writes hp routed evs)) = mset ok"
    using d routed_all [OF r] by (simp add: add.commute)
  have rej: "snd p = sync_outcome xxh c hp ?ks evs (fst p)" if mem: "p \<in> set (reject_writes rejected)" for p
  proof -
    obtain rg q where p: "rg \<in> set rejected" "q \<in> set (rj_records rg)" "p = (q, Some (rj_err rg))"
      using mem by (auto simp: reject_writes_def)
    have "rj_key rg \<in> set (map rj_key rejected)" using p(1) by simp
    then have "\<not> routable xxh c (rj_key rg)" unfolding routeRecords_groups(2) [OF r] by simp
    moreover have "rj_err rg = errNoAgent (rj_key rg)" "rec_key hp q = rj_key rg" "q \<in> set ok"
      using routeRecords_groups(4) [OF r] p by (auto simp: rejected_ok_def)
    ultimately show ?thesis using p(3) ok by (simp add: sync_outcome_def)
  qed
  have don: "snd p = sync_outcome xxh c hp ?ks evs (fst p)" if mem: "p \<in> set (done_writes hp routed evs)" for p
  proof -
    obtain g res q where p: "(g, res) \<in> set evs" "q \<in> set (rg_records (routed ! g))"
      "p = (q, recordErrFromResult res (rec_key hp (hd (rg_records (routed ! g)))))"
      using mem by (auto simp: done_writes_def)
    have "g \<in> set (map fst evs)" using p(1) by force
    then have g: "g < length routed" using arg_cong [OF evs, of set_mset] len by simp
    have f: "rg_records (routed ! g) = filter (\<lambda>r. rec_key hp r = rg_key (routed ! g)) ok"
      using routeRecords_groups(3) [OF r] nth_mem [OF g] by (simp add: routed_ok_def)
    have key: "rec_key hp q = rg_key (routed ! g)" "q \<in> set ok" using p(2) unfolding f by auto
    have "hd (rg_records (routed ! g)) \<in> set (rg_records (routed ! g))" using p(2) by (metis hd_in_set length_pos_if_in_set list.size(3) less_numeral_extra(3))
    then have hd: "rec_key hp (hd (rg_records (routed ! g))) = rg_key (routed ! g)" unfolding f by simp
    have kg: "rg_key (routed ! g) = ?ks ! g" using ks g by (metis nth_map)
    have "?ks ! g \<in> set ?ks" using g len by simp
    then have "routable xxh c (?ks ! g)" by (simp add: routed_keys_def)
    moreover have "map_of (map (\<lambda>(g, res). (?ks ! g, res)) evs) (?ks ! g) = Some res"
      by (rule delivered_result [OF evs _ p(1)]) (simp add: routed_keys_def)
    ultimately show ?thesis using p(3) key hd kg ok by (simp add: sync_outcome_def)
  qed
  show "\<forall>p\<in>set (reject_writes rejected @ done_writes hp routed evs). snd p = sync_outcome xxh c hp ?ks evs (fst p)"
    using rej don by auto
qed

text \<open>The slots after all writes and the copying, at every position.\<close>

lemma slots_filled:
  assumes okI: "okI = filter (\<lambda>i. \<not> big (records ! i)) [0..<length records]"
    and res: "length res = length records" "\<And>i. i < length records \<Longrightarrow> big (records ! i) \<Longrightarrow> res ! i = \<lparr>kp_Record = Some (records ! i), kp_Err = out (records ! i)\<rparr>"
    and ps: "mset (map fst ps) = mset (map ((!) records) okI)" "\<forall>p\<in>set ps. snd p = out (fst p)"
    and i: "i < length records"
  defines "ix \<equiv> index_of records okI"
  defines "filled \<equiv> foldl (put_slot ix) res ps"
  shows "(if length ix < length okI then copy_shared records ix okI filled else filled) ! i =
    \<lparr>kp_Record = Some (records ! i), kp_Err = out (records ! i)\<rparr>"
proof -
  have set_okI: "j \<in> set okI \<longleftrightarrow> j < length records \<and> \<not> big (records ! j)" for j using okI by auto
  have canon: "get_or 0 ix (records ! j) \<in> set okI" "records ! get_or 0 ix (records ! j) = records ! j" if "j \<in> set okI" for j
    using index_of_canon [OF that, of records] by (simp_all add: ix_def)
  have fst_ps: "fst ` set ps = (!) records ` set okI" using arg_cong [OF ps(1), of set_mset] by simp
  have slot: "filled ! get_or 0 ix (records ! j) = \<lparr>kp_Record = Some (records ! j), kp_Err = out (records ! j)\<rparr>" if j: "j \<in> set okI" for j
  proof -
    let ?p0 = "(records ! j, out (records ! j))"
    have "records ! j \<in> fst ` set ps" using j fst_ps by simp
    then obtain p1 where p1: "p1 \<in> set ps" "fst p1 = records ! j" by force
    then have "p1 = ?p0" using ps(2) by (simp add: prod_eq_iff)
    then have mem: "?p0 \<in> set ps" using p1(1) by simp
    have uniq: "p = ?p0" if p: "p \<in> set ps" "get_or 0 ix (fst p) = get_or 0 ix (records ! j)" for p
    proof -
      have "fst p \<in> (!) records ` set okI" using p(1) fst_ps by (metis imageI)
      then obtain k where k: "k \<in> set okI" "fst p = records ! k" by auto
      have "fst p = records ! get_or 0 ix (fst p)" unfolding k(2) by (rule canon(2) [OF k(1), symmetric])
      also have "\<dots> = records ! j" unfolding p(2) by (rule canon(2) [OF j])
      finally have "fst p = records ! j" .
      then show ?thesis using ps(2) p(1) by (simp add: prod_eq_iff)
    qed
    have "get_or 0 ix (records ! j) < length res" using canon(1) [OF j] set_okI res(1) by simp
    then have "filled ! get_or 0 ix (records ! j) = \<lparr>kp_Record = Some (fst ?p0), kp_Err = snd ?p0\<rparr>"
      unfolding filled_def by (intro put_slots_hit [OF _ mem]) (use uniq in auto)
    then show ?thesis by simp
  qed
  have keep: "filled ! i = res ! i" if "i \<notin> set okI"
  proof -
    have "get_or 0 ix (fst p) \<noteq> i" if p: "p \<in> set ps" for p
    proof -
      have "fst p \<in> (!) records ` set okI" using p fst_ps by (metis imageI)
      then obtain k where "k \<in> set okI" "fst p = records ! k" by auto
      then show ?thesis using canon(1) [of k] \<open>i \<notin> set okI\<close> by metis
    qed
    then show ?thesis unfolding filled_def by (intro put_slots_miss) blast
  qed
  have rest: "filled ! i = \<lparr>kp_Record = Some (records ! i), kp_Err = out (records ! i)\<rparr>" if "i \<notin> set okI"
    using keep [OF that] that set_okI i res(2) by auto
  have d: "distinct okI" using okI by simp
  show ?thesis
  proof (cases "length ix < length okI")
    case True
    have "copy_shared records ix okI filled ! i = (if i \<in> set okI then filled ! get_or 0 ix (records ! i) else filled ! i)"
      by (rule copy_shared_eq) (use d canon set_okI i res(1) in \<open>auto simp: filled_def\<close>)
    then show ?thesis using True slot rest by simp
  next
    case False
    have "card ((!) records ` set okI) = card (set okI)"
      using False card_image_le [of "set okI" "(!) records"] index_of_length [of records okI] distinct_card [OF d] by (simp add: ix_def)
    then have inj: "inj_on ((!) records) (set okI)" by (rule eq_card_imp_inj_on [rotated]) simp
    have "get_or 0 ix (records ! i) = i" if "i \<in> set okI"
      using inj_onD [OF inj canon(2) [OF that] canon(1) [OF that] that] .
    then show ?thesis using False slot [of i] rest by (cases "i \<in> set okI") simp_all
  qed
qed

lemma map_nth_filter: "map ((!) xs) (filter (\<lambda>i. P (xs ! i)) [0..<length xs]) = filter P xs"
proof -
  have "filter P (map ((!) xs) [0..<length xs]) = map ((!) xs) (filter (P \<circ> (!) xs) [0..<length xs])" by (rule filter_map)
  then show ?thesis by (simp add: map_nth comp_def)
qed

lemma unbuffered_events:
  assumes "\<And>i. i < length records \<Longrightarrow> kp_Err (results ! i) = out (records ! i)"
  shows "concat (map (\<lambda>(i, r). fireUnbuffered ph r (kp_Err (results ! i))) (enumerate 0 records)) = concat (map (\<lambda>r. fireUnbuffered ph r (out r)) records)"
  by (rule arg_cong [of _ _ concat], rule nth_equalityI) (simp_all add: nth_enumerate_eq assms)

definition filled_slots :: "rec_ptr list \<Rightarrow> (rec_ptr, nat) gomap \<Rightarrow> nat list \<Rightarrow> kgo_ProduceResult list \<Rightarrow> kgo_ProduceResult list" where
  "filled_slots records ix okI res = (if length ix < length okI then copy_shared records ix okI res else res)"

lemma length_filled_slots [simp]: "length (filled_slots records ix okI res) = length res"
proof -
  have "length (copy_shared records ix js r) = length r" for js r
    unfolding copy_shared_def by (induction js arbitrary: r) (simp_all add: Let_def)
  then show ?thesis by (simp add: filled_slots_def)
qed

lemma sync_return_eq:
  "sync_return ph records ix okI hp s = (sy_client s, hp, filled_slots records ix okI (sy_results s),
     if hooks_enabled ph then concat (map (\<lambda>(i, r). fireUnbuffered ph r (kp_Err (filled_slots records ix okI (sy_results s) ! i))) (enumerate 0 records))
     else [])"
  by (simp add: sync_return_def filled_slots_def Let_def)

text \<open>Every run ends in one return, with the slots of all writes in place.\<close>

lemma sync_returns:
  assumes inv: "router_inv c" and ne: "records \<noteq> []"
    and hp': "hp' = foldl (buffer_record ph ctx) hp records"
    and evs: "mset (map fst evs) = mset [0..<length (routed_keys xxh c hp' records)]"
  obtains s hp'' ps res where
    "client_ProduceSync xxh ph ctx clk stampAt evs hp c records = Some (sync_return ph records
       (index_of records (filter (\<lambda>i. \<not> too_large c (hp' (records ! i))) [0..<length records]))
       (filter (\<lambda>i. \<not> too_large c (hp' (records ! i))) [0..<length records]) hp'' s)"
    "sy_results s = foldl (put_slot (index_of records (filter (\<lambda>i. \<not> too_large c (hp' (records ! i))) [0..<length records]))) res ps"
    "length res = length records"
    "\<And>i. i < length records \<Longrightarrow> too_large c (hp' (records ! i)) \<Longrightarrow>
       res ! i = \<lparr>kp_Record = Some (records ! i), kp_Err = Some (errRecordTooLarge (hp' (records ! i)))\<rparr>"
    "mset (map fst ps) = mset (filter (\<lambda>r. \<not> too_large c (hp' r)) records)"
    "\<forall>p\<in>set ps. snd p = sync_outcome xxh c hp' (routed_keys xxh c hp' records) evs (fst p)"
proof -
  let ?c1 = "c\<lparr>cl_metrics := (cl_metrics c)\<lparr>produceRecordsTotal := produceRecordsTotal (cl_metrics c) + int (length records)\<rparr>\<rparr>"
  let ?res0 = "replicate (length records) \<lparr>kp_Record = None, kp_Err = None\<rparr>"
  let ?okI = "filter (\<lambda>i. \<not> too_large c (hp' (records ! i))) [0..<length records]"
  let ?ok = "filter (\<lambda>r. \<not> too_large c (hp' r)) records" and ?ks = "routed_keys xxh c hp' records"
  obtain c2 res okI where loop: "foldl (reject_oversize hp') (?c1, ?res0, []) (enumerate 0 records) = (c2, res, okI)" by (metis prod_cases3)
  have "same_core c ?c1" unfolding same_core_def by blast
  moreover have "same_core ?c1 c2" using oversize_loop [OF loop] by simp
  ultimately have core: "same_core c c2" unfolding same_core_def by auto
  note same = same_core_simps [OF core] and same1 = same_core_simps [OF \<open>same_core c ?c1\<close>]
  have okI: "okI = ?okI" and res: "length res = length records"
    "\<And>i. i < length records \<Longrightarrow> too_large c (hp' (records ! i)) \<Longrightarrow>
       res ! i = \<lparr>kp_Record = Some (records ! i), kp_Err = Some (errRecordTooLarge (hp' (records ! i)))\<rparr>"
    using oversize_loop [OF loop] same1(1) by (auto simp: oversize_slot_def)
  have ok: "map ((!) records) ?okI = ?ok" by (rule map_nth_filter)
  then have nil: "?okI = [] \<longleftrightarrow> ?ok = []" by (metis map_is_Nil_conv)
  obtain c3 routed rejected where r: "routeRecords xxh clk hp' c2 ?ok = (c3, routed, rejected)" by (metis prod_cases3)
  have inv2: "router_inv c2" using inv same(3) by simp
  have ks: "routed_keys xxh c2 hp' records = ?ks" "sync_outcome xxh c2 hp' ?ks evs = sync_outcome xxh c hp' ?ks evs"
    unfolding routed_keys_def same by (rule refl, rule ext) (simp only: sync_outcome_def same)
  note w = writes_ok [OF r inv2, of records evs, unfolded ks same(1)]
  have w1: "mset (map fst (reject_writes rejected @ done_writes hp' routed evs)) = mset ?ok" using w(1) evs by simp
  have w2: "\<forall>p\<in>set (reject_writes rejected @ done_writes hp' routed evs). snd p = sync_outcome xxh c hp' ?ks evs (fst p)" using w(2) evs by simp
  have run: "client_ProduceSync xxh ph ctx clk stampAt evs hp c records =
      (if ?ok = [] then Some (sync_return ph records [] [] hp' \<lparr>sy_client = c2, sy_results = res, sy_wg = 0\<rparr>)
       else let s = foldl (reject_group (index_of records ?okI)) \<lparr>sy_client = c3, sy_results = res, sy_wg = int (length ?ok)\<rparr> rejected
            in if routed = [] then Some (sync_return ph records (index_of records ?okI) ?okI hp' s)
               else let hp'' = stamp_groups stampAt routed hp'; s = foldl (complete_group hp'' (index_of records ?okI) routed) s evs
                    in if sy_wg s = 0 then Some (sync_return ph records (index_of records ?okI) ?okI hp'' s) else None)"
    unfolding client_ProduceSync_def using ne loop r ok okI
    by (simp add: Let_def hp' [symmetric] index_of_def nil)
  show thesis
  proof (cases "?ok = []")
    case True
    then have "?okI = []" using ok by (metis map_is_Nil_conv)
    then show thesis using that [of hp' "\<lparr>sy_client = c2, sy_results = res, sy_wg = 0\<rparr>" res "[]"] run True res by (simp add: index_of_def)
  next
    case False
    let ?s = "foldl (reject_group (index_of records ?okI)) \<lparr>sy_client = c3, sy_results = res, sy_wg = int (length ?ok)\<rparr> rejected"
    let ?hp = "stamp_groups stampAt routed hp'"
    let ?t = "foldl (complete_group ?hp (index_of records ?okI) routed) ?s evs"
    have dw: "done_writes ?hp routed evs = done_writes hp' routed evs" by (simp add: done_writes_def)
    have t: "sy_results ?t = foldl (put_slot (index_of records ?okI)) res (reject_writes rejected @ done_writes hp' routed evs)"
      "sy_wg ?t = int (length ?ok) - int (length (reject_writes rejected @ done_writes hp' routed evs))"
      unfolding done_loop reject_loop dw by simp_all
    have "length (reject_writes rejected @ done_writes hp' routed evs) = length ?ok"
      using arg_cong [OF w1, of size] by (simp only: size_mset length_map)
    then have wg: "sy_wg ?t = 0" using t(2) by simp
    show thesis
    proof (cases "routed = []")
      case True
      have "length routed = length ?ks" using routeRecords_groups(1) [OF r inv2] ks(1) same(2) by (metis length_map routed_keys_def same(1))
      then have "evs = []" using evs True by simp
      then have "sy_results ?s = foldl (put_slot (index_of records ?okI)) res (reject_writes rejected @ done_writes hp' routed evs)"
        by (simp add: reject_loop done_writes_def)
      from that [OF _ this res w1 w2] show thesis using run False True by (simp add: Let_def)
    next
      case nonempty: False
      from that [OF _ t(1) res w1 w2] show thesis using run False wg nonempty by (simp add: Let_def)
    qed
  qed
qed

text \<open>
  C2: \<open>ProduceSync\<close> returns once every group it handed to the buffer has been completed, and reports
  for each input position, in order, the outcome of that very record: the size error when it can never
  fit a batch, the no-agent error of its partition, or what its group's result says of its
  partition. That includes positions that repeat a pointer, which share one slot until the end, and completions in
  any order. The unbuffered hooks see the same outcomes, in input order.
\<close>

theorem produce_sync_reports_each_record:
  assumes "client_inv c" and "counted_stats (reader_of (cl_tracker c))"
    and "mset (map fst evs) = mset [0..<length (routed_keys xxh c (foldl (buffer_record ph ctx) hp records) records)]"
  shows "\<exists>c' hp'. client_ProduceSync xxh ph ctx clk stampAt evs hp c records =
    (let hp1 = foldl (buffer_record ph ctx) hp records; outcome = sync_outcome xxh c hp1 (routed_keys xxh c hp1 records) evs
     in Some (c', hp', map (\<lambda>r. \<lparr>kp_Record = Some r, kp_Err = outcome r\<rparr>) records,
              if hooks_enabled ph then concat (map (\<lambda>r. fireUnbuffered ph r (outcome r)) records) else []))"
proof (cases "records = []")
  case True
  then show ?thesis by (simp add: client_ProduceSync_def)
next
  case False
  let ?hp1 = "foldl (buffer_record ph ctx) hp records" and ?okI = "filter (\<lambda>i. \<not> too_large c (foldl (buffer_record ph ctx) hp records (records ! i))) [0..<length records]"
  let ?out = "sync_outcome xxh c ?hp1 (routed_keys xxh c ?hp1 records) evs"
  have r: "router_inv c" using assms(1,2) by (simp add: router_inv_def)
  obtain s hp'' ps res where
    ret: "client_ProduceSync xxh ph ctx clk stampAt evs hp c records = Some (sync_return ph records (index_of records ?okI) ?okI hp'' s)"
    and s: "sy_results s = foldl (put_slot (index_of records ?okI)) res ps" and len: "length res = length records"
    and big: "\<And>i. i < length records \<Longrightarrow> too_large c (?hp1 (records ! i)) \<Longrightarrow>
       res ! i = \<lparr>kp_Record = Some (records ! i), kp_Err = Some (errRecordTooLarge (?hp1 (records ! i)))\<rparr>"
    and ps: "mset (map fst ps) = mset (filter (\<lambda>r. \<not> too_large c (?hp1 r)) records)" "\<forall>p\<in>set ps. snd p = ?out (fst p)"
    by (rule sync_returns [OF r False refl assms(3), of clk stampAt]) blast
  have slot: "filled_slots records (index_of records ?okI) ?okI (sy_results s) ! i = \<lparr>kp_Record = Some (records ! i), kp_Err = ?out (records ! i)\<rparr>"
    if "i < length records" for i
    unfolding filled_slots_def s
  proof (rule slots_filled [where big = "\<lambda>r. too_large c (?hp1 r)", OF refl len _ _ ps(2) that])
    show "res ! j = \<lparr>kp_Record = Some (records ! j), kp_Err = ?out (records ! j)\<rparr>"
      if "j < length records" "too_large c (?hp1 (records ! j))" for j using big [OF that] that(2) by (simp add: sync_outcome_def)
    show "mset (map fst ps) = mset (map ((!) records) ?okI)" 
      using ps(1) map_nth_filter [of records "\<lambda>r. \<not> too_large c (?hp1 r)"] by simp
  qed
  have slen: "length (sy_results s) = length records" by (simp add: s len)
  have "filled_slots records (index_of records ?okI) ?okI (sy_results s) = map (\<lambda>r. \<lparr>kp_Record = Some r, kp_Err = ?out r\<rparr>) records"
    by (rule nth_equalityI) (simp_all add: slot slen)
  moreover have "concat (map (\<lambda>(i, r). fireUnbuffered ph r (kp_Err (filled_slots records (index_of records ?okI) ?okI (sy_results s) ! i))) (enumerate 0 records)) =
      concat (map (\<lambda>r. fireUnbuffered ph r (?out r)) records)"
    by (rule unbuffered_events) (simp add: slot)
  ultimately show ?thesis unfolding ret sync_return_eq Let_def by auto
qed

definition example_hooks :: produceHooks where
  "example_hooks = newProduceHooks [\<lparr>OnProduceRecordBuffered = None, OnProduceRecordUnbuffered = Some 7\<rparr>]"

definition example_group_result :: ProduceResult where
  "example_group_result = \<lparr>pr_resp = Some (example_response [(''a'', 0, 0)]), pr_err = None\<rparr>"

theorem produce_sync_reports_each_record_witness:
  "\<exists>c' hp'. client_ProduceSync example_hash example_hooks 0 (\<lambda>i. 0) 0 [(0, example_group_result)] example_heap example_client [0, 1, 0] =
     Some (c', hp', [\<lparr>kp_Record = Some 0, kp_Err = None\<rparr>, \<lparr>kp_Record = Some 1, kp_Err = Some (errNoAgent (''zz'', 0))\<rparr>, \<lparr>kp_Record = Some 0, kp_Err = None\<rparr>],
       [HookUnbuffered 7 0 None, HookUnbuffered 7 1 (Some (errNoAgent (''zz'', 0))), HookUnbuffered 7 0 None])"
proof -
  let ?hp = "foldl (buffer_record example_hooks 0) example_heap [0, 1, 0]"
  let ?ks = "routed_keys example_hash example_client ?hp [0, 1, 0]"
  have "mset (map fst [(0, example_group_result)]) = mset [0..<length ?ks]" by code_simp
  note t = produce_sync_reports_each_record [OF example_client_ok this, of "\<lambda>i. 0" 0]
  have out: "sync_outcome example_hash example_client ?hp ?ks [(0, example_group_result)] 0 = None"
    "sync_outcome example_hash example_client ?hp ?ks [(0, example_group_result)] 1 = Some (errNoAgent (''zz'', 0))" by code_simp+
  have "hooks_enabled example_hooks" "\<And>r err. fireUnbuffered example_hooks r err = [HookUnbuffered 7 r err]"
    by (simp_all add: hooks_enabled_def fireUnbuffered_def example_hooks_def newProduceHooks_def)
  with t show ?thesis unfolding Let_def list.map out by simp
qed

end
