(* ===== verification/Direct_Producer.thy ===== *)
theory Direct_Producer
  imports Client_Produce
begin

text \<open>
  One produce attempt: \<open>KafkaDirectProducer.ProduceSync\<close> of \<open>direct_producer.go\<close>, the \<open>TrackingProducer\<close> that
  records its outcome (\<open>tracking_producer.go\<close>), and the flush function of the hedge buffer in \<open>NewHedger\<close>.
  What the broker answers, whether the per-attempt deadline has passed when the test hook returns, and
  the time an attempt takes are arguments.
\<close>

section \<open>Counters\<close>

record direct_metrics =
  produceDirectRequestsTotal :: "(string, int) gomap"
  produceDirectRequestsFailedTotal :: "(string \<times> string, int) gomap"
  requestLatencySuccess :: "duration list"
  requestLatencyFailure :: "(string \<times> duration) list"
  produceWireStats :: produceRequestStats

definition agentStateLabel :: "AgentState \<Rightarrow> string" where
  "agentStateLabel st = (if st = AgentStateDemoted then ''demoted'' else ''healthy'')"

datatype attemptRole = attemptPrimary | attemptHedge

text \<open>Records and compressed bytes per role.\<close>

definition observeAttempt ::
  "attemptRole \<Rightarrow> produceRequestStats \<Rightarrow> (attemptRole, int) gomap \<times> (attemptRole, int) gomap \<Rightarrow>
   (attemptRole, int) gomap \<times> (attemptRole, int) gomap" where
  "observeAttempt role stats m = (add_to role (s_records stats) (fst m), add_to role (s_compressedBytes stats) (snd m))"

section \<open>One attempt\<close>

text \<open>The outcome of \<open>Broker.Request\<close>: a Produce response, a response of another type, or an error.\<close>

datatype broker_answer = Answer ProduceResponse | OtherType string | RequestError goerror

record KafkaDirectProducer =
  dp_topicID :: "topic \<Rightarrow> uuid option"
  dp_version :: int
  dp_cfg :: KafkaDirectProducerConfig
  dp_hasResponseHook :: bool

record attempt_world =
  aw_answer :: "node_id \<Rightarrow> ProduceRequest \<Rightarrow> broker_answer"
  aw_ctxErrAfterHook :: "goerror option"
  aw_latency :: duration

definition attempt_result :: "KafkaDirectProducer \<Rightarrow> attempt_world \<Rightarrow> broker_answer \<Rightarrow> ProduceResult" where
  "attempt_result s w answer =
     (case answer of
        OtherType ty \<Rightarrow> err_result (GoErrorf ''unexpected response type %T'' [FStr ty])
      | _ \<Rightarrow>
          if dp_hasResponseHook s \<and> aw_ctxErrAfterHook w \<noteq> None then err_result (the (aw_ctxErrAfterHook w))
          else case answer of
                 RequestError err \<Rightarrow> err_result (WireError err)
               | Answer pr \<Rightarrow> \<lparr>pr_resp = Some pr, pr_err = None\<rparr>)"

definition observe_result ::
  "err_env \<Rightarrow> string \<Rightarrow> produceRequestStats \<Rightarrow> duration \<Rightarrow> ProduceResult \<Rightarrow> direct_metrics \<Rightarrow> direct_metrics" where
  "observe_result env agentState reqStats latency res m =
     (if succeeded res
      then m\<lparr>requestLatencySuccess := requestLatencySuccess m @ [latency],
             produceWireStats := stats_add (produceWireStats m) reqStats\<rparr>
      else let reason = pe_reason (getProduceResultErr env (the (result_error res)))
           in m\<lparr>requestLatencyFailure := requestLatencyFailure m @ [(reason, latency)],
                produceDirectRequestsFailedTotal := add_to (reason, agentState) 1 (produceDirectRequestsFailedTotal m)\<rparr>)"

definition direct_ProduceSync ::
  "err_env \<Rightarrow> KafkaDirectProducer \<Rightarrow> attempt_world \<Rightarrow> direct_metrics \<Rightarrow> Agent \<Rightarrow> encodedTopicPartitionRecords list \<Rightarrow>
   direct_metrics \<times> ProduceResult" where
  "direct_ProduceSync env s w m target partitions =
     (case buildMultiTopicProduceRequestFromEncoded (dp_version s) (dp_topicID s) partitions of
        Inl err \<Rightarrow> (m, err_result err)
      | Inr (req, reqStats) \<Rightarrow>
          let req = req\<lparr>q_TimeoutMillis := i32 (go_div (ProduceRequestTimeout (dp_cfg s)) millisecond)\<rparr>;
              agentState = agentStateLabel (State target);
              m = m\<lparr>produceDirectRequestsTotal := add_to agentState 1 (produceDirectRequestsTotal m)\<rparr>;
              res = attempt_result s w (aw_answer w (NodeID target) req)
          in (observe_result env agentState reqStats (aw_latency w) res m, res))"

section \<open>Tracking\<close>

definition tracking_ProduceSync ::
  "err_env \<Rightarrow> KafkaDirectProducer \<Rightarrow> attempt_world \<Rightarrow> instant \<Rightarrow> direct_metrics \<times> CachedAgentStatsTracker \<Rightarrow> Agent \<Rightarrow>
   encodedTopicPartitionRecords list \<Rightarrow> (direct_metrics \<times> CachedAgentStatsTracker) \<times> ProduceResult" where
  "tracking_ProduceSync env s w endAt mt target partitions =
     (let (m, res) = direct_ProduceSync env s w (fst mt) target partitions
      in ((m, cached_TrackAgentRequest (snd mt) endAt (NodeID target) (aw_latency w) (result_error res)), res))"

text \<open>A flush of the hedge buffer: count the hedge request, strip the routing, and make one tracked attempt.\<close>

definition hedge_flush ::
  "err_env \<Rightarrow> KafkaDirectProducer \<Rightarrow> attempt_world \<Rightarrow> instant \<Rightarrow>
   ((attemptRole, int) gomap \<times> (attemptRole, int) gomap) \<times> direct_metrics \<times> CachedAgentStatsTracker \<Rightarrow> node_id \<Rightarrow>
   routedEncodedTopicPartitionRecords list \<Rightarrow>
   (((attemptRole, int) gomap \<times> (attemptRole, int) gomap) \<times> direct_metrics \<times> CachedAgentStatsTracker) \<times> ProduceResult" where
  "hedge_flush env s w endAt st nodeID parts =
     (let attempts = observeAttempt attemptHedge (sumEncodedStats parts) (fst st);
          (mt, res) = tracking_ProduceSync env s w endAt (snd st) (agentFromRouted nodeID parts) (unrouteEncodedTopicPartitionRecords parts)
      in ((attempts, mt), res))"

section \<open>What an attempt reports\<close>

text \<open>
  An attempt never invents a success: its result succeeds only with a response of the broker to the very
  request that carries the given partitions, the request is sent at most once, and the wire counters grow by
  exactly the request's batches on success and not at all otherwise.
\<close>

lemma attempt_reports_broker:
  assumes "direct_ProduceSync env s w m target ps = (m', res)"
  shows "succeeded res \<Longrightarrow> \<exists>req st pr. buildMultiTopicProduceRequestFromEncoded (dp_version s) (dp_topicID s) ps = Inr (req, st) \<and>
      aw_answer w (NodeID target) (req\<lparr>q_TimeoutMillis := i32 (go_div (ProduceRequestTimeout (dp_cfg s)) millisecond)\<rparr>) = Answer pr \<and>
      pr_resp res = Some pr \<and> produceWireStats m' = stats_add (produceWireStats m) st"
    and "\<not> succeeded res \<Longrightarrow> produceWireStats m' = produceWireStats m"
proof -
  show "\<exists>req st pr. buildMultiTopicProduceRequestFromEncoded (dp_version s) (dp_topicID s) ps = Inr (req, st) \<and>
      aw_answer w (NodeID target) (req\<lparr>q_TimeoutMillis := i32 (go_div (ProduceRequestTimeout (dp_cfg s)) millisecond)\<rparr>) = Answer pr \<and>
      pr_resp res = Some pr \<and> produceWireStats m' = stats_add (produceWireStats m) st" if ok: "succeeded res"
  proof (cases "buildMultiTopicProduceRequestFromEncoded (dp_version s) (dp_topicID s) ps")
    case (Inl e)
    then show ?thesis using assms ok by (auto simp: direct_ProduceSync_def err_result_def succeeded_def result_error_def)
  next
    case (Inr rs)
    obtain req st where rs: "rs = (req, st)" by force
    let ?req = "req\<lparr>q_TimeoutMillis := i32 (go_div (ProduceRequestTimeout (dp_cfg s)) millisecond)\<rparr>"
    have res: "res = attempt_result s w (aw_answer w (NodeID target) ?req)"
      and m': "m' = observe_result env (agentStateLabel (State target)) st (aw_latency w) res
        (m\<lparr>produceDirectRequestsTotal := add_to (agentStateLabel (State target)) 1 (produceDirectRequestsTotal m)\<rparr>)"
      using assms Inr rs by (auto simp: direct_ProduceSync_def Let_def)
    then obtain pr where "aw_answer w (NodeID target) ?req = Answer pr" "pr_resp res = Some pr"
      using ok by (auto simp: attempt_result_def err_result_def succeeded_def result_error_def split: broker_answer.splits if_splits)
    then show ?thesis using Inr rs m' ok by (simp add: observe_result_def)
  qed
  show "produceWireStats m' = produceWireStats m" if "\<not> succeeded res"
    using assms that by (auto simp: direct_ProduceSync_def observe_result_def Let_def split: sum.splits)
qed

lemma attempt_response:
  assumes "pr_resp (snd (direct_ProduceSync env s w m target ps)) = Some pr"
  shows "\<exists>req st. buildMultiTopicProduceRequestFromEncoded (dp_version s) (dp_topicID s) ps = Inr (req, st) \<and>
    aw_answer w (NodeID target) (req\<lparr>q_TimeoutMillis := i32 (go_div (ProduceRequestTimeout (dp_cfg s)) millisecond)\<rparr>) = Answer pr"
  using assms by (auto simp: direct_ProduceSync_def attempt_result_def err_result_def Let_def split: sum.splits broker_answer.splits if_splits)

text \<open>A cancelled attempt, one that lost its race for instance, leaves no trace in the statistics.\<close>

lemma canceled_attempt_untracked:
  assumes "tracking_ProduceSync env s w endAt (m, t) target ps = ((m', t'), res)" and "result_error res = Some err" "errors_Is err Canceled"
  shows "cached_AgentStats t' now n = cached_AgentStats t now n"
  using assms by (auto simp: tracking_ProduceSync_def case_prod_unfold Let_def cached_tracker.track_canceled)

end
