(* ===== verification/Sim_Behaviour.thy ===== *)
theory Sim_Behaviour
  imports Go_Float
begin

text \<open>
  The fault injection of \<open>pkg/internal/simulation/runner/broker_behaviour.go\<close>: how every broker of a simulated
  cluster answers, and the provider that draws delays and failures from one random stream for each
  client, broker and kind of fault.

  A \<open>*rand.Rand\<close> is a generator state of any type \<open>'g\<close>; \<open>rand.NewPCG\<close> and \<open>Float64\<close> are the fields of the
  parameter \<open>rand_lib\<close>. A latency distribution is a function that draws from a generator.
\<close>

datatype clientType = clientTypeWgo | clientTypeKgo

record 'g rand_lib =
  NewPCG :: "int \<Rightarrow> int \<Rightarrow> 'g"
  Float64 :: "'g \<Rightarrow> rat \<times> 'g"

type_synonym 'g latency = "'g \<Rightarrow> duration \<times> 'g"

record 'g brokerBehaviour =
  injectedLatency :: bool
  minInjectedLatency :: duration
  latencyFn :: "'g latency option"
  failRate :: rat

record 'g brokersBehaviour =
  byBroker :: "(node_id, 'g brokerBehaviour) gomap"
  missingBrokers :: "node_id list"
  brokerOnlyMissing :: "node_id list"
  topicMetadataDelay :: duration

definition forBroker :: "'g brokersBehaviour \<Rightarrow> node_id \<Rightarrow> 'g brokerBehaviour option" where
  "forBroker b nodeID = map_of (byBroker b) nodeID"

section \<open>Baselines\<close>

definition clusterSize :: int where "clusterSize = 50"

definition with_latency :: "'g latency \<Rightarrow> 'g brokerBehaviour" where
  "with_latency f = \<lparr>injectedLatency = False, minInjectedLatency = 0, latencyFn = Some f, failRate = 0\<rparr>"

definition always_failing :: "'g brokerBehaviour" where
  "always_failing = \<lparr>injectedLatency = False, minInjectedLatency = 0, latencyFn = None, failRate = 1\<rparr>"

definition behaviours_of :: "(node_id, 'g brokerBehaviour) gomap \<Rightarrow> 'g brokersBehaviour" where
  "behaviours_of m = \<lparr>byBroker = m, missingBrokers = [], brokerOnlyMissing = [], topicMetadataDelay = 0\<rparr>"

definition override :: "'g brokerBehaviour \<Rightarrow> node_id list \<Rightarrow> 'g brokersBehaviour \<Rightarrow> 'g brokersBehaviour" where
  "override v nodeIDs bh = foldl (\<lambda>bh i. bh\<lparr>byBroker := AList.update i v (byBroker bh)\<rparr>) bh nodeIDs"

definition healthyBehaviours :: "'g latency \<Rightarrow> 'g brokersBehaviour" where
  "healthyBehaviours normalLatency = override (with_latency normalLatency) [0..clusterSize - 1] (behaviours_of [])"

definition failingBehavioursFor :: "'g latency \<Rightarrow> node_id list \<Rightarrow> 'g brokersBehaviour" where
  "failingBehavioursFor normalLatency nodeIDs = override always_failing nodeIDs (healthyBehaviours normalLatency)"

definition highLatencyBehavioursFor :: "'g latency \<Rightarrow> 'g latency \<Rightarrow> node_id list \<Rightarrow> 'g brokersBehaviour" where
  "highLatencyBehavioursFor normalLatency highLatency nodeIDs =
     override (with_latency highLatency) nodeIDs (healthyBehaviours normalLatency)"

definition missingBrokerBehaviours :: "'g latency \<Rightarrow> node_id list \<Rightarrow> 'g brokersBehaviour" where
  "missingBrokerBehaviours normalLatency nodeIDs = (healthyBehaviours normalLatency)\<lparr>missingBrokers := nodeIDs\<rparr>"

definition burstyLatency :: "'g rand_lib \<Rightarrow> 'g latency \<Rightarrow> rat \<Rightarrow> duration \<Rightarrow> 'g latency" where
  "burstyLatency lib base burstRate burst rng =
     (let (d, rng) = base rng; (u, rng) = Float64 lib rng
      in (if u < burstRate then i64 (d + burst) else d, rng))"

definition constantLatency :: "duration \<Rightarrow> 'g latency" where
  "constantLatency delay rng = (delay, rng)"

definition burstyLatencyBehaviours :: "'g rand_lib \<Rightarrow> 'g latency \<Rightarrow> rat \<Rightarrow> duration \<Rightarrow> 'g brokersBehaviour" where
  "burstyLatencyBehaviours lib normalLatency burstRate burst =
     override (with_latency (burstyLatency lib normalLatency burstRate burst)) [0..clusterSize - 1] (healthyBehaviours normalLatency)"

section \<open>The provider\<close>

record rngKey =
  rk_client :: clientType
  rk_broker :: node_id
  rk_failure :: bool

record 'g brokersBehaviourProvider =
  pv_current :: "'g brokersBehaviour"
  pv_rngs :: "(rngKey, 'g) gomap"
  pv_latencySelections :: "(clientType, (node_id, int) gomap) gomap"

definition newBrokersBehaviourProvider :: "'g brokersBehaviour \<Rightarrow> 'g brokersBehaviourProvider" where
  "newBrokersBehaviourProvider initial = \<lparr>pv_current = initial, pv_rngs = [], pv_latencySelections = []\<rparr>"

definition provider_set :: "'g brokersBehaviourProvider \<Rightarrow> 'g brokersBehaviour \<Rightarrow> 'g brokersBehaviourProvider" where
  "provider_set p b = p\<lparr>pv_current := b\<rparr>"

definition rng_seed :: "clientType \<Rightarrow> bool \<Rightarrow> int" where
  "rng_seed client failure = (case client of clientTypeWgo \<Rightarrow> 0 | clientTypeKgo \<Rightarrow> 1) + 1 + (if failure then 2 else 0)"

definition rngFor :: "'g rand_lib \<Rightarrow> 'g brokersBehaviourProvider \<Rightarrow> clientType \<Rightarrow> node_id \<Rightarrow> bool \<Rightarrow> 'g" where
  "rngFor lib p client nodeID failure =
     (case map_of (pv_rngs p) \<lparr>rk_client = client, rk_broker = nodeID, rk_failure = failure\<rparr> of
        Some r \<Rightarrow> r
      | None \<Rightarrow> NewPCG lib (nodeID mod 2 ^ 64) (rng_seed client failure))"

text \<open>A draw moves the generator that the map points to.\<close>

definition store_rng :: "clientType \<Rightarrow> node_id \<Rightarrow> bool \<Rightarrow> 'g \<Rightarrow> 'g brokersBehaviourProvider \<Rightarrow> 'g brokersBehaviourProvider" where
  "store_rng client nodeID failure g p =
     p\<lparr>pv_rngs := AList.update \<lparr>rk_client = client, rk_broker = nodeID, rk_failure = failure\<rparr> g (pv_rngs p)\<rparr>"

definition nextLatencyFor ::
  "'g rand_lib \<Rightarrow> 'g brokersBehaviourProvider \<Rightarrow> clientType \<Rightarrow> node_id \<Rightarrow> duration \<times> 'g brokersBehaviourProvider" where
  "nextLatencyFor lib p client nodeID =
     (case forBroker (pv_current p) nodeID of
        None \<Rightarrow> (0, p)
      | Some b \<Rightarrow> (case latencyFn b of
            None \<Rightarrow> (0, p)
          | Some f \<Rightarrow>
              (let (delay, g) = f (rngFor lib p client nodeID False);
                   p = store_rng client nodeID False g p;
                   selected = get_or [] (pv_latencySelections p) client
               in (delay, if injectedLatency b \<and> delay > minInjectedLatency b
                     then p\<lparr>pv_latencySelections := AList.update client
                            (AList.update nodeID (get_or 0 selected nodeID + 1) selected) (pv_latencySelections p)\<rparr>
                     else p))))"

definition nextFailureFor ::
  "'g rand_lib \<Rightarrow> 'g brokersBehaviourProvider \<Rightarrow> clientType \<Rightarrow> node_id \<Rightarrow> bool \<times> 'g brokersBehaviourProvider" where
  "nextFailureFor lib p client nodeID =
     (case forBroker (pv_current p) nodeID of
        None \<Rightarrow> (False, p)
      | Some b \<Rightarrow>
          if failRate b \<le> 0 then (False, p)
          else let (u, g) = Float64 lib (rngFor lib p client nodeID True)
               in (u < failRate b, store_rng client nodeID True g p))"

definition selectedLatencies :: "'g brokersBehaviourProvider \<Rightarrow> clientType \<Rightarrow> (node_id, int) gomap" where
  "selectedLatencies p client = get_or [] (pv_latencySelections p) client"

section \<open>Sequences of draws\<close>

datatype 'g provider_call =
    SetBehaviours "'g brokersBehaviour"
  | DrawLatency clientType node_id
  | DrawFailure clientType node_id

fun provider_run ::
  "'g rand_lib \<Rightarrow> 'g brokersBehaviourProvider \<Rightarrow> 'g provider_call list \<Rightarrow> (clientType \<times> node_id \<times> bool) list" where
  "provider_run lib p [] = []"
| "provider_run lib p (SetBehaviours b # cs) = provider_run lib (provider_set p b) cs"
| "provider_run lib p (DrawLatency client i # cs) = provider_run lib (snd (nextLatencyFor lib p client i)) cs"
| "provider_run lib p (DrawFailure client i # cs) =
     (let (failed, p) = nextFailureFor lib p client i in (client, i, failed) # provider_run lib p cs)"

definition failures_of :: "clientType \<Rightarrow> node_id \<Rightarrow> (clientType \<times> node_id \<times> bool) list \<Rightarrow> bool list" where
  "failures_of client i xs = map (\<lambda>(c, j, failed). failed) (filter (\<lambda>(c, j, failed). c = client \<and> j = i) xs)"

definition concerns :: "clientType \<Rightarrow> node_id \<Rightarrow> 'g provider_call \<Rightarrow> bool" where
  "concerns client i call \<longleftrightarrow> (case call of SetBehaviours b \<Rightarrow> True | DrawLatency c j \<Rightarrow> False | DrawFailure c j \<Rightarrow> c = client \<and> j = i)"

text \<open>What the failures of one client and broker depend on: the behaviours and its own generator.\<close>

fun expected_failures :: "'g rand_lib \<Rightarrow> node_id \<Rightarrow> 'g brokersBehaviour \<Rightarrow> 'g \<Rightarrow> 'g provider_call list \<Rightarrow> bool list" where
  "expected_failures lib i b g [] = []"
| "expected_failures lib i b g (SetBehaviours b' # cs) = expected_failures lib i b' g cs"
| "expected_failures lib i b g (DrawLatency c j # cs) = expected_failures lib i b g cs"
| "expected_failures lib i b g (DrawFailure c j # cs) =
     (case forBroker b i of
        None \<Rightarrow> False # expected_failures lib i b g cs
      | Some bh \<Rightarrow> if failRate bh \<le> 0 then False # expected_failures lib i b g cs
          else (fst (Float64 lib g) < failRate bh) # expected_failures lib i b (snd (Float64 lib g)) cs)"

lemma rngFor_store:
  "rngFor lib (store_rng c j f g p) client i failure =
     (if c = client \<and> j = i \<and> f = failure then g else rngFor lib p client i failure)"
  by (auto simp: rngFor_def store_rng_def)

lemma pv_current_store [simp]: "pv_current (store_rng c j f g p) = pv_current p"
  by (simp add: store_rng_def)

lemma latency_keeps_failures:
  "pv_current (snd (nextLatencyFor lib p c j)) = pv_current p"
  "rngFor lib (snd (nextLatencyFor lib p c j)) client i True = rngFor lib p client i True"
proof -
  have "rngFor lib (p\<lparr>pv_latencySelections := x\<rparr>) client i True = rngFor lib p client i True" for p :: "'a brokersBehaviourProvider" and x
    by (simp add: rngFor_def)
  then show "rngFor lib (snd (nextLatencyFor lib p c j)) client i True = rngFor lib p client i True"
    by (auto simp: nextLatencyFor_def Let_def case_prod_unfold rngFor_store split: option.splits)
qed (auto simp: nextLatencyFor_def store_rng_def Let_def case_prod_unfold split: option.splits)

lemma failures_expected:
  "failures_of client i (provider_run lib p cs) =
     expected_failures lib i (pv_current p) (rngFor lib p client i True) (filter (concerns client i) cs)"
proof (induction cs arbitrary: p)
  case (Cons call cs)
  show ?case
  proof (cases call)
    case (SetBehaviours b)
    then show ?thesis using Cons by (simp add: concerns_def provider_set_def rngFor_def)
  next
    case (DrawLatency c j)
    then show ?thesis using Cons by (simp add: concerns_def latency_keeps_failures)
  next
    case (DrawFailure c j)
    then show ?thesis using Cons
      by (auto simp: concerns_def nextFailureFor_def failures_of_def rngFor_store case_prod_unfold Let_def split: option.splits)
  qed
qed (simp add: failures_of_def)

section \<open>Properties\<close>

text \<open>
  Injected failures are reproducible. The failures that a client meets at a broker are the same in two
  runs that set the same behaviours and draw the same number of failures for this client and broker in
  between, whatever latencies and whatever failures of other brokers and clients are drawn around them: no
  callback order shifts the sequence. The seeds keep the four streams of a broker apart.
\<close>

theorem injected_failures_reproducible:
  assumes "filter (concerns client i) calls = filter (concerns client i) calls'"
  shows "failures_of client i (provider_run lib (newBrokersBehaviourProvider b) calls) =
      failures_of client i (provider_run lib (newBrokersBehaviourProvider b) calls') \<and>
    (rng_seed client failure = rng_seed other failure' \<longleftrightarrow> client = other \<and> failure = failure')"
  using assms by (auto simp: failures_expected rng_seed_def split: clientType.splits)

text \<open>A generator that counts in tenths.\<close>

definition example_rand :: "nat rand_lib" where
  "example_rand = \<lparr>NewPCG = (\<lambda>a b. nat (a + b)), Float64 = (\<lambda>g. (Fract (int (g mod 10)) 10, Suc g))\<rparr>"

definition example_behaviours :: "nat brokersBehaviour" where
  "example_behaviours = behaviours_of [(1, (with_latency (\<lambda>g. (second, Suc g)))\<lparr>failRate := 1 / 2\<rparr>)]"

theorem injected_failures_reproducible_witness:
  "failures_of clientTypeWgo 1 (provider_run example_rand (newBrokersBehaviourProvider example_behaviours)
       [DrawFailure clientTypeWgo 1, DrawLatency clientTypeWgo 1, DrawFailure clientTypeKgo 1, DrawFailure clientTypeWgo 1]) =
     failures_of clientTypeWgo 1 (provider_run example_rand (newBrokersBehaviourProvider example_behaviours)
       [DrawFailure clientTypeWgo 1, DrawFailure clientTypeWgo 1]) \<and>
   failures_of clientTypeWgo 1 (provider_run example_rand (newBrokersBehaviourProvider example_behaviours)
       [DrawFailure clientTypeWgo 1, DrawFailure clientTypeWgo 1]) = [True, False]"
proof -
  let ?long = "[DrawFailure clientTypeWgo 1, DrawLatency clientTypeWgo 1, DrawFailure clientTypeKgo 1, DrawFailure clientTypeWgo 1]
    :: nat provider_call list"
  let ?short = "[DrawFailure clientTypeWgo 1, DrawFailure clientTypeWgo 1] :: nat provider_call list"
  have "filter (concerns clientTypeWgo 1) ?long = filter (concerns clientTypeWgo 1) ?short" by (simp add: concerns_def)
  note same = injected_failures_reproducible [OF this, of example_rand example_behaviours]
  have "failures_of clientTypeWgo 1 (provider_run example_rand (newBrokersBehaviourProvider example_behaviours) ?short) = [True, False]"
    by code_simp
  with same show ?thesis by blast
qed

end
