(* ===== verification/Sim_Transport.thy ===== *)
theory Sim_Transport
  imports Wgo_Prelude
begin

text \<open>
  The simulated network of \<open>pkg/internal/simulation/runner/transport.go\<close>: the fault switch between the client
  under test and its brokers. The dialler, the established connections and their copy loops run in
  goroutines of their own, so the network is a state machine: a section under the mutex is one step, and
  a goroutine that is between two sections is a pending item. A connection pointer is an index
  into the list of all connections ever made. The sockets come in as what a dial, a read or a write returns.

  The counters are \<open>int64\<close> in the code; they only grow by sizes of transferred data and are not
  wrapped here.
\<close>

section \<open>State\<close>

datatype transportFault = transportHealthy | transportKilled | transportBlackhole

record brokerTransportStats =
  bt_droppedBytes :: int
  bt_closedConnections :: int

definition no_transport :: brokerTransportStats where
  "no_transport = \<lparr>bt_droppedBytes = 0, bt_closedConnections = 0\<rparr>"

type_synonym connection = nat

record transportConnection =
  tc_nodeID :: node_id
  tc_live :: bool

record transportNetwork =
  tn_closed :: bool
  tn_brokers :: "(string, node_id) gomap"
  tn_faults :: "(node_id, transportFault) gomap"
  tn_connections :: "connection list"
  tn_droppedBytes :: int
  tn_rejectedDials :: int
  tn_closedConnections :: int
  tn_byBroker :: "(node_id, brokerTransportStats) gomap"
  tn_restored :: "(node_id, bool) gomap"
  tn_recoveredResponses :: "(node_id, int) gomap"
  tn_recoveryStart :: instant

definition newTransportNetwork :: transportNetwork where
  "newTransportNetwork = \<lparr>tn_closed = False, tn_brokers = [], tn_faults = [], tn_connections = [],
     tn_droppedBytes = 0, tn_rejectedDials = 0, tn_closedConnections = 0, tn_byBroker = [], tn_restored = [],
     tn_recoveredResponses = [], tn_recoveryStart = zero_time\<rparr>"

definition fault_of :: "transportNetwork \<Rightarrow> node_id \<Rightarrow> transportFault" where
  "fault_of n nodeID = get_or transportHealthy (tn_faults n) nodeID"

definition stats_of_broker :: "transportNetwork \<Rightarrow> node_id \<Rightarrow> brokerTransportStats" where
  "stats_of_broker n nodeID = get_or no_transport (tn_byBroker n) nodeID"

section \<open>Operations\<close>

definition register :: "transportNetwork \<Rightarrow> string \<Rightarrow> node_id \<Rightarrow> transportNetwork" where
  "register n address nodeID = n\<lparr>tn_brokers := AList.update address nodeID (tn_brokers n)\<rparr>"

datatype dial_error = ErrClosed | ConnRefused

text \<open>The two sections of \<open>DialContext\<close> under the mutex, before and after the dial itself.\<close>

definition dial_check :: "transportNetwork \<Rightarrow> string \<Rightarrow> transportNetwork \<times> (dial_error + node_id)" where
  "dial_check n address =
     (if tn_closed n then (n, Inl ErrClosed)
      else case map_of (tn_brokers n) address of
        None \<Rightarrow> (n\<lparr>tn_rejectedDials := tn_rejectedDials n + 1\<rparr>, Inl ConnRefused)
      | Some nodeID \<Rightarrow>
          if fault_of n nodeID = transportKilled then (n\<lparr>tn_rejectedDials := tn_rejectedDials n + 1\<rparr>, Inl ConnRefused)
          else (n, Inr nodeID))"

definition dial_commit :: "transportNetwork \<Rightarrow> connection \<Rightarrow> node_id \<Rightarrow> transportNetwork \<times> dial_error option" where
  "dial_commit n c nodeID =
     (if tn_closed n then (n, Some ErrClosed)
      else if fault_of n nodeID = transportKilled then (n\<lparr>tn_rejectedDials := tn_rejectedDials n + 1\<rparr>, Some ConnRefused)
      else (n\<lparr>tn_connections := tn_connections n @ [c]\<rparr>, None))"

text \<open>\<open>setFault\<close> up to the end of its critical section, with the connections that it then closes.\<close>

definition setFault ::
  "transportConnection list \<Rightarrow> transportNetwork \<Rightarrow> node_id \<Rightarrow> transportFault \<Rightarrow> transportNetwork \<times> connection list" where
  "setFault conns n nodeID fault =
     (let previous = fault_of n nodeID;
          n = n\<lparr>tn_faults := AList.update nodeID fault (tn_faults n)\<rparr>;
          n = (if fault = transportHealthy \<and> previous \<noteq> transportHealthy
               then n\<lparr>tn_restored := AList.update nodeID True (tn_restored n)\<rparr> else n)
      in if fault = transportKilled \<or> previous = transportBlackhole \<and> fault = transportHealthy
         then let closeConnections = filter (\<lambda>c. tc_nodeID (conns ! c) = nodeID) (tn_connections n);
                  k = int (length closeConnections);
                  stats = stats_of_broker n nodeID
              in (n\<lparr>tn_closedConnections := tn_closedConnections n + k,
                    tn_byBroker := AList.update nodeID (stats\<lparr>bt_closedConnections := bt_closedConnections stats + k\<rparr>) (tn_byBroker n)\<rparr>,
                  closeConnections)
         else (n, []))"

text \<open>\<open>drop\<close>: whether the bytes of a read are swallowed.\<close>

definition drop_bytes :: "transportNetwork \<Rightarrow> node_id \<Rightarrow> nat \<Rightarrow> transportNetwork \<times> bool" where
  "drop_bytes n nodeID sz =
     (if fault_of n nodeID \<noteq> transportBlackhole then (n, False)
      else let stats = stats_of_broker n nodeID
           in (n\<lparr>tn_droppedBytes := tn_droppedBytes n + int sz,
                 tn_byBroker := AList.update nodeID (stats\<lparr>bt_droppedBytes := bt_droppedBytes stats + int sz\<rparr>) (tn_byBroker n)\<rparr>,
               True))"

definition network_Close :: "transportNetwork \<Rightarrow> transportNetwork \<times> connection list" where
  "network_Close n = (n\<lparr>tn_closed := True\<rparr>, tn_connections n)"

definition observeProduce :: "instant \<Rightarrow> transportNetwork \<Rightarrow> node_id \<Rightarrow> transportNetwork" where
  "observeProduce now n nodeID =
     (if get_or False (tn_restored n) nodeID \<and> fault_of n nodeID = transportHealthy \<and> \<not> now < tn_recoveryStart n
      then n\<lparr>tn_recoveredResponses :=
               AList.update nodeID (get_or 0 (tn_recoveredResponses n) nodeID + 1) (tn_recoveredResponses n)\<rparr>
      else n)"

record transportStats =
  ts_byBroker :: "(node_id, brokerTransportStats) gomap"
  ts_droppedBytes :: int
  ts_rejectedDials :: int
  ts_closedConnections :: int
  ts_recoveredResponses :: "(node_id, int) gomap"

definition network_snapshot :: "transportNetwork \<Rightarrow> transportStats" where
  "network_snapshot n = \<lparr>ts_byBroker = tn_byBroker n, ts_droppedBytes = tn_droppedBytes n,
     ts_rejectedDials = tn_rejectedDials n, ts_closedConnections = tn_closedConnections n,
     ts_recoveredResponses = tn_recoveredResponses n\<rparr>"

text \<open>
  The write loop of \<open>forward\<close>: the outcome of the \<open>k\<close>-th write is the number of bytes written and whether
  it failed. The result is what was delivered and whether the copy loop goes on.
\<close>

function write_loop :: "(nat \<Rightarrow> nat \<times> bool) \<Rightarrow> nat \<Rightarrow> 'b list \<Rightarrow> 'b list \<times> bool" where
  "write_loop w k remaining =
     (if remaining = [] then ([], True)
      else let (written, failed) = w k
           in if failed \<or> written = 0 then (take written remaining, False)
              else let (delivered, ok) = write_loop w (Suc k) (drop written remaining)
                   in (take written remaining @ delivered, ok))"
  by pat_completeness auto
termination by (relation "measure (\<lambda>(w, k, remaining). length remaining)") auto

declare write_loop.simps [simp del]

text \<open>One turn of \<open>forward\<close>: a read of \<open>buf\<close>, its error, and the writes.\<close>

definition forward_turn ::
  "transportNetwork \<Rightarrow> node_id \<Rightarrow> 'b list \<Rightarrow> bool \<Rightarrow> (nat \<Rightarrow> nat \<times> bool) \<Rightarrow> transportNetwork \<times> 'b list \<times> bool" where
  "forward_turn n nodeID buf failed w =
     (if buf = [] then (n, [], \<not> failed)
      else case drop_bytes n nodeID (length buf) of
        (n, True) \<Rightarrow> (n, [], \<not> failed)
      | (n, False) \<Rightarrow> (case write_loop w 0 buf of (delivered, ok) \<Rightarrow> (n, delivered, ok \<and> \<not> failed)))"

section \<open>Goroutines\<close>

datatype pending =
    Dialing node_id
  | Dialed connection
  | Forwarding connection
  | Closing connection
  | Deleting connection

record network_system =
  ns_net :: transportNetwork
  ns_conns :: "transportConnection list"
  ns_pending :: "pending multiset"

definition network_start :: network_system where
  "network_start = \<lparr>ns_net = newTransportNetwork, ns_conns = [], ns_pending = {#}\<rparr>"

abbreviation node_of :: "network_system \<Rightarrow> connection \<Rightarrow> node_id" where
  "node_of s c \<equiv> tc_nodeID (ns_conns s ! c)"

definition closings :: "connection list \<Rightarrow> pending multiset" where
  "closings cs = mset (map Closing cs)"

text \<open>
  \<open>Close\<close> of a connection runs its body once: it closes the three sockets, then deletes the connection under
  the mutex; another caller waits for that body and returns. A caller of \<open>DialContext\<close> may close what it was
  given at any time.
\<close>

inductive network_step :: "network_system \<Rightarrow> network_system \<Rightarrow> bool" where
  ns_register: "network_step s (s\<lparr>ns_net := register (ns_net s) address nodeID\<rparr>)"
| ns_refused: "dial_check (ns_net s) address = (n, Inl e) \<Longrightarrow> network_step s (s\<lparr>ns_net := n\<rparr>)"
| ns_dial: "dial_check (ns_net s) address = (n, Inr nodeID) \<Longrightarrow>
    network_step s (s\<lparr>ns_net := n, ns_pending := add_mset (Dialing nodeID) (ns_pending s)\<rparr>)"
| ns_dial_failed: "Dialing nodeID \<in># ns_pending s \<Longrightarrow>
    network_step s (s\<lparr>ns_pending := ns_pending s - {#Dialing nodeID#}\<rparr>)"
| ns_dial_returned: "Dialing nodeID \<in># ns_pending s \<Longrightarrow>
    network_step s (s\<lparr>ns_conns := ns_conns s @ [\<lparr>tc_nodeID = nodeID, tc_live = True\<rparr>],
      ns_pending := add_mset (Dialed (length (ns_conns s))) (ns_pending s - {#Dialing nodeID#})\<rparr>)"
| ns_commit: "Dialed c \<in># ns_pending s \<Longrightarrow> dial_commit (ns_net s) c (node_of s c) = (n, None) \<Longrightarrow>
    network_step s (s\<lparr>ns_net := n, ns_pending := ns_pending s - {#Dialed c#} + {#Forwarding c, Forwarding c#}\<rparr>)"
| ns_reject: "Dialed c \<in># ns_pending s \<Longrightarrow> dial_commit (ns_net s) c (node_of s c) = (n, Some e) \<Longrightarrow>
    network_step s (s\<lparr>ns_net := n, ns_pending := add_mset (Closing c) (ns_pending s - {#Dialed c#})\<rparr>)"
| ns_fault: "setFault (ns_conns s) (ns_net s) nodeID fault = (n, cs) \<Longrightarrow>
    network_step s (s\<lparr>ns_net := n, ns_pending := ns_pending s + closings cs\<rparr>)"
| ns_shutdown: "network_Close (ns_net s) = (n, cs) \<Longrightarrow>
    network_step s (s\<lparr>ns_net := n, ns_pending := ns_pending s + closings cs\<rparr>)"
| ns_forward: "Forwarding c \<in># ns_pending s \<Longrightarrow> forward_turn (ns_net s) (node_of s c) (buf :: char list) failed w = (n, out, True) \<Longrightarrow>
    network_step s (s\<lparr>ns_net := n\<rparr>)"
| ns_forward_end: "Forwarding c \<in># ns_pending s \<Longrightarrow> forward_turn (ns_net s) (node_of s c) (buf :: char list) failed w = (n, out, False) \<Longrightarrow>
    network_step s (s\<lparr>ns_net := n, ns_pending := add_mset (Closing c) (ns_pending s - {#Forwarding c#})\<rparr>)"
| ns_user_close: "c < length (ns_conns s) \<Longrightarrow> Dialed c \<notin># ns_pending s \<Longrightarrow>
    network_step s (s\<lparr>ns_pending := add_mset (Closing c) (ns_pending s)\<rparr>)"
| ns_close: "Closing c \<in># ns_pending s \<Longrightarrow> tc_live (ns_conns s ! c) \<Longrightarrow>
    network_step s (s\<lparr>ns_conns := (ns_conns s)[c := (ns_conns s ! c)\<lparr>tc_live := False\<rparr>],
      ns_pending := add_mset (Deleting c) (ns_pending s - {#Closing c#})\<rparr>)"
| ns_closed_before: "Closing c \<in># ns_pending s \<Longrightarrow> \<not> tc_live (ns_conns s ! c) \<Longrightarrow> Deleting c \<notin># ns_pending s \<Longrightarrow>
    network_step s (s\<lparr>ns_pending := ns_pending s - {#Closing c#}\<rparr>)"
| ns_delete: "Deleting c \<in># ns_pending s \<Longrightarrow>
    network_step s (s\<lparr>ns_net := (ns_net s)\<lparr>tn_connections := removeAll c (tn_connections (ns_net s))\<rparr>,
      ns_pending := ns_pending s - {#Deleting c#}\<rparr>)"
| ns_produce: "network_step s (s\<lparr>ns_net := observeProduce now (ns_net s) nodeID\<rparr>)"

inductive_cases network_stepE: "network_step s s'"

section \<open>The operations leave most of the network alone\<close>

definition being_closed :: "network_system \<Rightarrow> connection \<Rightarrow> bool" where
  "being_closed s c \<longleftrightarrow> Closing c \<in># ns_pending s \<or> Deleting c \<in># ns_pending s"

lemma fault_of_simps [simp]:
  "fault_of (n\<lparr>tn_faults := AList.update k f (tn_faults n)\<rparr>) j = (if j = k then f else fault_of n j)"
  by (simp add: fault_of_def)

lemma dial_check_frame:
  "dial_check n address = (n', r) \<Longrightarrow> tn_closed n' = tn_closed n \<and> tn_faults n' = tn_faults n \<and>
     tn_connections n' = tn_connections n \<and> tn_byBroker n' = tn_byBroker n \<and>
     tn_droppedBytes n' = tn_droppedBytes n \<and> tn_closedConnections n' = tn_closedConnections n"
  by (auto simp: dial_check_def split: if_splits option.splits)

lemma dial_commit_cases:
  assumes "dial_commit n c nodeID = (n', r)"
  shows "tn_closed n' = tn_closed n \<and> tn_faults n' = tn_faults n \<and> tn_byBroker n' = tn_byBroker n \<and>
     tn_droppedBytes n' = tn_droppedBytes n \<and> tn_closedConnections n' = tn_closedConnections n"
    and "r = None \<Longrightarrow> tn_connections n' = tn_connections n @ [c] \<and> \<not> tn_closed n \<and> fault_of n nodeID \<noteq> transportKilled"
    and "r = Some e \<Longrightarrow> tn_connections n' = tn_connections n"
  using assms by (auto simp: dial_commit_def split: if_splits)

lemma drop_bytes_frame:
  "drop_bytes n nodeID k = (n', r) \<Longrightarrow> tn_closed n' = tn_closed n \<and> tn_faults n' = tn_faults n \<and> tn_connections n' = tn_connections n"
  by (auto simp: drop_bytes_def Let_def split: if_splits)

lemma forward_turn_network:
  assumes "forward_turn n nodeID buf failed w = (n', out, r)"
  shows "n' = n \<or> n' = fst (drop_bytes n nodeID (length buf))"
  using assms by (auto simp: forward_turn_def split: if_splits prod.splits bool.splits)

lemma setFault_frame:
  assumes "setFault conns n nodeID fault = (n', cs)"
  shows "tn_closed n' = tn_closed n" and "tn_connections n' = tn_connections n"
    and "fault_of n' j = (if j = nodeID then fault else fault_of n j)"
    and "fault = transportKilled \<Longrightarrow> c \<in> set (tn_connections n) \<Longrightarrow> tc_nodeID (conns ! c) = nodeID \<Longrightarrow> c \<in> set cs"
    and "set cs \<subseteq> set (tn_connections n)"
  using assms by (auto simp: setFault_def Let_def fault_of_def split: if_splits)

section \<open>The accounts\<close>

definition totals_ok :: "(node_id, brokerTransportStats) gomap \<Rightarrow> int \<Rightarrow> int \<Rightarrow> bool" where
  "totals_ok m d c \<longleftrightarrow> distinct (map fst m) \<and> d = sum_list (map (\<lambda>e. bt_droppedBytes (snd e)) m) \<and>
     c = sum_list (map (\<lambda>e. bt_closedConnections (snd e)) m)"

abbreviation network_totals :: "transportNetwork \<Rightarrow> bool" where
  "network_totals n \<equiv> totals_ok (tn_byBroker n) (tn_droppedBytes n) (tn_closedConnections n)"

lemma sum_list_update:
  fixes f :: "'v \<Rightarrow> int"
  assumes "distinct (map fst m)" "f d = 0"
  shows "sum_list (map (\<lambda>e. f (snd e)) (AList.update k v m)) = sum_list (map (\<lambda>e. f (snd e)) m) - f (get_or d m k) + f v"
  using assms(1)
proof (induction m)
  case (Cons e m)
  have "map_of m k = None" if "fst e = k" using Cons.prems that by (auto simp: map_of_eq_None_iff)
  then show ?case using Cons by (cases e) (auto simp: get_or_def)
qed (simp add: assms(2) get_or_def)

lemma totals_ok_update:
  assumes "totals_ok m d c"
  shows "totals_ok (AList.update k (get_or no_transport m k\<lparr>bt_droppedBytes := bt_droppedBytes (get_or no_transport m k) + x\<rparr>) m) (d + x) c"
    and "totals_ok (AList.update k (get_or no_transport m k\<lparr>bt_closedConnections := bt_closedConnections (get_or no_transport m k) + x\<rparr>) m) d (c + x)"
  using assms sum_list_update [of m bt_droppedBytes no_transport k] sum_list_update [of m bt_closedConnections no_transport k]
  by (simp_all add: totals_ok_def no_transport_def)

lemma setFault_totals: "setFault conns n nodeID fault = (n', cs) \<Longrightarrow> network_totals n \<Longrightarrow> network_totals n'"
  by (auto simp: setFault_def Let_def stats_of_broker_def totals_ok_update split: if_splits)

lemma forward_turn_totals:
  assumes "forward_turn n nodeID buf failed w = (n', out, r)" "network_totals n"
  shows "network_totals n'"
  using forward_turn_network [OF assms(1)] assms(2)
  by (auto simp: drop_bytes_def Let_def stats_of_broker_def totals_ok_update)

section \<open>Killed brokers keep no connection\<close>

definition conn_ok :: "bool \<Rightarrow> bool \<Rightarrow> bool \<Rightarrow> bool \<Rightarrow> nat \<Rightarrow> bool \<Rightarrow> bool \<Rightarrow> bool \<Rightarrow> bool" where
  "conn_ok shut known live registered dialed forwarding closing deleting \<longleftrightarrow>
     (registered \<longrightarrow> known) \<and>
     (dialed \<noteq> 0 \<longrightarrow> known \<and> \<not> registered \<and> live \<and> dialed = 1) \<and>
     (forwarding \<or> closing \<or> deleting \<longrightarrow> known \<and> dialed = 0) \<and>
     (known \<and> live \<longrightarrow> registered \<or> dialed \<noteq> 0 \<or> closing) \<and>
     (deleting \<longrightarrow> \<not> live) \<and>
     (registered \<and> \<not> live \<longrightarrow> deleting) \<and>
     (registered \<and> shut \<longrightarrow> closing \<or> deleting)"

abbreviation conn_state :: "network_system \<Rightarrow> connection \<Rightarrow> bool" where
  "conn_state s c \<equiv> conn_ok (tn_closed (ns_net s) \<or> fault_of (ns_net s) (node_of s c) = transportKilled)
     (c < length (ns_conns s)) (tc_live (ns_conns s ! c)) (c \<in> set (tn_connections (ns_net s)))
     (count (ns_pending s) (Dialed c)) (Forwarding c \<in># ns_pending s) (Closing c \<in># ns_pending s) (Deleting c \<in># ns_pending s)"

definition network_inv :: "network_system \<Rightarrow> bool" where
  "network_inv s \<longleftrightarrow> (\<forall>c. conn_state s c) \<and> network_totals (ns_net s)"

lemma network_invI: "(\<And>c. conn_state s c) \<Longrightarrow> network_totals (ns_net s) \<Longrightarrow> network_inv s"
  by (simp add: network_inv_def)

lemma network_invD: "network_inv s \<Longrightarrow> conn_state s c" "network_inv s \<Longrightarrow> network_totals (ns_net s)"
  by (simp_all add: network_inv_def)

lemma in_minus_single: "x \<in># M - {#y#} \<longleftrightarrow> (if x = y then 1 < count M y else x \<in># M)"
  by (auto simp: in_diff_count simp flip: count_greater_zero_iff)

lemma in_closings [simp]: "x \<in># closings cs \<longleftrightarrow> (\<exists>c\<in>set cs. x = Closing c)"
  by (auto simp: closings_def)

lemma count_closings [simp]: "count (closings cs) (Dialed c) = 0"
  by (auto simp: count_eq_zero_iff)

lemma network_inv_start: "network_inv network_start"
  by (rule network_invI) (simp_all add: network_start_def newTransportNetwork_def totals_ok_def conn_ok_def)

lemma conn_ok_closing: "conn_ok a known live True dialed forwarding closing deleting \<Longrightarrow> conn_ok b known live True dialed forwarding True deleting"
  by (simp add: conn_ok_def)

lemma conn_ok_weaken: "conn_ok a known live registered dialed forwarding closing deleting \<Longrightarrow> (registered \<Longrightarrow> b \<Longrightarrow> a) \<Longrightarrow>
    conn_ok b known live registered dialed forwarding closing deleting"
  unfolding conn_ok_def by blast

lemma network_inv_step:
  assumes "network_step s s'" "network_inv s"
  shows "network_inv s'"
proof (rule network_invI)
  note inv = network_invD(1) [OF assms(2)] and tot = network_invD(2) [OF assms(2)]
  show "network_totals (ns_net s')"
    using assms(1) tot
  proof cases
    case (ns_fault nodeID fault n cs)
    then show ?thesis using setFault_totals [OF ns_fault(2) tot] by simp
  next
    case (ns_forward d buf failed w n out)
    then show ?thesis using forward_turn_totals [OF ns_forward(3) tot] by simp
  next
    case (ns_forward_end d buf failed w n out)
    then show ?thesis using forward_turn_totals [OF ns_forward_end(3) tot] by simp
  qed (auto simp: register_def network_Close_def observeProduce_def dial_check_frame dial_commit_cases(1))
  fix c
  note [simp] = in_minus_single count_eq_zero_iff
  show "conn_state s' c"
    using assms(1)
  proof cases
    case (ns_refused address n e)
    then show ?thesis using inv [of c] by (simp add: dial_check_frame fault_of_def)
  next
    case (ns_dial address n nodeID)
    then show ?thesis using inv [of c] by (simp add: dial_check_frame fault_of_def)
  next
    case (ns_dial_returned nodeID)
    have new: "conn_state s (length (ns_conns s))" by (rule inv)
    show ?thesis
    proof (cases "c = length (ns_conns s)")
      case True then show ?thesis using ns_dial_returned new by (simp add: conn_ok_def)
    next
      case False
      then show ?thesis using ns_dial_returned inv [of c] by (cases "c < length (ns_conns s)") (simp_all add: nth_append, simp add: conn_ok_def)
    qed
  next
    case (ns_commit d n)
    then show ?thesis using inv [of c] dial_commit_cases [OF ns_commit(3)]
      by (cases "c = d") (simp_all add: fault_of_def, simp add: conn_ok_def)
  next
    case (ns_reject d n e)
    then show ?thesis using inv [of c] dial_commit_cases [OF ns_reject(3)]
      by (cases "c = d") (simp_all add: fault_of_def, simp add: conn_ok_def)
  next
    case (ns_fault nodeID fault n cs)
    show ?thesis
    proof (cases "c \<in> set cs")
      case True
      then have "c \<in> set (tn_connections (ns_net s))" using setFault_frame(5) [OF ns_fault(2)] by blast
      with True show ?thesis using ns_fault(1) inv [of c] setFault_frame(2) [OF ns_fault(2)] by (simp add: conn_ok_closing)
    next
      case False
      then have "c \<in> set (tn_connections (ns_net s)) \<Longrightarrow> fault_of n (node_of s c) = transportKilled \<Longrightarrow>
          fault_of (ns_net s) (node_of s c) = transportKilled"
        using setFault_frame(3,4) [OF ns_fault(2)] by (auto split: if_splits)
      then show ?thesis using ns_fault(1) False inv [of c] setFault_frame(1,2) [OF ns_fault(2)]
        by (auto intro: conn_ok_weaken [OF inv [of c]])
    qed
  next
    case (ns_shutdown n cs)
    then show ?thesis using inv [of c]
      by (cases "c \<in> set cs") (auto simp: network_Close_def fault_of_def intro: conn_ok_closing conn_ok_weaken)
  next
    case (ns_forward d buf failed w n out)
    then show ?thesis using inv [of c] forward_turn_network [OF ns_forward(3)]
      drop_bytes_frame [OF surjective_pairing] by (auto simp: fault_of_def)
  next
    case (ns_forward_end d buf failed w n out)
    have "tn_closed n = tn_closed (ns_net s) \<and> tn_faults n = tn_faults (ns_net s) \<and> tn_connections n = tn_connections (ns_net s)"
      using forward_turn_network [OF ns_forward_end(3)] drop_bytes_frame [OF surjective_pairing] by auto
    then show ?thesis using ns_forward_end inv [of c]
      by (cases "c = d") (simp_all add: fault_of_def, simp add: conn_ok_def)
  next
    case (ns_user_close d)
    then show ?thesis using inv [of c] by (cases "c = d") (simp_all, simp add: conn_ok_def)
  next
    case (ns_close d)
    then show ?thesis using inv [of c] by (cases "c = d") (simp_all, simp add: conn_ok_def)
  next
    case (ns_closed_before d)
    then show ?thesis using inv [of c] by (cases "c = d") (simp_all, simp add: conn_ok_def)
  next
    case (ns_delete d)
    then show ?thesis using inv [of c] by (cases "c = d") (simp_all add: fault_of_def, simp add: conn_ok_def)
  qed (insert inv [of c], simp_all add: register_def observeProduce_def fault_of_def)
qed

lemma network_inv_reachable: "network_step\<^sup>*\<^sup>* network_start s \<Longrightarrow> network_inv s"
  by (induction rule: rtranclp_induct) (simp_all add: network_inv_start network_inv_step)

section \<open>What a copy loop delivers\<close>

lemma write_loop_prefix: "write_loop w k remaining = (delivered, ok) \<Longrightarrow>
    \<exists>rest. remaining = delivered @ rest \<and> (ok \<longrightarrow> rest = [])"
proof (induction w k remaining arbitrary: delivered ok rule: write_loop.induct)
  case (1 w k remaining)
  let ?n = "fst (w k)"
  show ?case
  proof (cases "remaining = [] \<or> snd (w k) \<or> ?n = 0")
    case True
    then have "delivered = take ?n remaining \<and> (ok \<longrightarrow> remaining = [])" using 1(2)
      unfolding write_loop.simps [of w k remaining] by (auto simp: case_prod_unfold Let_def split: if_splits)
    then show ?thesis by (metis append_take_drop_id take_Nil append_Nil)
  next
    case False
    obtain out o' where rec: "write_loop w (Suc k) (drop ?n remaining) = (out, o')" by force
    then have "delivered = take ?n remaining @ out" "ok = o'"
      using 1(2) False unfolding write_loop.simps [of w k remaining] by (simp_all add: case_prod_unfold Let_def)
    moreover obtain rest where "drop ?n remaining = out @ rest" "o' \<longrightarrow> rest = []"
      using 1(1) [of _ ?n "snd (w k)", OF _ refl _ _ rec] False by auto
    ultimately show ?thesis by (metis append_take_drop_id append_assoc)
  qed
qed

lemma forward_turn_delivers:
  assumes "forward_turn n nodeID buf failed w = (n', out, go)"
  shows "\<exists>rest. buf = out @ rest"
    and "fault_of n nodeID = transportBlackhole \<Longrightarrow> out = [] \<and> tn_droppedBytes n' = tn_droppedBytes n + int (length buf)"
    and "fault_of n nodeID \<noteq> transportBlackhole \<Longrightarrow> go \<Longrightarrow> out = buf \<and> n' = n"
  using assms write_loop_prefix [of w 0 buf]
  by (auto simp: forward_turn_def drop_bytes_def Let_def split: if_splits prod.splits)

section \<open>Properties\<close>

definition settled_network :: "network_system \<Rightarrow> bool" where
  "settled_network s \<longleftrightarrow> (\<forall>p\<in>#ns_pending s. case p of Dialing i \<Rightarrow> True | Forwarding c \<Rightarrow> True | _ \<Rightarrow> False)"

lemma conn_ok_settled:
  "conn_ok a known live registered 0 forwarding False False \<Longrightarrow> registered \<longleftrightarrow> known \<and> live"
  "conn_ok a known live registered 0 forwarding False False \<Longrightarrow> registered \<Longrightarrow> \<not> a"
  unfolding conn_ok_def by blast+

lemma settled_networkD: "settled_network s \<Longrightarrow> Dialed c \<notin># ns_pending s \<and> Closing c \<notin># ns_pending s \<and> Deleting c \<notin># ns_pending s"
  by (fastforce simp: settled_network_def)

text \<open>
  C32: A fault reaches every connection. Under every interleaving of dials, copy loops, closes and faults, a
  registered connection to a killed broker, or any registered connection after shutdown, has a close under way;
  a dial that was in progress when the broker was killed does not escape. Once the closes have run, the
  registered connections are exactly the open ones, none of them leads to a killed broker, and none is left after
  shutdown. The totals are the sums of the counts by broker.
\<close>

theorem fault_reaches_every_connection:
  assumes "network_step\<^sup>*\<^sup>* network_start s"
  shows "(\<forall>c\<in>set (tn_connections (ns_net s)).
      tn_closed (ns_net s) \<or> fault_of (ns_net s) (node_of s c) = transportKilled \<longrightarrow> being_closed s c) \<and>
    (settled_network s \<longrightarrow> set (tn_connections (ns_net s)) = {c. c < length (ns_conns s) \<and> tc_live (ns_conns s ! c)} \<and>
      (\<forall>c\<in>set (tn_connections (ns_net s)). \<not> tn_closed (ns_net s) \<and> fault_of (ns_net s) (node_of s c) \<noteq> transportKilled)) \<and>
    ts_droppedBytes (network_snapshot (ns_net s)) =
      sum_list (map (\<lambda>e. bt_droppedBytes (snd e)) (ts_byBroker (network_snapshot (ns_net s)))) \<and>
    ts_closedConnections (network_snapshot (ns_net s)) =
      sum_list (map (\<lambda>e. bt_closedConnections (snd e)) (ts_byBroker (network_snapshot (ns_net s))))"
proof -
  note conn = network_invD(1) [OF network_inv_reachable [OF assms]] and tot = network_invD(2) [OF network_inv_reachable [OF assms]]
  have "being_closed s c" if "c \<in> set (tn_connections (ns_net s))"
      "tn_closed (ns_net s) \<or> fault_of (ns_net s) (node_of s c) = transportKilled" for c
    using conn [of c] that unfolding conn_ok_def being_closed_def by blast
  moreover have "(c \<in> set (tn_connections (ns_net s)) \<longleftrightarrow> c < length (ns_conns s) \<and> tc_live (ns_conns s ! c)) \<and>
      (c \<in> set (tn_connections (ns_net s)) \<longrightarrow> \<not> tn_closed (ns_net s) \<and> fault_of (ns_net s) (node_of s c) \<noteq> transportKilled)"
    if "settled_network s" for c
  proof -
    have "conn_ok (tn_closed (ns_net s) \<or> fault_of (ns_net s) (node_of s c) = transportKilled)
       (c < length (ns_conns s)) (tc_live (ns_conns s ! c)) (c \<in> set (tn_connections (ns_net s))) 0
       (Forwarding c \<in># ns_pending s) False False"
      using conn [of c] settled_networkD [OF that, of c] by (simp add: not_in_iff)
    from conn_ok_settled [OF this] show ?thesis by blast
  qed
  ultimately show ?thesis using tot by (auto simp: network_snapshot_def totals_ok_def)
qed

text \<open>Broker 1 is killed while a dial to it is in progress; the dial is rejected and its connection closed.\<close>

definition example_network :: transportNetwork where
  "example_network = register newTransportNetwork ''host'' 1"

definition example_killed :: network_system where
  "example_killed = \<lparr>ns_net = example_network\<lparr>tn_faults := [(1, transportKilled)], tn_byBroker := [(1, no_transport)],
     tn_rejectedDials := 1\<rparr>, ns_conns = [\<lparr>tc_nodeID = 1, tc_live = False\<rparr>], ns_pending = {#}\<rparr>"

lemma example_killed_reachable: "network_step\<^sup>*\<^sup>* network_start example_killed"
proof -
  note [simp] = network_start_def example_network_def example_killed_def register_def newTransportNetwork_def
    dial_check_def dial_commit_def setFault_def fault_of_def stats_of_broker_def get_or_def no_transport_def closings_def
  let ?killed = "example_network\<lparr>tn_faults := [(1, transportKilled)], tn_byBroker := [(1, no_transport)]\<rparr>"
  let ?conn = "\<lambda>b. \<lparr>tc_nodeID = 1, tc_live = b\<rparr>"
  let ?s1 = "\<lparr>ns_net = example_network, ns_conns = [], ns_pending = {#}\<rparr>"
  let ?s2 = "?s1\<lparr>ns_pending := {#Dialing 1#}\<rparr>"
  let ?s3 = "?s1\<lparr>ns_conns := [?conn True], ns_pending := {#Dialed 0#}\<rparr>"
  let ?s4 = "?s3\<lparr>ns_net := ?killed\<rparr>"
  let ?s5 = "?s4\<lparr>ns_net := ?killed\<lparr>tn_rejectedDials := 1\<rparr>, ns_pending := {#Closing 0#}\<rparr>"
  let ?s6 = "?s5\<lparr>ns_conns := [?conn False], ns_pending := {#Deleting 0#}\<rparr>"
  have "network_step network_start ?s1" using ns_register [of network_start "''host''" 1] by simp
  moreover have "network_step ?s1 ?s2" using ns_dial [of ?s1 "''host''" example_network 1] by simp
  moreover have "network_step ?s2 ?s3" using ns_dial_returned [of 1 ?s2] by simp
  moreover have "network_step ?s3 ?s4" using ns_fault [of ?s3 1 transportKilled ?killed "[]"] by simp
  moreover have "network_step ?s4 ?s5" using ns_reject [of 0 ?s4 "?killed\<lparr>tn_rejectedDials := 1\<rparr>" ConnRefused] by simp
  moreover have "network_step ?s5 ?s6" using ns_close [of 0 ?s5] by simp
  moreover have "network_step ?s6 example_killed" using ns_delete [of 0 ?s6] by simp
  ultimately show ?thesis by (meson converse_rtranclp_into_rtranclp rtranclp.rtrancl_refl)
qed

theorem fault_reaches_every_connection_witness:
  "settled_network example_killed \<and> fault_of (ns_net example_killed) 1 = transportKilled \<and>
   set (tn_connections (ns_net example_killed)) = {c. c < length (ns_conns example_killed) \<and> tc_live (ns_conns example_killed ! c)}"
  using fault_reaches_every_connection [OF example_killed_reachable]
  by (simp add: example_killed_def settled_network_def fault_of_def get_or_def)

end
