(* ===== verification/Sim_Metadata.thy ===== *)
theory Sim_Metadata
  imports Agent_Pool Sim_Behaviour Sim_Transport
begin

text \<open>
  The Metadata that a simulated cluster publishes, from \<open>pkg/internal/simulation/runner/metadata.go\<close>, and the
  transport phases of \<open>transport_phases.go\<close> that change it. A captured response is the template; discovery is
  rebuilt from it whenever a broker leaves or returns. The atomic pointer to the current response is a field, a
  Go map used as a set is a set, and an index out of range is \<open>None\<close>. \<open>slices.SortFunc\<close> orders brokers
  by node identifier; among brokers with the same identifier it keeps no order that the code relies on.
\<close>

section \<open>The response\<close>

record MetadataResponseBroker =
  mb_NodeID :: node_id
  mb_Host :: string
  mb_Port :: int

record view_partition = MetadataResponseTopicPartition +
  vp_ErrorCode :: int
  vp_LeaderEpoch :: int
  vp_Replicas :: "node_id list"
  vp_ISR :: "node_id list"
  vp_OfflineReplicas :: "node_id list"

record view_topic =
  vt_Topic :: "topic option"
  vt_ErrorCode :: int
  vt_TopicID :: uuid
  vt_Partitions :: "view_partition list"

record view_response =
  vr_Version :: int
  vr_Brokers :: "MetadataResponseBroker list"
  vr_Topics :: "view_topic list"

text \<open>What \<open>AgentPool\<close> reads of a response.\<close>

definition pool_topic :: "view_topic \<Rightarrow> MetadataResponseTopic" where
  "pool_topic t = \<lparr>mt_Topic = vt_Topic t, mt_ErrorCode = vt_ErrorCode t, mt_TopicID = vt_TopicID t,
     mt_Partitions = map (\<lambda>p. \<lparr>mp_Partition = mp_Partition p, mp_Leader = mp_Leader p\<rparr>) (vt_Partitions t)\<rparr>"

definition pool_response :: "view_response \<Rightarrow> MetadataResponse" where
  "pool_response r = \<lparr>md_Brokers = map mb_NodeID (vr_Brokers r), md_Topics = map pool_topic (vr_Topics r)\<rparr>"

record metadataView =
  mv_current :: view_response
  mv_template :: view_response
  mv_missingLeaderResponses :: "(node_id, int) gomap"
  mv_brokerOnlyWithdrawals :: int
  mv_staleRoutingResponses :: int

section \<open>Operations\<close>

definition new_view :: "view_response \<Rightarrow> metadataView" where
  "new_view template = \<lparr>mv_current = template, mv_template = template, mv_missingLeaderResponses = [],
     mv_brokerOnlyWithdrawals = 0, mv_staleRoutingResponses = 0\<rparr>"

definition metadataWithoutBrokers :: "view_response \<Rightarrow> int \<Rightarrow> node_id list \<Rightarrow> view_response" where
  "metadataWithoutBrokers template version missing =
     template\<lparr>vr_Version := version, vr_Brokers := filter (\<lambda>b. mb_NodeID b \<notin> set missing) (vr_Brokers template)\<rparr>"

definition withdrawBroker :: "metadataView \<Rightarrow> node_id \<Rightarrow> metadataView" where
  "withdrawBroker view nodeID =
     view\<lparr>mv_current := (mv_current view)\<lparr>vr_Brokers := filter (\<lambda>b. mb_NodeID b \<noteq> nodeID) (vr_Brokers (mv_current view))\<rparr>\<rparr>"

definition missing_leaders_in :: "view_response \<Rightarrow> node_id list" where
  "missing_leaders_in response =
     (let live = set (map mb_NodeID (vr_Brokers response))
      in first_seen (filter (\<lambda>l. 0 \<le> l \<and> l \<notin> live) (map mp_Leader (concat (map vt_Partitions (vr_Topics response))))))"

definition observeMissingLeaders :: "metadataView \<Rightarrow> view_response \<Rightarrow> metadataView" where
  "observeMissingLeaders view response =
     view\<lparr>mv_missingLeaderResponses := foldl (\<lambda>m i. AList.update i (get_or 0 m i + 1) m)
        (mv_missingLeaderResponses view) (missing_leaders_in response)\<rparr>"

text \<open>\<open>updateBroker\<close>: one partition of the rebuilt layout, given the partition that was published before.\<close>

abbreviation (input) LeaderNotAvailable :: int where "LeaderNotAvailable \<equiv> 5"

definition rebuild_partition :: "node_id set \<Rightarrow> view_partition \<Rightarrow> view_partition \<Rightarrow> view_partition" where
  "rebuild_partition live oldPartition part =
     (let p = part\<lparr>vp_Replicas := filter (\<lambda>i. i \<in> live) (vp_Replicas part), vp_ISR := filter (\<lambda>i. i \<in> live) (vp_ISR part),
            vp_OfflineReplicas := filter (\<lambda>i. i \<in> live) (vp_OfflineReplicas part)\<rparr>;
          p = (if mp_Leader p \<notin> live
               then (case vp_ISR p of i # isr \<Rightarrow> p\<lparr>mp_Leader := i\<rparr> | [] \<Rightarrow> p\<lparr>mp_Leader := -1, vp_ErrorCode := LeaderNotAvailable\<rparr>)
               else p)
      in p\<lparr>vp_LeaderEpoch := (if mp_Leader p \<noteq> mp_Leader oldPartition then i32 (vp_LeaderEpoch oldPartition + 1)
             else vp_LeaderEpoch oldPartition)\<rparr>)"

fun rebuild_partitions :: "node_id set \<Rightarrow> view_partition list \<Rightarrow> view_partition list \<Rightarrow> view_partition list option" where
  "rebuild_partitions live olds [] = Some []"
| "rebuild_partitions live [] (p # ps) = None"
| "rebuild_partitions live (oldPartition # olds) (p # ps) =
     map_option ((#) (rebuild_partition live oldPartition p)) (rebuild_partitions live olds ps)"

fun rebuild_topics :: "node_id set \<Rightarrow> view_topic list \<Rightarrow> view_topic list \<Rightarrow> view_topic list option" where
  "rebuild_topics live olds [] = Some []"
| "rebuild_topics live [] (t # ts) = (if vt_Partitions t = [] then map_option ((#) t) (rebuild_topics live [] ts) else None)"
| "rebuild_topics live (oldTopic # olds) (t # ts) =
     (case rebuild_partitions live (vt_Partitions oldTopic) (vt_Partitions t) of
        None \<Rightarrow> None
      | Some ps \<Rightarrow> map_option ((#) (t\<lparr>vt_Partitions := ps\<rparr>)) (rebuild_topics live olds ts))"

definition updated_brokers :: "MetadataResponseBroker list \<Rightarrow> node_id \<Rightarrow> MetadataResponseBroker option \<Rightarrow> MetadataResponseBroker list" where
  "updated_brokers brokers nodeID broker =
     sort_key mb_NodeID (filter (\<lambda>b. mb_NodeID b \<noteq> nodeID) brokers @ (case broker of Some b \<Rightarrow> [b] | None \<Rightarrow> []))"

definition updateBroker :: "metadataView \<Rightarrow> node_id \<Rightarrow> MetadataResponseBroker option \<Rightarrow> metadataView option" where
  "updateBroker view nodeID broker =
     (let previous = mv_current view;
          brokers = updated_brokers (vr_Brokers previous) nodeID broker;
          live = set (map mb_NodeID brokers)
      in map_option (\<lambda>topics. view\<lparr>mv_current := previous\<lparr>vr_Brokers := brokers, vr_Topics := topics\<rparr>\<rparr>)
           (rebuild_topics live (vr_Topics previous) (vr_Topics (mv_template view))))"

text \<open>\<open>metadataPreferredPlacement\<close>: every partition is led by one agent; discovery is a window of the brokers.\<close>

fun indexFunc :: "('a \<Rightarrow> bool) \<Rightarrow> 'a list \<Rightarrow> nat option" where
  "indexFunc P [] = None"
| "indexFunc P (x # xs) = (if P x then Some 0 else map_option Suc (indexFunc P xs))"

definition placement_window :: "MetadataResponseBroker list \<Rightarrow> nat \<Rightarrow> int \<Rightarrow> MetadataResponseBroker list" where
  "placement_window brokers index advertised =
     map (\<lambda>i. brokers ! ((index + i) mod length brokers)) [0..<nat (min advertised (int (length brokers)))]"

definition metadataPreferredPlacement :: "view_response \<Rightarrow> node_id \<Rightarrow> int \<Rightarrow> node_id \<Rightarrow> view_response" where
  "metadataPreferredPlacement template preferred advertised retainedFallback =
     (case indexFunc (\<lambda>b. mb_NodeID b = preferred) (vr_Brokers template) of
        None \<Rightarrow> template
      | Some index \<Rightarrow>
          (let brokers = placement_window (vr_Brokers template) index advertised;
               brokers = (if 1 < length brokers \<and> \<not> (\<exists>b\<in>set brokers. mb_NodeID b = retainedFallback)
                 then (case find (\<lambda>b. mb_NodeID b = retainedFallback) (vr_Brokers template) of
                         Some b \<Rightarrow> brokers[length brokers - 1 := b] | None \<Rightarrow> brokers)
                 else brokers)
           in template\<lparr>vr_Brokers := brokers, vr_Topics := map (\<lambda>t. t\<lparr>vt_Partitions :=
                map (\<lambda>p. p\<lparr>mp_Leader := preferred, vp_Replicas := [preferred], vp_ISR := [preferred]\<rparr>) (vt_Partitions t)\<rparr>)
                (vr_Topics template)\<rparr>))"

text \<open>
  The control function that \<open>installMetadataPlacementControl\<close> installs. The cluster's current node, the request's
  version and topics and the behaviours of the moment are arguments; the result has the delay that it sleeps.
\<close>

record placement_control =
  pc_singleAgent :: bool
  pc_dynamic :: bool
  pc_retainedFallback :: node_id
  pc_advertised :: "int list"

definition no_placement :: placement_control where
  "no_placement = \<lparr>pc_singleAgent = False, pc_dynamic = False, pc_retainedFallback = -1, pc_advertised = []\<rparr>"

definition serve_metadata ::
  "placement_control \<Rightarrow> node_id \<Rightarrow> 'g brokersBehaviour \<Rightarrow> int \<Rightarrow> topic list option \<Rightarrow> metadataView \<Rightarrow> metadataView \<times> view_response \<times> duration" where
  "serve_metadata pc currentNode behaviour version topics view =
     (let response = metadataWithoutBrokers (mv_current view) version (missingBrokers behaviour);
          response = (if pc_singleAgent pc
            then (let preferred = (if pc_dynamic pc then currentNode else 0);
                      count = (case pc_advertised pc of n # ns \<Rightarrow> if 0 < n then n else 3 | [] \<Rightarrow> 3)
                  in metadataPreferredPlacement response preferred count (pc_retainedFallback pc))
            else response);
          brokerOnly = (topics = Some []);
          (view, response, slept) =
            (if brokerOnlyMissing behaviour = [] then (view, response, 0)
             else if brokerOnly
             then (view\<lparr>mv_brokerOnlyWithdrawals := mv_brokerOnlyWithdrawals view + 1\<rparr>,
                   metadataWithoutBrokers response version (brokerOnlyMissing behaviour), 0)
             else (view\<lparr>mv_staleRoutingResponses := mv_staleRoutingResponses view + 1\<rparr>, response,
                   if 0 < topicMetadataDelay behaviour then topicMetadataDelay behaviour else 0))
      in (observeMissingLeaders view response, response, slept))"

section \<open>Transport phases\<close>

datatype transportAction = killPod | blackholePod | restorePod | removePod | replacePod | withdrawPod

record transportPhase =
  tph_at :: duration
  tph_nodeID :: node_id
  tph_action :: transportAction

text \<open>One of the two clusters; \<open>RemoveNode\<close> and \<open>AddNode\<close> of the fake cluster are arguments.\<close>

record phase_target =
  pt_network :: network_system
  pt_metadata :: metadataView

record cluster_nodes =
  RemoveNode :: "node_id \<Rightarrow> goerror option"
  AddNode :: "node_id \<Rightarrow> goerror + int"

definition target_fault :: "node_id \<Rightarrow> transportFault \<Rightarrow> phase_target \<Rightarrow> phase_target" where
  "target_fault i fault t =
     (let s = pt_network t; (n, cs) = setFault (ns_conns s) (ns_net s) i fault
      in t\<lparr>pt_network := s\<lparr>ns_net := n, ns_pending := ns_pending s + closings cs\<rparr>\<rparr>)"

definition phase_errorf :: "string \<Rightarrow> node_id \<Rightarrow> goerror \<Rightarrow> goerror" where
  "phase_errorf verb i err = Errorf (verb @ '' broker '' @ decimal i @ '': '') err []"

definition apply_to_target :: "cluster_nodes \<Rightarrow> transportPhase \<Rightarrow> phase_target \<Rightarrow> (phase_target \<times> goerror option) option" where
  "apply_to_target cluster phase target =
     (let i = tph_nodeID phase
      in case tph_action phase of
        killPod \<Rightarrow> Some (target_fault i transportKilled target, None)
      | blackholePod \<Rightarrow> Some (target_fault i transportBlackhole target, None)
      | restorePod \<Rightarrow> Some (target_fault i transportHealthy target, None)
      | replacePod \<Rightarrow> (case AddNode cluster i of
            Inl err \<Rightarrow> Some (target, Some (phase_errorf ''replace'' i err))
          | Inr port \<Rightarrow>
              (let s = pt_network target;
                   target = target\<lparr>pt_network := s\<lparr>ns_net := register (ns_net s) (''127.0.0.1:'' @ decimal port) i\<rparr>\<rparr>;
                   target = target_fault i transportHealthy target
               in map_option (\<lambda>view. (target\<lparr>pt_metadata := view\<rparr>, None))
                    (updateBroker (pt_metadata target) i (Some \<lparr>mb_NodeID = i, mb_Host = ''127.0.0.1'', mb_Port = i32 port\<rparr>))))
      | action \<Rightarrow>
          (let target = target_fault i transportKilled target
           in case RemoveNode cluster i of
             Some err \<Rightarrow> Some (target, Some (phase_errorf ''remove'' i err))
           | None \<Rightarrow>
               if action = withdrawPod then Some (target\<lparr>pt_metadata := withdrawBroker (pt_metadata target) i\<rparr>, None)
               else map_option (\<lambda>view. (target\<lparr>pt_metadata := view\<rparr>, None)) (updateBroker (pt_metadata target) i None)))"

text \<open>\<open>applyTransportPhase\<close> goes through the targets in order and stops at the first error.\<close>

fun applyTransportPhase :: "transportPhase \<Rightarrow> (cluster_nodes \<times> phase_target) list \<Rightarrow> (phase_target list \<times> goerror option) option" where
  "applyTransportPhase phase [] = Some ([], None)"
| "applyTransportPhase phase ((cluster, target) # rest) =
     (case apply_to_target cluster phase target of
        None \<Rightarrow> None
      | Some (target, Some err) \<Rightarrow> Some (target # map snd rest, Some err)
      | Some (target, None) \<Rightarrow> map_option (\<lambda>(ts, e). (target # ts, e)) (applyTransportPhase phase rest))"

section \<open>The rebuilt layout\<close>

definition same_shape :: "view_topic list \<Rightarrow> view_topic list \<Rightarrow> bool" where
  "same_shape = list_all2 (\<lambda>t u. length (vt_Partitions t) = length (vt_Partitions u))"

definition rebuild_topic :: "node_id set \<Rightarrow> view_topic \<Rightarrow> view_topic \<Rightarrow> view_topic" where
  "rebuild_topic live oldTopic t = t\<lparr>vt_Partitions := map2 (rebuild_partition live) (vt_Partitions oldTopic) (vt_Partitions t)\<rparr>"

lemma rebuild_partitions_eq:
  "length olds = length ps \<Longrightarrow> rebuild_partitions live olds ps = Some (map2 (rebuild_partition live) olds ps)"
  by (induction olds ps rule: list_induct2) simp_all

lemma rebuild_topics_eq: "same_shape olds ts \<Longrightarrow> rebuild_topics live olds ts = Some (map2 (rebuild_topic live) olds ts)"
  unfolding same_shape_def by (induction rule: list_all2_induct) (simp_all add: rebuild_partitions_eq rebuild_topic_def)

lemma same_shape_rebuilt:
  assumes "same_shape olds ts" shows "same_shape (map2 (rebuild_topic live) olds ts) ts"
  using assms unfolding same_shape_def by (induction rule: list_all2_induct) (simp_all add: rebuild_topic_def)

lemma updateBroker_eq:
  assumes "same_shape (vr_Topics (mv_current view)) (vr_Topics (mv_template view))"
  shows "updateBroker view i broker = Some (view\<lparr>mv_current := (mv_current view)\<lparr>
     vr_Brokers := updated_brokers (vr_Brokers (mv_current view)) i broker,
     vr_Topics := map2 (rebuild_topic (set (map mb_NodeID (updated_brokers (vr_Brokers (mv_current view)) i broker))))
        (vr_Topics (mv_current view)) (vr_Topics (mv_template view))\<rparr>\<rparr>)"
  using rebuild_topics_eq [OF assms] by (simp add: updateBroker_def Let_def)

text \<open>What happens to one partition.\<close>

definition follows_membership :: "node_id set \<Rightarrow> view_partition \<Rightarrow> view_partition \<Rightarrow> view_partition \<Rightarrow> bool" where
  "follows_membership live old tpl new \<longleftrightarrow>
     mp_Partition new = mp_Partition tpl \<and>
     vp_Replicas new = filter (\<lambda>i. i \<in> live) (vp_Replicas tpl) \<and> vp_ISR new = filter (\<lambda>i. i \<in> live) (vp_ISR tpl) \<and>
     (mp_Leader tpl \<in> live \<longrightarrow> mp_Leader new = mp_Leader tpl \<and> vp_ErrorCode new = vp_ErrorCode tpl) \<and>
     (mp_Leader tpl \<notin> live \<longrightarrow> (if vp_ISR new = [] then mp_Leader new = -1 \<and> vp_ErrorCode new = LeaderNotAvailable
        else mp_Leader new = hd (vp_ISR new) \<and> mp_Leader new \<in> live)) \<and>
     vp_LeaderEpoch new = (if mp_Leader new = mp_Leader old then vp_LeaderEpoch old else i32 (vp_LeaderEpoch old + 1))"

lemma rebuild_partition_follows: "follows_membership live old tpl (rebuild_partition live old tpl)"
proof (cases "filter (\<lambda>i. i \<in> live) (vp_ISR tpl)")
  case Nil
  then show ?thesis unfolding follows_membership_def rebuild_partition_def Let_def
    by (cases "mp_Leader tpl \<in> live") simp_all
next
  case (Cons i isr)
  then have "i \<in> live" by (auto simp: filter_eq_Cons_iff)
  with Cons show ?thesis unfolding follows_membership_def rebuild_partition_def Let_def
    by (cases "mp_Leader tpl \<in> live") simp_all
qed

lemma rebuilt_leader: "mp_Leader (rebuild_partition live old tpl) \<in> live \<or> mp_Leader (rebuild_partition live old tpl) = -1"
  using rebuild_partition_follows [of live old tpl] unfolding follows_membership_def by metis

section \<open>Sequences of membership changes\<close>

datatype view_op = Withdraw node_id | Update node_id "MetadataResponseBroker option"

fun view_run :: "view_op list \<Rightarrow> metadataView \<Rightarrow> metadataView option" where
  "view_run [] view = Some view"
| "view_run (Withdraw i # ops) view = view_run ops (withdrawBroker view i)"
| "view_run (Update i broker # ops) view = Option.bind (updateBroker view i broker) (view_run ops)"

definition view_ok :: "view_response \<Rightarrow> metadataView \<Rightarrow> bool" where
  "view_ok template view \<longleftrightarrow> mv_template view = template \<and> same_shape (vr_Topics (mv_current view)) (vr_Topics template)"

lemma view_ok_run: "view_ok template view \<Longrightarrow> \<exists>view'. view_run ops view = Some view' \<and> view_ok template view'"
proof (induction ops arbitrary: view)
  case (Cons op ops)
  show ?case
  proof (cases op)
    case (Withdraw i)
    then show ?thesis using Cons by (simp add: view_ok_def withdrawBroker_def)
  next
    case (Update i broker)
    then show ?thesis using Cons by (simp add: view_ok_def updateBroker_eq same_shape_rebuilt)
  qed
qed simp

lemma view_ok_new: "view_ok template (new_view template)"
  by (simp add: view_ok_def new_view_def same_shape_def list_all2_refl)

text \<open>The leaders that the agent pool drops.\<close>

definition dropped_leaders :: "poolState \<Rightarrow> view_response \<Rightarrow> int" where
  "dropped_leaders p r = (case snd (refresh p (Inr (pool_response r))) of Inr (removed, drops) \<Rightarrow> ld_Count drops | Inl e \<Rightarrow> 0)"

lemma dropped_leaders_eq:
  "dropped_leaders p r = (\<Sum>t\<leftarrow>vr_Topics r. if vt_Topic t \<noteq> None \<and> vt_ErrorCode t = 0
     then int (length (filter (\<lambda>q. 0 \<le> mp_Leader q \<and> mp_Leader q \<notin> set (map mb_NodeID (vr_Brokers r))) (vt_Partitions t))) else 0)"
  by (simp add: dropped_leaders_def refresh_def Let_def build_dropped_Count pool_response_def pool_topic_def o_def
      length_filter_map cong: if_cong)

definition led_by :: "node_id \<Rightarrow> view_response \<Rightarrow> int" where
  "led_by i r = (\<Sum>t\<leftarrow>vr_Topics r. if vt_Topic t \<noteq> None \<and> vt_ErrorCode t = 0
     then int (length (filter (\<lambda>q. mp_Leader q = i) (vt_Partitions t))) else 0)"

text \<open>In a response whose leaders are all live, a withdrawn broker is the only leader that can be missing.\<close>

definition leaders_live :: "view_response \<Rightarrow> bool" where
  "leaders_live r \<longleftrightarrow> (\<forall>t\<in>set (vr_Topics r). \<forall>q\<in>set (vt_Partitions t).
     mp_Leader q \<in> set (map mb_NodeID (vr_Brokers r)) \<or> mp_Leader q = -1)"

lemma dropped_leaders_live:
  assumes "leaders_live r"
  shows "dropped_leaders p r = 0"
    and "0 \<le> i \<Longrightarrow> mv_current view = r \<Longrightarrow> dropped_leaders p (mv_current (withdrawBroker view i)) = led_by i r"
proof -
  have nil: "filter (\<lambda>q. 0 \<le> mp_Leader q \<and> mp_Leader q \<notin> set (map mb_NodeID (vr_Brokers r))) (vt_Partitions t) = []"
    if "t \<in> set (vr_Topics r)" for t
    using assms that by (force simp: leaders_live_def filter_empty_conv)
  have "(\<Sum>t\<leftarrow>vr_Topics r. if vt_Topic t \<noteq> None \<and> vt_ErrorCode t = 0
     then int (length (filter (\<lambda>q. 0 \<le> mp_Leader q \<and> mp_Leader q \<notin> set (map mb_NodeID (vr_Brokers r))) (vt_Partitions t))) else 0) =
     (\<Sum>t\<leftarrow>vr_Topics r. 0)" by (intro arg_cong [where f = sum_list] map_cong refl) (simp only: nil, simp)
  then show "dropped_leaders p r = 0" unfolding dropped_leaders_eq by simp
  assume i: "0 \<le> i" and view: "mv_current view = r"
  have "filter (\<lambda>q. 0 \<le> mp_Leader q \<and> mp_Leader q \<notin> set (map mb_NodeID (filter (\<lambda>b. mb_NodeID b \<noteq> i) (vr_Brokers r)))) (vt_Partitions t) =
      filter (\<lambda>q. mp_Leader q = i) (vt_Partitions t)" if "t \<in> set (vr_Topics r)" for t
    using assms that i by (intro filter_cong refl) (force simp: leaders_live_def)
  then show "dropped_leaders p (mv_current (withdrawBroker view i)) = led_by i r"
    unfolding dropped_leaders_eq led_by_def using view
    by (intro arg_cong [where f = sum_list] map_cong) (simp_all add: withdrawBroker_def)
qed

lemma leaders_live_rebuilt:
  assumes "same_shape olds ts" "live = set (map mb_NodeID brokers)"
  shows "leaders_live (r\<lparr>vr_Brokers := brokers, vr_Topics := map2 (rebuild_topic live) olds ts\<rparr>)"
  using rebuilt_leader [of live] assms(2)
  by (fastforce simp: leaders_live_def rebuild_topic_def set_zip)

section \<open>Properties\<close>

text \<open>
  C33: The published layout follows the membership. After any sequence of withdrawals and updates the next
  update succeeds (no index is out of range) and publishes: the brokers in the order of their identifiers; for
  every partition of the captured layout the live part of its replicas, its captured leader if that is live, otherwise
  the first live in-sync replica, otherwise no leader and \<open>LEADER_NOT_AVAILABLE\<close>; and a leader epoch that
  moves by one exactly when the leader changed. An agent pool that reads it drops no leader; if a broker is
  withdrawn from discovery before the next update, the pool drops exactly the partitions which that broker leads.
\<close>

theorem published_layout_follows_membership:
  "\<exists>view view'. view_run ops (new_view template) = Some view \<and> updateBroker view i broker = Some view' \<and>
     (let old = mv_current view; new = mv_current view'; live = set (map mb_NodeID (vr_Brokers new))
      in live = set (map mb_NodeID (vr_Brokers old)) - {i} \<union> (case broker of Some b \<Rightarrow> {mb_NodeID b} | None \<Rightarrow> {}) \<and>
         sorted (map mb_NodeID (vr_Brokers new)) \<and> same_shape (vr_Topics new) (vr_Topics template) \<and>
         (\<forall>t<length (vr_Topics template). \<forall>q<length (vt_Partitions (vr_Topics template ! t)).
            follows_membership live (vt_Partitions (vr_Topics old ! t) ! q) (vt_Partitions (vr_Topics template ! t) ! q)
              (vt_Partitions (vr_Topics new ! t) ! q)) \<and>
         dropped_leaders pool new = 0 \<and>
         (0 \<le> j \<longrightarrow> dropped_leaders pool (mv_current (withdrawBroker view' j)) = led_by j new))"
proof -
  obtain view where run: "view_run ops (new_view template) = Some view" and ok: "view_ok template view"
    using view_ok_run [OF view_ok_new] by blast
  then have shape: "same_shape (vr_Topics (mv_current view)) (vr_Topics template)" and tpl: "mv_template view = template"
    by (simp_all add: view_ok_def)
  let ?brokers = "updated_brokers (vr_Brokers (mv_current view)) i broker"
  let ?live = "set (map mb_NodeID ?brokers)"
  define new where "new = (mv_current view)\<lparr>vr_Brokers := ?brokers,
    vr_Topics := map2 (rebuild_topic ?live) (vr_Topics (mv_current view)) (vr_Topics template)\<rparr>"
  have upd: "updateBroker view i broker = Some (view\<lparr>mv_current := new\<rparr>)"
    using updateBroker_eq [of view i broker] shape tpl by (simp add: new_def)
  have live: "set (map mb_NodeID (vr_Brokers new)) =
      set (map mb_NodeID (vr_Brokers (mv_current view))) - {i} \<union> (case broker of Some b \<Rightarrow> {mb_NodeID b} | None \<Rightarrow> {})"
    by (auto simp: new_def updated_brokers_def split: option.splits)
  have parts: "follows_membership (set (map mb_NodeID (vr_Brokers new))) (vt_Partitions (vr_Topics (mv_current view) ! t) ! q)
      (vt_Partitions (vr_Topics template ! t) ! q) (vt_Partitions (vr_Topics new ! t) ! q)"
    if "t < length (vr_Topics template)" "q < length (vt_Partitions (vr_Topics template ! t))" for t q
    using that list_all2_nthD2 [OF shape [unfolded same_shape_def] that(1)] list_all2_lengthD [OF shape [unfolded same_shape_def]]
    by (simp add: new_def rebuild_topic_def rebuild_partition_follows)
  have "leaders_live new" unfolding new_def by (rule leaders_live_rebuilt [OF shape refl])
  note drops = dropped_leaders_live [OF this]
  have "sorted (map mb_NodeID (vr_Brokers new))" "same_shape (vr_Topics new) (vr_Topics template)"
    using same_shape_rebuilt [OF shape] by (simp_all add: new_def updated_brokers_def)
  with run upd live parts drops(1) [of pool] drops(2) [of j "view\<lparr>mv_current := new\<rparr>" pool] show ?thesis
    unfolding Let_def by (intro exI [of _ view] exI [of _ "view\<lparr>mv_current := new\<rparr>"]) simp
qed

text \<open>Two brokers; broker 1 is replaced after it was withdrawn.\<close>

definition example_template :: view_response where
  "example_template = \<lparr>vr_Version = 12, vr_Brokers = [\<lparr>mb_NodeID = 0, mb_Host = ''a'', mb_Port = 1\<rparr>, \<lparr>mb_NodeID = 1, mb_Host = ''a'', mb_Port = 2\<rparr>],
     vr_Topics = [\<lparr>vt_Topic = Some ''t'', vt_ErrorCode = 0, vt_TopicID = 7, vt_Partitions =
       [\<lparr>mp_Partition = 0, mp_Leader = 1, vp_ErrorCode = 0, vp_LeaderEpoch = 4, vp_Replicas = [1, 0], vp_ISR = [1, 0], vp_OfflineReplicas = []\<rparr>]\<rparr>]\<rparr>"

theorem published_layout_follows_membership_witness:
  "dropped_leaders NewAgentPool (mv_current (withdrawBroker (new_view example_template) 1)) = 1 \<and>
   (\<exists>view view'. view_run [Withdraw 1] (new_view example_template) = Some view \<and> updateBroker view 1 None = Some view' \<and>
      dropped_leaders NewAgentPool (mv_current view') = 0 \<and>
      map mp_Leader (vt_Partitions (hd (vr_Topics (mv_current view')))) = [0] \<and>
      map vp_LeaderEpoch (vt_Partitions (hd (vr_Topics (mv_current view')))) = [5])"
proof -
  obtain view view' where v: "view_run [Withdraw 1] (new_view example_template) = Some view" "updateBroker view 1 None = Some view'"
      "dropped_leaders NewAgentPool (mv_current view') = 0"
    using published_layout_follows_membership [of "[Withdraw 1]" example_template 1 None NewAgentPool 0] unfolding Let_def by blast
  have "map_option (\<lambda>v. map (\<lambda>q. (mp_Leader q, vp_LeaderEpoch q)) (vt_Partitions (hd (vr_Topics (mv_current v)))))
      (view_run [Withdraw 1, Update 1 None] (new_view example_template)) = Some [(0, 5)]"
    by code_simp
  then have "map (\<lambda>q. (mp_Leader q, vp_LeaderEpoch q)) (vt_Partitions (hd (vr_Topics (mv_current view')))) = [(0, 5)]"
    using v(1,2) by simp
  moreover have "dropped_leaders NewAgentPool (mv_current (withdrawBroker (new_view example_template) 1)) = 1" by code_simp
  ultimately show ?thesis using v by (auto simp: map_eq_Cons_conv)
qed

section \<open>Phases drive the network and the view\<close>

lemma target_fault_step: "network_step (pt_network t) (pt_network (target_fault i fault t)) \<and> pt_metadata (target_fault i fault t) = pt_metadata t"
  by (auto simp: target_fault_def Let_def split: prod.split intro: ns_fault)

lemma phase_target_steps:
  assumes "apply_to_target cluster phase target = Some (target', err)"
  shows "network_step\<^sup>*\<^sup>* (pt_network target) (pt_network target') \<and>
    (pt_metadata target' = pt_metadata target \<or> pt_metadata target' = withdrawBroker (pt_metadata target) (tph_nodeID phase) \<or>
     (\<exists>broker. updateBroker (pt_metadata target) (tph_nodeID phase) broker = Some (pt_metadata target')))"
proof -
  let ?i = "tph_nodeID phase"
  have fault: "network_step\<^sup>*\<^sup>* (pt_network t) (pt_network (target_fault ?i f t))" "pt_metadata (target_fault ?i f t) = pt_metadata t" for f t
    using target_fault_step [of t ?i f] by auto
  have reg: "network_step\<^sup>*\<^sup>* (pt_network t) (pt_network (target_fault ?i f (t\<lparr>pt_network := (pt_network t)\<lparr>ns_net := register (ns_net (pt_network t)) a ?i\<rparr>\<rparr>)))" for a f t
    using fault(1) [of "t\<lparr>pt_network := (pt_network t)\<lparr>ns_net := register (ns_net (pt_network t)) a ?i\<rparr>\<rparr>" f]
      ns_register [of "pt_network t" a ?i] by (simp add: converse_rtranclp_into_rtranclp)
  show ?thesis
    using assms fault reg unfolding apply_to_target_def Let_def
    by (cases "tph_action phase") (auto split: option.splits sum.splits)
qed

section \<open>What a response shows\<close>

lemma observeMissingLeaders_counts:
  "get_or 0 (mv_missingLeaderResponses (observeMissingLeaders view r)) i =
     get_or 0 (mv_missingLeaderResponses view) i +
       (if 0 \<le> i \<and> i \<notin> set (map mb_NodeID (vr_Brokers r)) \<and> (\<exists>t\<in>set (vr_Topics r). \<exists>q\<in>set (vt_Partitions t). mp_Leader q = i) then 1 else 0)"
proof -
  have fold: "distinct xs \<Longrightarrow> get_or 0 (foldl (\<lambda>m i. AList.update i (get_or 0 m i + 1) m) m xs) i = get_or 0 m i + (if i \<in> set xs then 1 else (0 :: int))" for xs m
    by (induction xs arbitrary: m) auto
  have "distinct (missing_leaders_in r)" by (simp add: missing_leaders_in_def Let_def)
  from fold [OF this] show ?thesis
    by (auto simp: observeMissingLeaders_def missing_leaders_in_def Let_def)
qed

lemma indexFunc_Some: "indexFunc P xs = Some k \<Longrightarrow> k < length xs \<and> P (xs ! k)"
  by (induction xs arbitrary: k) (auto split: if_splits)

lemma indexFunc_None: "indexFunc P xs = None \<longleftrightarrow> \<not> (\<exists>x\<in>set xs. P x)"
  by (induction xs) auto

text \<open>A placement leads with the preferred agent, advertises as many agents as asked, and keeps the fallback.\<close>

lemma placement_keeps_fallback:
  assumes "preferred \<in> mb_NodeID ` set (vr_Brokers r)" "2 \<le> advertised" "2 \<le> length (vr_Brokers r)"
    and "retained \<in> mb_NodeID ` set (vr_Brokers r)"
  shows "let r' = metadataPreferredPlacement r preferred advertised retained
     in length (vr_Brokers r') = nat (min advertised (int (length (vr_Brokers r)))) \<and> mb_NodeID (hd (vr_Brokers r')) = preferred \<and>
        retained \<in> mb_NodeID ` set (vr_Brokers r') \<and> set (vr_Brokers r') \<subseteq> set (vr_Brokers r) \<and>
        (\<forall>t\<in>set (vr_Topics r'). \<forall>q\<in>set (vt_Partitions t). mp_Leader q = preferred)"
proof -
  let ?bs = "vr_Brokers r"
  obtain k where k: "indexFunc (\<lambda>b. mb_NodeID b = preferred) ?bs = Some k"
    using assms(1) indexFunc_None [of "\<lambda>b. mb_NodeID b = preferred" ?bs] by force
  note at = indexFunc_Some [OF k]
  let ?n = "nat (min advertised (int (length ?bs)))"
  let ?w = "placement_window ?bs k advertised"
  have n: "2 \<le> ?n" "0 < length ?bs" using assms(2,3) by auto
  have len: "length ?w = ?n" by (simp add: placement_window_def)
  have head: "?w \<noteq> [] \<and> hd ?w = ?bs ! k" using n at len by (cases ?n) (simp_all add: placement_window_def hd_map upt_conv_Cons)
  have sub: "set ?w \<subseteq> set ?bs" using n(2) by (auto simp: placement_window_def)
  have w: "length ?w = ?n" "?w \<noteq> []" "hd ?w = ?bs ! k" "set ?w \<subseteq> set ?bs" "1 < length ?w"
    using len head sub assms(2,3) by auto
  obtain b where found: "find (\<lambda>b. mb_NodeID b = retained) ?bs = Some b"
    using assms(4) by (cases "find (\<lambda>b. mb_NodeID b = retained) ?bs") (auto simp: find_None_iff)
  then have b: "find (\<lambda>b. mb_NodeID b = retained) ?bs = Some b" "b \<in> set ?bs" "mb_NodeID b = retained"
    by (auto simp: find_Some_iff)
  have upd: "hd (?w[length ?w - 1 := b]) = hd ?w" "b \<in> set (?w[length ?w - 1 := b])" "set (?w[length ?w - 1 := b]) \<subseteq> set ?bs"
    using w b(2) set_update_subset_insert [of ?w "length ?w - 1" b]
    by (auto simp: hd_conv_nth set_update_memI nth_list_update)
  show ?thesis
    using k at w upd b unfolding metadataPreferredPlacement_def Let_def
    by (cases "\<exists>b\<in>set ?w. mb_NodeID b = retained") (auto simp: image_iff, metis)
qed

end
