(* ===== verification/Sim_Observations.thy ===== *)
theory Sim_Observations
  imports Go_Float Produce_Result
begin

text \<open>
  What a simulation measures: \<open>observations.go\<close>, \<open>windows.go\<close> and \<open>sampler.go\<close> of
  \<open>pkg/internal/simulation/runner\<close>. The collector's mutex makes every append one step, so a snapshot is the list
  of observations so far. Counters are read from the client's registry by a function that is an argument; the
  sampler's sleeping has no counterpart beyond the order of its samples.
\<close>

section \<open>Observations\<close>

record observation =
  ob_scheduled :: instant
  ob_issued :: instant
  ob_latency :: duration
  ob_err :: "goerror option"

definition observations_record :: "observation list \<Rightarrow> instant \<Rightarrow> instant \<Rightarrow> duration \<Rightarrow> goerror option \<Rightarrow> observation list" where
  "observations_record obs scheduled issued latency err =
     obs @ [\<lparr>ob_scheduled = scheduled, ob_issued = issued, ob_latency = latency, ob_err = err\<rparr>]"

definition latencyQuantile :: "observation list \<Rightarrow> rat \<Rightarrow> duration" where
  "latencyQuantile obs q =
     (if obs = [] then 0
      else let latencies = sort (map ob_latency obs);
               n = int (length latencies);
               idx = int_of_f64 (f64_mul (f64_of_int n) q);
               idx = (if n \<le> idx then n - 1 else idx)
           in latencies ! nat idx)"

definition slowFraction :: "observation list \<Rightarrow> duration \<Rightarrow> rat" where
  "slowFraction obs budget =
     (if obs = [] then 0
      else f64_div (f64_of_int (int (length (filter (\<lambda>ob. budget < ob_latency ob) obs)))) (f64_of_int (int (length obs))))"

definition errorCounts :: "err_env \<Rightarrow> observation list \<Rightarrow> (string, int) gomap" where
  "errorCounts env obs =
     foldl (\<lambda>counts ob. case ob_err ob of
         None \<Rightarrow> counts
       | Some e \<Rightarrow> AList.update (error_Error env e) (get_or 0 counts (error_Error env e) + 1) counts) [] obs"

record observationsSummary =
  su_total :: int
  su_successes :: int
  su_failures :: int
  su_meanLatency :: duration
  su_p50Latency :: duration
  su_p99Latency :: duration

definition no_summary :: observationsSummary where
  "no_summary = \<lparr>su_total = 0, su_successes = 0, su_failures = 0, su_meanLatency = 0, su_p50Latency = 0, su_p99Latency = 0\<rparr>"

text \<open>The loop of \<open>summary\<close>: the counts and the sum of the latencies.\<close>

definition summary_step :: "int \<times> int \<times> duration \<Rightarrow> observation \<Rightarrow> int \<times> int \<times> duration" where
  "summary_step acc ob =
     (case acc of (successes, failures, lat) \<Rightarrow>
        (if ob_err ob = None then successes + 1 else successes, if ob_err ob = None then failures else failures + 1,
         i64 (lat + ob_latency ob)))"

definition summary :: "observation list \<Rightarrow> observationsSummary" where
  "summary obs =
     (if obs = [] then no_summary
      else case foldl summary_step (0, 0, 0) obs of (successes, failures, lat) \<Rightarrow>
        \<lparr>su_total = int (length obs), su_successes = successes, su_failures = failures,
         su_meanLatency = go_div lat (int (length obs)), su_p50Latency = latencyQuantile obs (1 / 2),
         su_p99Latency = latencyQuantile obs (f64 (99 / 100))\<rparr>)"

definition earliest_issued :: "observation list \<Rightarrow> instant" where
  "earliest_issued obs =
     foldl (\<lambda>start ob. if start = zero_time \<or> ob_issued ob < start then ob_issued ob else start) zero_time obs"

definition bucket_step :: "duration \<Rightarrow> instant \<Rightarrow> (int, observation list) gomap \<times> int \<Rightarrow> observation \<Rightarrow> (int, observation list) gomap \<times> int" where
  "bucket_step windowSize start acc ob =
     (case acc of (byIdx, maxIdx) \<Rightarrow>
        (let idx = go_div (time_sub (ob_issued ob) start) windowSize
         in (AList.update idx (get_or [] byIdx idx @ [ob]) byIdx, if maxIdx < idx then idx else maxIdx)))"

definition bucketedSummary :: "observation list \<Rightarrow> duration \<Rightarrow> observationsSummary list" where
  "bucketedSummary obs windowSize =
     (if obs = [] then []
      else case foldl (bucket_step windowSize (earliest_issued obs)) ([], 0) obs of (byIdx, maxIdx) \<Rightarrow>
        map (\<lambda>i. case get_or [] byIdx i of [] \<Rightarrow> no_summary | ob # bs \<Rightarrow> summary (ob # bs)) [0..maxIdx])"

definition scheduledSince :: "observation list \<Rightarrow> instant \<Rightarrow> observation list" where
  "scheduledSince obs start = filter (\<lambda>ob. \<not> ob_scheduled ob < start) obs"

section \<open>Windows\<close>

record observationWindow =
  wi_name :: string
  wi_from :: duration
  wi_to :: duration

record windowResult =
  wr_window :: observationWindow
  wr_wgo :: observationsSummary
  wr_kgo :: observationsSummary

definition scheduledBetween :: "observation list \<Rightarrow> instant \<Rightarrow> instant \<Rightarrow> observation list" where
  "scheduledBetween obs from to = filter (\<lambda>ob. \<not> ob_scheduled ob < from \<and> ob_scheduled ob < to) obs"

definition summarizeWindows :: "observationWindow list \<Rightarrow> instant \<Rightarrow> observation list \<Rightarrow> observation list \<Rightarrow> windowResult list" where
  "summarizeWindows windows start wgo kgo =
     map (\<lambda>w. \<lparr>wr_window = w, wr_wgo = summary (scheduledBetween wgo (start + wi_from w) (start + wi_to w)),
            wr_kgo = summary (scheduledBetween kgo (start + wi_from w) (start + wi_to w))\<rparr>) windows"

section \<open>Counter samples\<close>

record counterSample =
  cs_at :: instant
  cs_primary :: int
  cs_hedge :: int

record counterBucketDelta =
  cd_primary :: int
  cd_hedge :: int

fun bucketDeltas :: "counterSample list \<Rightarrow> counterBucketDelta list" where
  "bucketDeltas (a # b # samples) =
     \<lparr>cd_primary = i64 (cs_primary b - cs_primary a), cd_hedge = i64 (cs_hedge b - cs_hedge a)\<rparr> # bucketDeltas (b # samples)"
| "bucketDeltas samples = []"

text \<open>\<open>runScenario\<close>'s totals over the observed phase, from the first and the last sample.\<close>

definition sample_totals :: "counterSample list \<Rightarrow> int \<times> int" where
  "sample_totals samples =
     (if length samples < 2 then (0, 0)
      else (i64 (cs_primary (last samples) - cs_primary (hd samples)), i64 (cs_hedge (last samples) - cs_hedge (hd samples))))"

section \<open>Summaries\<close>

lemma summary_counts:
  "su_total (summary obs) = int (length obs)"
  "su_successes (summary obs) = int (length (filter (\<lambda>ob. ob_err ob = None) obs))"
  "su_failures (summary obs) = int (length (filter (\<lambda>ob. ob_err ob \<noteq> None) obs))"
proof -
  have "\<exists>lat. foldl summary_step (0, 0, 0) obs =
      (int (length (filter (\<lambda>ob. ob_err ob = None) obs)), int (length (filter (\<lambda>ob. ob_err ob \<noteq> None) obs)), lat)"
    by (induction obs rule: rev_induct) (auto simp: summary_step_def)
  then obtain lat where "foldl summary_step (0, 0, 0) obs =
      (int (length (filter (\<lambda>ob. ob_err ob = None) obs)), int (length (filter (\<lambda>ob. ob_err ob \<noteq> None) obs)), lat)" ..
  then show "su_total (summary obs) = int (length obs)"
    "su_successes (summary obs) = int (length (filter (\<lambda>ob. ob_err ob = None) obs))"
    "su_failures (summary obs) = int (length (filter (\<lambda>ob. ob_err ob \<noteq> None) obs))"
    by (simp_all add: summary_def no_summary_def)
qed

definition quantile_index :: "int \<Rightarrow> rat \<Rightarrow> int" where
  "quantile_index n q = (let idx = int_of_f64 (f64_mul (f64_of_int n) q) in if n \<le> idx then n - 1 else idx)"

lemma quantile_index_range:
  assumes "0 < n" "0 \<le> q" "q \<le> q'"
  shows "0 \<le> quantile_index n q" "quantile_index n q < n" "quantile_index n q \<le> quantile_index n q'"
proof -
  have n: "0 \<le> f64_of_int n" using f64_of_int_pos [of n] assms(1) by simp
  have pos: "0 \<le> f64_mul (f64_of_int n) q" using n assms(2) by (simp add: f64_mul_def f64_nonneg)
  have mono: "f64_mul (f64_of_int n) q \<le> f64_mul (f64_of_int n) q'"
    using n assms(3) by (simp add: f64_mul_def f64_mono mult_left_mono)
  have "int_of_f64 (f64_mul (f64_of_int n) q) \<le> int_of_f64 (f64_mul (f64_of_int n) q')" "0 \<le> int_of_f64 (f64_mul (f64_of_int n) q)"
    using pos mono by (simp_all add: int_of_f64_def floor_mono)
  then show "0 \<le> quantile_index n q" "quantile_index n q < n" "quantile_index n q \<le> quantile_index n q'"
    using assms(1) by (auto simp: quantile_index_def Let_def)
qed

lemma latencyQuantile_eq:
  "obs \<noteq> [] \<Longrightarrow> latencyQuantile obs q = sort (map ob_latency obs) ! nat (quantile_index (int (length obs)) q)"
  by (simp add: latencyQuantile_def quantile_index_def Let_def)

lemma latencyQuantile_mono:
  assumes "0 \<le> q" "q \<le> q'"
  shows "latencyQuantile obs q \<le> latencyQuantile obs q'"
proof (cases "obs = []")
  case False
  have n: "0 < int (length obs)" using False by simp
  note r = quantile_index_range [OF n assms] and r' = quantile_index_range(1,2) [OF n order.trans [OF assms] order.refl]
  show ?thesis unfolding latencyQuantile_eq [OF False]
    by (rule sorted_nth_mono) (use r r' in \<open>simp_all add: nat_mono nat_less_iff\<close>)
qed (simp add: latencyQuantile_def)

lemma latencyQuantile_in:
  assumes "obs \<noteq> []" "0 \<le> q"
  shows "latencyQuantile obs q \<in> ob_latency ` set obs"
proof -
  have n: "0 < int (length obs)" using assms(1) by simp
  have "sort (map ob_latency obs) ! nat (quantile_index (int (length obs)) q) \<in> set (sort (map ob_latency obs))"
    by (rule nth_mem) (use quantile_index_range [OF n assms(2) order.refl] in \<open>simp add: nat_less_iff\<close>)
  then show ?thesis using assms(1) by (simp add: latencyQuantile_eq)
qed

section \<open>Buckets\<close>

lemma earliest_issued_le:
  assumes "obs \<noteq> []" "\<forall>ob\<in>set obs. zero_time < ob_issued ob"
  shows "earliest_issued obs \<in> ob_issued ` set obs \<and> (\<forall>ob\<in>set obs. earliest_issued obs \<le> ob_issued ob)"
  using assms
proof (induction obs rule: rev_induct)
  case (snoc ob obs)
  show ?case
  proof (cases "obs = []")
    case False
    then have "earliest_issued obs \<in> ob_issued ` set obs" "\<forall>ob\<in>set obs. earliest_issued obs \<le> ob_issued ob" using snoc by auto
    moreover from this have "earliest_issued obs \<noteq> zero_time" using snoc.prems by auto
    ultimately show ?thesis by (auto simp: earliest_issued_def)
  qed (simp add: earliest_issued_def)
qed simp

abbreviation bucket_of :: "duration \<Rightarrow> instant \<Rightarrow> observation \<Rightarrow> int" where
  "bucket_of w start ob \<equiv> go_div (time_sub (ob_issued ob) start) w"

lemma bucket_fold:
  "get_or [] (fst (foldl (bucket_step w start) ([], 0) obs)) i = filter (\<lambda>ob. bucket_of w start ob = i) obs"
  "snd (foldl (bucket_step w start) ([], 0) obs) = foldl max 0 (map (bucket_of w start) obs)"
  by (induction obs arbitrary: i rule: rev_induct) (auto simp: bucket_step_def Let_def case_prod_unfold get_or_def)

lemma foldl_max_ge: "(a :: int) \<le> foldl max a xs \<and> (\<forall>x\<in>set xs. x \<le> foldl max a xs)"
  by (induction xs rule: rev_induct) (auto simp: le_max_iff_disj)

lemma sum_filter_classes:
  assumes "distinct is" "f ` set xs \<subseteq> set is"
  shows "(\<Sum>i\<leftarrow>is. int (length (filter (\<lambda>x. f x = i) xs))) = int (length xs)"
proof -
  have "length (concat (map (\<lambda>i. filter (\<lambda>x. f x = i) xs) is)) = length xs"
    using mset_concat_classes [OF assms] by (metis size_mset)
  moreover have "int (sum_list (map f' is)) = (\<Sum>i\<leftarrow>is. int (f' i))" for f' :: "_ \<Rightarrow> nat" by (induction "is") simp_all
  ultimately show ?thesis by (simp add: length_concat o_def) metis
qed

lemma bucketedSummary_eq:
  assumes "obs \<noteq> []"
  shows "bucketedSummary obs w = map (\<lambda>i. summary (filter (\<lambda>ob. bucket_of w (earliest_issued obs) ob = i) obs))
     [0..foldl max 0 (map (bucket_of w (earliest_issued obs)) obs)]"
  using assms bucket_fold [of w "earliest_issued obs" obs]
  by (auto simp: bucketedSummary_def case_prod_unfold summary_def split: list.splits)

lemma time_sub_exact: "u \<le> t \<Longrightarrow> t - u \<le> max_duration \<Longrightarrow> time_sub t u = t - u"
  by (simp add: time_sub_def min_duration_def)

lemma bucket_of_eq:
  assumes "0 < w" "\<forall>ob\<in>set obs. zero_time < ob_issued ob"
    "\<forall>ob\<in>set obs. \<forall>ob'\<in>set obs. ob_issued ob - ob_issued ob' \<le> max_duration" "ob \<in> set obs"
  shows "bucket_of w (earliest_issued obs) ob = (ob_issued ob - earliest_issued obs) div w"
    and "0 \<le> bucket_of w (earliest_issued obs) ob"
proof -
  have e: "earliest_issued obs \<in> ob_issued ` set obs" "earliest_issued obs \<le> ob_issued ob"
    using earliest_issued_le [of obs] assms(2,4) by (cases obs; auto)+
  then have "time_sub (ob_issued ob) (earliest_issued obs) = ob_issued ob - earliest_issued obs"
    using assms(3,4) by (intro time_sub_exact) auto
  then show "bucket_of w (earliest_issued obs) ob = (ob_issued ob - earliest_issued obs) div w"
    and "0 \<le> bucket_of w (earliest_issued obs) ob"
    using assms(1) e(2) by (simp_all add: go_div_nonneg pos_imp_zdiv_nonneg_iff)
qed

lemma bucketedSummary_sum:
  assumes "0 < w" "obs \<noteq> []" "\<forall>ob\<in>set obs. zero_time < ob_issued ob"
    "\<forall>ob\<in>set obs. \<forall>ob'\<in>set obs. ob_issued ob - ob_issued ob' \<le> max_duration"
    and g: "\<And>xs. g (summary xs) = int (length (filter P xs))"
  shows "(\<Sum>b\<leftarrow>bucketedSummary obs w. g b) = g (summary obs)"
proof -
  let ?b = "bucket_of w (earliest_issued obs)"
  let ?is = "[0..foldl max 0 (map ?b obs)]"
  have range: "?b ` set obs \<subseteq> set ?is"
    using bucket_of_eq(2) [OF assms(1,3,4)] foldl_max_ge [of 0 "map ?b obs"] by auto
  have "(\<Sum>b\<leftarrow>bucketedSummary obs w. g b) = (\<Sum>i\<leftarrow>?is. int (length (filter (\<lambda>ob. ?b ob = i) (filter P obs))))"
    by (simp add: bucketedSummary_eq [OF assms(2)] g o_def conj_commute)
  also have "\<dots> = int (length (filter P obs))" by (rule sum_filter_classes) (use range in auto)
  finally show ?thesis by (simp add: g)
qed

lemma bucketedSummary_nth:
  assumes "0 < w" "obs \<noteq> []" "\<forall>ob\<in>set obs. zero_time < ob_issued ob"
    "\<forall>ob\<in>set obs. \<forall>ob'\<in>set obs. ob_issued ob - ob_issued ob' \<le> max_duration" "k < length (bucketedSummary obs w)"
  shows "bucketedSummary obs w ! k = summary (filter (\<lambda>ob. earliest_issued obs + int k * w \<le> ob_issued ob \<and>
     ob_issued ob < earliest_issued obs + (int k + 1) * w) obs)"
proof -
  have div_iff: "x div w = i \<longleftrightarrow> i * w \<le> x \<and> x < (i + 1) * w" for x i :: int
  proof
    assume "x div w = i"
    then show "i * w \<le> x \<and> x < (i + 1) * w"
      using div_mult_mod_eq [of x w] pos_mod_bound [OF assms(1), of x] pos_mod_sign [OF assms(1), of x] by (simp add: distrib_right)
  next
    assume "i * w \<le> x \<and> x < (i + 1) * w"
    then show "x div w = i" by (intro int_div_pos_eq [of x w i "x - i * w"]) (auto simp: algebra_simps)
  qed
  have "filter (\<lambda>ob. bucket_of w (earliest_issued obs) ob = int k) obs = filter (\<lambda>ob. earliest_issued obs + int k * w \<le> ob_issued ob \<and>
     ob_issued ob < earliest_issued obs + (int k + 1) * w) obs"
    using bucket_of_eq(1) [OF assms(1,3,4)] by (intro filter_cong refl) (auto simp: div_iff)
  then show ?thesis using assms(5) unfolding bucketedSummary_eq [OF assms(2)] by (simp add: nth_upto)
qed

section \<open>Deltas\<close>

lemma sum_bucketDeltas:
  assumes "\<forall>a\<in>set (s # samples). \<forall>b\<in>set (s # samples). - (2 ^ 63) \<le> cs_primary b - cs_primary a \<and> cs_primary b - cs_primary a < 2 ^ 63"
  shows "(\<Sum>d\<leftarrow>bucketDeltas (s # samples). cd_primary d) = cs_primary (last (s # samples)) - cs_primary s"
  using assms
proof (induction samples arbitrary: s)
  case (Cons t samples)
  have "- (2 ^ 63) \<le> cs_primary t - cs_primary s \<and> cs_primary t - cs_primary s < 2 ^ 63" using Cons.prems by simp
  then have "i64 (cs_primary t - cs_primary s) = cs_primary t - cs_primary s" by (simp add: i64_id)
  moreover have "(\<Sum>d\<leftarrow>bucketDeltas (t # samples). cd_primary d) = cs_primary (last (t # samples)) - cs_primary t"
    by (rule Cons.IH) (use Cons.prems in simp)
  ultimately show ?case by simp
qed simp

section \<open>Properties\<close>

text \<open>
  C38: The report accounts for every observation. The summaries of the buckets describe the observations issued
  in consecutive windows from the earliest issue on, each observation in exactly one: bucket \<open>k\<close> is the
  summary of those issued between \<open>k\<close> and \<open>k + 1\<close> windows after the start, and totals, successes and failures of
  the buckets add up to those of the overall summary. In every summary successes and failures add up to the
  total, and the median does not exceed the 99th percentile, both being latencies that were measured.
\<close>

theorem report_accounts_for_every_observation:
  assumes "0 < w" and "obs \<noteq> []" and "\<forall>ob\<in>set obs. zero_time < ob_issued ob"
    and "\<forall>ob\<in>set obs. \<forall>ob'\<in>set obs. ob_issued ob - ob_issued ob' \<le> max_duration"
  shows "let buckets = bucketedSummary obs w; all = summary obs; start = Min (ob_issued ` set obs)
    in (\<forall>k<length buckets. buckets ! k = summary (filter (\<lambda>ob. start + int k * w \<le> ob_issued ob \<and> ob_issued ob < start + (int k + 1) * w) obs)) \<and>
       (\<Sum>b\<leftarrow>buckets. su_total b) = su_total all \<and> (\<Sum>b\<leftarrow>buckets. su_successes b) = su_successes all \<and>
       (\<Sum>b\<leftarrow>buckets. su_failures b) = su_failures all \<and> su_successes all + su_failures all = su_total all \<and>
       su_p50Latency all \<le> su_p99Latency all \<and> {su_p50Latency all, su_p99Latency all} \<subseteq> ob_latency ` set obs"
proof -
  have start: "earliest_issued obs = Min (ob_issued ` set obs)"
    using earliest_issued_le [OF assms(2,3)] by (auto intro!: Min_eqI [symmetric])
  have "su_p50Latency (summary obs) = latencyQuantile obs (1 / 2)" "su_p99Latency (summary obs) = latencyQuantile obs (f64 (99 / 100))"
    using assms(2) by (simp_all add: summary_def case_prod_unfold)
  moreover have "1 / 2 \<le> f64 (99 / 100)" by code_simp
  ultimately have p: "su_p50Latency (summary obs) \<le> su_p99Latency (summary obs)"
    "{su_p50Latency (summary obs), su_p99Latency (summary obs)} \<subseteq> ob_latency ` set obs"
    using latencyQuantile_mono [of "1 / 2" "f64 (99 / 100)" obs] latencyQuantile_in [OF assms(2)] by auto
  have s: "su_successes (summary obs) + su_failures (summary obs) = su_total (summary obs)"
    unfolding summary_counts using sum_length_filter_compl [of "\<lambda>ob. ob_err ob = None" obs] by simp
  show ?thesis
    unfolding Let_def start [symmetric]
    using bucketedSummary_nth [OF assms] bucketedSummary_sum [OF assms summary_counts(2)] bucketedSummary_sum [OF assms summary_counts(3)]
      bucketedSummary_sum [OF assms, of su_total "\<lambda>ob. True"] summary_counts(1) p s by simp
qed

definition example_observations :: "observation list" where
  "example_observations = [\<lparr>ob_scheduled = 0, ob_issued = 1, ob_latency = 5, ob_err = None\<rparr>,
     \<lparr>ob_scheduled = 10, ob_issued = 24, ob_latency = 9, ob_err = Some Canceled\<rparr>, \<lparr>ob_scheduled = 2, ob_issued = 3, ob_latency = 7, ob_err = None\<rparr>]"

theorem report_accounts_for_every_observation_witness:
  "map su_total (bucketedSummary example_observations 10) = [2, 0, 1] \<and>
   (\<Sum>b\<leftarrow>bucketedSummary example_observations 10. su_total b) = su_total (summary example_observations)"
proof -
  have "map su_total (bucketedSummary example_observations 10) = [2, 0, 1]" by code_simp
  moreover have "(0 :: int) < 10" "example_observations \<noteq> []" "\<forall>ob\<in>set example_observations. zero_time < ob_issued ob"
    "\<forall>ob\<in>set example_observations. \<forall>ob'\<in>set example_observations. ob_issued ob - ob_issued ob' \<le> max_duration"
    by (simp_all add: example_observations_def zero_time_def max_duration_def)
  ultimately show ?thesis using report_accounts_for_every_observation [of 10 example_observations] unfolding Let_def by blast
qed

end
