(* ===== verification/Sim_Results.thy ===== *)
theory Sim_Results
  imports Sim_Metadata Sim_Observations
begin

text \<open>
  Scenarios and their verdict: the data of \<open>scenario.go\<close> and \<open>investigation.go\<close>, the event schedule of
  \<open>scenario_runner.go\<close>, the batches of \<open>main.go\<close>, and \<open>checkResult\<close> of \<open>scenario_results.go\<close>, all under
  \<open>pkg/internal/simulation/runner\<close>. The detail of a failure is a constructor with the values that the code
  prints. A schedule whose loop does not end is \<open>None\<close>.
\<close>

section \<open>Scenarios\<close>

record scenarioExpectations =
  minWgoSuccessRate :: rat
  maxSenderLag :: "duration option"
  recoveryFrom :: "duration option"
  maxHedgeSurge :: "rat option"
  slowBudget :: "duration option"
  maxWgoSlowFraction :: "rat option"
  minSuccessDeltaVsKgo :: "rat option"

record workloadProfile =
  wp_prometheus :: bool
  wp_enforceProduceTimeout :: bool
  wp_brokers :: int
  wp_partitions :: int
  wp_singleAgent :: bool
  wp_dynamicPlacement :: bool
  wp_advertisedAgents :: int
  wp_secondaryPartitions :: int
  wp_seriesPerRequest :: int
  wp_spacing :: duration
  wp_writeTimeout :: duration
  wp_dialTimeout :: duration

record 'g behaviourPhase =
  bp_at :: duration
  bp_behaviours :: "'g brokersBehaviour"

record 'g scenario =
  sc_name :: string
  sc_observedFor :: duration
  sc_behaviours :: "'g brokersBehaviour"
  sc_expect :: scenarioExpectations
  sc_transportPhases :: "transportPhase list"
  sc_profile :: "workloadProfile option"
  sc_behaviourPhases :: "'g behaviourPhase list"
  sc_windows :: "observationWindow list"
  sc_requiredWgoDelayBrokers :: "node_id list"
  sc_requireStaleFallback :: bool
  sc_collectClientEvidence :: bool

abbreviation (input) observedDuration :: duration where "observedDuration \<equiv> 60 * second"
abbreviation (input) eventSpacing :: duration where "eventSpacing \<equiv> 500 * millisecond"

definition scenario_duration :: "'g scenario \<Rightarrow> duration" where
  "scenario_duration sc = (if 0 < sc_observedFor sc then sc_observedFor sc else observedDuration)"

definition scenario_spacing :: "'g scenario \<Rightarrow> duration" where
  "scenario_spacing sc = (case sc_profile sc of Some p \<Rightarrow> wp_spacing p | None \<Rightarrow> eventSpacing)"

definition topology :: "'g scenario \<Rightarrow> int \<times> int" where
  "topology sc = (case sc_profile sc of Some p \<Rightarrow> (wp_brokers p, wp_partitions p) | None \<Rightarrow> (clusterSize, clusterSize))"

definition scenario_healthyBehaviours :: "'g latency \<Rightarrow> 'g scenario \<Rightarrow> 'g brokersBehaviour" where
  "scenario_healthyBehaviours normalLatency sc =
     (if sc_profile sc = None then healthyBehaviours normalLatency
      else override (with_latency (constantLatency (50 * millisecond))) [0..fst (topology sc) - 1] (behaviours_of []))"

definition hasInjectedDelays :: "'g scenario \<Rightarrow> bool" where
  "hasInjectedDelays sc \<longleftrightarrow>
     (\<exists>phase\<in>set (sc_behaviourPhases sc). \<exists>(i, b)\<in>set (byBroker (bp_behaviours phase)). injectedLatency b)"

section \<open>The schedule\<close>

record scenarioEvent =
  ev_at :: duration
  ev_records :: "topicPartition list"

partial_function (option) event_times :: "duration \<Rightarrow> duration \<Rightarrow> duration \<Rightarrow> duration list option" where
  "event_times dur spacing t =
     (if t < dur then Option.bind (event_times dur spacing (i64 (t + spacing))) (\<lambda>rest. Some (t # rest)) else Some [])"

definition buildScenarioEvents :: "topic \<Rightarrow> int \<Rightarrow> duration \<Rightarrow> duration \<Rightarrow> scenarioEvent list option" where
  "buildScenarioEvents topic numPartitions dur spacing =
     map_option (map (\<lambda>t. \<lparr>ev_at = t, ev_records = map (Pair topic) [0..numPartitions - 1]\<rparr>)) (event_times dur spacing 0)"

text \<open>The retry backoff of the baseline client.\<close>

definition simulationRetryBackoff :: "int \<Rightarrow> duration" where
  "simulationRetryBackoff failures =
     (if failures \<le> 1 then 250 * millisecond else if 5 < failures then 5 * second
      else min (250 * millisecond * 2 ^ nat (failures - 1)) (5 * second))"

section \<open>Batches\<close>

definition batchScenarios :: "'a list \<Rightarrow> int \<Rightarrow> int \<Rightarrow> 'a list option" where
  "batchScenarios available batch batches =
     (if batches < 1 \<or> batch < 1 \<or> batches < batch \<or> int (length available) < batches then None
      else Some (map snd (filter (\<lambda>(i, sc). int i mod batches = batch - 1) (enumerate 0 available))))"

section \<open>The verdict\<close>

record staleFallbackEvidence =
  sf_BrokerOnlyWithdrawals :: int
  sf_StaleRoutingResponses :: int
  sf_FallbackErrors :: int
  sf_FallbackErrorReasons :: "(string, int) gomap"
  sf_ThirdAttemptSuccesses :: int
  sf_TerminalErrors :: int

record clientEvidence =
  ce_WriteFailures :: "(string, int) gomap"
  ce_DirectFailures :: "(string, int) gomap"
  ce_HedgeSuppression :: "(string, int) gomap"
  ce_HedgeTriggers :: "(string, int) gomap"

record 'g scenarioResult =
  re_sc :: "'g scenario"
  re_observationDescription :: string
  re_wgoSender :: "(string, rat) gomap"
  re_kgoSender :: "(string, rat) gomap"
  re_clientEvidence :: "clientEvidence option"
  re_staleFallback :: "staleFallbackEvidence option"
  re_windows :: "windowResult list"
  re_wgoLatencySelections :: "(node_id, int) gomap"
  re_kgoLatencySelections :: "(node_id, int) gomap"
  re_workloadDescription :: string
  re_workloadConfiguration :: string
  re_recoveryResponseDescription :: string
  re_wgoSummary :: observationsSummary
  re_kgoSummary :: observationsSummary
  re_wgoBuckets :: "observationsSummary list"
  re_kgoBuckets :: "observationsSummary list"
  re_produceDeltas :: "counterBucketDelta list"
  re_totalPrimary :: int
  re_totalHedge :: int
  re_wgoErrorCounts :: "(string, int) gomap"
  re_kgoErrorCounts :: "(string, int) gomap"
  re_wgoSlowFraction :: "rat option"
  re_wgoRecovery :: observationsSummary
  re_wgoRecoverySlowFraction :: rat
  re_wgoTransport :: transportStats
  re_kgoTransport :: transportStats
  re_wgoMissingLeaders :: "(node_id, int) gomap"
  re_kgoMissingLeaders :: "(node_id, int) gomap"

definition successFraction :: "observationsSummary \<Rightarrow> rat" where
  "successFraction s = (if su_total s = 0 then 0 else f64_div (f64_of_int (su_successes s)) (f64_of_int (su_total s)))"

definition hasSlowFractionGate :: "'g scenarioResult \<Rightarrow> bool" where
  "hasSlowFractionGate r \<longleftrightarrow> slowBudget (sc_expect (re_sc r)) \<noteq> None \<and>
     maxWgoSlowFraction (sc_expect (re_sc r)) \<noteq> None \<and> re_wgoSlowFraction r \<noteq> None"

datatype failure_detail =
    SuccessRateBelow rat rat
  | SlowFractionAbove duration rat rat
  | SuccessDeltaBelow rat rat
  | MissingSenderEvidence
  | SenderSamples string rat
  | SenderLag rat duration
  | StaleFallbackNotExercised
  | NoThirdAgent
  | TerminalErrors int
  | FaultNotFelt string node_id
  | NoMissingLeaderServed string node_id
  | NoRecoveryResponse node_id
  | NoDelaySelected string
  | NoDelayOnBroker node_id
  | RecoveryIncomplete int int int "(rat \<times> duration) option"
  | HedgeSurge int int rat

text \<open>\<open>time.Duration.Seconds\<close>.\<close>

definition Seconds :: "duration \<Rightarrow> rat" where
  "Seconds d = f64 (f64_of_int (go_div d second) + f64_div (f64_of_int (go_mod d second)) (of_int second))"

definition check_rates :: "'g scenarioResult \<Rightarrow> failure_detail list" where
  "check_rates res =
     (let expect = sc_expect (re_sc res); got = successFraction (re_wgoSummary res)
      in (if got < minWgoSuccessRate expect then [SuccessRateBelow got (minWgoSuccessRate expect)] else []) @
         (case (slowBudget expect, maxWgoSlowFraction expect, re_wgoSlowFraction res) of
            (Some budget, Some limit, Some slow) \<Rightarrow> if limit < slow then [SlowFractionAbove budget slow limit] else []
          | _ \<Rightarrow> []) @
         (case minSuccessDeltaVsKgo expect of
            None \<Rightarrow> []
          | Some m \<Rightarrow> (let delta = f64 (got - successFraction (re_kgoSummary res))
                       in if delta < m then [SuccessDeltaBelow delta m] else [])))"

definition check_sender :: "'g scenarioResult \<Rightarrow> failure_detail list" where
  "check_sender res =
     (case maxSenderLag (sc_expect (re_sc res)) of
        None \<Rightarrow> []
      | Some limit \<Rightarrow>
          if re_wgoSender res = [] then [MissingSenderEvidence]
          else concat (map (\<lambda>counter. let n = get_or 0 (re_wgoSender res) counter in if 0 < n then [SenderSamples counter n] else [])
                 [''samples_failed_total'', ''samples_dropped_total'']) @
               (let lag = get_or 0 (re_wgoSender res) ''max_source_lag_seconds'' in if Seconds limit < lag then [SenderLag lag limit] else []))"

definition check_stale_fallback :: "'g scenarioResult \<Rightarrow> failure_detail list" where
  "check_stale_fallback res =
     (if \<not> sc_requireStaleFallback (re_sc res) then []
      else case re_staleFallback res of
        None \<Rightarrow> [StaleFallbackNotExercised, NoThirdAgent]
      | Some e \<Rightarrow>
          (if sf_BrokerOnlyWithdrawals e = 0 \<or> sf_StaleRoutingResponses e = 0 \<or> sf_FallbackErrors e = 0 then [StaleFallbackNotExercised] else []) @
          (if sf_ThirdAttemptSuccesses e = 0 then [NoThirdAgent] else []) @
          (if 0 < sf_TerminalErrors e then [TerminalErrors (sf_TerminalErrors e)] else []))"

definition check_phase :: "'g scenarioResult \<Rightarrow> transportPhase \<Rightarrow> failure_detail list" where
  "check_phase res phase =
     (let i = tph_nodeID phase; action = tph_action phase
      in concat (map (\<lambda>(name, stats). let st = get_or no_transport (ts_byBroker stats) i
             in if action \<in> {killPod, removePod, withdrawPod} \<and> bt_closedConnections st = 0 \<or> action = blackholePod \<and> bt_droppedBytes st = 0
                then [FaultNotFelt name i] else []) [(''wgo'', re_wgoTransport res), (''kgo'', re_kgoTransport res)]) @
         (if action = withdrawPod
          then concat (map (\<lambda>(name, responses). if get_or 0 responses i = 0 then [NoMissingLeaderServed name i] else [])
                 [(''wgo'', re_wgoMissingLeaders res), (''kgo'', re_kgoMissingLeaders res)]) else []) @
         (if action \<in> {restorePod, replacePod} \<and> get_or 0 (ts_recoveredResponses (re_wgoTransport res)) i = 0 then [NoRecoveryResponse i] else []))"

definition check_delays :: "'g scenarioResult \<Rightarrow> failure_detail list" where
  "check_delays res =
     (if hasInjectedDelays (re_sc res)
      then concat (map (\<lambda>(name, selected). if sum_list (map snd selected) = 0 then [NoDelaySelected name] else [])
             [(''wgo'', re_wgoLatencySelections res), (''kgo'', re_kgoLatencySelections res)]) else []) @
     concat (map (\<lambda>i. if get_or 0 (re_wgoLatencySelections res) i = 0 then [NoDelayOnBroker i] else [])
       (sc_requiredWgoDelayBrokers (re_sc res)))"

definition check_recovery :: "'g scenarioResult \<Rightarrow> failure_detail list option" where
  "check_recovery res =
     (case recoveryFrom (sc_expect (re_sc res)) of
        None \<Rightarrow> Some []
      | Some from \<Rightarrow>
          map_option (\<lambda>events.
            let want = (if re_observationDescription res \<noteq> [] then su_total (re_wgoRecovery res) else int (length events));
                budget = slowBudget (sc_expect (re_sc res)); slow = re_wgoRecoverySlowFraction res
            in if want = 0 \<or> su_total (re_wgoRecovery res) \<noteq> want \<or> su_successes (re_wgoRecovery res) \<noteq> want \<or> budget \<noteq> None \<and> 0 < slow
               then [RecoveryIncomplete (su_successes (re_wgoRecovery res)) (su_total (re_wgoRecovery res)) want
                       (map_option (Pair slow) budget)]
               else [])
            (buildScenarioEvents [] 0 (i64 (scenario_duration (re_sc res) - from)) (scenario_spacing (re_sc res))))"

definition check_surge :: "'g scenarioResult \<Rightarrow> failure_detail list" where
  "check_surge res =
     (case maxHedgeSurge (sc_expect (re_sc res)) of
        None \<Rightarrow> []
      | Some limit \<Rightarrow>
          if re_totalPrimary res = 0 \<or> limit < f64_div (f64_of_int (re_totalHedge res)) (f64_of_int (re_totalPrimary res))
          then [HedgeSurge (re_totalHedge res) (re_totalPrimary res) limit] else [])"

definition checkResult :: "'g scenarioResult \<Rightarrow> (string \<times> failure_detail) list option" where
  "checkResult res =
     map_option (\<lambda>recovery. map (Pair (sc_name (re_sc res)))
         (check_rates res @ check_sender res @ check_stale_fallback res @
          concat (map (check_phase res) (sc_transportPhases (re_sc res))) @ check_delays res @ recovery @ check_surge res))
       (check_recovery res)"

fun check_all :: "'g scenarioResult list \<Rightarrow> (string \<times> failure_detail) list option" where
  "check_all [] = Some []"
| "check_all (res # results) = Option.bind (checkResult res) (\<lambda>out. map_option ((@) out) (check_all results))"

section \<open>Schedules end\<close>

definition event_count :: "duration \<Rightarrow> duration \<Rightarrow> nat" where
  "event_count dur spacing = nat ((dur + spacing - 1) div spacing)"

lemma event_times_eq:
  assumes "0 < spacing" "0 \<le> t" "dur + spacing \<le> max_duration"
  shows "event_times dur spacing t = Some (map (\<lambda>k. t + int k * spacing) [0..<event_count (dur - t) spacing])"
  using assms(2)
proof (induction "nat (dur - t)" arbitrary: t rule: less_induct)
  case less
  show ?case
  proof (cases "t < dur")
    case True
    then have i: "i64 (t + spacing) = t + spacing" using less.prems assms by (intro i64_id) (simp_all add: max_duration_def)
    have "event_count (dur - t) spacing = Suc (event_count (dur - (t + spacing)) spacing)"
    proof -
      have "(dur - t + spacing - 1) div spacing = (dur - (t + spacing) + spacing - 1) div spacing + 1"
        using div_add_self2 [of spacing "dur - t - 1"] assms(1) by (simp add: algebra_simps)
      moreover have "0 \<le> (dur - (t + spacing) + spacing - 1) div spacing" using True assms(1) by (simp add: pos_imp_zdiv_nonneg_iff)
      ultimately show ?thesis by (simp add: event_count_def nat_add_distrib)
    qed
    moreover have "event_times dur spacing (t + spacing) = Some (map (\<lambda>k. t + spacing + int k * spacing) [0..<event_count (dur - (t + spacing)) spacing])"
      using less True assms(1) by simp
    moreover have "map (\<lambda>k. t + int k * spacing) [0..<Suc n] = t # map (\<lambda>k. t + spacing + int k * spacing) [0..<n]" for n
      by (simp add: upt_conv_Cons map_Suc_upt [symmetric] o_def algebra_simps del: upt_Suc)
    ultimately show ?thesis using True i by (subst event_times.simps) simp
  next
    case False
    then have "(dur - t + spacing - 1) div spacing \<le> 0" using assms(1) zdiv_mono1 [of "dur - t + spacing - 1" "spacing - 1" spacing] by simp
    with False show ?thesis by (subst event_times.simps) (simp add: event_count_def)
  qed
qed

lemma buildScenarioEvents_length:
  assumes "0 < spacing" "dur + spacing \<le> max_duration"
  shows "\<exists>events. buildScenarioEvents topic n dur spacing = Some events \<and> length events = event_count dur spacing \<and>
     (\<forall>k<length events. ev_at (events ! k) = int k * spacing)"
  using event_times_eq [OF assms(1) _ assms(2), of 0] by (simp add: buildScenarioEvents_def)

section \<open>Batches\<close>

text \<open>Every scenario runs in exactly one batch.\<close>

lemma batches_partition:
  assumes "1 \<le> batches" "batches \<le> int (length available)"
  shows "mset (concat (map (\<lambda>b. case batchScenarios available b batches of Some scs \<Rightarrow> scs | None \<Rightarrow> []) [1..batches])) = mset available"
proof -
  let ?en = "enumerate 0 available"
  let ?residue = "\<lambda>p. int (fst p) mod batches + 1"
  have "(case batchScenarios available b batches of Some scs \<Rightarrow> scs | None \<Rightarrow> []) = map snd (filter (\<lambda>p. ?residue p = b) ?en)"
    if "b \<in> set [1..batches]" for b
    using assms that by (auto simp: batchScenarios_def case_prod_unfold algebra_simps intro!: arg_cong [where f = "map snd"] filter_cong)
  then have "concat (map (\<lambda>b. case batchScenarios available b batches of Some scs \<Rightarrow> scs | None \<Rightarrow> []) [1..batches]) =
      map snd (concat (map (\<lambda>b. filter (\<lambda>p. ?residue p = b) ?en) [1..batches]))"
    unfolding map_concat by (intro arg_cong [where f = concat]) (simp add: o_def)
  moreover have "mset (concat (map (\<lambda>b. filter (\<lambda>p. ?residue p = b) ?en) [1..batches])) = mset ?en"
    by (rule mset_concat_classes) (use assms(1) pos_mod_bound [of batches] in \<open>auto simp: add1_zle_eq\<close>)
  ultimately show ?thesis by (simp only: mset_map) (simp flip: mset_map)
qed

section \<open>What a pass means\<close>

definition phase_evidence :: "'g scenarioResult \<Rightarrow> transportPhase \<Rightarrow> bool" where
  "phase_evidence res phase \<longleftrightarrow>
     (let i = tph_nodeID phase; action = tph_action phase
      in (\<forall>stats\<in>{re_wgoTransport res, re_kgoTransport res}.
            (action \<in> {killPod, removePod, withdrawPod} \<longrightarrow> bt_closedConnections (get_or no_transport (ts_byBroker stats) i) \<noteq> 0) \<and>
            (action = blackholePod \<longrightarrow> bt_droppedBytes (get_or no_transport (ts_byBroker stats) i) \<noteq> 0)) \<and>
         (action = withdrawPod \<longrightarrow> get_or 0 (re_wgoMissingLeaders res) i \<noteq> 0 \<and> get_or 0 (re_kgoMissingLeaders res) i \<noteq> 0) \<and>
         (action \<in> {restorePod, replacePod} \<longrightarrow> get_or 0 (ts_recoveredResponses (re_wgoTransport res)) i \<noteq> 0))"

definition recovered :: "'g scenarioResult \<Rightarrow> bool" where
  "recovered res \<longleftrightarrow>
     (\<forall>from. recoveryFrom (sc_expect (re_sc res)) = Some from \<longrightarrow>
        su_total (re_wgoRecovery res) \<noteq> 0 \<and> su_successes (re_wgoRecovery res) = su_total (re_wgoRecovery res) \<and>
        (re_observationDescription res = [] \<longrightarrow>
           su_total (re_wgoRecovery res) = int (event_count (scenario_duration (re_sc res) - from) (scenario_spacing (re_sc res)))) \<and>
        (slowBudget (sc_expect (re_sc res)) \<noteq> None \<longrightarrow> re_wgoRecoverySlowFraction res \<le> 0))"

definition expectations_met :: "'g scenarioResult \<Rightarrow> bool" where
  "expectations_met res \<longleftrightarrow>
     (let e = sc_expect (re_sc res); rate = successFraction (re_wgoSummary res)
      in minWgoSuccessRate e \<le> rate \<and>
         (\<forall>limit slow. slowBudget e \<noteq> None \<longrightarrow> maxWgoSlowFraction e = Some limit \<longrightarrow> re_wgoSlowFraction res = Some slow \<longrightarrow> slow \<le> limit) \<and>
         (\<forall>m. minSuccessDeltaVsKgo e = Some m \<longrightarrow> m \<le> f64 (rate - successFraction (re_kgoSummary res))) \<and>
         (\<forall>lag. maxSenderLag e = Some lag \<longrightarrow> re_wgoSender res \<noteq> [] \<and>
            (\<forall>c\<in>{''samples_failed_total'', ''samples_dropped_total''}. get_or 0 (re_wgoSender res) c \<le> 0) \<and>
            get_or 0 (re_wgoSender res) ''max_source_lag_seconds'' \<le> Seconds lag) \<and>
         (sc_requireStaleFallback (re_sc res) \<longrightarrow> (\<exists>ev. re_staleFallback res = Some ev \<and> sf_BrokerOnlyWithdrawals ev \<noteq> 0 \<and>
            sf_StaleRoutingResponses ev \<noteq> 0 \<and> sf_FallbackErrors ev \<noteq> 0 \<and> sf_ThirdAttemptSuccesses ev \<noteq> 0 \<and> sf_TerminalErrors ev \<le> 0)) \<and>
         (\<forall>phase\<in>set (sc_transportPhases (re_sc res)). phase_evidence res phase) \<and>
         (hasInjectedDelays (re_sc res) \<longrightarrow> sum_list (map snd (re_wgoLatencySelections res)) \<noteq> 0 \<and> sum_list (map snd (re_kgoLatencySelections res)) \<noteq> 0) \<and>
         (\<forall>i\<in>set (sc_requiredWgoDelayBrokers (re_sc res)). get_or 0 (re_wgoLatencySelections res) i \<noteq> 0) \<and>
         recovered res \<and>
         (\<forall>limit. maxHedgeSurge e = Some limit \<longrightarrow> re_totalPrimary res \<noteq> 0 \<and>
            f64_div (f64_of_int (re_totalHedge res)) (f64_of_int (re_totalPrimary res)) \<le> limit))"

lemma check_rates_Nil: "check_rates res = [] \<longleftrightarrow>
    minWgoSuccessRate (sc_expect (re_sc res)) \<le> successFraction (re_wgoSummary res) \<and>
    (\<forall>limit slow. slowBudget (sc_expect (re_sc res)) \<noteq> None \<longrightarrow> maxWgoSlowFraction (sc_expect (re_sc res)) = Some limit \<longrightarrow>
       re_wgoSlowFraction res = Some slow \<longrightarrow> slow \<le> limit) \<and>
    (\<forall>m. minSuccessDeltaVsKgo (sc_expect (re_sc res)) = Some m \<longrightarrow>
       m \<le> f64 (successFraction (re_wgoSummary res) - successFraction (re_kgoSummary res)))"
  unfolding check_rates_def Let_def by (auto split: option.split)

lemma check_phase_Nil: "check_phase res phase = [] \<longleftrightarrow> phase_evidence res phase"
  unfolding check_phase_def phase_evidence_def Let_def by (cases "tph_action phase") auto

lemma check_recovery_Nil:
  assumes "0 < scenario_spacing (re_sc res)"
    and "\<And>from. recoveryFrom (sc_expect (re_sc res)) = Some from \<Longrightarrow> 0 \<le> from \<and> from \<le> scenario_duration (re_sc res)"
    and "scenario_duration (re_sc res) + scenario_spacing (re_sc res) \<le> max_duration"
  shows "\<exists>out. check_recovery res = Some out \<and> (out = [] \<longleftrightarrow> recovered res)"
proof (cases "recoveryFrom (sc_expect (re_sc res))")
  case None
  then show ?thesis by (simp add: check_recovery_def recovered_def)
next
  case (Some t)
  let ?d = "scenario_duration (re_sc res) - t"
  have t: "0 \<le> t" "t \<le> scenario_duration (re_sc res)" using assms(2) [OF Some] by simp_all
  then have "i64 ?d = ?d" using assms(1,3) by (intro i64_id) (simp_all add: max_duration_def)
  moreover obtain events where "buildScenarioEvents [] 0 ?d (scenario_spacing (re_sc res)) = Some events"
      "length events = event_count ?d (scenario_spacing (re_sc res))"
    using buildScenarioEvents_length [OF assms(1), of ?d "[]" 0] t assms(3) by auto
  ultimately show ?thesis using Some by (auto simp: check_recovery_def recovered_def Let_def not_less)
qed

lemma check_verdict:
  assumes "0 < scenario_spacing (re_sc res)"
    and "\<forall>t. recoveryFrom (sc_expect (re_sc res)) = Some t \<longrightarrow> 0 \<le> t \<and> t \<le> scenario_duration (re_sc res)"
    and "scenario_duration (re_sc res) + scenario_spacing (re_sc res) \<le> max_duration"
  shows "\<exists>out. checkResult res = Some out \<and> (out = [] \<longleftrightarrow> expectations_met res)"
proof -
  obtain rec where rec: "check_recovery res = Some rec" "rec = [] \<longleftrightarrow> recovered res"
    using check_recovery_Nil [of res] assms by blast
  have sender: "check_sender res = [] \<longleftrightarrow> (\<forall>lag. maxSenderLag (sc_expect (re_sc res)) = Some lag \<longrightarrow> re_wgoSender res \<noteq> [] \<and>
      (\<forall>c\<in>{''samples_failed_total'', ''samples_dropped_total''}. get_or 0 (re_wgoSender res) c \<le> 0) \<and>
      get_or 0 (re_wgoSender res) ''max_source_lag_seconds'' \<le> Seconds lag)"
    unfolding check_sender_def Let_def by (auto split: option.split)
  have stale: "check_stale_fallback res = [] \<longleftrightarrow> (sc_requireStaleFallback (re_sc res) \<longrightarrow> (\<exists>ev. re_staleFallback res = Some ev \<and>
      sf_BrokerOnlyWithdrawals ev \<noteq> 0 \<and> sf_StaleRoutingResponses ev \<noteq> 0 \<and> sf_FallbackErrors ev \<noteq> 0 \<and>
      sf_ThirdAttemptSuccesses ev \<noteq> 0 \<and> sf_TerminalErrors ev \<le> 0))"
    unfolding check_stale_fallback_def by (auto split: option.split)
  have delays: "check_delays res = [] \<longleftrightarrow> (hasInjectedDelays (re_sc res) \<longrightarrow> sum_list (map snd (re_wgoLatencySelections res)) \<noteq> 0 \<and>
      sum_list (map snd (re_kgoLatencySelections res)) \<noteq> 0) \<and> (\<forall>i\<in>set (sc_requiredWgoDelayBrokers (re_sc res)). get_or 0 (re_wgoLatencySelections res) i \<noteq> 0)"
    unfolding check_delays_def by auto
  have surge: "check_surge res = [] \<longleftrightarrow> (\<forall>limit. maxHedgeSurge (sc_expect (re_sc res)) = Some limit \<longrightarrow> re_totalPrimary res \<noteq> 0 \<and>
      f64_div (f64_of_int (re_totalHedge res)) (f64_of_int (re_totalPrimary res)) \<le> limit)"
    unfolding check_surge_def by (auto split: option.split)
  show ?thesis
    unfolding checkResult_def expectations_met_def Let_def
    by (simp add: rec check_rates_Nil check_phase_Nil sender stale delays surge)
qed

section \<open>Properties\<close>

text \<open>
  A scenario passes exactly when every expectation is met. For a scenario whose recovery starts within its
  duration the check always comes to a verdict (its schedule ends), and it reports no failure if and only
  if the success floor, the slow-request ceiling, the margin over the baseline, the sender, the stale-fallback
  and the delay evidence, the evidence of every transport phase on both clients, the complete recovery and the
  hedge budget all hold. A gate that is not configured, or that lacks its measurement, is never the cause of a failure.
\<close>

theorem verdict_is_every_expectation:
  assumes "0 < scenario_spacing (re_sc res)"
    and "\<forall>t. recoveryFrom (sc_expect (re_sc res)) = Some t \<longrightarrow> 0 \<le> t \<and> t \<le> scenario_duration (re_sc res)"
    and "scenario_duration (re_sc res) + scenario_spacing (re_sc res) \<le> max_duration"
  shows "\<exists>out. checkResult res = Some out \<and> (out = [] \<longleftrightarrow> expectations_met res)"
  using check_verdict assms .

definition example_scenario :: "unit scenario" where
  "example_scenario = \<lparr>sc_name = ''kill'', sc_observedFor = 3 * second, sc_behaviours = behaviours_of [],
     sc_expect = \<lparr>minWgoSuccessRate = 1, maxSenderLag = None, recoveryFrom = Some (2 * second), maxHedgeSurge = None,
       slowBudget = None, maxWgoSlowFraction = None, minSuccessDeltaVsKgo = None\<rparr>,
     sc_transportPhases = [\<lparr>tph_at = second, tph_nodeID = 1, tph_action = killPod\<rparr>], sc_profile = None, sc_behaviourPhases = [],
     sc_windows = [], sc_requiredWgoDelayBrokers = [], sc_requireStaleFallback = False, sc_collectClientEvidence = False\<rparr>"

definition example_result :: "unit scenarioResult" where
  "example_result = (let st = \<lparr>ts_byBroker = [(1, \<lparr>bt_droppedBytes = 0, bt_closedConnections = 3\<rparr>)], ts_droppedBytes = 0, ts_rejectedDials = 2,
       ts_closedConnections = 3, ts_recoveredResponses = []\<rparr>; all = no_summary\<lparr>su_total := 6, su_successes := 6\<rparr>
     in \<lparr>re_sc = example_scenario, re_observationDescription = [], re_wgoSender = [], re_kgoSender = [],
       re_clientEvidence = None, re_staleFallback = None, re_windows = [], re_wgoLatencySelections = [], re_kgoLatencySelections = [],
       re_workloadDescription = [], re_workloadConfiguration = [], re_recoveryResponseDescription = [], re_wgoSummary = all,
       re_kgoSummary = all, re_wgoBuckets = [all], re_kgoBuckets = [all], re_produceDeltas = [], re_totalPrimary = 6,
       re_totalHedge = 1, re_wgoErrorCounts = [], re_kgoErrorCounts = [], re_wgoSlowFraction = None, re_wgoRecovery = no_summary\<lparr>su_total := 2, su_successes := 2\<rparr>,
       re_wgoRecoverySlowFraction = 0, re_wgoTransport = st, re_kgoTransport = st, re_wgoMissingLeaders = [], re_kgoMissingLeaders = []\<rparr>)"

theorem verdict_is_every_expectation_witness: "expectations_met example_result \<and> checkResult example_result = Some []"
proof -
  have "successFraction (no_summary\<lparr>su_total := 6, su_successes := 6\<rparr>) = 1" by code_simp
  then have "expectations_met example_result"
    by (simp add: expectations_met_def example_result_def example_scenario_def Let_def phase_evidence_def recovered_def
        hasInjectedDelays_def get_or_def event_count_def scenario_duration_def scenario_spacing_def no_summary_def)
  moreover obtain out where "checkResult example_result = Some out" "out = [] \<longleftrightarrow> expectations_met example_result"
    using verdict_is_every_expectation [of example_result]
    by (auto simp: example_result_def example_scenario_def Let_def scenario_duration_def scenario_spacing_def max_duration_def)
  ultimately show ?thesis by simp
qed

end
