(* ===== verification/Sim_Scenarios.thy ===== *)
theory Sim_Scenarios
  imports Sim_Results
begin

text \<open>
  The scenarios that the simulation ships: \<open>scenarios\<close> of \<open>scenario.go\<close>, \<open>transportScenarios\<close> of
  \<open>transport_phases.go\<close>, \<open>investigationScenarios\<close> and \<open>profileScenarios\<close> of \<open>investigation.go\<close> and
  \<open>storagePressureScenarios\<close> of \<open>storage_pressure.go\<close>, all under \<open>pkg/internal/simulation/runner\<close>. The prose
  description of a scenario is left out. The latency distributions are arguments; a panic is \<open>None\<close>.
\<close>

record 'g latencies =
  la_lib :: "'g rand_lib"
  la_normal :: "'g latency"
  la_high :: "'g latency"

definition no_expectations :: scenarioExpectations where
  "no_expectations = \<lparr>minWgoSuccessRate = 0, maxSenderLag = None, recoveryFrom = None, maxHedgeSurge = None,
     slowBudget = None, maxWgoSlowFraction = None, minSuccessDeltaVsKgo = None\<rparr>"

text \<open>A scenario literal with the zero value in the fields that it does not name.\<close>

definition new_scenario :: "string \<Rightarrow> 'g brokersBehaviour \<Rightarrow> scenarioExpectations \<Rightarrow> 'g scenario" where
  "new_scenario name behaviours expect = \<lparr>sc_name = name, sc_observedFor = 0, sc_behaviours = behaviours, sc_expect = expect,
     sc_transportPhases = [], sc_profile = None, sc_behaviourPhases = [], sc_windows = [], sc_requiredWgoDelayBrokers = [],
     sc_requireStaleFallback = False, sc_collectClientEvidence = False\<rparr>"

definition floor_rate :: "rat \<Rightarrow> scenarioExpectations" where
  "floor_rate r = no_expectations\<lparr>minWgoSuccessRate := r\<rparr>"

definition floor_and_delta :: "rat \<Rightarrow> rat \<Rightarrow> scenarioExpectations" where
  "floor_and_delta r delta = (floor_rate r)\<lparr>minSuccessDeltaVsKgo := Some delta\<rparr>"

definition floor_and_slow :: "rat \<Rightarrow> duration \<Rightarrow> rat \<Rightarrow> scenarioExpectations" where
  "floor_and_slow r budget limit = (floor_rate r)\<lparr>slowBudget := Some budget, maxWgoSlowFraction := Some limit\<rparr>"

section \<open>The standard scenarios\<close>

definition agentCount :: "int \<Rightarrow> int \<Rightarrow> int option" where
  "agentCount numerator denominator =
     (let n = go_div (clusterSize * numerator) denominator in if n \<le> 0 \<or> clusterSize \<le> n then None else Some n)"

definition failing_one_percent :: "'g latencies \<Rightarrow> 'g brokersBehaviour" where
  "failing_one_percent la =
     override ((with_latency (la_normal la))\<lparr>failRate := f64 (1 / 100)\<rparr>) [0..clusterSize - 1] (healthyBehaviours (la_normal la))"

definition gcs_outage :: "'g latencies \<Rightarrow> int \<Rightarrow> int \<Rightarrow> 'g brokersBehaviour" where
  "gcs_outage la badCount modCount =
     override (with_latency (burstyLatency (la_lib la) (la_normal la) (f64 (1 / 10)) (3 * second))) [badCount..badCount + modCount - 1]
       (override (with_latency (burstyLatency (la_lib la) (la_normal la) (f64 (1 / 4)) (9 * second))) [0..badCount - 1]
         (healthyBehaviours (la_normal la)))"

definition pod_expectations :: scenarioExpectations where
  "pod_expectations = (floor_and_slow 1 (2 * second) (f64 (15 / 100)))\<lparr>recoveryFrom := Some (50 * second), maxHedgeSurge := Some (f64 (25 / 100))\<rparr>"

definition phase :: "duration \<Rightarrow> node_id \<Rightarrow> transportAction \<Rightarrow> transportPhase" where
  "phase t i action = \<lparr>tph_at = t, tph_nodeID = i, tph_action = action\<rparr>"

definition transportScenarios :: "'g latencies \<Rightarrow> 'g scenario list" where
  "transportScenarios la =
     (let healthy = healthyBehaviours (la_normal la)
      in [(new_scenario ''pod killed during writes'' healthy pod_expectations)\<lparr>sc_transportPhases :=
            [phase (10 * second) 1 killPod, phase (30 * second) 1 restorePod]\<rparr>,
          (new_scenario ''network blackhole'' healthy pod_expectations)\<lparr>sc_transportPhases :=
            [phase (10 * second) 1 blackholePod, phase (30 * second) 1 restorePod]\<rparr>,
          (new_scenario ''rolling restart'' healthy ((floor_and_slow 1 (2 * second) 0)\<lparr>recoveryFrom := Some (80 * second),
             maxHedgeSurge := Some (f64 (5 / 100))\<rparr>))\<lparr>sc_observedFor := 90 * second, sc_transportPhases :=
            [phase (5 * second) 1 withdrawPod, phase (25 * second) 1 replacePod, phase (27 * second) 2 withdrawPod,
             phase (47 * second) 2 replacePod, phase (49 * second) 3 withdrawPod, phase (69 * second) 3 replacePod]\<rparr>])"

definition scenarios :: "'g latencies \<Rightarrow> 'g scenario list option" where
  "scenarios la =
     (let n = la_normal la
      in case (agentCount 1 4, agentCount 1 4, agentCount 1 10, agentCount 4 10) of
        (Some dropped, Some slowCount, Some badCount, Some modCount) \<Rightarrow>
          if clusterSize \<le> badCount + modCount then None
          else Some (
            [new_scenario ''all healthy'' (healthyBehaviours n) (floor_rate 1),
             new_scenario ''1 dropped leader'' (missingBrokerBehaviours n [1]) (floor_and_delta 1 (1 / 2)),
             new_scenario ''25% dropped leaders'' (missingBrokerBehaviours n [0..dropped - 1]) (floor_and_delta 1 (1 / 2)),
             new_scenario ''1 fast-failing agent'' (failingBehavioursFor n [1]) (floor_and_delta 1 (1 / 2)),
             new_scenario ''1 slow agent'' (highLatencyBehavioursFor n (la_high la) [1]) (floor_and_slow 1 (2 * second) (f64 (10 / 100))),
             new_scenario ''2 fast-failing agents'' (failingBehavioursFor n [1, 2]) (floor_and_delta 1 (1 / 2)),
             new_scenario ''2 slow agents'' (highLatencyBehavioursFor n (la_high la) [1, 2]) (floor_and_slow 1 (2 * second) (f64 (15 / 100))),
             new_scenario ''1% failure rate across all agents'' (failing_one_percent la) (floor_and_delta (f64 (95 / 100)) (1 / 2)),
             new_scenario ''1% timeouts across all agents'' (burstyLatencyBehaviours (la_lib la) n (f64 (1 / 100)) (10 * second))
               (floor_and_delta (1 / 2) (f64 (20 / 100))),
             new_scenario ''1% slow bursts across all agents'' (burstyLatencyBehaviours (la_lib la) n (f64 (1 / 100)) (3 * second))
               (floor_and_slow (f64 (95 / 100)) (2 * second) (f64 (10 / 100))),
             new_scenario ''25% slow agents'' (override (with_latency (la_high la)) [0..slowCount - 1] (healthyBehaviours n))
               (floor_and_slow 1 (2500 * millisecond) (f64 (35 / 100))),
             new_scenario ''GCS slow outage (10% bad, 40% moderate)'' (gcs_outage la badCount modCount)
               (floor_and_delta (f64 (20 / 100)) (f64 (15 / 100)))] @
            transportScenarios la)
      | _ \<Rightarrow> None)"

section \<open>The investigation scenarios\<close>

definition investigation_profile :: workloadProfile where
  "investigation_profile = \<lparr>wp_prometheus = False, wp_enforceProduceTimeout = False, wp_brokers = 3, wp_partitions = 1001, wp_singleAgent = True,
     wp_dynamicPlacement = False, wp_advertisedAgents = 0, wp_secondaryPartitions = 60, wp_seriesPerRequest = 200,
     wp_spacing = 500 * millisecond, wp_writeTimeout = 4 * second, wp_dialTimeout = 500 * millisecond\<rparr>"

definition profile_healthy :: "'g latencies \<Rightarrow> workloadProfile \<Rightarrow> 'g brokersBehaviour" where
  "profile_healthy la p =
     scenario_healthyBehaviours (la_normal la) ((new_scenario [] (behaviours_of []) no_expectations)\<lparr>sc_profile := Some p\<rparr>)"

definition delayed :: "'g latency \<Rightarrow> 'g brokerBehaviour" where
  "delayed f = (with_latency f)\<lparr>injectedLatency := True\<rparr>"

definition two_phases :: "duration \<Rightarrow> 'g brokersBehaviour \<Rightarrow> duration \<Rightarrow> 'g brokersBehaviour \<Rightarrow> 'g behaviourPhase list" where
  "two_phases t b u c = [\<lparr>bp_at = t, bp_behaviours = b\<rparr>, \<lparr>bp_at = u, bp_behaviours = c\<rparr>]"

definition fault_windows :: "duration \<Rightarrow> duration \<Rightarrow> duration \<Rightarrow> observationWindow list" where
  "fault_windows degraded_to recovery_from recovery_to =
     [\<lparr>wi_name = ''before fault'', wi_from = 0, wi_to = 8 * second\<rparr>, \<lparr>wi_name = ''degraded'', wi_from = 10 * second, wi_to = degraded_to\<rparr>,
      \<lparr>wi_name = ''recovery'', wi_from = recovery_from, wi_to = recovery_to\<rparr>]"

definition investigation_degraded :: "'g latencies \<Rightarrow> 'g brokersBehaviour" where
  "investigation_degraded la = override (delayed (constantLatency (9 * second))) [1]
     (override (delayed (constantLatency (3 * second))) [0] (profile_healthy la investigation_profile))"

definition faultCase :: "'g latencies \<Rightarrow> 'g scenario" where
  "faultCase la =
     (let healthy = profile_healthy la investigation_profile
      in (new_scenario ''investigation: slow preferred agent'' healthy
            ((floor_and_slow 1 (2 * second) (f64 (5 / 100)))\<lparr>recoveryFrom := Some (145 * second)\<rparr>))
         \<lparr>sc_profile := Some investigation_profile, sc_observedFor := 180 * second,
          sc_windows := fault_windows (130 * second) (145 * second) (180 * second),
          sc_behaviourPhases := two_phases (10 * second) (investigation_degraded la) (130 * second) healthy\<rparr>)"

definition changing_profile :: workloadProfile where
  "changing_profile = investigation_profile\<lparr>wp_brokers := 4, wp_dynamicPlacement := True, wp_spacing := 50 * millisecond\<rparr>"

definition changing_case :: "'g latencies \<Rightarrow> 'g scenario" where
  "changing_case la =
     (let healthy = profile_healthy la changing_profile;
          degraded = override (delayed (constantLatency (3 * second))) [1, 2] (override (delayed (constantLatency (9 * second))) [0] healthy)
      in (faultCase la)\<lparr>sc_profile := Some changing_profile, sc_name := ''investigation: changing preferred placement'',
           sc_behaviours := healthy, sc_behaviourPhases := two_phases (10 * second) degraded (130 * second) healthy\<rparr>)"

definition intermittent_profile :: workloadProfile where
  "intermittent_profile = investigation_profile\<lparr>wp_spacing := 50 * millisecond\<rparr>"

definition intermittent_behaviour :: "'g latencies \<Rightarrow> duration \<Rightarrow> 'g brokerBehaviour" where
  "intermittent_behaviour la base =
     (delayed (burstyLatency (la_lib la) (constantLatency base) (f64 (1 / 100)) (9 * second)))\<lparr>minInjectedLatency := 50 * millisecond\<rparr>"

definition intermittent_case :: "'g latencies \<Rightarrow> 'g scenario" where
  "intermittent_case la =
     (let healthy = profile_healthy la intermittent_profile;
          degraded = override (intermittent_behaviour la (50 * millisecond)) [2]
            (override (intermittent_behaviour la (9 * second)) [1] (override (intermittent_behaviour la (3 * second)) [0] healthy))
      in (faultCase la)\<lparr>sc_profile := Some intermittent_profile, sc_name := ''investigation: intermittent fallback stalls'',
           sc_behaviourPhases := two_phases (10 * second) degraded (130 * second) healthy,
           sc_expect := (sc_expect (faultCase la))\<lparr>minWgoSuccessRate := f64 (95 / 100)\<rparr>, sc_requiredWgoDelayBrokers := [2]\<rparr>)"

definition restart_case :: "'g latencies \<Rightarrow> 'g scenario" where
  "restart_case la =
     (let healthy = profile_healthy la investigation_profile;
          restarting = (override ((with_latency (constantLatency (50 * millisecond)))\<lparr>failRate := f64 (1 / 10)\<rparr>) [0] healthy)
            \<lparr>brokerOnlyMissing := [1], topicMetadataDelay := 2 * second\<rparr>
      in (faultCase la)\<lparr>sc_name := ''investigation: stale fallback during rolling restart'', sc_observedFor := 90 * second,
           sc_behaviourPhases := two_phases (10 * second) restarting (50 * second) healthy,
           sc_windows := fault_windows (50 * second) (70 * second) (90 * second),
           sc_expect := (floor_and_slow 1 (2 * second) (f64 (5 / 100)))\<lparr>recoveryFrom := Some (70 * second)\<rparr>,
           sc_requireStaleFallback := True\<rparr>)"

definition investigationScenarios :: "'g latencies \<Rightarrow> 'g scenario list" where
  "investigationScenarios la =
     [(new_scenario ''investigation: concurrent healthy'' (profile_healthy la investigation_profile) (floor_rate 1))
        \<lparr>sc_profile := Some investigation_profile, sc_observedFor := 30 * second\<rparr>,
      faultCase la, changing_case la, intermittent_case la, restart_case la]"

section \<open>The storage pressure scenarios\<close>

definition storage_profile :: workloadProfile where
  "storage_profile = \<lparr>wp_prometheus = True, wp_enforceProduceTimeout = True, wp_brokers = 10, wp_partitions = 1001, wp_singleAgent = True,
     wp_dynamicPlacement = True, wp_advertisedAgents = 10, wp_secondaryPartitions = 60, wp_seriesPerRequest = 200,
     wp_spacing = 70 * millisecond, wp_writeTimeout = 4 * second, wp_dialTimeout = 500 * millisecond\<rparr>"

definition storage_control :: "'g latencies \<Rightarrow> 'g scenario" where
  "storage_control la = (new_scenario ''prometheus: healthy control'' (profile_healthy la storage_profile) (floor_rate 1))
     \<lparr>sc_profile := Some storage_profile, sc_observedFor := 30 * second, sc_collectClientEvidence := True\<rparr>"

definition storagePressureScenarios :: "'g latencies \<Rightarrow> 'g scenario list" where
  "storagePressureScenarios la =
     (let healthy = profile_healthy la storage_profile;
          degraded = override (delayed (constantLatency (3 * second))) [1..4] (override (delayed (constantLatency (6 * second))) [0] healthy)
      in [storage_control la,
          (storage_control la)\<lparr>sc_name := ''prometheus: sustained partial outage'', sc_observedFor := 180 * second,
            sc_behaviourPhases := two_phases (10 * second) degraded (130 * second) healthy,
            sc_windows := fault_windows (130 * second) (145 * second) (180 * second),
            sc_expect := (floor_and_slow 1 (2 * second) (f64 (5 / 100)))\<lparr>maxSenderLag := Some (5 * second), recoveryFrom := Some (145 * second)\<rparr>\<rparr>])"

section \<open>Profiles\<close>

datatype profile_error = RequiresExternal string | UnknownProfile string

definition profileScenarios :: "'g latencies \<Rightarrow> string \<Rightarrow> bool \<Rightarrow> (profile_error + 'g scenario list) option" where
  "profileScenarios la prof external =
     (if prof = ''all'' then
        (if \<not> external then Some (Inl (RequiresExternal prof))
         else map_option (\<lambda>scs. Inr (scs @ investigationScenarios la @ storagePressureScenarios la)) (scenarios la))
      else if prof = ''mimir-prometheus'' then
        (if \<not> external then Some (Inl (RequiresExternal prof)) else Some (Inr (storagePressureScenarios la)))
      else if prof = ''standard'' then map_option Inr (scenarios la)
      else if prof = ''mimir-investigation'' then
        (if \<not> external then Some (Inl (RequiresExternal prof)) else Some (Inr (investigationScenarios la)))
      else Some (Inl (UnknownProfile prof)))"

section \<open>Well-formed scenarios\<close>

text \<open>
  What the runner assumes of a scenario: its schedule ends; a slow budget comes with its ceiling; recovery,
  phases and windows lie within the observed time, in order; the two kinds of phases are not mixed; a broker
  that a phase names exists, and a broker that goes down comes back before recovery is measured.
\<close>

definition comes_back :: "duration option \<Rightarrow> transportPhase list \<Rightarrow> transportPhase \<Rightarrow> bool" where
  "comes_back from ps p \<longleftrightarrow>
     (tph_action p \<in> {killPod, blackholePod, removePod, withdrawPod} \<longrightarrow>
        (\<exists>q\<in>set ps. tph_nodeID q = tph_nodeID p \<and> tph_action q \<in> {restorePod, replacePod} \<and> tph_at p < tph_at q \<and>
           (case from of Some t \<Rightarrow> tph_at q \<le> t | None \<Rightarrow> True)))"

fun windows_ordered :: "duration \<Rightarrow> observationWindow list \<Rightarrow> bool" where
  "windows_ordered t [] \<longleftrightarrow> True"
| "windows_ordered t (w # ws) \<longleftrightarrow> t \<le> wi_from w \<and> wi_from w < wi_to w \<and> windows_ordered (wi_to w) ws"

definition scenario_wf :: "'g scenario \<Rightarrow> bool" where
  "scenario_wf sc \<longleftrightarrow>
     (let e = sc_expect sc; d = scenario_duration sc; times = map tph_at (sc_transportPhases sc) @ map bp_at (sc_behaviourPhases sc)
      in 0 < scenario_spacing sc \<and> d + scenario_spacing sc \<le> max_duration \<and>
         (slowBudget e = None \<longleftrightarrow> maxWgoSlowFraction e = None) \<and> 0 \<le> minWgoSuccessRate e \<and> minWgoSuccessRate e \<le> 1 \<and>
         (\<forall>t\<in>set_option (recoveryFrom e). 0 \<le> t \<and> t < d) \<and>
         (sc_transportPhases sc = [] \<or> sc_behaviourPhases sc = []) \<and> sorted times \<and> (\<forall>t\<in>set times. 0 \<le> t \<and> t < d) \<and>
         windows_ordered 0 (sc_windows sc) \<and> (\<forall>w\<in>set (sc_windows sc). wi_to w \<le> d) \<and>
         (\<forall>p\<in>set (sc_transportPhases sc). 0 \<le> tph_nodeID p \<and> tph_nodeID p < fst (topology sc) \<and>
            comes_back (recoveryFrom e) (sc_transportPhases sc) p))"

lemmas scenario_data = new_scenario_def no_expectations_def floor_rate_def floor_and_delta_def floor_and_slow_def pod_expectations_def
  phase_def two_phases_def fault_windows_def

lemmas scenario_wf_data = scenario_wf_def scenario_duration_def scenario_spacing_def topology_def comes_back_def clusterSize_def max_duration_def Let_def

lemma small_rates: "0 \<le> f64 (19 / 20)" "f64 (19 / 20) \<le> 1" "0 \<le> f64 (1 / 5)" "f64 (1 / 5) \<le> 1"
  by code_simp+

lemma agent_counts: "agentCount 1 4 = Some 12" "agentCount 1 10 = Some 5" "agentCount 4 10 = Some 20"
  by code_simp+

lemma transportScenarios_wf: "\<forall>sc\<in>set (transportScenarios la). scenario_wf sc"
  unfolding transportScenarios_def Let_def by (simp add: scenario_wf_data scenario_data)

lemma scenarios_wf: "\<exists>scs. scenarios la = Some scs \<and> (\<forall>sc\<in>set scs. scenario_wf sc)"
proof -
  have plain: "scenario_wf (new_scenario name b e)"
    if "recoveryFrom e = None" "slowBudget e = None \<longleftrightarrow> maxWgoSlowFraction e = None" "0 \<le> minWgoSuccessRate e \<and> minWgoSuccessRate e \<le> 1" for name and b :: "'a brokersBehaviour" and e
    using that by (simp add: scenario_wf_data new_scenario_def)
  show ?thesis
    unfolding scenarios_def Let_def agent_counts using transportScenarios_wf [of la]
    by (auto simp: clusterSize_def floor_rate_def floor_and_delta_def floor_and_slow_def no_expectations_def small_rates intro!: plain)
qed

lemma investigationScenarios_wf: "\<forall>sc\<in>set (investigationScenarios la). scenario_wf sc"
  unfolding investigationScenarios_def faultCase_def changing_case_def intermittent_case_def restart_case_def Let_def
  by (simp add: scenario_wf_data scenario_data investigation_profile_def changing_profile_def intermittent_profile_def small_rates)

lemma storagePressureScenarios_wf: "\<forall>sc\<in>set (storagePressureScenarios la). scenario_wf sc"
  unfolding storagePressureScenarios_def storage_control_def Let_def
  by (simp add: scenario_wf_data scenario_data storage_profile_def)

section \<open>Properties\<close>

definition runnable :: "'g scenario \<Rightarrow> bool" where
  "runnable sc \<longleftrightarrow> scenario_wf sc \<and>
     (\<forall>res. re_sc res = sc \<longrightarrow> (\<exists>out. checkResult res = Some out \<and> (out = [] \<longleftrightarrow> expectations_met res)))"

lemma scenario_wf_runnable: "scenario_wf sc \<Longrightarrow> runnable sc"
  unfolding runnable_def
proof (intro conjI allI impI)
  fix res :: "'a scenarioResult" assume "scenario_wf sc" "re_sc res = sc"
  then show "\<exists>out. checkResult res = Some out \<and> (out = [] \<longleftrightarrow> expectations_met res)"
    by (intro check_verdict) (auto simp: scenario_wf_def Let_def)
qed

lemma shipped_runnable: "profileScenarios la prof external = Some (Inr scs) \<Longrightarrow> sc \<in> set scs \<Longrightarrow> runnable sc"
  using scenarios_wf [of la] investigationScenarios_wf [of la] storagePressureScenarios_wf [of la]
  by (auto simp: profileScenarios_def intro!: scenario_wf_runnable split: if_split_asm)


definition example_latencies :: "unit latencies" where
  "example_latencies = \<lparr>la_lib = \<lparr>NewPCG = (\<lambda>a b. ()), Float64 = (\<lambda>g. (0, g))\<rparr>, la_normal = constantLatency 1, la_high = constantLatency 2\<rparr>"


end
