(* ===== verification/Sim_Environment.thy ===== *)
theory Sim_Environment
  imports Sim_Scenarios Client_Config Produce_Result
begin

text \<open>
  The set-up of a scenario: \<open>environment.go\<close> and the workload configuration of \<open>workload.go\<close>, both under
  \<open>pkg/internal/simulation/runner\<close>, and \<open>NewCluster\<close> of \<open>pkg/internal/testkafka/cluster.go\<close>. The fake Kafka
  cluster, the admin client that captures the Metadata response and the clients under test are third-party code
  or separate programs: what their constructors return is an argument (\<open>setup_world\<close>). A construction returns
  the sequence of resources that it opened and closed, beside its outcome; \<open>None\<close> is a panic.
\<close>

section \<open>The clients under comparison\<close>

abbreviation (input) topicName :: topic where "topicName \<equiv> ''wgo-simulation''"
abbreviation (input) secondaryTopicName :: topic where "secondaryTopicName \<equiv> ''wgo-simulation-secondary''"
abbreviation (input) appRequestTimeout :: duration where "appRequestTimeout \<equiv> 5 * second"
abbreviation (input) clientDialTimeout :: duration where "clientDialTimeout \<equiv> 2 * second"
abbreviation (input) clientWriteTimeout :: duration where "clientWriteTimeout \<equiv> 10 * second"
abbreviation (input) clientRequestTimeoutOverhead :: duration where "clientRequestTimeoutOverhead \<equiv> 2 * second"
abbreviation (input) clientProduceRequestTimeout :: duration where
  "clientProduceRequestTimeout \<equiv> clientWriteTimeout - clientRequestTimeoutOverhead"

definition simulation_opts :: "string \<Rightarrow> Opt list \<Rightarrow> Opt list" where
  "simulation_opts addr extra =
     [WithAddress [addr], WithTopic topicName, WithClientID ''ws-simulation'', WithDialTimeout clientDialTimeout,
      WithWriteTimeout clientWriteTimeout, WithLinger (50 * millisecond), WithBatchMaxBytes 16000000,
      WithHealthCheckSlowMultiplier 2, WithHealthCheckMaxSlowFraction (f64 (3 / 10)),
      WithHealthCheckFaultyThreshold (f64 (5 / 100)), WithHealthCheckMaxFaultyFraction (f64 (3 / 10)),
      WithHedgerMinHedgeDelay second, WithHedgerMaxHedgeAgents 3, WithDemoterProbeInterval second,
      WithClusterStatsTTL second, WithMetadataRefreshInterval (10 * second),
      WithProduceRequestTimeout clientProduceRequestTimeout,
      WithProduceRequestTimeoutOverhead clientRequestTimeoutOverhead] @ extra"

text \<open>
  The produce-response hook of the Warpstream client: it draws and sleeps the broker's latency; a response that
  acknowledges a partition is observed unless the hook was given an error or the context has ended by then.
\<close>

definition response_hook ::
  "'g rand_lib \<Rightarrow> instant \<Rightarrow> node_id \<Rightarrow> ProduceResponse option \<Rightarrow> goerror option \<Rightarrow> goerror option \<Rightarrow>
    'g brokersBehaviourProvider \<times> transportNetwork \<Rightarrow> 'g brokersBehaviourProvider \<times> transportNetwork" where
  "response_hook lib now nodeID response hookErr ctxErr st =
     (case st of (p, network) \<Rightarrow>
        (let (d, p) = nextLatencyFor lib p clientTypeWgo nodeID
         in (p, case response of
               None \<Rightarrow> network
             | Some resp \<Rightarrow>
                 if hookErr = None \<and> ctxErr = None \<and> list_ex (\<lambda>(tp, e). rp_ErrorCode e = 0) (entries resp)
                 then observeProduce now network nodeID else network)))"

text \<open>
  The baseline's promise: the latency is drawn for the record's partition, and an expired context replaces a
  success.
\<close>

definition delayed_promise ::
  "'g rand_lib \<Rightarrow> partition \<Rightarrow> goerror option \<Rightarrow> goerror option \<Rightarrow> 'g brokersBehaviourProvider \<Rightarrow>
    'g brokersBehaviourProvider \<times> goerror option" where
  "delayed_promise lib part err ctxErr p =
     (let (d, p) = nextLatencyFor lib p clientTypeKgo part
      in (p, if err = None \<and> ctxErr \<noteq> None then ctxErr else err))"

abbreviation (input) NotLeaderForPartition :: int where "NotLeaderForPartition \<equiv> 6"

text \<open>The control function of \<open>installFailureControl\<close>: its response on the node that serves the request.\<close>

definition failure_control ::
  "'g rand_lib \<Rightarrow> clientType \<Rightarrow> node_id \<Rightarrow> ProduceRequest \<Rightarrow> 'g brokersBehaviourProvider \<Rightarrow>
    ProduceResponse \<times> 'g brokersBehaviourProvider" where
  "failure_control lib client nodeID preq p =
     (let (shouldFail, p) = nextFailureFor lib p client nodeID;
          code = (if shouldFail then NotLeaderForPartition else 0)
      in (\<lparr>resp_Version = q_Version preq,
           resp_Topics = map (\<lambda>rt. \<lparr>rt_Topic = (if qt_Topic rt = [] then topicName else qt_Topic rt), rt_TopicID = qt_TopicID rt,
               rt_Partitions = map (\<lambda>rp. \<lparr>rp_Partition = qp_Partition rp, rp_ErrorCode = code, rp_BaseOffset = 0,
                 rp_LogAppendTime = 0, rp_LogStartOffset = 0\<rparr>) (qt_Partitions rt)\<rparr>) (q_Topics preq),
           resp_ThrottleMillis = 0\<rparr>, p))"

section \<open>External workloads\<close>

record WorkloadConfig =
  wc_Backend :: string
  wc_Address :: string
  wc_Topic :: topic
  wc_Partitions :: int
  wc_SecondaryTopic :: topic
  wc_SecondaryPartitions :: int
  wc_SeriesPerRequest :: int
  wc_Prometheus :: bool
  wc_EnforceProduceTimeout :: bool
  wc_RemoteTimeout :: duration
  wc_ArtificialDelay :: duration
  wc_WriteTimeout :: duration
  wc_WriteTimeoutOverhead :: duration
  wc_DialTimeout :: duration

definition workloadConfig :: "string \<Rightarrow> string \<Rightarrow> WorkloadConfig" where
  "workloadConfig backend address = \<lparr>wc_Backend = backend, wc_Address = address, wc_Topic = topicName, wc_Partitions = clusterSize,
     wc_SecondaryTopic = [], wc_SecondaryPartitions = 0, wc_SeriesPerRequest = 0, wc_Prometheus = False, wc_EnforceProduceTimeout = False,
     wc_RemoteTimeout = 0, wc_ArtificialDelay = 0, wc_WriteTimeout = clientWriteTimeout,
     wc_WriteTimeoutOverhead = clientRequestTimeoutOverhead, wc_DialTimeout = clientDialTimeout\<rparr>"

text \<open>The two functions that a workload configuration carries.\<close>

definition ProduceLatency ::
  "'g rand_lib \<Rightarrow> string \<Rightarrow> transportNetwork \<Rightarrow> 'g brokersBehaviourProvider \<Rightarrow> string \<Rightarrow> duration \<times> 'g brokersBehaviourProvider" where
  "ProduceLatency lib backend network p address =
     (case map_of (tn_brokers network) address of
        None \<Rightarrow> (0, p)
      | Some nodeID \<Rightarrow> nextLatencyFor lib p (if backend = ''kafka'' then clientTypeKgo else clientTypeWgo) nodeID)"

definition ObserveProduce :: "instant \<Rightarrow> transportNetwork \<Rightarrow> string \<Rightarrow> transportNetwork" where
  "ObserveProduce now network address =
     (case map_of (tn_brokers network) address of None \<Rightarrow> network | Some nodeID \<Rightarrow> observeProduce now network nodeID)"

definition secondary_partitions :: "'g scenario \<Rightarrow> int" where
  "secondary_partitions sc =
     (case sc_profile sc of
        Some p \<Rightarrow> if 0 < wp_secondaryPartitions p then wp_secondaryPartitions p else snd (topology sc)
      | None \<Rightarrow> snd (topology sc))"

definition workload :: "'g scenario \<Rightarrow> string \<Rightarrow> string \<Rightarrow> WorkloadConfig" where
  "workload sc backend address =
     (let cfg = (workloadConfig backend address)\<lparr>wc_Partitions := snd (topology sc)\<rparr>
      in case sc_profile sc of
        None \<Rightarrow> cfg
      | Some p \<Rightarrow> cfg\<lparr>wc_SecondaryTopic := secondaryTopicName, wc_SecondaryPartitions := secondary_partitions sc,
          wc_SeriesPerRequest := wp_seriesPerRequest p, wc_EnforceProduceTimeout := wp_enforceProduceTimeout p,
          wc_Prometheus := wp_prometheus p, wc_WriteTimeout := wp_writeTimeout p, wc_DialTimeout := wp_dialTimeout p,
          wc_RemoteTimeout := appRequestTimeout, wc_ArtificialDelay := 500 * millisecond\<rparr>)"

section \<open>Clusters\<close>

datatype resource = ClusterOf clientType | NetworkOf clientType | AdminOf clientType | ClientOf clientType

datatype resource_op = Opens resource | Closes resource

text \<open>
  What the constructors return: a cluster's listen addresses by broker count and seeded topics, the outcome of
  moving a partition's leader, of the admin client and its Metadata request, and of the client under test
  (\<open>None\<close> for the configuration: the runner's own client).
\<close>

record setup_world =
  uw_cluster :: "clientType \<Rightarrow> int \<Rightarrow> (int \<times> topic) list \<Rightarrow> goerror + string list"
  uw_move :: "clientType \<Rightarrow> topic \<Rightarrow> partition \<Rightarrow> node_id \<Rightarrow> goerror option"
  uw_admin :: "clientType \<Rightarrow> goerror option"
  uw_capture :: "clientType \<Rightarrow> goerror + view_response"
  uw_client :: "clientType \<Rightarrow> WorkloadConfig option \<Rightarrow> goerror option"

fun move_leaders :: "(partition \<Rightarrow> node_id \<Rightarrow> goerror option) \<Rightarrow> int \<Rightarrow> partition list \<Rightarrow> goerror option" where
  "move_leaders move numBrokers [] = None"
| "move_leaders move numBrokers (i # is) =
     (case move i (i mod numBrokers) of Some err \<Rightarrow> Some err | None \<Rightarrow> move_leaders move numBrokers is)"

text \<open>\<open>testkafka.NewCluster\<close>, without a virtual network.\<close>

definition NewCluster :: "setup_world \<Rightarrow> clientType \<Rightarrow> int \<Rightarrow> topic \<Rightarrow> int \<Rightarrow> resource_op list \<times> (goerror + string list)" where
  "NewCluster w client numPartitions topic numBrokers =
     (case uw_cluster w client numBrokers [(numPartitions, topic)] of
        Inl err \<Rightarrow> ([], Inl err)
      | Inr addrs \<Rightarrow>
          if addrs = [] then ([Opens (ClusterOf client), Closes (ClusterOf client)],
            Inl (GoError ''testkafka: fake cluster has no listen addresses''))
          else case (if 1 < length addrs then move_leaders (uw_move w client topic) (int (length addrs)) [0..numPartitions - 1] else None) of
            Some err \<Rightarrow> ([Opens (ClusterOf client), Closes (ClusterOf client)], Inl err)
          | None \<Rightarrow> ([Opens (ClusterOf client)], Inr addrs))"

definition createCluster :: "setup_world \<Rightarrow> 'g scenario \<Rightarrow> clientType \<Rightarrow> (resource_op list \<times> (goerror + string list)) option" where
  "createCluster w sc client =
     (case topology sc of (brokers, partitions) \<Rightarrow>
        if (case sc_profile sc of Some p \<Rightarrow> wp_singleAgent p | None \<Rightarrow> False)
        then (case uw_cluster w client brokers [(partitions, topicName), (secondary_partitions sc, secondaryTopicName)] of
            Inl err \<Rightarrow> Some ([], Inl err)
          | Inr addrs \<Rightarrow> if addrs = [] then None else Some ([Opens (ClusterOf client)], Inr addrs))
        else Some (NewCluster w client partitions topicName brokers))"

section \<open>The environment\<close>

definition placement_of :: "'g scenario \<Rightarrow> placement_control" where
  "placement_of sc =
     (case sc_profile sc of
        None \<Rightarrow> \<lparr>pc_singleAgent = False, pc_dynamic = False, pc_retainedFallback = -1, pc_advertised = [0]\<rparr>
      | Some p \<Rightarrow> \<lparr>pc_singleAgent = wp_singleAgent p, pc_dynamic = wp_dynamicPlacement p,
          pc_retainedFallback = (if wp_dynamicPlacement p then fst (topology sc) - 1 else -1), pc_advertised = [wp_advertisedAgents p]\<rparr>)"

definition installMetadata :: "setup_world \<Rightarrow> clientType \<Rightarrow> resource_op list \<times> (goerror + metadataView)" where
  "installMetadata w client =
     (case uw_admin w client of
        Some err \<Rightarrow> ([], Inl err)
      | None \<Rightarrow> ([Opens (AdminOf client), Closes (AdminOf client)],
          case uw_capture w client of
            Inl err \<Rightarrow> Inl (Errorf ''capture metadata: '' err [])
          | Inr raw \<Rightarrow> Inr (new_view raw)))"

definition register_all :: "string list \<Rightarrow> network_system" where
  "register_all addrs =
     network_start\<lparr>ns_net := foldl (\<lambda>n (nodeID, address). register n address (int nodeID)) newTransportNetwork (enumerate 0 addrs)\<rparr>"

text \<open>The half of \<open>newScenarioEnvironment\<close> that sets up one of the two clients.\<close>

definition cluster_label :: "clientType \<Rightarrow> string" where
  "cluster_label client = (case client of clientTypeWgo \<Rightarrow> ''warpstream'' | clientTypeKgo \<Rightarrow> ''kgo'')"

definition backend_label :: "clientType \<Rightarrow> string" where
  "backend_label client = (case client of clientTypeWgo \<Rightarrow> ''warpstream'' | clientTypeKgo \<Rightarrow> ''kafka'')"

definition setup_client :: "setup_world \<Rightarrow> bool \<Rightarrow> 'g scenario \<Rightarrow> clientType \<Rightarrow> (resource_op list \<times> (goerror + phase_target)) option" where
  "setup_client w factory sc client =
     map_option (\<lambda>(ops, r). case r of
         Inl err \<Rightarrow> (ops, Inl (Errorf (''create '' @ cluster_label client @ '' cluster: '') err []))
       | Inr addrs \<Rightarrow>
           (let ops = ops @ [Opens (NetworkOf client)];
                (admin, r) = installMetadata w client;
                ops = ops @ admin
            in case r of
              Inl err \<Rightarrow> (ops, Inl err)
            | Inr view \<Rightarrow>
                (case uw_client w client (if factory then Some (workload sc (backend_label client) (hd addrs)) else None) of
                   Some err \<Rightarrow> (ops, Inl (Errorf (''create '' @ backend_label client @ '' workload: '') err []))
                 | None \<Rightarrow> (ops @ [Opens (ClientOf client)], Inr \<lparr>pt_network = register_all addrs, pt_metadata = view\<rparr>))))
       (createCluster w sc client)"

record 'g environment =
  env_topic :: topic
  env_numPartitions :: int
  env_behaviours :: "'g brokersBehaviourProvider"
  env_wgo :: phase_target
  env_kgo :: phase_target

text \<open>The resources that the three lists of the deferred clean-up hold after a sequence of operations.\<close>

definition owned :: "(clientType \<Rightarrow> resource) \<Rightarrow> resource_op list \<Rightarrow> resource_op list" where
  "owned kind ops =
     map Closes (filter (\<lambda>r. Closes r \<notin> set ops)
       (List.map_filter (\<lambda>x. case x of Opens r \<Rightarrow> (if r \<in> {kind clientTypeWgo, kind clientTypeKgo} then Some r else None) | Closes r \<Rightarrow> None) ops))"

definition tear_down :: "resource_op list \<Rightarrow> resource_op list" where
  "tear_down ops = owned ClientOf ops @ owned NetworkOf ops @ owned ClusterOf ops"

definition newScenarioEnvironment ::
  "setup_world \<Rightarrow> 'g brokersBehaviour \<Rightarrow> bool \<Rightarrow> 'g scenario \<Rightarrow> (resource_op list \<times> (goerror + 'g environment)) option" where
  "newScenarioEnvironment w initial factory sc =
     (if sc_profile sc \<noteq> None \<and> \<not> factory then Some ([], Inl (GoError ''investigation topology requires an external workload''))
      else Option.bind (setup_client w factory sc clientTypeWgo) (\<lambda>(ops, r).
        case r of
          Inl err \<Rightarrow> Some (ops @ tear_down ops, Inl err)
        | Inr wgo \<Rightarrow> map_option (\<lambda>(ops', r). let ops = ops @ ops' in
            case r of
              Inl err \<Rightarrow> (ops @ tear_down ops, Inl err)
            | Inr kgo \<Rightarrow> (ops, Inr \<lparr>env_topic = topicName, env_numPartitions = snd (topology sc),
                env_behaviours = newBrokersBehaviourProvider initial, env_wgo = wgo, env_kgo = kgo\<rparr>))
            (setup_client w factory sc clientTypeKgo)))"

definition environment_Close :: "resource_op list" where
  "environment_Close = map Closes [ClientOf clientTypeWgo, ClientOf clientTypeKgo, NetworkOf clientTypeWgo, NetworkOf clientTypeKgo,
     ClusterOf clientTypeWgo, ClusterOf clientTypeKgo]"

section \<open>Properties\<close>

lemma f64_settings: "0 \<le> f64 (3 / 10)" "f64 (3 / 10) \<le> 1" "0 < f64 (5 / 100)" "f64 (5 / 100) \<le> 1"
  by code_simp+

lemma simulation_config_valid: "Validate (NewConfig (simulation_opts addr [WithDialer dialer])) = None"
  using f64_settings
  by (simp add: simulation_opts_def NewConfig_def DefaultConfig_def WithAddress_def WithTopic_def WithClientID_def
      WithDialTimeout_def WithWriteTimeout_def WithLinger_def WithBatchMaxBytes_def WithHealthCheckSlowMultiplier_def
      WithHealthCheckMaxSlowFraction_def WithHealthCheckFaultyThreshold_def WithHealthCheckMaxFaultyFraction_def
      WithHedgerMinHedgeDelay_def WithHedgerMaxHedgeAgents_def WithDemoterProbeInterval_def WithClusterStatsTTL_def
      WithMetadataRefreshInterval_def WithProduceRequestTimeout_def WithProduceRequestTimeoutOverhead_def WithDialer_def
      Validate_def HealthCheck_Validate_def Demoter_Validate_def DirectProducer_Validate_def i64_id)

text \<open>
  The life of resources: nothing is opened twice or closed without being open, a client (the admin client too) is
  closed before the network and the cluster it talks to, a network before its cluster, and nothing stays open.
\<close>

fun needs :: "resource \<Rightarrow> resource list" where
  "needs (ClientOf c) = [NetworkOf c, ClusterOf c]"
| "needs (AdminOf c) = [NetworkOf c, ClusterOf c]"
| "needs (NetworkOf c) = [ClusterOf c]"
| "needs (ClusterOf c) = []"

fun released :: "resource list \<Rightarrow> resource_op list \<Rightarrow> bool" where
  "released live [] \<longleftrightarrow> live = []"
| "released live (Opens r # ops) \<longleftrightarrow> r \<notin> set live \<and> set (needs r) \<subseteq> set live \<and> released (r # live) ops"
| "released live (Closes r # ops) \<longleftrightarrow> r \<in> set live \<and> (\<forall>x\<in>set live. r \<notin> set (needs x)) \<and> released (removeAll r live) ops"

abbreviation up_to_admin :: "clientType \<Rightarrow> resource_op list" where
  "up_to_admin c \<equiv> [Opens (ClusterOf c), Opens (NetworkOf c), Opens (AdminOf c), Closes (AdminOf c)]"

abbreviation cluster_outcome :: "clientType \<Rightarrow> resource_op list \<Rightarrow> goerror + 'a \<Rightarrow> bool" where
  "cluster_outcome c ops r \<equiv>
     isl r \<and> ops \<in> {[], [Opens (ClusterOf c), Closes (ClusterOf c)]} \<or> \<not> isl r \<and> ops = [Opens (ClusterOf c)]"

lemma NewCluster_ops: "NewCluster w c n t k = (ops, r) \<Longrightarrow> cluster_outcome c ops r"
  by (cases "uw_cluster w c k [(n, t)]"; cases r) (auto simp: NewCluster_def split: option.split_asm if_split_asm)

lemma createCluster_ops: "createCluster w sc c = Some (ops, r) \<Longrightarrow> cluster_outcome c ops r"
  by (cases "uw_cluster w c (fst (topology sc)) [(snd (topology sc), topicName), (secondary_partitions sc, secondaryTopicName)]"; cases r)
    (auto simp: createCluster_def case_prod_beta dest: NewCluster_ops split: if_split_asm)

lemma setup_client_ops:
  assumes "setup_client w factory sc c = Some (ops, r)"
  shows "isl r \<and> ops \<in> {[], [Opens (ClusterOf c), Closes (ClusterOf c)], [Opens (ClusterOf c), Opens (NetworkOf c)], up_to_admin c} \<or>
    \<not> isl r \<and> ops = up_to_admin c @ [Opens (ClientOf c)]"
proof -
  from assms obtain o1 r1 where c: "createCluster w sc c = Some (o1, r1)" by (auto simp: setup_client_def)
  show ?thesis using assms createCluster_ops [OF c] c
    by (cases r1; cases "uw_admin w c"; cases "uw_capture w c")
      (auto simp: setup_client_def installMetadata_def Let_def split: option.split_asm)
qed

lemma environment_ops:
  assumes "newScenarioEnvironment w initial factory sc = Some (ops, r)"
  shows "isl r \<and> released [] ops \<or> \<not> isl r \<and> (\<forall>x. Closes x \<in> set ops \<longrightarrow> (\<exists>c. x = AdminOf c)) \<and> released [] (ops @ environment_Close)"
proof (cases "sc_profile sc \<noteq> None \<and> \<not> factory")
  case True
  then show ?thesis using assms by (auto simp: newScenarioEnvironment_def)
next
  case False
  with assms obtain o1 r1 where 1: "setup_client w factory sc clientTypeWgo = Some (o1, r1)"
    by (auto simp: newScenarioEnvironment_def bind_eq_Some_conv split: if_splits)
  show ?thesis
  proof (cases r1)
    case (Inl err)
    then show ?thesis using assms False 1 setup_client_ops [OF 1]
      by (auto simp: newScenarioEnvironment_def tear_down_def owned_def List.map_filter_def)
  next
    case (Inr wgo)
    with assms False 1 obtain o2 r2 where 2: "setup_client w factory sc clientTypeKgo = Some (o2, r2)"
      by (auto simp: newScenarioEnvironment_def)
    show ?thesis using assms False 1 2 Inr setup_client_ops [OF 1] setup_client_ops [OF 2]
      by (cases r2) (auto simp: newScenarioEnvironment_def tear_down_def owned_def List.map_filter_def environment_Close_def)
  qed
qed

text \<open>
  The set-up of a scenario leaks nothing. Whatever the cluster, the captured Metadata and the clients do, a
  failed set-up has closed everything it opened when it returns; a successful one has closed only its admin
  clients, and \<open>Close\<close> then releases the rest. In both cases no resource is closed twice, and no cluster or
  network is closed under a client that still uses it.
\<close>

theorem environment_releases_everything:
  assumes "newScenarioEnvironment w initial factory sc = Some (ops, r)"
  shows "(case r of
      Inl err \<Rightarrow> released [] ops
    | Inr env \<Rightarrow> (\<forall>x. Closes x \<in> set ops \<longrightarrow> (\<exists>c. x = AdminOf c)) \<and> released [] (ops @ environment_Close))"
  using environment_ops [OF assms] by (cases r) auto

definition example_setup :: setup_world where
  "example_setup = \<lparr>uw_cluster = (\<lambda>c n ts. Inr [''a'', ''b'']), uw_move = (\<lambda>c t p n. None), uw_admin = (\<lambda>c. None),
     uw_capture = (\<lambda>c. Inr \<lparr>vr_Version = 1, vr_Brokers = [], vr_Topics = []\<rparr>),
     uw_client = (\<lambda>c cfg. if c = clientTypeKgo then Some (GoError ''refused'') else None)\<rparr>"

text \<open>The second client fails: its network and cluster and everything of the first client are closed.\<close>

theorem environment_releases_everything_witness:
  "\<exists>ops. newScenarioEnvironment example_setup (behaviours_of []) False example_scenario =
     Some (ops, Inl (Errorf ''create kafka workload: '' (GoError ''refused'') [])) \<and> released [] ops"
proof -
  have "move_leaders (\<lambda>p n. None) k ps = None" for k and ps :: "partition list" by (induction ps) auto
  then obtain ops where "newScenarioEnvironment example_setup (behaviours_of []) False example_scenario =
     Some (ops, Inl (Errorf ''create kafka workload: '' (GoError ''refused'') []))"
    by (simp add: newScenarioEnvironment_def setup_client_def createCluster_def NewCluster_def installMetadata_def
        example_setup_def example_scenario_def topology_def backend_label_def)
  then show ?thesis using environment_releases_everything by fastforce
qed

end
