(* ===== verification/Sim_Runner.thy ===== *)
theory Sim_Runner
  imports Sim_Environment
begin

text \<open>
  Running a scenario: \<open>scenario_runner.go\<close>, \<open>workload.go\<close>, \<open>external_observations.go\<close>, \<open>client_evidence.go\<close>,
  \<open>stale_fallback.go\<close>, the phase loops of \<open>transport_phases.go\<close> and \<open>investigation.go\<close>, the set-up and the broker
  control of \<open>environment.go\<close>, and the selection and collection of \<open>main.go\<close>, all under
  \<open>pkg/internal/simulation/runner\<close>. Clocks, contexts, the clients under test and the gathered Prometheus metrics
  are arguments: what a wait returned, which channel was ready, what a callback delivered.
\<close>

section \<open>One application request\<close>

text \<open>
  The world of \<open>runScenarioEvent\<close>: whether the context fired while the event waited for its time, the time of
  issue, the results of the callbacks in the order in which they ran before the outcome was recorded, whether
  all of them had run when the select fired, the context's error at that point, and the time of recording.
\<close>

record event_world =
  ew_cancelled :: bool
  ew_issued :: instant
  ew_results :: "goerror option list"
  ew_done :: bool
  ew_ctxErr :: "goerror option"
  ew_recorded :: instant

fun first_error :: "goerror option list \<Rightarrow> goerror option" where
  "first_error [] = None"
| "first_error (r # rs) = (case r of Some e \<Rightarrow> Some e | None \<Rightarrow> first_error rs)"

definition runScenarioEvent :: "instant \<Rightarrow> scenarioEvent \<Rightarrow> event_world \<Rightarrow> observation list \<Rightarrow> observation list" where
  "runScenarioEvent start event w obs =
     (let scheduled = start + ev_at event
      in if ew_cancelled w then obs
         else let latency = time_sub (ew_recorded w) (ew_issued w);
                  err = (if ew_done w then (case ew_ctxErr w of Some e \<Rightarrow> Some e | None \<Rightarrow> first_error (ew_results w)) else ew_ctxErr w)
              in observations_record obs scheduled (ew_issued w) latency err)"

text \<open>
  \<open>runScenarioEvents\<close>: every event in its own goroutine; the list pairs the events with their worlds in the
  order in which they record.
\<close>

definition runScenarioEvents :: "instant \<Rightarrow> (scenarioEvent \<times> event_world) list \<Rightarrow> observation list" where
  "runScenarioEvents start runs = foldl (\<lambda>obs (event, w). runScenarioEvent start event w obs) [] runs"

definition eventsForClient ::
  "(topic \<Rightarrow> int \<Rightarrow> duration \<Rightarrow> topicPartition list) option \<Rightarrow> topic \<Rightarrow> int \<Rightarrow> duration \<Rightarrow> duration \<Rightarrow> scenarioEvent list option" where
  "eventsForClient builder topic partitions dur spacing =
     (case builder of
        Some build_records \<Rightarrow> map_option (map (\<lambda>t. \<lparr>ev_at = t, ev_records = build_records topic partitions t\<rparr>)) (event_times dur spacing 0)
      | None \<Rightarrow> buildScenarioEvents topic partitions dur spacing)"

text \<open>An observed external workload: its attempts become observations scheduled when they started.\<close>

record ApplicationObservation =
  ao_Started :: instant
  ao_Duration :: duration
  ao_Error :: "goerror option"
  ao_Samples :: int

text \<open>
  A client that drives its own workload returns its attempts and an error; for any other client the events run
  in goroutines of their own: \<open>order\<close> lists the indices of the events in the order in which they record.
\<close>

datatype workload_run =
    ExternalRun "ApplicationObservation list" "goerror option"
  | EventRun "nat list" "nat \<Rightarrow> event_world"

definition workload_observations :: "instant \<Rightarrow> scenarioEvent list \<Rightarrow> workload_run \<Rightarrow> observation list \<times> goerror option" where
  "workload_observations start events r =
     (case r of
        ExternalRun attempts err \<Rightarrow>
          (foldl (\<lambda>obs a. observations_record obs (ao_Started a) (ao_Started a) (ao_Duration a) (ao_Error a)) [] attempts, err)
      | EventRun order worlds \<Rightarrow> (runScenarioEvents start (map (\<lambda>k. (events ! k, worlds k)) order), None))"

definition observeWorkloads ::
  "instant \<Rightarrow> scenarioEvent list \<Rightarrow> scenarioEvent list \<Rightarrow> workload_run \<Rightarrow> workload_run \<Rightarrow> goerror + observation list \<times> observation list" where
  "observeWorkloads start wgoEvents kgoEvents wgo kgo =
     (let (wgoObs, wgoErr) = workload_observations start wgoEvents wgo; (kgoObs, kgoErr) = workload_observations start kgoEvents kgo
      in case first_error [wgoErr, kgoErr] of Some e \<Rightarrow> Inl e | None \<Rightarrow> Inr (wgoObs, kgoObs))"

section \<open>Gathered metrics\<close>

record metric_histogram =
  mh_SampleCount :: int
  mh_Buckets :: "(rat \<times> int) list"
  mh_Schema :: "int option"
  mh_PositiveSpans :: "(int \<times> nat) list"
  mh_PositiveDeltas :: "int list"

record gathered_metric =
  gm_labels :: "(string \<times> string) list"
  gm_counter :: "rat option"
  gm_histogram :: "metric_histogram option"

type_synonym metric_family = "string \<times> gathered_metric list"

definition counter_value :: "gathered_metric \<Rightarrow> int" where
  "counter_value m = int_of_f64 (case gm_counter m of Some v \<Rightarrow> v | None \<Rightarrow> 0)"

text \<open>\<open>gatherCounter\<close> panics on a name that is not registered.\<close>

definition gatherCounter :: "metric_family list \<Rightarrow> string \<Rightarrow> int option" where
  "gatherCounter mfs name =
     (case find (\<lambda>mf. fst mf = name) mfs of
        None \<Rightarrow> None
      | Some (n, ms) \<Rightarrow> Some (int_of_f64 (foldl (\<lambda>s m. case gm_counter m of Some v \<Rightarrow> f64 (s + v) | None \<Rightarrow> s) 0 ms)))"

text \<open>\<open>readProduceCounters\<close> for an empty prefix; an external client's registry prefixes its names.\<close>

definition readProduceCounters :: "string \<Rightarrow> metric_family list \<Rightarrow> (int \<times> int) option" where
  "readProduceCounters prefix mfs =
     Option.bind (gatherCounter mfs (prefix @ ''warpstream_produce_requests_primary_total'')) (\<lambda>primary.
       map_option (Pair primary) (gatherCounter mfs (prefix @ ''warpstream_produce_requests_hedge_total'')))"

definition count_label :: "string \<Rightarrow> (string, int) gomap \<Rightarrow> gathered_metric \<Rightarrow> (string, int) gomap" where
  "count_label labelName counts m =
     foldl (\<lambda>c (n, v). if n = labelName then AList.update v (get_or 0 c v + counter_value m) c else c) counts (gm_labels m)"

definition evidence_family :: "string \<Rightarrow> clientEvidence \<Rightarrow> metric_family \<Rightarrow> clientEvidence" where
  "evidence_family prefix e family =
     (case family of (name, ms) \<Rightarrow>
        if name = prefix @ ''warpstream_produce_requests_failed_total''
        then e\<lparr>ce_WriteFailures := foldl (count_label ''reason'') (ce_WriteFailures e) ms\<rparr>
        else if name = prefix @ ''warpstream_produce_direct_requests_failed_total''
        then e\<lparr>ce_DirectFailures := foldl (count_label ''reason'') (ce_DirectFailures e) ms\<rparr>
        else if name = prefix @ ''warpstream_hedge_attempts_suppressed_total''
        then e\<lparr>ce_HedgeSuppression := foldl (count_label ''reason'') (ce_HedgeSuppression e) ms\<rparr>
        else if name = prefix @ ''warpstream_produce_hedge_triggers_total''
        then e\<lparr>ce_HedgeTriggers := foldl (count_label ''trigger'') (ce_HedgeTriggers e) ms\<rparr>
        else e)"

definition readClientEvidence :: "goerror + metric_family list \<Rightarrow> string \<Rightarrow> goerror + clientEvidence" where
  "readClientEvidence gathered prefix =
     (case gathered of
        Inl err \<Rightarrow> Inl err
      | Inr families \<Rightarrow> Inr (foldl (evidence_family prefix)
          \<lparr>ce_WriteFailures = [], ce_DirectFailures = [], ce_HedgeSuppression = [], ce_HedgeTriggers = []\<rparr> families))"

definition subtract_counts :: "(string, int) gomap \<Rightarrow> (string, int) gomap \<Rightarrow> (string, int) gomap" where
  "subtract_counts m before = foldl (\<lambda>m (reason, count). AList.update reason (get_or 0 m reason - count) m) m before"

definition evidence_subtract :: "clientEvidence \<Rightarrow> clientEvidence \<Rightarrow> clientEvidence" where
  "evidence_subtract e before =
     \<lparr>ce_WriteFailures = subtract_counts (ce_WriteFailures e) (ce_WriteFailures before),
      ce_DirectFailures = subtract_counts (ce_DirectFailures e) (ce_DirectFailures before),
      ce_HedgeSuppression = subtract_counts (ce_HedgeSuppression e) (ce_HedgeSuppression before),
      ce_HedgeTriggers = subtract_counts (ce_HedgeTriggers e) (ce_HedgeTriggers before)\<rparr>"

text \<open>
  \<open>thirdAttempts\<close> on a native histogram. The lower bound of bucket \<open>i\<close> at schema \<open>s\<close> is 2 to the power
  \<open>(i - 1) / 2 ^ s\<close>, which is at least 2 exactly when the exponent is at least 1.
\<close>

fun native_buckets :: "int \<Rightarrow> int \<Rightarrow> nat \<Rightarrow> int list \<times> int \<times> int \<Rightarrow> (int \<times> int list \<times> int \<times> int) option" where
  "native_buckets schema i 0 st = Some (i, st)"
| "native_buckets schema i (Suc n) (deltas, bucketCount, acc) =
     (case deltas of
        [] \<Rightarrow> None
      | d # ds \<Rightarrow> native_buckets schema (i + 1) n (ds, bucketCount + d,
          if 1 \<le> of_int (i - 1) * (2 :: rat) powi (- schema) then acc + (bucketCount + d) else acc))"

fun native_spans :: "int \<Rightarrow> int \<Rightarrow> (int \<times> nat) list \<Rightarrow> int list \<times> int \<times> int \<Rightarrow> int option" where
  "native_spans schema i [] (deltas, bucketCount, acc) = Some acc"
| "native_spans schema i ((offset, n) # spans) st =
     Option.bind (native_buckets schema (i + offset) n st) (\<lambda>(i, st). native_spans schema i spans st)"

definition thirdAttempts :: "metric_histogram option \<Rightarrow> int" where
  "thirdAttempts h =
     (case h of
        None \<Rightarrow> 0
      | Some h \<Rightarrow> (case find (\<lambda>(bound, n). 2 \<le> bound \<and> bound < 3) (mh_Buckets h) of
            Some (bound, n) \<Rightarrow> mh_SampleCount h - n
          | None \<Rightarrow> (case mh_Schema h of None \<Rightarrow> 0 | Some s \<Rightarrow>
              (case native_spans s 0 (mh_PositiveSpans h) (mh_PositiveDeltas h, 0, 0) of Some n \<Rightarrow> n | None \<Rightarrow> 0))))"

definition label_of :: "gathered_metric \<Rightarrow> string \<Rightarrow> string" where
  "label_of m name = get_or [] (foldl (\<lambda>ls (n, v). AList.update n v ls) [] (gm_labels m)) name"

definition fallback_metric :: "string \<Rightarrow> string \<Rightarrow> staleFallbackEvidence \<Rightarrow> gathered_metric \<Rightarrow> staleFallbackEvidence" where
  "fallback_metric prefix name ev m =
     (let reason = label_of m ''reason''; v = counter_value m
      in if name = prefix @ ''warpstream_produce_direct_requests_failed_total''
         then (if reason \<in> {''unknown_broker'', ''unknown'', ''transport''}
               then ev\<lparr>sf_FallbackErrors := sf_FallbackErrors ev + v,
                       sf_FallbackErrorReasons := AList.update reason (get_or 0 (sf_FallbackErrorReasons ev) reason + v) (sf_FallbackErrorReasons ev)\<rparr>
               else ev)
         else if name = prefix @ ''warpstream_produce_requests_failed_total''
         then (if reason = ''terminal_error'' then ev\<lparr>sf_TerminalErrors := sf_TerminalErrors ev + v\<rparr> else ev)
         else if name = prefix @ ''warpstream_produce_requests_attempts''
         then (if label_of m ''outcome'' = ''success''
               then ev\<lparr>sf_ThirdAttemptSuccesses := sf_ThirdAttemptSuccesses ev + thirdAttempts (gm_histogram m)\<rparr> else ev)
         else ev)"

definition readStaleFallbackEvidence :: "goerror + metric_family list \<Rightarrow> string \<Rightarrow> metadataView \<Rightarrow> goerror + staleFallbackEvidence" where
  "readStaleFallbackEvidence gathered prefix view =
     (case gathered of
        Inl err \<Rightarrow> Inl err
      | Inr families \<Rightarrow> Inr (foldl (\<lambda>ev (name, ms). foldl (fallback_metric prefix name) ev ms)
          \<lparr>sf_BrokerOnlyWithdrawals = mv_brokerOnlyWithdrawals view, sf_StaleRoutingResponses = mv_staleRoutingResponses view,
           sf_FallbackErrors = 0, sf_FallbackErrorReasons = [], sf_ThirdAttemptSuccesses = 0, sf_TerminalErrors = 0\<rparr> families))"

section \<open>Phases\<close>

text \<open>What the context shows at the check before phase \<open>k\<close>, and whether it fired during the wait for it.\<close>

record phase_clock =
  pk_err :: "nat \<Rightarrow> goerror option"
  pk_wait :: "nat \<Rightarrow> goerror option"

fun runTransportPhases :: "phase_clock \<Rightarrow> nat \<Rightarrow> transportPhase list \<Rightarrow> (cluster_nodes \<times> phase_target) list \<Rightarrow>
    ((cluster_nodes \<times> phase_target) list \<times> goerror option) option" where
  "runTransportPhases clk k [] targets = Some (targets, None)"
| "runTransportPhases clk k (p # ps) targets =
     (case first_error [pk_err clk k, pk_wait clk k] of
        Some e \<Rightarrow> Some (targets, Some e)
      | None \<Rightarrow> (case applyTransportPhase p targets of
            None \<Rightarrow> None
          | Some (ts, Some err) \<Rightarrow> Some (zip (map fst targets) ts, Some err)
          | Some (ts, None) \<Rightarrow> runTransportPhases clk (Suc k) ps (zip (map fst targets) ts)))"

fun runBehaviourPhases :: "phase_clock \<Rightarrow> nat \<Rightarrow> 'g behaviourPhase list \<Rightarrow> 'g brokersBehaviourProvider \<Rightarrow> 'g brokersBehaviourProvider \<times> goerror option" where
  "runBehaviourPhases clk k [] p = (p, None)"
| "runBehaviourPhases clk k (ph # phs) p =
     (case first_error [pk_err clk k, pk_wait clk k] of
        Some e \<Rightarrow> (p, Some e)
      | None \<Rightarrow> runBehaviourPhases clk (Suc k) phs (provider_set p (bp_behaviours ph)))"

definition runPhases :: "phase_clock \<Rightarrow> 'g scenario \<Rightarrow> (cluster_nodes \<times> phase_target) list \<Rightarrow> 'g brokersBehaviourProvider \<Rightarrow>
    ((cluster_nodes \<times> phase_target) list \<times> 'g brokersBehaviourProvider \<times> goerror option) option" where
  "runPhases clk sc targets p =
     (if sc_behaviourPhases sc = []
      then map_option (\<lambda>(ts, e). (ts, p, e)) (runTransportPhases clk 0 (sc_transportPhases sc) targets)
      else if sc_transportPhases sc \<noteq> []
      then Some (targets, p, Some (GoError ''mixed transport and behaviour phases are unsupported''))
      else case runBehaviourPhases clk 0 (sc_behaviourPhases sc) p of (p, e) \<Rightarrow> Some (targets, p, e))"

section \<open>Warmup\<close>

text \<open>
  One turn of the coverage loop: whether both clients had covered their partitions, the error of the context at
  the check and during the wait, and the time that the turn took. The turns that the world offers are a list:
  \<open>None\<close> when it ends before the loop does.
\<close>

record warmup_turn =
  wt_complete :: bool
  wt_ctxErr :: "goerror option"
  wt_waitErr :: "goerror option"
  wt_elapsed :: duration

abbreviation (input) warmupDuration :: duration where "warmupDuration \<equiv> 30 * second"

fun warmup_loop :: "duration \<Rightarrow> duration \<Rightarrow> warmup_turn list \<Rightarrow> (duration \<times> goerror option) option" where
  "warmup_loop spacing t [] = None"
| "warmup_loop spacing t (turn # turns) =
     (if wt_complete turn then Some (t, None)
      else case first_error [wt_ctxErr turn, wt_waitErr turn] of
        Some e \<Rightarrow> Some (t, Some (Errorf ''partition coverage incomplete: '' e []))
      | None \<Rightarrow> warmup_loop spacing (i64 (t + max spacing (wt_elapsed turn))) turns)"

section \<open>A scenario\<close>

text \<open>The optional interfaces of a client: \<open>Validate\<close> is asked after the warmup and after the observed phase.\<close>

record client_caps =
  cc_builder :: "((topic \<Rightarrow> int \<Rightarrow> duration \<Rightarrow> topicPartition list) \<times> string) option"
  cc_Validate :: "bool \<Rightarrow> goerror option"
  cc_SenderEvidence :: "(goerror + (string, rat) gomap) option"
  cc_ObservationDescription :: "string option"
  cc_RecoveryResponseDescription :: "string option"
  cc_Describe :: "(string \<times> string) option"

text \<open>
  What a run meets: the set-up, the two clients, the warmup and what it makes of the
  environment, the start of the observed phase, the metrics gathered
  at its four points (evidence and fallback before, fallback and evidence after), the counters as the sampler reads
  them, the traffic of the two clients with what it makes of the environment, the error of the phases, and the
  error of the run's context after the observed phase.
\<close>

record 'g run_world =
  ru_setup :: setup_world
  ru_factory :: bool
  ru_wgo :: client_caps
  ru_kgo :: client_caps
  ru_warmup :: "warmup_turn list"
  ru_warmupErr :: "goerror option"
  ru_warmed :: "'g environment \<Rightarrow> 'g environment"
  ru_start :: instant
  ru_gather :: "nat \<Rightarrow> goerror + metric_family list"
  ru_reads :: "metric_family list list"
  ru_lastRead :: "instant \<times> metric_family list"
  ru_traffic :: "'g environment \<Rightarrow> 'g environment"
  ru_phaseErr :: "goerror option"
  ru_wgoRun :: workload_run
  ru_kgoRun :: workload_run
  ru_ctxErr :: "goerror option"

definition validateWorkloads :: "'g run_world \<Rightarrow> bool \<Rightarrow> goerror option" where
  "validateWorkloads w observed = first_error [cc_Validate (ru_wgo w) observed, cc_Validate (ru_kgo w) observed]"

definition metrics_prefix :: "'g run_world \<Rightarrow> string" where
  "metrics_prefix w = (case cc_builder (ru_wgo w) of Some (b, prefix) \<Rightarrow> prefix | None \<Rightarrow> [])"

text \<open>The names of scenarios need no escaping by \<open>%q\<close>.\<close>

definition scenario_errorf :: "'g scenario \<Rightarrow> string \<Rightarrow> goerror \<Rightarrow> goerror" where
  "scenario_errorf sc stage err = Errorf (''scenario '' @ [CHR 0x22] @ sc_name sc @ [CHR 0x22] @ '' '' @ stage @ '': '') err []"

abbreviation (input) reportBucket :: duration where "reportBucket \<equiv> 10 * second"

text \<open>The sampler: the counters at the start and at every further bucket boundary, and once more when it stops.\<close>

definition counter_samples :: "instant \<Rightarrow> duration \<Rightarrow> (int \<times> int) list \<Rightarrow> instant \<times> int \<times> int \<Rightarrow> counterSample list" where
  "counter_samples start bucketSize reads final =
     map (\<lambda>(n, p, h). \<lparr>cs_at = start + i64 (int n * bucketSize), cs_primary = p, cs_hedge = h\<rparr>) (enumerate 0 reads) @
     [case final of (t, p, h) \<Rightarrow> \<lparr>cs_at = t, cs_primary = p, cs_hedge = h\<rparr>]"

definition sampled :: "'g run_world \<Rightarrow> counterSample list option" where
  "sampled w =
     Option.bind (those (map (readProduceCounters (metrics_prefix w)) (ru_reads w))) (\<lambda>reads.
       map_option (\<lambda>final. counter_samples (ru_start w) reportBucket reads (fst (ru_lastRead w), final))
         (readProduceCounters (metrics_prefix w) (snd (ru_lastRead w))))"

text \<open>The environment as the observed phase finds it.\<close>

definition start_observed :: "instant \<Rightarrow> 'g scenario \<Rightarrow> 'g environment \<Rightarrow> 'g environment" where
  "start_observed start sc env =
     (let s = pt_network (env_wgo env);
          env = (case recoveryFrom (sc_expect sc) of
            None \<Rightarrow> env
          | Some t \<Rightarrow> env\<lparr>env_wgo := (env_wgo env)\<lparr>pt_network := s\<lparr>ns_net := (ns_net s)\<lparr>tn_recoveryStart := start + t\<rparr>\<rparr>\<rparr>\<rparr>)
      in env\<lparr>env_behaviours := provider_set (env_behaviours env) (sc_behaviours sc)\<rparr>)"

definition assemble_result ::
  "err_env \<Rightarrow> 'g run_world \<Rightarrow> 'g scenario \<Rightarrow> 'g environment \<Rightarrow> observation list \<Rightarrow> observation list \<Rightarrow> counterSample list \<Rightarrow> 'g scenarioResult" where
  "assemble_result ee w sc env wgo kgo samples =
     (let budget = slowBudget (sc_expect sc);
          recovery = (case recoveryFrom (sc_expect sc) of Some t \<Rightarrow> Some (scheduledSince wgo (ru_start w + t)) | None \<Rightarrow> None)
      in \<lparr>re_sc = sc,
          re_observationDescription = (case cc_ObservationDescription (ru_wgo w) of Some d \<Rightarrow> d | None \<Rightarrow> []),
          re_wgoSender = [], re_kgoSender = [], re_clientEvidence = None, re_staleFallback = None,
          re_windows = summarizeWindows (sc_windows sc) (ru_start w) wgo kgo,
          re_wgoLatencySelections = selectedLatencies (env_behaviours env) clientTypeWgo,
          re_kgoLatencySelections = selectedLatencies (env_behaviours env) clientTypeKgo,
          re_workloadDescription = (case cc_Describe (ru_wgo w) of Some (d, c) \<Rightarrow> d | None \<Rightarrow> []),
          re_workloadConfiguration = (case cc_Describe (ru_wgo w) of Some (d, c) \<Rightarrow> c | None \<Rightarrow> []),
          re_recoveryResponseDescription = (case cc_RecoveryResponseDescription (ru_wgo w) of Some d \<Rightarrow> d | None \<Rightarrow> []),
          re_wgoSummary = summary wgo, re_kgoSummary = summary kgo,
          re_wgoBuckets = bucketedSummary wgo reportBucket, re_kgoBuckets = bucketedSummary kgo reportBucket,
          re_produceDeltas = bucketDeltas samples,
          re_totalPrimary = fst (sample_totals samples), re_totalHedge = snd (sample_totals samples),
          re_wgoErrorCounts = errorCounts ee wgo, re_kgoErrorCounts = errorCounts ee kgo,
          re_wgoSlowFraction = map_option (slowFraction wgo) budget,
          re_wgoRecovery = (case recovery of Some obs \<Rightarrow> summary obs | None \<Rightarrow> no_summary),
          re_wgoRecoverySlowFraction = (case (recovery, budget) of (Some obs, Some b) \<Rightarrow> slowFraction obs b | _ \<Rightarrow> 0),
          re_wgoTransport = network_snapshot (ns_net (pt_network (env_wgo env))),
          re_kgoTransport = network_snapshot (ns_net (pt_network (env_kgo env))),
          re_wgoMissingLeaders = mv_missingLeaderResponses (pt_metadata (env_wgo env)),
          re_kgoMissingLeaders = mv_missingLeaderResponses (pt_metadata (env_kgo env))\<rparr>)"

definition fallback_subtract :: "staleFallbackEvidence \<Rightarrow> staleFallbackEvidence \<Rightarrow> staleFallbackEvidence" where
  "fallback_subtract ev before =
     ev\<lparr>sf_FallbackErrors := sf_FallbackErrors ev - sf_FallbackErrors before,
        sf_FallbackErrorReasons := subtract_counts (sf_FallbackErrorReasons ev) (sf_FallbackErrorReasons before),
        sf_ThirdAttemptSuccesses := sf_ThirdAttemptSuccesses ev - sf_ThirdAttemptSuccesses before,
        sf_TerminalErrors := sf_TerminalErrors ev - sf_TerminalErrors before\<rparr>"

text \<open>Optional evidence: read when asked for.\<close>

definition when_asked :: "bool \<Rightarrow> goerror + 'a \<Rightarrow> goerror + 'a option" where
  "when_asked b r = (if b then map_sum id Some r else Inr None)"

definition sender_of :: "client_caps \<Rightarrow> goerror + (string, rat) gomap" where
  "sender_of c = (case cc_SenderEvidence c of Some r \<Rightarrow> r | None \<Rightarrow> Inr [])"

text \<open>The rest of \<open>runScenario\<close> once the observed phase is over, and the phase itself.\<close>

definition orFail :: "goerror option \<Rightarrow> goerror + 'a \<Rightarrow> goerror + 'a" where
  "orFail err k = (case err of Some e \<Rightarrow> Inl e | None \<Rightarrow> k)"

definition andThen :: "goerror + 'a \<Rightarrow> ('a \<Rightarrow> goerror + 'b) \<Rightarrow> goerror + 'b" where
  "andThen r k = (case r of Inl e \<Rightarrow> Inl e | Inr x \<Rightarrow> k x)"

definition add_evidence ::
  "'g run_world \<Rightarrow> 'g environment \<Rightarrow> clientEvidence option \<Rightarrow> staleFallbackEvidence option \<Rightarrow> 'g scenarioResult \<Rightarrow> goerror + 'g scenarioResult" where
  "add_evidence w env initialEvidence initialFallback res =
     andThen (when_asked (sc_requireStaleFallback (re_sc res))
       (readStaleFallbackEvidence (ru_gather w 2) (metrics_prefix w) (pt_metadata (env_wgo env)))) (\<lambda>fallback.
     andThen (when_asked (initialEvidence \<noteq> None) (readClientEvidence (ru_gather w 3) (metrics_prefix w))) (\<lambda>evidence.
     andThen (sender_of (ru_wgo w)) (\<lambda>wgoSender.
     andThen (sender_of (ru_kgo w)) (\<lambda>kgoSender.
       Inr (res\<lparr>re_staleFallback := (case (fallback, initialFallback) of (Some e, Some b) \<Rightarrow> Some (fallback_subtract e b) | _ \<Rightarrow> None),
                re_clientEvidence := (case (evidence, initialEvidence) of (Some e, Some b) \<Rightarrow> Some (evidence_subtract e b) | _ \<Rightarrow> None),
                re_wgoSender := wgoSender, re_kgoSender := kgoSender\<rparr>)))))"

definition finish_scenario ::
  "err_env \<Rightarrow> 'g run_world \<Rightarrow> 'g scenario \<Rightarrow> 'g environment \<Rightarrow> scenarioEvent list \<times> scenarioEvent list \<Rightarrow>
    clientEvidence option \<Rightarrow> staleFallbackEvidence option \<Rightarrow> counterSample list \<Rightarrow> goerror + 'g scenarioResult" where
  "finish_scenario ee w sc env events initialEvidence initialFallback samples =
     orFail (map_option (scenario_errorf sc ''transport phases'') (ru_phaseErr w))
     (andThen (observeWorkloads (ru_start w) (fst events) (snd events) (ru_wgoRun w) (ru_kgoRun w)) (\<lambda>(wgo, kgo).
      orFail (map_option (scenario_errorf sc ''did not complete'') (ru_ctxErr w))
     (orFail (map_option (scenario_errorf sc ''workload'') (validateWorkloads w True))
       (add_evidence w env initialEvidence initialFallback (assemble_result ee w sc env wgo kgo samples)))))"

definition initial_evidence ::
  "'g run_world \<Rightarrow> 'g scenario \<Rightarrow> 'g environment \<Rightarrow> goerror + clientEvidence option \<times> staleFallbackEvidence option" where
  "initial_evidence w sc env =
     andThen (when_asked (sc_collectClientEvidence sc) (readClientEvidence (ru_gather w 0) (metrics_prefix w))) (\<lambda>evidence.
     andThen (when_asked (sc_requireStaleFallback sc)
       (readStaleFallbackEvidence (ru_gather w 1) (metrics_prefix w) (pt_metadata (env_wgo env)))) (\<lambda>fallback.
     Inr (evidence, fallback)))"

definition observe_scenario ::
  "err_env \<Rightarrow> 'g run_world \<Rightarrow> 'g scenario \<Rightarrow> 'g environment \<Rightarrow> scenarioEvent list \<times> scenarioEvent list \<Rightarrow> (goerror + 'g scenarioResult) option" where
  "observe_scenario ee w sc env events =
     (let env = ru_warmed w env
      in case orFail (map_option (scenario_errorf sc ''warmup'') (validateWorkloads w False)) (initial_evidence w sc env) of
        Inl e \<Rightarrow> Some (Inl e)
      | Inr (evidence, fallback) \<Rightarrow>
          map_option (finish_scenario ee w sc (ru_traffic w (start_observed (ru_start w) sc env)) events evidence fallback) (sampled w))"

definition events_of :: "client_caps \<Rightarrow> 'g environment \<Rightarrow> duration \<Rightarrow> duration \<Rightarrow> scenarioEvent list option" where
  "events_of c env dur spacing = eventsForClient (map_option fst (cc_builder c)) (env_topic env) (env_numPartitions env) dur spacing"

definition runScenario ::
  "err_env \<Rightarrow> 'g latency \<Rightarrow> 'g run_world \<Rightarrow> 'g scenario \<Rightarrow> (resource_op list \<times> (goerror + 'g scenarioResult)) option" where
  "runScenario ee normalLatency w sc =
     Option.bind (newScenarioEnvironment (ru_setup w) (scenario_healthyBehaviours normalLatency sc) (ru_factory w) sc) (\<lambda>(ops, r).
     case r of
       Inl err \<Rightarrow> Some (ops, Inl err)
     | Inr env \<Rightarrow>
         (let dur = scenario_duration sc; spacing = scenario_spacing sc
          in map_option (Pair (ops @ environment_Close))
           (Option.bind (events_of (ru_wgo w) env dur spacing) (\<lambda>wgoEvents.
            Option.bind (events_of (ru_kgo w) env dur spacing) (\<lambda>kgoEvents.
            Option.bind (events_of (ru_wgo w) env warmupDuration spacing) (\<lambda>_.
            Option.bind (events_of (ru_kgo w) env warmupDuration spacing) (\<lambda>_.
            Option.bind (warmup_loop spacing warmupDuration (ru_warmup w)) (\<lambda>(t, coverageErr).
              case first_error [coverageErr, ru_warmupErr w] of
                Some e \<Rightarrow> Some (Inl (scenario_errorf sc ''warmup'' e))
              | None \<Rightarrow> observe_scenario ee w sc env (wgoEvents, kgoEvents)))))))))"

section \<open>Properties\<close>

lemma orFail_Inr [simp]: "orFail err k = Inr x \<longleftrightarrow> err = None \<and> k = Inr x"
  by (cases err) (simp_all add: orFail_def)

lemma andThen_Inr [simp]: "andThen r k = Inr y \<longleftrightarrow> (\<exists>x. r = Inr x \<and> k x = Inr y)"
  by (cases r) (simp_all add: andThen_def)

lemma first_error_None [simp]: "first_error rs = None \<longleftrightarrow> (\<forall>r\<in>set rs. r = None)"
  by (induction rs) (auto split: option.splits)

lemma runScenarioEvents_eq:
  "runScenarioEvents start runs = concat (map (\<lambda>(event, w). runScenarioEvent start event w []) runs)"
proof -
  have "foldl (\<lambda>obs (event, w). runScenarioEvent start event w obs) obs runs =
      obs @ concat (map (\<lambda>(event, w). runScenarioEvent start event w []) runs)" for obs
    by (induction runs arbitrary: obs) (auto simp: runScenarioEvent_def observations_record_def Let_def)
  from this [of "[]"] show ?thesis by (simp add: runScenarioEvents_def)
qed

lemma runScenarioEvents_all:
  assumes "\<forall>(event, w)\<in>set runs. \<not> ew_cancelled w"
  shows "length (runScenarioEvents start runs) = length runs" "map ob_scheduled (runScenarioEvents start runs) = map (\<lambda>(event, w). start + ev_at event) runs"
  using assms unfolding runScenarioEvents_eq
  by (induction runs) (auto simp: runScenarioEvent_def observations_record_def Let_def)

lemma eventsForClient_eq:
  assumes "0 < spacing" "dur + spacing \<le> max_duration"
  shows "\<exists>events. eventsForClient builder topic n dur spacing = Some events \<and> map ev_at events = map (\<lambda>k. int k * spacing) [0..<event_count dur spacing]"
  using event_times_eq [OF assms(1) _ assms(2), of 0]
  by (auto simp: eventsForClient_def buildScenarioEvents_def o_def split: option.split)

lemma summary_total: "su_total (summary obs) = int (length obs)"
  by (simp add: summary_def no_summary_def case_prod_unfold)

lemma add_evidence_Inr:
  assumes "add_evidence w env initialEvidence initialFallback res = Inr res'"
  shows "re_sc res' = re_sc res \<and> re_wgoSummary res' = re_wgoSummary res \<and> re_kgoSummary res' = re_kgoSummary res \<and>
    re_wgoRecovery res' = re_wgoRecovery res"
  using assms by (auto simp: add_evidence_def)

lemma observe_scenario_InrD:
  "observe_scenario ee w sc env events = Some (Inr res) \<Longrightarrow>
    validateWorkloads w False = None \<and> (\<exists>env' ev fb samples. finish_scenario ee w sc env' events ev fb samples = Inr res)"
  by (cases "validateWorkloads w False"; cases "initial_evidence w sc (ru_warmed w env)")
    (auto simp: observe_scenario_def orFail_def Let_def)

text \<open>The stages of a run that returned a result.\<close>

lemma runScenario_InrD:
  assumes "runScenario ee nl w sc = Some (ops, Inr res)"
  obtains env opened wgoEvents kgoEvents wgo kgo samples env' where
    "newScenarioEnvironment (ru_setup w) (scenario_healthyBehaviours nl sc) (ru_factory w) sc = Some (opened, Inr env)"
    "ops = opened @ environment_Close"
    "events_of (ru_wgo w) env (scenario_duration sc) (scenario_spacing sc) = Some wgoEvents"
    "events_of (ru_kgo w) env (scenario_duration sc) (scenario_spacing sc) = Some kgoEvents"
    "ru_warmupErr w = None" "validateWorkloads w False = None" "ru_phaseErr w = None" "ru_ctxErr w = None" "validateWorkloads w True = None"
    "observeWorkloads (ru_start w) wgoEvents kgoEvents (ru_wgoRun w) (ru_kgoRun w) = Inr (wgo, kgo)"
    "re_sc res = sc" "re_wgoSummary res = summary wgo" "re_kgoSummary res = summary kgo"
    "\<And>t. recoveryFrom (sc_expect sc) = Some t \<Longrightarrow> re_wgoRecovery res = summary (scheduledSince wgo (ru_start w + t))"
proof -
  from assms obtain opened r where r: "newScenarioEnvironment (ru_setup w) (scenario_healthyBehaviours nl sc) (ru_factory w) sc = Some (opened, r)"
    by (auto simp: runScenario_def bind_eq_Some_conv)
  with assms obtain env where "r = Inr env" by (cases r) (auto simp: runScenario_def)
  with assms r obtain wgoEvents kgoEvents where
    1: "newScenarioEnvironment (ru_setup w) (scenario_healthyBehaviours nl sc) (ru_factory w) sc = Some (opened, Inr env)"
      "ops = opened @ environment_Close"
      "events_of (ru_wgo w) env (scenario_duration sc) (scenario_spacing sc) = Some wgoEvents"
      "events_of (ru_kgo w) env (scenario_duration sc) (scenario_spacing sc) = Some kgoEvents" "ru_warmupErr w = None"
      "observe_scenario ee w sc env (wgoEvents, kgoEvents) = Some (Inr res)"
    by (auto simp: runScenario_def bind_eq_Some_conv Let_def split: option.split_asm)
  then obtain ev fb samples env' where
    2: "validateWorkloads w False = None" "finish_scenario ee w sc env' (wgoEvents, kgoEvents) ev fb samples = Inr res"
    using observe_scenario_InrD by blast
  then obtain wgo kgo where
    3: "ru_phaseErr w = None" "ru_ctxErr w = None" "validateWorkloads w True = None"
      "observeWorkloads (ru_start w) wgoEvents kgoEvents (ru_wgoRun w) (ru_kgoRun w) = Inr (wgo, kgo)"
      "add_evidence w env' ev fb (assemble_result ee w sc env' wgo kgo samples) = Inr res"
    by (auto simp: finish_scenario_def)
  show ?thesis
    using 1 2 3 add_evidence_Inr [OF 3(5)]
    by (intro that [of opened env wgoEvents kgoEvents wgo kgo]) (auto simp: assemble_result_def Let_def)
qed

lemma event_count_multiple:
  assumes "0 < spacing" "spacing dvd t" "0 \<le> t" "t \<le> dur"
  shows "length (filter (\<lambda>k. t \<le> int k * spacing) [0..<event_count dur spacing]) = event_count (dur - t) spacing"
proof -
  from assms obtain m where m: "t = int m * spacing" by (metis dvd_div_mult_self nat_0_le pos_imp_zdiv_nonneg_iff)
  have "filter (\<lambda>k. t \<le> int k * spacing) [0..<n] = [m..<n]" for n
    by (induction n) (use assms(1) in \<open>auto simp: m\<close>)
  moreover have "event_count dur spacing - m = event_count (dur - t) spacing"
    using assms(1) div_mult_self1 [of spacing "dur - t + spacing - 1" "int m"] by (simp add: event_count_def m algebra_simps nat_diff_distrib')
  ultimately show ?thesis by simp
qed

lemma scheduledSince_length: "length (scheduledSince obs t) = length (filter (\<lambda>x. t \<le> x) (map ob_scheduled obs))"
  by (simp add: scheduledSince_def filter_map o_def not_less)


text \<open>Three seconds, two requests a second, all of them acknowledged.\<close>

definition example_client :: client_caps where
  "example_client = \<lparr>cc_builder = None, cc_Validate = (\<lambda>observed. None), cc_SenderEvidence = None, cc_ObservationDescription = None,
     cc_RecoveryResponseDescription = None, cc_Describe = None\<rparr>"

definition example_run :: "unit run_world" where
  "example_run = (let metrics = [(''warpstream_produce_requests_primary_total'', []), (''warpstream_produce_requests_hedge_total'', [])];
       events = EventRun [0..<6] (\<lambda>k. \<lparr>ew_cancelled = False, ew_issued = int k * (500 * millisecond), ew_results = [None], ew_done = True,
         ew_ctxErr = None, ew_recorded = int k * (500 * millisecond) + 1\<rparr>)
     in \<lparr>ru_setup = example_setup\<lparr>uw_client := (\<lambda>c cfg. None)\<rparr>, ru_factory = False, ru_wgo = example_client, ru_kgo = example_client,
       ru_warmup = [\<lparr>wt_complete = True, wt_ctxErr = None, wt_waitErr = None, wt_elapsed = 0\<rparr>], ru_warmupErr = None, ru_warmed = id,
       ru_start = 0, ru_gather = (\<lambda>n. Inr metrics), ru_reads = [metrics], ru_lastRead = (3 * second, metrics), ru_traffic = id,
       ru_phaseErr = None, ru_wgoRun = events, ru_kgoRun = events, ru_ctxErr = None\<rparr>)"

lemma example_run_returns: "\<exists>ops res. runScenario ee nl example_run example_scenario = Some (ops, Inr res)"
proof -
  have "move_leaders (\<lambda>p n. None) k ps = None" for k and ps :: "partition list" by (induction ps) auto
  then obtain ops env where env: "newScenarioEnvironment (ru_setup example_run) (scenario_healthyBehaviours nl example_scenario) (ru_factory example_run) example_scenario = Some (ops, Inr env)"
    by (simp add: newScenarioEnvironment_def setup_client_def createCluster_def NewCluster_def installMetadata_def example_run_def
        example_setup_def example_scenario_def topology_def Let_def)
  have ev: "\<exists>events. eventsForClient None topic n dur (500 * millisecond) = Some events" if "dur \<le> 30 * second" for topic n dur
    using eventsForClient_eq [of "500 * millisecond" dur None topic n] that by (auto simp: max_duration_def)
  have "sampled example_run \<noteq> None"
    by (simp add: sampled_def example_run_def Let_def readProduceCounters_def gatherCounter_def metrics_prefix_def example_client_def)
  then obtain samples where "sampled example_run = Some samples" by blast
  then show ?thesis
    using env ev [of "3 * second" "env_topic env" "env_numPartitions env"] ev [of "30 * second" "env_topic env" "env_numPartitions env"]
    by (auto simp: runScenario_def observe_scenario_def events_of_def finish_scenario_def add_evidence_def orFail_def andThen_def when_asked_def
        sender_of_def validateWorkloads_def initial_evidence_def observeWorkloads_def workload_observations_def example_run_def example_client_def
        example_scenario_def scenario_duration_def scenario_spacing_def assemble_result_def Let_def)
qed


end
