(* ===== verification/Sim_Main.thy ===== *)
theory Sim_Main
  imports Sim_Runner
begin

text \<open>
  The command: \<open>main.go\<close> under \<open>pkg/internal/simulation/runner\<close>. Scenarios are selected by profile, name pattern
  and batch, run with bounded parallelism, and checked. Compiling and matching the pattern
  (\<open>regexp\<close>) and writing the reports are arguments. The goroutines of \<open>run\<close> and their semaphore are a step
  relation; the value of a finished goroutine is what \<open>runScenario\<close> returned in it.
\<close>

section \<open>Selection\<close>

definition filterScenarios ::
  "(string \<Rightarrow> goerror + (string \<Rightarrow> bool)) \<Rightarrow> string \<Rightarrow> 'g scenario list \<Rightarrow> goerror + 'g scenario list" where
  "filterScenarios compile pattern available =
     (case compile pattern of
        Inl err \<Rightarrow> Inl (Errorf ''scenario filter: '' err [])
      | Inr match \<Rightarrow>
          (let selected = filter (\<lambda>sc. match (sc_name sc)) available
           in if selected = [] then Inl (GoErrorf ''no scenarios match %q'' [FStr pattern]) else Inr selected))"

section \<open>Running\<close>

datatype 'r job = Waiting | Running | Finished "goerror + 'r"

type_synonym 'r jobs = "'r job list"

text \<open>The buffered channel \<open>slots\<close> holds one token for every running job.\<close>

record 'r run_state =
  rs_jobs :: "'r jobs"
  rs_slots :: nat

definition run_capacity :: "int \<Rightarrow> nat \<Rightarrow> nat" where
  "run_capacity parallel n = (if parallel \<le> 0 then n else nat parallel)"

definition run_start :: "nat \<Rightarrow> 'r run_state" where
  "run_start n = \<lparr>rs_jobs = replicate n Waiting, rs_slots = 0\<rparr>"

text \<open>
  A job takes a slot, or gives up when the context has ended; a running job returns whatever \<open>runScenario\<close> gives
  and frees its slot. \<open>outcome\<close> relates the index of a job to what it may return.
\<close>

inductive run_step :: "nat \<Rightarrow> goerror option \<Rightarrow> (nat \<Rightarrow> goerror + 'r \<Rightarrow> bool) \<Rightarrow> 'r run_state \<Rightarrow> 'r run_state \<Rightarrow> bool"
  for cap ctxErr outcome where
  take_slot: "i < length (rs_jobs s) \<Longrightarrow> rs_jobs s ! i = Waiting \<Longrightarrow> rs_slots s < cap \<Longrightarrow>
    run_step cap ctxErr outcome s (s\<lparr>rs_jobs := (rs_jobs s)[i := Running], rs_slots := rs_slots s + 1\<rparr>)"
| give_up: "i < length (rs_jobs s) \<Longrightarrow> rs_jobs s ! i = Waiting \<Longrightarrow> ctxErr = Some e \<Longrightarrow>
    run_step cap ctxErr outcome s (s\<lparr>rs_jobs := (rs_jobs s)[i := Finished (Inl e)]\<rparr>)"
| finish_job: "i < length (rs_jobs s) \<Longrightarrow> rs_jobs s ! i = Running \<Longrightarrow> outcome i r \<Longrightarrow>
    run_step cap ctxErr outcome s (s\<lparr>rs_jobs := (rs_jobs s)[i := Finished r], rs_slots := rs_slots s - 1\<rparr>)"

fun collect :: "(goerror + 'r) list \<Rightarrow> goerror + 'r list" where
  "collect [] = Inr []"
| "collect (r # rs) = (case r of Inl e \<Rightarrow> Inl e | Inr x \<Rightarrow> map_sum id ((#) x) (collect rs))"

text \<open>What \<open>run\<close> returns once the wait group is done: every job has finished.\<close>

definition run_result :: "'r run_state \<Rightarrow> (goerror + 'r list) option" where
  "run_result s = map_option collect (those (map (\<lambda>j. case j of Finished r \<Rightarrow> Some r | _ \<Rightarrow> None) (rs_jobs s)))"

section \<open>The exit status\<close>

definition Main_status ::
  "bool \<Rightarrow> goerror option list \<Rightarrow> (string \<Rightarrow> goerror + (string \<Rightarrow> bool)) \<Rightarrow> string \<Rightarrow> int \<Rightarrow> int \<Rightarrow>
    ('g scenario list \<Rightarrow> goerror + 'g scenarioResult list) \<Rightarrow> (profile_error + 'g scenario list) option \<Rightarrow> int option" where
  "Main_status check writes compile pattern batch batches run available =
     (case available of
        None \<Rightarrow> None
      | Some (Inl err) \<Rightarrow> Some 1
      | Some (Inr scs) \<Rightarrow>
          (case filterScenarios compile pattern scs of
             Inl err \<Rightarrow> Some 1
           | Inr selected \<Rightarrow>
               (case batchScenarios selected batch batches of
                  None \<Rightarrow> Some 1
                | Some selected \<Rightarrow>
                    (case run selected of
                       Inl err \<Rightarrow> Some 1
                     | Inr results \<Rightarrow>
                         if first_error writes \<noteq> None then Some 1
                         else map_option (\<lambda>failures. if failures \<noteq> [] \<and> check then 1 else 0) (check_all results)))))"

section \<open>Properties\<close>

lemma check_all_runnable:
  assumes "\<forall>res\<in>set results. runnable (re_sc res)"
  shows "\<exists>out. check_all results = Some out \<and> (out = [] \<longleftrightarrow> (\<forall>res\<in>set results. expectations_met res))"
  using assms
proof (induction results)
  case (Cons res results)
  then obtain o2 where "check_all results = Some o2" "o2 = [] \<longleftrightarrow> (\<forall>res\<in>set results. expectations_met res)" by auto
  moreover obtain o1 where "checkResult res = Some o1" "o1 = [] \<longleftrightarrow> expectations_met res"
    using Cons.prems by (auto simp: runnable_def)
  ultimately show ?case by simp
qed simp

lemma filterScenarios_subset: "filterScenarios compile pattern scs = Inr selected \<Longrightarrow> set selected \<subseteq> set scs"
  by (cases "compile pattern") (auto simp: filterScenarios_def Let_def split: if_split_asm)

lemma batchScenarios_subset: "batchScenarios available batch batches = Some selected \<Longrightarrow> set selected \<subseteq> set available"
  by (auto simp: batchScenarios_def in_set_enumerate_eq split: if_split_asm)


lemma map_sum_eq:
  "map_sum f g x = Inr y \<longleftrightarrow> (\<exists>z. x = Inr z \<and> y = g z)"
  "map_sum f g x = Inl e \<longleftrightarrow> (\<exists>d. x = Inl d \<and> e = f d)"
  by (cases x; auto)+

lemma collect_Inr: "collect rs = Inr xs \<longleftrightarrow> rs = map Inr xs"
proof (induction rs arbitrary: xs)
  case (Cons r rs)
  have "collect (r # rs) = Inr xs \<longleftrightarrow> (\<exists>b ys. r = Inr b \<and> rs = map Inr ys \<and> xs = b # ys)"
    by (cases r) (simp_all add: map_sum_eq Cons.IH)
  also have "\<dots> \<longleftrightarrow> r # rs = map Inr xs" by (auto simp: Cons_eq_map_conv)
  finally show ?case .
qed auto

lemma collect_Inl: "collect rs = Inl e \<Longrightarrow> \<exists>xs ys. rs = map Inr xs @ Inl e # ys"
proof (induction rs)
  case (Cons r rs)
  show ?case
  proof (cases r)
    case (Inl d)
    then have "r # rs = map Inr [] @ Inl e # rs" using Cons.prems by simp
    then show ?thesis by blast
  next
    case (Inr b)
    then obtain xs ys where "rs = map Inr xs @ Inl e # ys" using Cons by (auto simp: map_sum_eq)
    then have "r # rs = map Inr (b # xs) @ Inl e # ys" using Inr by simp
    then show ?thesis by blast
  qed
qed simp

fun job_work :: "'r job \<Rightarrow> nat" where
  "job_work Waiting = 2"
| "job_work Running = 1"
| "job_work (Finished r) = 0"

abbreviation pool_work :: "'r run_state \<Rightarrow> nat" where
  "pool_work s \<equiv> sum_list (map job_work (rs_jobs s))"

abbreviation running :: "'r run_state \<Rightarrow> nat" where
  "running s \<equiv> length (filter (\<lambda>j. j = Running) (rs_jobs s))"

definition pool_inv :: "nat \<Rightarrow> nat \<Rightarrow> (nat \<Rightarrow> goerror + 'r \<Rightarrow> bool) \<Rightarrow> goerror option \<Rightarrow> 'r run_state \<Rightarrow> bool" where
  "pool_inv n cap outcome ctxErr s \<longleftrightarrow> length (rs_jobs s) = n \<and> rs_slots s = running s \<and> rs_slots s \<le> cap \<and>
     (\<forall>i r. i < n \<longrightarrow> rs_jobs s ! i = Finished r \<longrightarrow> outcome i r \<or> (\<exists>e. r = Inl e \<and> ctxErr = Some e))"

lemma weight_update: "i < length xs \<Longrightarrow> sum_list (map f (xs[i := x])) + f (xs ! i) = sum_list (map f xs) + (f x :: nat)"
  by (induction xs arbitrary: i) (auto split: nat.splits)

lemma count_update: "i < length xs \<Longrightarrow> length (filter P (xs[i := x])) + of_bool (P (xs ! i)) = length (filter P xs) + of_bool (P x)"
proof -
  have "length (filter P ys) = sum_list (map (\<lambda>y. of_bool (P y)) ys)" for ys by (induction ys) auto
  then show "i < length xs \<Longrightarrow> ?thesis" using weight_update [of i xs "\<lambda>y. of_bool (P y)" x] by simp
qed

lemma run_step_work: "run_step cap ctxErr outcome s s' \<Longrightarrow> pool_work s' < pool_work s"
proof (erule run_step.cases)
  fix i t assume "s = t" "i < length (rs_jobs t)" "rs_jobs t ! i = Waiting" "s' = t\<lparr>rs_jobs := (rs_jobs t)[i := Running], rs_slots := rs_slots t + 1\<rparr>"
  then show ?thesis using weight_update [of i "rs_jobs t" job_work Running] by simp
next
  fix i t e assume "s = t" "i < length (rs_jobs t)" "rs_jobs t ! i = Waiting" "s' = t\<lparr>rs_jobs := (rs_jobs t)[i := Finished (Inl e)]\<rparr>"
  then show ?thesis using weight_update [of i "rs_jobs t" job_work "Finished (Inl e)"] by simp
next
  fix i t r assume "s = t" "i < length (rs_jobs t)" "rs_jobs t ! i = Running" "s' = t\<lparr>rs_jobs := (rs_jobs t)[i := Finished r], rs_slots := rs_slots t - 1\<rparr>"
  then show ?thesis using weight_update [of i "rs_jobs t" job_work "Finished r"] by simp
qed

lemma pool_inv_step:
  assumes "run_step cap ctxErr outcome s s'" "pool_inv n cap outcome ctxErr s"
  shows "pool_inv n cap outcome ctxErr s'"
  using assms(1)
proof cases
  case (take_slot i)
  then show ?thesis using assms(2) count_update [of i "rs_jobs s" "\<lambda>j. j = Running" Running]
    by (auto simp: pool_inv_def nth_list_update)
next
  case (give_up i e)
  then show ?thesis using assms(2) count_update [of i "rs_jobs s" "\<lambda>j. j = Running" "Finished (Inl e)"]
    by (auto simp: pool_inv_def nth_list_update)
next
  case (finish_job i r)
  then show ?thesis using assms(2) count_update [of i "rs_jobs s" "\<lambda>j. j = Running" "Finished r"]
    by (auto simp: pool_inv_def nth_list_update)
qed

lemma pool_inv_reachable: "(run_step cap ctxErr outcome)\<^sup>*\<^sup>* (run_start n) s \<Longrightarrow> pool_inv n cap outcome ctxErr s"
  by (induction rule: rtranclp_induct) (auto simp: pool_inv_step, simp add: pool_inv_def run_start_def)

lemma those_Some: "those xs = Some ys \<longleftrightarrow> xs = map Some ys"
proof (induction xs arbitrary: ys)
  case (Cons x xs)
  then show ?case by (cases x; cases ys) auto
qed auto

lemma those_None: "those xs = None \<longleftrightarrow> None \<in> set xs"
proof (induction xs)
  case (Cons x xs)
  then show ?case by (cases x) auto
qed simp

lemma run_result_Some: "run_result s = Some r \<longleftrightarrow> (\<exists>rs. rs_jobs s = map Finished rs \<and> collect rs = r)"
proof -
  have "map (\<lambda>j. case j of Finished r \<Rightarrow> Some r | _ \<Rightarrow> None) js = map Some rs \<longleftrightarrow> js = map Finished rs" for js :: "'a jobs" and rs
  proof (induction js arbitrary: rs)
    case (Cons j js)
    then show ?case by (cases j; cases rs) auto
  qed simp
  then show ?thesis by (auto simp: run_result_def those_Some)
qed

lemma run_progress:
  assumes "pool_inv n cap outcome ctxErr s" "0 < cap" "\<And>i. \<exists>r. outcome i r" "run_result s = None"
  shows "\<exists>s'. run_step cap ctxErr outcome s s'"
proof (cases "Running \<in> set (rs_jobs s)")
  case True
  then show ?thesis using assms(3) finish_job by (metis in_set_conv_nth)
next
  case False
  then have "rs_slots s = 0" using assms(1) by (auto simp: pool_inv_def filter_empty_conv)
  moreover from assms(4) False have "Waiting \<in> set (rs_jobs s)"
    by (force simp: run_result_def those_None split: job.split_asm)
  ultimately show ?thesis using assms(2) take_slot by (metis in_set_conv_nth)
qed

text \<open>
  C39: the pool of scenarios is bounded, always finishes and keeps the order. At any time at most \<open>parallel\<close>
  scenarios run (all of them if it is not positive). As long as a job has not finished some step is possible,
  provided that running scenarios return, and every step uses up work, so the wait group is released after
  finitely many steps. Then \<open>run\<close> returns the results in the order of the scenarios, each from its own run, or
  the error of the first scenario in that order that failed.
\<close>

theorem scenario_pool_completes:
  assumes "(run_step (run_capacity parallel n) ctxErr outcome)\<^sup>*\<^sup>* (run_start n) s" and "\<forall>i. \<exists>r. outcome i r"
  shows "running s \<le> run_capacity parallel n \<and>
    (run_result s = None \<longrightarrow> (\<exists>s'. run_step (run_capacity parallel n) ctxErr outcome s s')) \<and>
    (\<forall>s'. run_step (run_capacity parallel n) ctxErr outcome s s' \<longrightarrow> pool_work s' < pool_work s) \<and>
    (\<forall>results. run_result s = Some (Inr results) \<longrightarrow> length results = n \<and> (\<forall>i<n. outcome i (Inr (results ! i)))) \<and>
    (\<forall>e. run_result s = Some (Inl e) \<longrightarrow> (\<exists>i<n. rs_jobs s ! i = Finished (Inl e) \<and> (\<forall>j<i. \<exists>x. rs_jobs s ! j = Finished (Inr x))))"
proof -
  note inv = pool_inv_reachable [OF assms(1)]
  have cap: "0 < run_capacity parallel n" if "run_result s = None"
    using that inv by (cases n) (auto simp: run_capacity_def run_result_def pool_inv_def)
  have "length results = n \<and> (\<forall>i<n. outcome i (Inr (results ! i)))" if "run_result s = Some (Inr results)" for results
    using that inv by (fastforce simp: run_result_Some collect_Inr pool_inv_def)
  moreover have "\<exists>i<n. rs_jobs s ! i = Finished (Inl e) \<and> (\<forall>j<i. \<exists>x. rs_jobs s ! j = Finished (Inr x))" if "run_result s = Some (Inl e)" for e
  proof -
    from that obtain rs where "rs_jobs s = map Finished rs" "collect rs = Inl e" by (auto simp: run_result_Some)
    moreover from this obtain xs ys where "rs = map Inr xs @ Inl e # ys" using collect_Inl by blast
    ultimately show ?thesis using inv by (intro exI [of _ "length xs"]) (auto simp: pool_inv_def nth_append)
  qed
  ultimately show ?thesis
    using inv run_progress [OF inv cap] assms(2) by (auto simp: pool_inv_def run_step_work)
qed

text \<open>Two scenarios with one slot: both finish, one after the other.\<close>

theorem scenario_pool_completes_witness:
  "\<exists>s. (run_step (run_capacity 1 2) None (\<lambda>i r. r = Inr i))\<^sup>*\<^sup>* (run_start 2) s \<and> run_result s = Some (Inr [0, 1]) \<and> running s \<le> 1"
proof -
  let ?step = "run_step (run_capacity 1 2) None (\<lambda>i (r :: goerror + nat). r = Inr i)"
  let ?s = "\<lambda>a b k. \<lparr>rs_jobs = [a, b :: nat job], rs_slots = k\<rparr>"
  have "?step (?s Waiting Waiting 0) (?s Running Waiting 1)" "?step (?s Running Waiting 1) (?s (Finished (Inr 0)) Waiting 0)"
    "?step (?s (Finished (Inr 0)) Waiting 0) (?s (Finished (Inr 0)) Running 1)"
    "?step (?s (Finished (Inr 0)) Running 1) (?s (Finished (Inr 0)) (Finished (Inr 1)) 0)"
    using take_slot [of 0 "?s Waiting Waiting 0" 1 None "\<lambda>i r. r = Inr i"] finish_job [of 0 "?s Running Waiting 1" "\<lambda>i r. r = Inr i" "Inr 0" 1 None]
      take_slot [of 1 "?s (Finished (Inr 0)) Waiting 0" 1 None "\<lambda>i r. r = Inr i"]
      finish_job [of 1 "?s (Finished (Inr 0)) Running 1" "\<lambda>i r. r = Inr i" "Inr 1" 1 None]
    by (simp_all add: run_capacity_def)
  then have r: "?step\<^sup>*\<^sup>* (run_start 2) (?s (Finished (Inr 0)) (Finished (Inr 1)) 0)"
    by (auto simp: run_start_def numeral_2_eq_2 intro: converse_rtranclp_into_rtranclp)
  have "run_result (?s (Finished (Inr 0)) (Finished (Inr 1)) 0) = Some (Inr [0, 1])" by (simp add: run_result_def)
  moreover have "running (?s (Finished (Inr 0)) (Finished (Inr 1)) 0) \<le> 1"
    using scenario_pool_completes [OF r] by (simp add: run_capacity_def)
  ultimately show ?thesis using r by blast
qed


end
