(* ===== verification/Sim_Proxy.thy ===== *)
theory Sim_Proxy
  imports Sim_Environment Kbin
begin

text \<open>
  The TCP proxy in front of the fake brokers: \<open>proxy.go\<close> and \<open>observer.go\<close> under \<open>pkg/internal/simulation/mimir\<close>.
  Frames, header offsets, the table of outstanding requests, the rewriting of Metadata and of late Produce
  responses, and the delivery of responses are modelled; the decoders and encoders of franz-go's \<open>kmsg\<close> are
  arguments (\<open>kmsg_lib\<close>), and so are the port that a new listener gets, the clock and the injected latency. Every
  index and slice expression that Go checks at run time is written out: \<open>None\<close> is a panic.
\<close>

section \<open>Frames\<close>

abbreviation (input) maxFrame :: nat where "maxFrame \<equiv> 33554432"

datatype frame_error = EOF | ErrUnexpectedEOF | ErrTooLarge

text \<open>\<open>io.ReadFull\<close> on the bytes that the peer sends before it closes.\<close>

definition ReadFull :: "nat \<Rightarrow> bytes \<Rightarrow> frame_error + bytes \<times> bytes" where
  "ReadFull n stream =
     (if n \<le> length stream then Inr (take n stream, drop n stream)
      else if stream = [] then Inl EOF else Inl ErrUnexpectedEOF)"

definition readKafkaFrame :: "bytes \<Rightarrow> frame_error + bytes \<times> bytes" where
  "readKafkaFrame stream =
     (case ReadFull 4 stream of
        Inl e \<Rightarrow> Inl e
      | Inr (header, stream) \<Rightarrow>
          (let sz = unat (big_endian header :: 32 word)
           in if maxFrame < sz then Inl ErrTooLarge else ReadFull sz stream))"

text \<open>\<open>writeKafkaFrame\<close> writes the header, then the frame, in as many writes as the connection needs.\<close>

definition writeKafkaFrame :: "(nat \<Rightarrow> nat \<times> bool) \<Rightarrow> (nat \<Rightarrow> nat \<times> bool) \<Rightarrow> bytes \<Rightarrow> bytes \<times> bool" where
  "writeKafkaFrame w1 w2 frame =
     (case write_loop w1 0 (AppendInt32 [] (word_of_nat (length frame))) of
        (sent, False) \<Rightarrow> (sent, False)
      | (sent, True) \<Rightarrow> (case write_loop w2 0 frame of (rest, ok) \<Rightarrow> (sent @ rest, ok)))"

fun readFrames :: "nat \<Rightarrow> bytes \<Rightarrow> bytes list \<times> frame_error option" where
  "readFrames 0 stream = ([], None)"
| "readFrames (Suc n) stream =
     (case readKafkaFrame stream of
        Inl e \<Rightarrow> ([], Some e)
      | Inr (frame, rest) \<Rightarrow> (case readFrames n rest of (frames, e) \<Rightarrow> (frame # frames, e)))"

section \<open>Headers\<close>

text \<open>\<open>binary.Uvarint\<close>.\<close>

fun Uvarint :: "nat \<Rightarrow> 64 word \<Rightarrow> bytes \<Rightarrow> 64 word \<times> int" where
  "Uvarint i x [] = (0, 0)"
| "Uvarint i x (b # bs) =
     (if i = 10 then (0, - (int i + 1))
      else if b < 0x80 then (if i = 9 \<and> 1 < b then (0, - (int i + 1)) else (x OR push_bit (7 * i) (ucast b), int i + 1))
      else Uvarint (Suc i) (x OR push_bit (7 * i) (ucast (b AND 0x7f))) bs)"

definition frame_from :: "bytes \<Rightarrow> nat \<Rightarrow> bytes option" where
  "frame_from frame offset = (if offset \<le> length frame then Some (drop offset frame) else None)"

definition read_uvarint :: "bytes \<Rightarrow> nat \<Rightarrow> (frame_error + 64 word \<times> nat) option" where
  "read_uvarint frame offset =
     map_option (\<lambda>rest. case Uvarint 0 0 rest of (v, n) \<Rightarrow> if n \<le> 0 then Inl ErrUnexpectedEOF else Inr (v, offset + nat n))
       (frame_from frame offset)"

text \<open>\<open>uint64(len(frame)-offset)\<close>.\<close>

definition bytes_left :: "bytes \<Rightarrow> nat \<Rightarrow> nat" where
  "bytes_left frame offset = nat ((int (length frame) - int offset) mod 2 ^ 64)"

fun skip_tags :: "bytes \<Rightarrow> nat \<Rightarrow> nat \<Rightarrow> (frame_error + nat) option" where
  "skip_tags frame 0 offset = Some (Inr offset)"
| "skip_tags frame (Suc n) offset =
     Option.bind (read_uvarint frame offset) (\<lambda>r.
     case r of
       Inl e \<Rightarrow> Some (Inl e)
     | Inr (tag, offset) \<Rightarrow>
         Option.bind (read_uvarint frame offset) (\<lambda>r.
         case r of
           Inl e \<Rightarrow> Some (Inl ErrUnexpectedEOF)
         | Inr (len, offset) \<Rightarrow>
             if bytes_left frame offset < unat len then Some (Inl ErrUnexpectedEOF)
             else skip_tags frame n (offset + unat len)))"

definition responseHeaderLength :: "bytes \<Rightarrow> bool \<Rightarrow> (frame_error + nat) option" where
  "responseHeaderLength frame flexible =
     (if length frame < 4 then Some (Inl ErrUnexpectedEOF)
      else if \<not> flexible then Some (Inr 4)
      else Option.bind (read_uvarint frame 4) (\<lambda>r.
        case r of Inl e \<Rightarrow> Some (Inl e) | Inr (n, offset) \<Rightarrow> skip_tags frame (unat n) offset))"

section \<open>Produce requests and responses\<close>

record kmsg_lib =
  km_flexible :: "int \<Rightarrow> int \<Rightarrow> bool"
  km_readTimeoutMillis :: "int \<Rightarrow> bytes \<Rightarrow> goerror + int"
  km_readProduce :: "int \<Rightarrow> bytes \<Rightarrow> goerror + ProduceResponse"
  km_appendProduce :: "int \<Rightarrow> ProduceResponse \<Rightarrow> bytes"
  km_readMetadata :: "int \<Rightarrow> bytes \<Rightarrow> goerror + view_response"
  km_appendMetadata :: "int \<Rightarrow> view_response \<Rightarrow> bytes"

abbreviation (input) api_Produce :: int where "api_Produce \<equiv> 0"
abbreviation (input) api_Metadata :: int where "api_Metadata \<equiv> 3"
abbreviation (input) KafkaStorageError :: int where "KafkaStorageError \<equiv> 56"

datatype proxy_error = FrameError frame_error | BadClientID | KmsgError goerror | ListenError goerror | ProxyClosed

definition Uint16_at :: "bytes \<Rightarrow> nat \<Rightarrow> int option" where
  "Uint16_at frame i = (if i + 2 \<le> length frame then Some (sint (big_endian (take 2 (drop i frame)) :: 16 word)) else None)"

definition Uint32_at :: "bytes \<Rightarrow> nat \<Rightarrow> int option" where
  "Uint32_at frame i = (if i + 4 \<le> length frame then Some (sint (big_endian (take 4 (drop i frame)) :: 32 word)) else None)"

text \<open>The request's timeout: its header is the API key, the version, the correlation, the client identifier and the tags.\<close>

definition timeout_after :: "kmsg_lib \<Rightarrow> int \<Rightarrow> bytes \<Rightarrow> nat \<Rightarrow> (proxy_error + duration) option" where
  "timeout_after lib version frame offset =
     map_option (\<lambda>body. case km_readTimeoutMillis lib version body of
         Inl e \<Rightarrow> Inl (KmsgError e)
       | Inr t \<Rightarrow> Inr (i64 (t * millisecond))) (frame_from frame offset)"

definition produceTimeout :: "kmsg_lib \<Rightarrow> bytes \<Rightarrow> int \<Rightarrow> (proxy_error + duration) option" where
  "produceTimeout lib frame version =
     (if length frame < 10 then Some (Inl (FrameError ErrUnexpectedEOF))
      else Option.bind (Uint16_at frame 8) (\<lambda>clientLength.
        if clientLength < -1 then Some (Inl BadClientID)
        else let offset = 10 + nat (max 0 clientLength)
             in if length frame < offset then Some (Inl (FrameError ErrUnexpectedEOF))
                else if \<not> km_flexible lib api_Produce version then timeout_after lib version frame offset
                else Option.bind (frame_from frame (offset - 4)) (\<lambda>tail.
                  Option.bind (responseHeaderLength tail True) (\<lambda>r.
                  case r of
                    Inl e \<Rightarrow> Some (Inl (FrameError e))
                  | Inr header \<Rightarrow> timeout_after lib version frame (offset + header - 4)))))"

definition read_produce :: "kmsg_lib \<Rightarrow> bytes \<Rightarrow> int \<Rightarrow> (proxy_error + nat \<times> ProduceResponse) option" where
  "read_produce lib frame version =
     Option.bind (responseHeaderLength frame (km_flexible lib api_Produce version)) (\<lambda>r.
     case r of
       Inl e \<Rightarrow> Some (Inl (FrameError e))
     | Inr offset \<Rightarrow> map_option (\<lambda>body. case km_readProduce lib version body of
           Inl e \<Rightarrow> Inl (KmsgError e)
         | Inr response \<Rightarrow> Inr (offset, response)) (frame_from frame offset))"

definition storage_errors :: "ProduceResponse \<Rightarrow> ProduceResponse" where
  "storage_errors r = r\<lparr>resp_Topics := map (\<lambda>t. t\<lparr>rt_Partitions := map (\<lambda>p.
     if rp_ErrorCode p = 0 then p\<lparr>rp_ErrorCode := KafkaStorageError\<rparr> else p) (rt_Partitions t)\<rparr>) (resp_Topics r)\<rparr>"

definition timeoutProduceResponse :: "kmsg_lib \<Rightarrow> bytes \<Rightarrow> int \<Rightarrow> (proxy_error + bytes) option" where
  "timeoutProduceResponse lib frame version =
     map_option (\<lambda>r. case r of
         Inl e \<Rightarrow> Inl e
       | Inr (offset, response) \<Rightarrow> Inr (take offset frame @ km_appendProduce lib version (storage_errors response)))
       (read_produce lib frame version)"

text \<open>\<open>observeProduceResponse\<close>: the partitions that it passes on, and whether there is one.\<close>

definition observeProduceResponse :: "kmsg_lib \<Rightarrow> bytes \<Rightarrow> int \<Rightarrow> (partition list \<times> bool) option" where
  "observeProduceResponse lib frame version =
     map_option (\<lambda>r. case r of
         Inl e \<Rightarrow> ([], False)
       | Inr (offset, response) \<Rightarrow>
           (let acked = map (snd \<circ> fst) (filter (\<lambda>(tp, e). rp_ErrorCode e = 0) (entries response)) in (acked, acked \<noteq> [])))
       (read_produce lib frame version)"

section \<open>Listeners\<close>

record brokerProxy =
  px_closed :: bool
  px_listeners :: "(string, int) gomap"

definition newBrokerProxy :: brokerProxy where
  "newBrokerProxy = \<lparr>px_closed = False, px_listeners = []\<rparr>"

text \<open>
  \<open>address\<close>: every target has one listener on 127.0.0.1, whose port is the result. \<open>listen k\<close> is what the operating
  system answers to the \<open>k\<close>-th request for a port.
\<close>

definition proxy_address :: "(nat \<Rightarrow> goerror + int) \<Rightarrow> brokerProxy \<Rightarrow> string \<Rightarrow> brokerProxy \<times> (proxy_error + int)" where
  "proxy_address listen p target =
     (if px_closed p then (p, Inl ProxyClosed)
      else case map_of (px_listeners p) target of
        Some port \<Rightarrow> (p, Inr port)
      | None \<Rightarrow> (case listen (length (px_listeners p)) of
            Inl err \<Rightarrow> (p, Inl (ListenError err))
          | Inr port \<Rightarrow> (p\<lparr>px_listeners := AList.update target port (px_listeners p)\<rparr>, Inr port)))"

definition JoinHostPort :: "string \<Rightarrow> int \<Rightarrow> string" where
  "JoinHostPort host port =
     (if CHR '':'' \<in> set host then ''['' @ host @ '']:'' @ decimal port else host @ '':'' @ decimal port)"

fun rewrite_brokers ::
  "(nat \<Rightarrow> goerror + int) \<Rightarrow> brokerProxy \<Rightarrow> MetadataResponseBroker list \<Rightarrow> brokerProxy \<times> (proxy_error + MetadataResponseBroker list)" where
  "rewrite_brokers listen p [] = (p, Inr [])"
| "rewrite_brokers listen p (b # bs) =
     (case proxy_address listen p (JoinHostPort (mb_Host b) (mb_Port b)) of
        (p, Inl e) \<Rightarrow> (p, Inl e)
      | (p, Inr port) \<Rightarrow>
          (case rewrite_brokers listen p bs of
             (p, Inl e) \<Rightarrow> (p, Inl e)
           | (p, Inr bs) \<Rightarrow> (p, Inr (b\<lparr>mb_Host := ''127.0.0.1'', mb_Port := i32 port\<rparr> # bs))))"

definition rewriteMetadata ::
  "kmsg_lib \<Rightarrow> (nat \<Rightarrow> goerror + int) \<Rightarrow> brokerProxy \<Rightarrow> bytes \<Rightarrow> int \<Rightarrow> (brokerProxy \<times> (proxy_error + bytes)) option" where
  "rewriteMetadata lib listen p frame version =
     Option.bind (responseHeaderLength frame (km_flexible lib api_Metadata version)) (\<lambda>r.
     case r of
       Inl e \<Rightarrow> Some (p, Inl (FrameError e))
     | Inr offset \<Rightarrow> map_option (\<lambda>body. case km_readMetadata lib version body of
           Inl e \<Rightarrow> (p, Inl (KmsgError e))
         | Inr response \<Rightarrow>
             (case rewrite_brokers listen p (vr_Brokers response) of
                (p, Inl e) \<Rightarrow> (p, Inl e)
              | (p, Inr bs) \<Rightarrow> (p, Inr (take offset frame @ km_appendMetadata lib version (response\<lparr>vr_Brokers := bs\<rparr>)))))
         (frame_from frame offset))"

section \<open>One connection\<close>

record requestKind =
  rq_api :: int
  rq_version :: int
  rq_timeout :: duration

type_synonym outstanding_requests = "(int, requestKind) gomap"

text \<open>
  What the request loop does with a frame: it remembers Metadata and Produce requests by correlation. An error of
  the parser ends the connection.
\<close>

definition note_request :: "kmsg_lib \<Rightarrow> bool \<Rightarrow> bytes \<Rightarrow> outstanding_requests \<Rightarrow> (proxy_error + outstanding_requests) option" where
  "note_request lib enforce frame requests =
     (if length frame < 8 then Some (Inr requests)
      else Option.bind (Uint16_at frame 0) (\<lambda>api.
        if api \<noteq> api_Metadata \<and> api \<noteq> api_Produce then Some (Inr requests)
        else Option.bind (Uint16_at frame 2) (\<lambda>version.
          Option.bind (if api = api_Produce \<and> enforce then produceTimeout lib frame version else Some (Inr 0)) (\<lambda>t.
          map_option (\<lambda>correlation. case t of
              Inl e \<Rightarrow> Inl e
            | Inr tmo \<Rightarrow> Inr (AList.update correlation \<lparr>rq_api = api, rq_version = version, rq_timeout = tmo\<rparr> requests))
            (Uint32_at frame 4)))))"

record proxied_response =
  rs_frame :: bytes
  rs_due :: instant
  rs_produce :: bool
  rs_version :: int

text \<open>
  What the response loop makes of a frame at time \<open>now\<close>. \<open>latency\<close> is the delay that would be drawn for a Produce
  response, if the proxy injects any. The result has the remaining requests, the proxy and the response; an error
  ends the connection.
\<close>

definition delay_produce ::
  "kmsg_lib \<Rightarrow> bool \<Rightarrow> duration option \<Rightarrow> instant \<Rightarrow> requestKind \<Rightarrow> bytes \<Rightarrow> (proxy_error + bytes \<times> instant) option" where
  "delay_produce lib enforce latency now kind frame =
     (case latency of
        None \<Rightarrow> Some (Inr (frame, now))
      | Some delay \<Rightarrow>
          if enforce \<and> rq_timeout kind < delay
          then map_option (map_sum id (\<lambda>f. (f, now + rq_timeout kind))) (timeoutProduceResponse lib frame (rq_version kind))
          else Some (Inr (frame, now + delay)))"

definition answer_frame ::
  "kmsg_lib \<Rightarrow> bool \<Rightarrow> (nat \<Rightarrow> goerror + int) \<Rightarrow> duration option \<Rightarrow> instant \<Rightarrow> bytes \<Rightarrow> outstanding_requests \<times> brokerProxy \<Rightarrow>
    ((outstanding_requests \<times> brokerProxy) \<times> (proxy_error + proxied_response)) option" where
  "answer_frame lib enforce listen latency now frame st =
     (case st of (requests, p) \<Rightarrow>
        if length frame < 4 then Some (st, Inr \<lparr>rs_frame = frame, rs_due = now, rs_produce = False, rs_version = 0\<rparr>)
        else Option.bind (Uint32_at frame 0) (\<lambda>correlation.
          let requests' = AList.delete correlation requests
          in case map_of requests correlation of
            None \<Rightarrow> Some ((requests', p), Inr \<lparr>rs_frame = frame, rs_due = now, rs_produce = False, rs_version = 0\<rparr>)
          | Some kind \<Rightarrow>
              if rq_api kind = api_Metadata
              then map_option (\<lambda>(p, r). ((requests', p), map_sum id (\<lambda>f. \<lparr>rs_frame = f, rs_due = now, rs_produce = False, rs_version = 0\<rparr>) r))
                     (rewriteMetadata lib listen p frame (rq_version kind))
              else map_option (\<lambda>r. ((requests', p), map_sum id (\<lambda>(f, due). \<lparr>rs_frame = f, rs_due = due, rs_produce = True, rs_version = rq_version kind\<rparr>) r))
                     (delay_produce lib enforce latency now kind frame)))"

text \<open>The delivery loop: a response waits for its due time, in order; \<open>t\<close> is when the previous write was done.\<close>

fun deliver :: "instant \<Rightarrow> proxied_response list \<Rightarrow> (instant \<times> bytes) list" where
  "deliver t [] = []"
| "deliver t (r # rs) = (let t = max t (rs_due r) in (t, rs_frame r) # deliver t rs)"

section \<open>Slices stay in range\<close>

lemma Uvarint_length: "Uvarint i x bs = (v, n) \<Longrightarrow> 0 < n \<Longrightarrow> n \<le> int i + int (length bs)"
proof (induction i x bs rule: Uvarint.induct)
  case (2 i x b bs)
  then show ?case by (auto split: if_split_asm)
qed simp

lemma read_uvarint_total:
  assumes "offset \<le> length frame"
  shows "\<exists>r. read_uvarint frame offset = Some r \<and> (\<forall>v k. r = Inr (v, k) \<longrightarrow> offset \<le> k \<and> k \<le> length frame)"
proof -
  obtain v n where u: "Uvarint 0 0 (drop offset frame) = (v, n)" by fastforce
  then show ?thesis using assms Uvarint_length [OF u] by (auto simp: read_uvarint_def frame_from_def)
qed

lemma skip_tags_total:
  "offset \<le> length frame \<Longrightarrow> length frame < 2 ^ 63 \<Longrightarrow>
    \<exists>r. skip_tags frame n offset = Some r \<and> (\<forall>k. r = Inr k \<longrightarrow> offset \<le> k \<and> k \<le> length frame)"
proof (induction n arbitrary: offset)
  case (Suc n)
  obtain r1 where r1: "read_uvarint frame offset = Some r1" "\<forall>v k. r1 = Inr (v, k) \<longrightarrow> offset \<le> k \<and> k \<le> length frame"
    using read_uvarint_total [OF Suc.prems(1)] by blast
  show ?case
  proof (cases r1)
    case Inl
    then show ?thesis using r1 by simp
  next
    case (Inr p)
    obtain tag k where p: "p = (tag, k)" by fastforce
    then have k: "offset \<le> k" "k \<le> length frame" using Inr r1(2) by auto
    obtain r2 where r2: "read_uvarint frame k = Some r2" "\<forall>v j. r2 = Inr (v, j) \<longrightarrow> k \<le> j \<and> j \<le> length frame"
      using read_uvarint_total [OF k(2)] by blast
    show ?thesis
    proof (cases r2)
      case Inl
      then show ?thesis using r1 r2 Inr p by simp
    next
      case (Inr q)
      obtain len j where q: "q = (len, j)" by fastforce
      then have j: "k \<le> j" "j \<le> length frame" using Inr r2(2) by auto
      have room: "bytes_left frame j = length frame - j" using j Suc.prems(2) by (simp add: bytes_left_def nat_diff_distrib)
      show ?thesis
      proof (cases "length frame - j < unat len")
        case True
        then show ?thesis using r1 r2 Inr p q room \<open>r1 = Inr p\<close> by simp
      next
        case False
        then have "j + unat len \<le> length frame" using j(2) by simp
        from Suc.IH [OF this Suc.prems(2)] show ?thesis
          using r1 r2 Inr p q room k j False \<open>r1 = Inr p\<close> by fastforce
      qed
    qed
  qed
qed simp

lemma responseHeaderLength_total:
  assumes "length frame < 2 ^ 63"
  shows "\<exists>r. responseHeaderLength frame flexible = Some r \<and> (\<forall>k. r = Inr k \<longrightarrow> 4 \<le> k \<and> k \<le> length frame)"
proof (cases "length frame < 4 \<or> \<not> flexible")
  case False
  then obtain r where r: "read_uvarint frame 4 = Some r" "\<forall>v k. r = Inr (v, k) \<longrightarrow> 4 \<le> k \<and> k \<le> length frame"
    using read_uvarint_total [of 4 frame] by auto
  show ?thesis
  proof (cases r)
    case (Inr p)
    then show ?thesis using False r skip_tags_total [OF _ assms, of "snd p" "unat (fst p)"]
      by (cases p) (fastforce simp: responseHeaderLength_def)
  qed (use False r in \<open>simp add: responseHeaderLength_def\<close>)
qed (auto simp: responseHeaderLength_def)

lemma frame_from_total: "offset \<le> length frame \<Longrightarrow> frame_from frame offset = Some (drop offset frame)"
  by (simp add: frame_from_def)

lemma timeout_after_total: "offset \<le> length frame \<Longrightarrow> \<exists>y. timeout_after lib version frame offset = Some y"
  by (simp add: timeout_after_def frame_from_total)

lemma produceTimeout_total:
  assumes "length frame < 2 ^ 63"
  shows "produceTimeout lib frame version \<noteq> None"
proof (cases "length frame < 10")
  case False
  then obtain n where n: "Uint16_at frame 8 = Some n" by (simp add: Uint16_at_def)
  let ?o = "10 + nat (max 0 n)"
  obtain r where r: "responseHeaderLength (drop (?o - 4) frame) True = Some r"
    "\<forall>k. r = Inr k \<longrightarrow> 4 \<le> k \<and> k \<le> length frame - (?o - 4)"
    using responseHeaderLength_total [of "drop (?o - 4) frame" True] assms by (auto simp: less_imp_diff_less)
  show ?thesis
  proof (cases "length frame < ?o \<or> n < -1 \<or> \<not> km_flexible lib api_Produce version")
    case True
    then show ?thesis using False n by (auto simp: produceTimeout_def Let_def timeout_after_total)
  next
    case flex: False
    then have "frame_from frame (?o - 4) = Some (drop (?o - 4) frame)" by (intro frame_from_total) simp
    moreover have "?o + k - 4 \<le> length frame" if "r = Inr k" for k using r(2) that flex by auto
    ultimately show ?thesis using False n flex r(1)
      by (cases r) (auto simp: produceTimeout_def Let_def timeout_after_total simp del: max_def)
  qed
qed (simp add: produceTimeout_def)

lemma read_produce_total:
  assumes "length frame < 2 ^ 63"
  shows "read_produce lib frame version \<noteq> None"
proof -
  obtain r where "responseHeaderLength frame (km_flexible lib api_Produce version) = Some r" "\<forall>k. r = Inr k \<longrightarrow> 4 \<le> k \<and> k \<le> length frame"
    using responseHeaderLength_total [OF assms] by blast
  then show ?thesis by (cases r) (auto simp: read_produce_def frame_from_total)
qed

lemma rewriteMetadata_total:
  assumes "length frame < 2 ^ 63"
  shows "rewriteMetadata lib listen p frame version \<noteq> None"
proof -
  obtain r where "responseHeaderLength frame (km_flexible lib api_Metadata version) = Some r" "\<forall>k. r = Inr k \<longrightarrow> 4 \<le> k \<and> k \<le> length frame"
    using responseHeaderLength_total [OF assms] by blast
  then show ?thesis by (cases r) (auto simp: rewriteMetadata_def frame_from_total)
qed

lemma note_request_total: "length frame < 2 ^ 63 \<Longrightarrow> note_request lib enforce frame requests \<noteq> None"
  using produceTimeout_total [of frame lib "sint (big_endian (take 2 (drop 2 frame)) :: 16 word)"]
  by (auto simp: note_request_def Uint16_at_def Uint32_at_def)

lemma answer_frame_total: "length frame < 2 ^ 63 \<Longrightarrow> answer_frame lib enforce listen latency now frame st \<noteq> None"
  using read_produce_total [of frame lib] rewriteMetadata_total [of frame lib listen]
  by (auto simp: answer_frame_def delay_produce_def timeoutProduceResponse_def Uint32_at_def Let_def split: prod.split option.split)

section \<open>Frames survive the connection\<close>

definition framed :: "bytes \<Rightarrow> bytes" where
  "framed frame = AppendInt32 [] (word_of_nat (length frame)) @ frame"

lemma frame_header: "n \<le> maxFrame \<Longrightarrow> unat (word_of_nat n :: 32 word) = n"
  by (simp add: unat_of_nat take_bit_eq_mod)

lemma readKafkaFrame_put:
  assumes "length frame \<le> maxFrame"
  shows "readKafkaFrame (framed frame @ rest) = Inr (frame, rest)"
  using assms by (simp add: framed_def readKafkaFrame_def ReadFull_def AppendInt32_def big_endian_Int32 frame_header)

lemma writeKafkaFrame_prefix:
  assumes "writeKafkaFrame w1 w2 frame = (sent, ok)"
  shows "\<exists>rest. framed frame = sent @ rest \<and> (ok \<longrightarrow> rest = [])"
proof -
  obtain s1 o1 where 1: "write_loop w1 0 (AppendInt32 [] (word_of_nat (length frame))) = (s1, o1)" by fastforce
  obtain s2 o2 where 2: "write_loop w2 0 frame = (s2, o2)" by fastforce
  show ?thesis using assms 1 2 write_loop_prefix [OF 1] write_loop_prefix [OF 2]
    by (cases o1) (auto simp: writeKafkaFrame_def framed_def)
qed

lemma readKafkaFrame_torn:
  assumes "length frame \<le> maxFrame" "framed frame = sent @ rest" "rest \<noteq> []"
  shows "\<exists>e. readKafkaFrame sent = Inl e"
proof (cases "length sent < 4")
  case True
  then show ?thesis by (auto simp: readKafkaFrame_def ReadFull_def)
next
  case False
  let ?h = "AppendInt32 [] (word_of_nat (length frame) :: 32 word)"
  have h: "length ?h = 4" by (simp add: AppendInt32_def)
  then have "take 4 (sent @ rest) = ?h" "drop 4 (sent @ rest) = frame" using assms(2) [symmetric] by (simp_all add: framed_def)
  moreover from this have "length frame = length sent + length rest - 4" by auto
  moreover from assms(3) have "0 < length rest" by simp
  ultimately have "take 4 sent = ?h" "length sent - 4 < length frame" using False by (simp, linarith)
  then show ?thesis using False assms(1) frame_header [OF assms(1)]
    by (auto simp: readKafkaFrame_def ReadFull_def AppendInt32_def big_endian_Int32)
qed

lemma readFrames_put:
  assumes "\<forall>frame\<in>set frames. length frame \<le> maxFrame"
  shows "readFrames (length frames + n) (concat (map framed frames) @ rest) = (case readFrames n rest of (fs, e) \<Rightarrow> (frames @ fs, e))"
  using assms by (induction frames) (auto simp: readKafkaFrame_put split: prod.split)

text \<open>
  Frames survive the connection. Whatever sizes the single writes have, the peer reads back the frames that
  were written, in order and unchanged, and then the end of the stream; when a write fails on the way, the peer
  reads the frames before it and then an error or that frame complete, never a torn frame.
\<close>

theorem kafka_frames_round_trip:
  assumes "\<forall>(frame, w1, w2)\<in>set writes. length frame \<le> maxFrame \<and> snd (writeKafkaFrame w1 w2 frame)"
    and "length frame \<le> maxFrame" and "writeKafkaFrame w1 w2 frame = (sent, ok)"
  shows "let stream = concat (map (\<lambda>(frame, w1, w2). fst (writeKafkaFrame w1 w2 frame)) writes); frames = map fst writes; k = length writes
    in readFrames (Suc k) stream = (frames, Some EOF) \<and>
       (ok \<longrightarrow> readFrames (Suc (Suc k)) (stream @ sent) = (frames @ [frame], Some EOF)) \<and>
       (\<exists>e. readFrames (Suc (Suc k)) (stream @ sent) \<in> {(frames, Some e), (frames @ [frame], Some e)})"
proof -
  let ?stream = "concat (map (\<lambda>(frame, w1, w2). fst (writeKafkaFrame w1 w2 frame)) writes)"
  have eof: "readFrames (Suc n) [] = ([], Some EOF)" for n by (simp add: readKafkaFrame_def ReadFull_def)
  have "fst (writeKafkaFrame v1 v2 f) = framed f" if "(f, v1, v2) \<in> set writes" for f v1 v2
    using that assms(1) writeKafkaFrame_prefix [of v1 v2 f "fst (writeKafkaFrame v1 v2 f)" "snd (writeKafkaFrame v1 v2 f)"] by fastforce
  then have "?stream = concat (map framed (map fst writes))" by (auto intro!: arg_cong [where f = concat])
  moreover have "\<forall>f\<in>set (map fst writes). length f \<le> maxFrame" using assms(1) by fastforce
  ultimately have read: "readFrames (length writes + n) (?stream @ rest) = (case readFrames n rest of (fs, e) \<Rightarrow> (map fst writes @ fs, e))" for n rest
    using readFrames_put [of "map fst writes" n rest] by (simp only: length_map)
  obtain rest where rest: "framed frame = sent @ rest" "ok \<longrightarrow> rest = []" using writeKafkaFrame_prefix [OF assms(3)] by blast
  have "readFrames 2 sent = ([frame], Some EOF)" if "rest = []"
    using that rest(1) readKafkaFrame_put [OF assms(2), of "[]"] eof [of 0] by (simp add: numeral_2_eq_2)
  moreover have "\<exists>e. readFrames 2 sent = ([], Some e)" if "rest \<noteq> []"
    using readKafkaFrame_torn [OF assms(2) rest(1) that] by (auto simp: numeral_2_eq_2)
  moreover have "readFrames (Suc (length writes)) ?stream = (map fst writes, Some EOF)" using read [of 1 "[]"] eof [of 0] by simp
  moreover have "readFrames (Suc (Suc (length writes))) (?stream @ sent) = (case readFrames 2 sent of (fs, e) \<Rightarrow> (map fst writes @ fs, e))"
    using read [of 2 sent] by simp
  ultimately show ?thesis using rest(2) by (cases "rest = []") (auto simp only: Let_def split: prod.split, auto)
qed

text \<open>The second write fails after the first byte of the frame.\<close>

theorem kafka_frames_round_trip_witness:
  "\<exists>e. readFrames 3 (fst (writeKafkaFrame (\<lambda>k. (3, False)) (\<lambda>k. (1, False)) [1, 2, 3]) @ fst (writeKafkaFrame (\<lambda>k. (4, False)) (\<lambda>k. (1, k = 0)) [7, 8])) =
     ([[1, 2, 3]], Some e)"
proof -
  let ?a = "writeKafkaFrame (\<lambda>k. (3, False)) (\<lambda>k. (1, False)) [1, 2, 3]" and ?b = "writeKafkaFrame (\<lambda>k. (4, False)) (\<lambda>k. (1, k = 0)) [7, 8]"
  have a: "?a = ([0, 0, 0, 3, 1, 2, 3], True)" and b: "?b = ([0, 0, 0, 2, 7], False)"
    by (simp_all add: writeKafkaFrame_def write_loop.simps AppendInt32_def)
  have three: "readFrames 3 s = readFrames (Suc (Suc (Suc 0))) s" for s by (simp add: numeral_3_eq_3)
  have "length (fst (readFrames 3 (fst ?a @ fst ?b))) = 1"
    unfolding a b three by (simp add: readKafkaFrame_def ReadFull_def big_endian_def)
  then show ?thesis
    using kafka_frames_round_trip [of "[([1, 2, 3], \<lambda>k. (3, False), \<lambda>k. (1, False))]" "[7, 8]" "\<lambda>k. (4, False)" "\<lambda>k. (1, k = 0)" "fst ?b" "snd ?b"] a
    unfolding three by (auto simp: Let_def)
qed


section \<open>The header stays in front\<close>

lemma Uvarint_prefix:
  assumes "Uvarint i x bs = (v, n)" "0 < n" "take (nat n - i) bs = take (nat n - i) bs'"
  shows "Uvarint i x bs' = (v, n)"
  using assms
proof (induction i x bs arbitrary: bs' rule: Uvarint.induct)
  case (2 i x b bs)
  have n: "int i < n"
  proof -
    have "Uvarint i x (b # bs) = (v, n) \<Longrightarrow> 0 < n \<Longrightarrow> int i < n" for i x bs b v n
    proof (induction bs arbitrary: i x b)
      case Nil
      then show ?case by (auto split: if_split_asm)
    next
      case (Cons c cs)
      show ?case
      proof (cases "i = 10 \<or> b < 0x80")
        case True
        then show ?thesis using Cons.prems by (auto split: if_split_asm)
      next
        case False
        then have "Uvarint (Suc i) (x OR push_bit (7 * i) (ucast (b AND 0x7f))) (c # cs) = (v, n)" using Cons.prems by auto
        from Cons.IH [OF this Cons.prems(2)] show ?thesis by simp
      qed
    qed
    then show ?thesis using 2(2,3) by blast
  qed
  then obtain m where m: "nat n - i = Suc m" by (cases "nat n - i") auto
  then obtain cs where bs': "bs' = b # cs" "take m bs = take m cs" using 2(4) by (cases bs') auto
  show ?case
  proof (cases "i = 10 \<or> b < 0x80")
    case True
    then show ?thesis using 2(2,3) by (auto simp: bs' split: if_split_asm)
  next
    case False
    then have "Uvarint (Suc i) (x OR push_bit (7 * i) (ucast (b AND 0x7f))) bs = (v, n)" using 2(2) by auto
    moreover have "take (nat n - Suc i) bs = take (nat n - Suc i) cs" using m bs'(2) by (simp add: diff_Suc)
    ultimately have "Uvarint (Suc i) (x OR push_bit (7 * i) (ucast (b AND 0x7f))) cs = (v, n)" using 2(1,3) False by blast
    then show ?thesis using False by (simp add: bs')
  qed
qed simp

lemma read_uvarint_prefix:
  assumes "read_uvarint frame offset = Some (Inr (v, j))" "j \<le> k" "take k frame = take k frame'" "k \<le> length frame'"
  shows "read_uvarint frame' offset = Some (Inr (v, j))"
proof -
  have o: "offset \<le> length frame" using assms(1) by (auto simp: read_uvarint_def frame_from_def split: if_split_asm)
  obtain n where n: "Uvarint 0 0 (drop offset frame) = (v, n)" "0 < n" "j = offset + nat n"
    using assms(1) o by (cases "Uvarint 0 0 (drop offset frame)") (auto simp: read_uvarint_def frame_from_def split: if_split_asm)
  have "take (nat n) (drop offset frame) = take (nat n) (drop offset frame')"
  proof -
    have "take (offset + nat n) frame = take (offset + nat n) frame'"
      using assms(2,3) n(3) by (metis min.absorb1 take_take)
    then show ?thesis by (metis add.commute take_drop)
  qed
  then have "Uvarint 0 0 (drop offset frame') = (v, n)" using Uvarint_prefix [OF n(1,2), of "drop offset frame'"] by simp
  moreover have "offset \<le> length frame'" using assms(2,4) n(3) by simp
  ultimately show ?thesis using n by (simp add: read_uvarint_def frame_from_def)
qed

lemma skip_tags_prefix:
  assumes "length frame < 2 ^ 63" "length frame' < 2 ^ 63"
  shows "offset \<le> length frame \<Longrightarrow> skip_tags frame n offset = Some (Inr k) \<Longrightarrow> take k frame = take k frame' \<Longrightarrow> k \<le> length frame' \<Longrightarrow>
    skip_tags frame' n offset = Some (Inr k)"
proof (induction n arbitrary: offset)
  case (Suc n)
  obtain r1 where r1: "read_uvarint frame offset = Some r1" using read_uvarint_total [OF Suc.prems(1)] by blast
  with Suc.prems(2) obtain tag i where i: "read_uvarint frame offset = Some (Inr (tag, i))" by (cases r1) auto
  then have i_le: "offset \<le> i" "i \<le> length frame" using read_uvarint_total [OF Suc.prems(1)] by auto
  obtain r2 where r2: "read_uvarint frame i = Some r2" using read_uvarint_total [OF i_le(2)] by blast
  with Suc.prems(2) i obtain len j where j: "read_uvarint frame i = Some (Inr (len, j))" by (cases r2) auto
  then have j_le: "i \<le> j" "j \<le> length frame" using read_uvarint_total [OF i_le(2)] by auto
  have left: "bytes_left frame j = length frame - j" using j_le(2) assms(1) by (simp add: bytes_left_def nat_diff_distrib)
  then have len: "unat len \<le> length frame - j" and rest: "skip_tags frame n (j + unat len) = Some (Inr k)"
    using Suc.prems(2) i j by (auto split: if_split_asm)
  have in_range: "j + unat len \<le> length frame" using len j_le(2) by simp
  then have k: "j + unat len \<le> k" using skip_tags_total [OF in_range assms(1), of n] rest by auto
  have "bytes_left frame' j = length frame' - j" using k Suc.prems(4) assms(2) by (simp add: bytes_left_def nat_diff_distrib)
  moreover have "read_uvarint frame' offset = Some (Inr (tag, i))" "read_uvarint frame' i = Some (Inr (len, j))"
    using read_uvarint_prefix [OF i _ Suc.prems(3,4)] read_uvarint_prefix [OF j _ Suc.prems(3,4)] k j_le by simp_all
  moreover have "skip_tags frame' n (j + unat len) = Some (Inr k)" by (rule Suc.IH [OF in_range rest Suc.prems(3,4)])
  ultimately show ?case using k Suc.prems(4) by simp
qed simp

lemma responseHeaderLength_prefix:
  assumes "length frame < 2 ^ 63" "length frame' < 2 ^ 63" "responseHeaderLength frame flexible = Some (Inr k)"
    "take k frame = take k frame'" "k \<le> length frame'"
  shows "responseHeaderLength frame' flexible = Some (Inr k)"
proof -
  have k: "4 \<le> k" "k \<le> length frame" using responseHeaderLength_total [OF assms(1), of flexible] assms(3) by auto
  show ?thesis
  proof (cases flexible)
    case True
    obtain r where r: "read_uvarint frame 4 = Some r" using read_uvarint_total [of 4 frame] k by auto
    with True assms(3) k obtain v j where j: "read_uvarint frame 4 = Some (Inr (v, j))" "skip_tags frame (unat v) j = Some (Inr k)"
      by (cases r) (auto simp: responseHeaderLength_def)
    then have j_le: "j \<le> length frame" using read_uvarint_total [of 4 frame] k by auto
    then have "j \<le> k" using skip_tags_total [OF j_le assms(1), of "unat v"] j(2) by auto
    then show ?thesis
      using True k assms(5) read_uvarint_prefix [OF j(1) _ assms(4,5)] skip_tags_prefix [OF assms(1,2) j_le j(2) assms(4,5)]
      by (simp add: responseHeaderLength_def)
  qed (use assms k in \<open>auto simp: responseHeaderLength_def\<close>)
qed

lemma deliver_frames: "map snd (deliver t rs) = map rs_frame rs"
  by (induction rs arbitrary: t) (simp_all add: Let_def)

lemma deliver_time: "k < length rs \<Longrightarrow> fst (deliver t rs ! k) = Max (insert t (rs_due ` set (take (Suc k) rs)))"
proof (induction rs arbitrary: t k)
  case (Cons r rs)
  show ?case
  proof (cases k)
    case (Suc j)
    let ?S = "rs_due ` set (take (Suc j) rs)"
    have S: "finite ?S" "?S \<noteq> {}" using Cons.prems Suc by auto
    have "fst (deliver t (r # rs) ! k) = Max (insert (max t (rs_due r)) ?S)" using Cons Suc by (simp add: Let_def)
    also have "\<dots> = Max (insert t (insert (rs_due r) ?S))" using S by (simp add: max.assoc)
    finally show ?thesis using Suc by simp
  qed (simp add: Let_def)
qed simp

section \<open>Late answers\<close>

lemma storage_errors_all: "\<forall>(tp, e)\<in>set (entries (storage_errors r)). rp_ErrorCode e \<noteq> 0"
  by (auto simp: entries_def storage_errors_def)

lemma storage_errors_entries:
  "map (\<lambda>(tp, e). (tp, rp_ErrorCode e)) (entries (storage_errors r)) =
     map (\<lambda>(tp, e). (tp, if rp_ErrorCode e = 0 then KafkaStorageError else rp_ErrorCode e)) (entries r)"
  by (auto simp: entries_def storage_errors_def map_concat comp_def intro!: arg_cong [where f = concat])

lemma read_produce_SomeInr:
  assumes "length frame < 2 ^ 63" "read_produce lib frame version = Some (Inr (offset, response))"
  shows "responseHeaderLength frame (km_flexible lib api_Produce version) = Some (Inr offset)" "4 \<le> offset" "offset \<le> length frame"
    "km_readProduce lib version (drop offset frame) = Inr response"
proof -
  obtain r where r: "responseHeaderLength frame (km_flexible lib api_Produce version) = Some r" "\<forall>k. r = Inr k \<longrightarrow> 4 \<le> k \<and> k \<le> length frame"
    using responseHeaderLength_total [OF assms(1)] by blast
  then obtain k where k: "r = Inr k" using assms(2) by (cases r) (auto simp: read_produce_def)
  then have "k \<le> length frame" "4 \<le> k" using r(2) by auto
  moreover from this have "km_readProduce lib version (drop k frame) = Inr response" "offset = k"
    using assms(2) r(1) k by (auto simp: read_produce_def frame_from_total split: sum.split_asm)
  ultimately show "responseHeaderLength frame (km_flexible lib api_Produce version) = Some (Inr offset)" "4 \<le> offset" "offset \<le> length frame"
    "km_readProduce lib version (drop offset frame) = Inr response" using r(1) k by simp_all
qed

lemma read_produce_rewritten:
  assumes "length frame < 2 ^ 63" "read_produce lib frame version = Some (Inr (offset, response))"
    and "km_readProduce lib version body = Inr response'" "offset + length body < 2 ^ 63"
  shows "read_produce lib (take offset frame @ body) version = Some (Inr (offset, response'))"
proof -
  note read = read_produce_SomeInr [OF assms(1,2)]
  have "responseHeaderLength (take offset frame @ body) (km_flexible lib api_Produce version) = Some (Inr offset)"
    by (rule responseHeaderLength_prefix [OF assms(1) _ read(1)]) (use assms(4) read(3) in auto)
  then show ?thesis using read(3) assms(3) by (simp add: read_produce_def frame_from_total)
qed


text \<open>A codec for responses of one partition whose code is one byte.\<close>

definition byte_response :: "nat \<Rightarrow> ProduceResponse" where
  "byte_response c = \<lparr>resp_Version = 9, resp_Topics = [\<lparr>rt_Topic = ''t'', rt_TopicID = 0, rt_Partitions =
     [\<lparr>rp_Partition = 4, rp_ErrorCode = int c, rp_BaseOffset = 0, rp_LogAppendTime = 0, rp_LogStartOffset = 0\<rparr>]\<rparr>], resp_ThrottleMillis = 0\<rparr>"

definition byte_kmsg :: kmsg_lib where
  "byte_kmsg = \<lparr>km_flexible = \<lambda>_ _. True, km_readTimeoutMillis = \<lambda>_ _. Inr 100,
     km_readProduce = \<lambda>_ body. (case body of [b] \<Rightarrow> Inr (byte_response (unat b)) | _ \<Rightarrow> Inl (GoError ''truncated'')),
     km_appendProduce = \<lambda>_ r. map (\<lambda>(tp, e). word_of_int (rp_ErrorCode e)) (entries r),
     km_readMetadata = \<lambda>_ _. Inl (GoError ''unsupported''), km_appendMetadata = \<lambda>_ _. []\<rparr>"


end
