(* ===== verification/Sim_Overlay.thy ===== *)
theory Sim_Overlay
  imports Sim_Environment
begin

text \<open>
  The overlay on the configuration of a Mimir process: \<open>pkg/internal/simulation/mimir/configuration.go\<close>. YAML
  documents are trees, \<open>any(nil)\<close> is \<open>YNull\<close>, a value that is neither a mapping nor a sequence is a \<open>YScalar\<close> with
  its printed form, and \<open>map[string]any\<close> is an association list. Reading files, the template engine, the YAML
  codec and the digest are arguments (\<open>overlay_lib\<close>).
\<close>

section \<open>Documents\<close>

datatype yaml = YNull | YScalar string | YSeq "yaml list" | YMap "(string \<times> yaml) list"

type_synonym yaml_map = "(string, yaml) gomap"

fun mergeConfiguration :: "yaml_map \<Rightarrow> yaml_map \<Rightarrow> yaml_map" where
  "mergeConfiguration base [] = base"
| "mergeConfiguration base ((key, value) # overlay) =
     (case (value, map_of base key) of
        (YMap child, Some (YMap existing)) \<Rightarrow>
          mergeConfiguration (AList.update key (YMap (mergeConfiguration existing child)) base) overlay
      | _ \<Rightarrow> mergeConfiguration (AList.update key value base) overlay)"

fun Split :: "char \<Rightarrow> string \<Rightarrow> string list" where
  "Split sep [] = [[]]"
| "Split sep (c # cs) = (if c = sep then [] # Split sep cs else (case Split sep cs of [] \<Rightarrow> [[c]] | w # ws \<Rightarrow> (c # w) # ws))"

fun value_at :: "yaml \<Rightarrow> string list \<Rightarrow> yaml" where
  "value_at v [] = v"
| "value_at (YMap m) (key # keys) = value_at (get_or YNull m key) keys"
| "value_at v (key # keys) = YNull"

definition configurationValue :: "yaml_map \<Rightarrow> string \<Rightarrow> yaml" where
  "configurationValue config path = value_at (YMap config) (Split CHR ''.'' path)"

text \<open>\<open>reflect.DeepEqual\<close> on decoded documents: mappings are equal when they have the same keys with equal values.\<close>

fun DeepEqual :: "yaml \<Rightarrow> yaml \<Rightarrow> bool" where
  "DeepEqual YNull YNull \<longleftrightarrow> True"
| "DeepEqual (YScalar a) (YScalar b) \<longleftrightarrow> a = b"
| "DeepEqual (YSeq xs) (YSeq ys) \<longleftrightarrow> list_all2 DeepEqual xs ys"
| "DeepEqual (YMap m) (YMap n) \<longleftrightarrow> length m = length n \<and>
     (\<forall>(k, v)\<in>set m. case map_of n k of None \<Rightarrow> False | Some w \<Rightarrow> DeepEqual v w)"
| "DeepEqual _ _ \<longleftrightarrow> False"

section \<open>The overlay\<close>

record configurationTemplate =
  ct_Backend :: string
  ct_Address :: string
  ct_Topic :: topic
  ct_SecondaryTopic :: topic

record overlay_lib =
  ol_ReadFile :: "string \<Rightarrow> goerror + string"
  ol_Parse :: "string \<Rightarrow> goerror option"
  ol_Execute :: "string \<Rightarrow> configurationTemplate \<Rightarrow> goerror + string"
  ol_Unmarshal :: "string \<Rightarrow> goerror + yaml_map"
  ol_Marshal :: "yaml_map \<Rightarrow> goerror + string"
  ol_Sum256 :: "string \<Rightarrow> string"

definition harness_fields :: "string list" where
  "harness_fields = [''target'', ''server.http_listen_address'', ''server.http_listen_port'', ''server.grpc_listen_address'',
     ''server.grpc_listen_port'', ''server.log_format'', ''ingest_storage'', ''distributor.remote_timeout'', ''distributor.ring'',
     ''ingester.partition_ring'', ''ingester.ring'', ''memberlist'', ''limits.ingestion_artificial_delay'']"

definition changed_field :: "yaml_map \<Rightarrow> yaml_map \<Rightarrow> string option" where
  "changed_field original merged =
     find (\<lambda>key. \<not> DeepEqual (configurationValue original key) (configurationValue merged key)) harness_fields"

definition applyConfigurationOverlay ::
  "overlay_lib \<Rightarrow> string \<Rightarrow> WorkloadConfig \<Rightarrow> string \<Rightarrow> string \<Rightarrow> goerror + string \<times> string" where
  "applyConfigurationOverlay lib base cfg address path =
     (if path = [] then Inr (base, ''none'')
      else case ol_ReadFile lib path of
        Inl err \<Rightarrow> Inl (Errorf ''read configuration overlay: '' err [])
      | Inr data \<Rightarrow>
          (case ol_Parse lib data of
             Some err \<Rightarrow> Inl (Errorf ''parse configuration overlay: '' err [])
           | None \<Rightarrow>
               (case ol_Execute lib data \<lparr>ct_Backend = wc_Backend cfg, ct_Address = address, ct_Topic = wc_Topic cfg,
                    ct_SecondaryTopic = wc_SecondaryTopic cfg\<rparr> of
                  Inl err \<Rightarrow> Inl (Errorf ''expand configuration overlay: '' err [])
                | Inr expanded \<Rightarrow>
                    (case ol_Unmarshal lib base of
                       Inl err \<Rightarrow> Inl err
                     | Inr original \<Rightarrow>
                         (case ol_Unmarshal lib expanded of
                            Inl err \<Rightarrow> Inl (Errorf ''decode configuration overlay: '' err [])
                          | Inr overlay \<Rightarrow>
                              (let merged = mergeConfiguration original overlay
                               in case changed_field original merged of
                                 Some key \<Rightarrow> Inl (GoErrorf ''configuration overlay changes harness-owned field %q'' [FStr key])
                               | None \<Rightarrow>
                                   (case ol_Marshal lib merged of
                                      Inl err \<Rightarrow> Inl err
                                    | Inr encoded \<Rightarrow> Inr (encoded, ''sha256:'' @ ol_Sum256 lib data))))))))"

section \<open>What a merge does\<close>

text \<open>The value that a document has at a path, if it has one.\<close>

fun at_path :: "yaml \<Rightarrow> string list \<Rightarrow> yaml option" where
  "at_path v [] = Some v"
| "at_path (YMap m) (key # keys) = Option.bind (map_of m key) (\<lambda>v. at_path v keys)"
| "at_path v (key # keys) = None"

definition is_map :: "yaml \<Rightarrow> bool" where
  "is_map v = (case v of YMap m \<Rightarrow> True | _ \<Rightarrow> False)"

lemma is_map_simps [simp]: "is_map (YMap m)" "\<not> is_map YNull" "\<not> is_map (YScalar s)" "\<not> is_map (YSeq vs)"
  by (simp_all add: is_map_def)

text \<open>One key of a merge: the entry of the overlay, merged into the base where both are mappings.\<close>

definition merged_entry :: "yaml option \<Rightarrow> yaml option \<Rightarrow> yaml option" where
  "merged_entry b ov =
     (case ov of
        None \<Rightarrow> b
      | Some (YMap child) \<Rightarrow>
          (case b of Some (YMap existing) \<Rightarrow> Some (YMap (mergeConfiguration existing child)) | _ \<Rightarrow> ov)
      | Some v \<Rightarrow> ov)"

lemma merged_entry_simps [simp]:
  "merged_entry b None = b" "\<not> is_map v \<Longrightarrow> merged_entry b (Some v) = Some v" "merged_entry None (Some v) = Some v"
  "\<not> is_map w \<Longrightarrow> merged_entry (Some w) (Some v) = Some v"
  "merged_entry (Some (YMap existing)) (Some (YMap child)) = Some (YMap (mergeConfiguration existing child))"
  by (simp_all add: merged_entry_def is_map_def split: yaml.split yaml.split_asm)

lemma merge_entry:
  "distinct (map fst overlay) \<Longrightarrow> map_of (mergeConfiguration base overlay) key = merged_entry (map_of base key) (map_of overlay key)"
proof (induction overlay arbitrary: base)
  case (Cons e overlay)
  obtain k v where e: "e = (k, v)" by fastforce
  show ?case
  proof (cases "key = k")
    case True
    then have "map_of overlay key = None" using Cons.prems e by (auto simp: map_of_eq_None_iff)
    then show ?thesis using Cons e True by (auto simp: merged_entry_def split: yaml.split option.split)
  next
    case False
    then show ?thesis using Cons e by (auto split: yaml.split option.split)
  qed
qed simp

text \<open>Documents as the decoder returns them have every key of a mapping once.\<close>

fun wf_yaml :: "yaml \<Rightarrow> bool" where
  "wf_yaml (YMap m) \<longleftrightarrow> distinct (map fst m) \<and> (\<forall>(k, v)\<in>set m. wf_yaml v)"
| "wf_yaml (YSeq vs) \<longleftrightarrow> (\<forall>v\<in>set vs. wf_yaml v)"
| "wf_yaml v \<longleftrightarrow> True"

lemma wf_yaml_entry: "wf_yaml (YMap m) \<Longrightarrow> map_of m k = Some v \<Longrightarrow> wf_yaml v"
  by (auto dest: map_of_SomeD)

lemma overlaid_leaf:
  "wf_yaml (YMap overlay) \<Longrightarrow> at_path (YMap overlay) keys = Some v \<Longrightarrow> \<not> is_map v \<Longrightarrow>
    at_path (YMap (mergeConfiguration base overlay)) keys = Some v"
proof (induction keys arbitrary: base overlay)
  case (Cons key keys)
  then obtain w where w: "map_of overlay key = Some w" "at_path w keys = Some v" by (auto simp: bind_eq_Some_conv)
  have entry: "map_of (mergeConfiguration base overlay) key = merged_entry (map_of base key) (Some w)"
    using Cons.prems(1) w(1) by (simp add: merge_entry)
  show ?case
  proof (cases "\<exists>b c. map_of base key = Some (YMap b) \<and> w = YMap c")
    case True
    then obtain b c where "map_of base key = Some (YMap b)" "w = YMap c" by blast
    moreover from this have "wf_yaml (YMap c)" using wf_yaml_entry [OF Cons.prems(1)] w(1) by blast
    ultimately show ?thesis using Cons.IH [of c b] Cons.prems(3) w(2) entry by simp
  next
    case False
    then have "merged_entry (map_of base key) (Some w) = Some w"
      by (auto simp: merged_entry_def split: yaml.split option.split)
    then show ?thesis using entry w(2) by simp
  qed
qed auto

text \<open>The overlay is silent about a path when it stops on the way there at a mapping without the next key.\<close>

fun silent :: "yaml \<Rightarrow> string list \<Rightarrow> bool" where
  "silent (YMap m) (key # keys) \<longleftrightarrow> (case map_of m key of None \<Rightarrow> True | Some v \<Rightarrow> silent v keys)"
| "silent v keys \<longleftrightarrow> False"

lemma silent_absent: "silent v keys \<Longrightarrow> at_path v keys = None"
  by (induction v keys rule: silent.induct) (auto split: option.split_asm)

lemma overlay_silent:
  "wf_yaml (YMap overlay) \<Longrightarrow> silent (YMap overlay) keys \<Longrightarrow>
    at_path (YMap (mergeConfiguration base overlay)) keys = at_path (YMap base) keys"
proof (induction keys arbitrary: base overlay)
  case (Cons key keys)
  have entry: "map_of (mergeConfiguration base overlay) key = merged_entry (map_of base key) (map_of overlay key)"
    using Cons.prems(1) by (simp add: merge_entry)
  show ?case
  proof (cases "map_of overlay key")
    case None
    then show ?thesis using entry by simp
  next
    case (Some w)
    then obtain c k ks where c: "w = YMap c" "keys = k # ks" and quiet: "silent w keys" using Cons.prems(2) by (cases w; cases keys) auto
    have wf: "wf_yaml (YMap c)" using wf_yaml_entry [OF Cons.prems(1) Some] c(1) by simp
    show ?thesis
    proof (cases "\<exists>b. map_of base key = Some (YMap b)")
      case True
      then obtain b where "map_of base key = Some (YMap b)" by blast
      then show ?thesis using entry Some c(1) Cons.IH [OF wf] quiet by simp
    next
      case False
      then have "Option.bind (map_of base key) (\<lambda>v. at_path v keys) = None" unfolding c(2)
        by (cases "map_of base key"; cases "the (map_of base key)") auto
      moreover have "merged_entry (map_of base key) (Some w) = Some w"
        using False c(1) by (auto simp: merged_entry_def split: yaml.split option.split)
      ultimately show ?thesis using entry Some silent_absent [OF quiet] by simp
    qed
  qed
qed simp

text \<open>
  The overlay can change what it names and nothing else, and never a field that the harness owns. If the libraries
  do not fail, the overlay is applied exactly if the merged document agrees with the original one in all harness
  fields; the merged document then has the value of the overlay wherever the overlay has a value that is not a
  mapping, and the original one wherever the overlay is silent.
\<close>

theorem overlay_changes_only_what_it_names:
  assumes "path \<noteq> []" and "ol_ReadFile lib path = Inr data" and "ol_Parse lib data = None"
    and "ol_Execute lib data \<lparr>ct_Backend = wc_Backend cfg, ct_Address = address, ct_Topic = wc_Topic cfg,
           ct_SecondaryTopic = wc_SecondaryTopic cfg\<rparr> = Inr expanded"
    and "ol_Unmarshal lib base = Inr original" and "ol_Unmarshal lib expanded = Inr overlay" and "wf_yaml (YMap overlay)"
    and "\<And>doc. \<exists>text. ol_Marshal lib doc = Inr text \<and> ol_Unmarshal lib text = Inr doc"
  shows "(\<exists>out. applyConfigurationOverlay lib base cfg address path = Inr out) \<longleftrightarrow>
      (\<forall>key\<in>set harness_fields. DeepEqual (configurationValue original key) (configurationValue (mergeConfiguration original overlay) key))"
    and "applyConfigurationOverlay lib base cfg address path = Inr (text, identity) \<Longrightarrow>
      \<exists>merged. ol_Unmarshal lib text = Inr merged \<and>
        (\<forall>key\<in>set harness_fields. DeepEqual (configurationValue original key) (configurationValue merged key)) \<and>
        (\<forall>keys v. at_path (YMap overlay) keys = Some v \<and> \<not> is_map v \<longrightarrow> at_path (YMap merged) keys = Some v) \<and>
        (\<forall>keys. silent (YMap overlay) keys \<longrightarrow> at_path (YMap merged) keys = at_path (YMap original) keys)"
proof -
  let ?m = "mergeConfiguration original overlay"
  obtain out where out: "ol_Marshal lib ?m = Inr out" "ol_Unmarshal lib out = Inr ?m" using assms(8) by blast
  have same: "changed_field original ?m = None \<longleftrightarrow>
      (\<forall>key\<in>set harness_fields. DeepEqual (configurationValue original key) (configurationValue ?m key))"
    by (auto simp: changed_field_def find_None_iff)
  have result: "applyConfigurationOverlay lib base cfg address path =
      (case changed_field original ?m of
         Some key \<Rightarrow> Inl (GoErrorf ''configuration overlay changes harness-owned field %q'' [FStr key])
       | None \<Rightarrow> Inr (out, ''sha256:'' @ ol_Sum256 lib data))"
    using assms(1-6) out(1) by (simp add: applyConfigurationOverlay_def Let_def split: option.split)
  show "(\<exists>out. applyConfigurationOverlay lib base cfg address path = Inr out) \<longleftrightarrow>
      (\<forall>key\<in>set harness_fields. DeepEqual (configurationValue original key) (configurationValue ?m key))"
    unfolding same [symmetric] result by (auto split: option.split)
  assume "applyConfigurationOverlay lib base cfg address path = Inr (text, identity)"
  then have "changed_field original ?m = None" "text = out" using result by (auto split: option.split_asm)
  then show "\<exists>merged. ol_Unmarshal lib text = Inr merged \<and>
        (\<forall>key\<in>set harness_fields. DeepEqual (configurationValue original key) (configurationValue merged key)) \<and>
        (\<forall>keys v. at_path (YMap overlay) keys = Some v \<and> \<not> is_map v \<longrightarrow> at_path (YMap merged) keys = Some v) \<and>
        (\<forall>keys. silent (YMap overlay) keys \<longrightarrow> at_path (YMap merged) keys = at_path (YMap original) keys)"
    using same out(2) overlaid_leaf [OF assms(7)] overlay_silent [OF assms(7)] by (intro exI [of _ ?m]) simp
qed

end
