(* ===== verification/Sim_Mimir.thy ===== *)
theory Sim_Mimir
  imports Sim_Runner Sim_Proxy Sim_Overlay
begin

text \<open>
  The Mimir workload of the simulation: \<open>distributor.go\<close> and \<open>writers.go\<close> under \<open>pkg/internal/simulation/mimir\<close>. A
  distributor client is the state that the harness keeps about one Mimir process; the process itself, its log, HTTP
  and the protobuf encoders are arguments. Error texts that quote a log or another error leave the quotation out.
\<close>

section \<open>One distributor\<close>

text \<open>The clean-up functions that the constructor pushes, by what they release.\<close>

datatype mimir_resource = ProxyListener | PartitionFixture | WorkDirectory | LogFile | MimirProcess

record distributorClient =
  dc_config :: WorkloadConfig
  dc_base :: string
  dc_series :: int
  dc_metrics :: "metric_family list"
  dc_failure :: "goerror option"
  dc_partitions :: "(partition, bool) gomap"
  dc_expectedPartitions :: int
  dc_lastWriteError :: "goerror option"
  dc_backend :: string
  dc_cleanup :: "mimir_resource list"
  dc_once :: bool

abbreviation (input) distributorRemoteTimeout :: duration where "distributorRemoteTimeout \<equiv> 5 * second"

definition remoteTimeout :: "WorkloadConfig \<Rightarrow> duration" where
  "remoteTimeout cfg = (if 0 < wc_RemoteTimeout cfg then wc_RemoteTimeout cfg else distributorRemoteTimeout)"

definition new_client :: "WorkloadConfig \<Rightarrow> distributorClient" where
  "new_client cfg = \<lparr>dc_config = cfg, dc_base = [],
     dc_series = (if 0 < wc_SeriesPerRequest cfg then wc_SeriesPerRequest cfg else i64 (32 * wc_Partitions cfg)),
     dc_metrics = [], dc_failure = None, dc_partitions = [], dc_expectedPartitions = wc_Partitions cfg,
     dc_lastWriteError = None, dc_backend = wc_Backend cfg, dc_cleanup = [], dc_once = False\<rparr>"

text \<open>The observer that the client gives its proxy, for a Produce response that was written to the process.\<close>

definition observe_response :: "kmsg_lib \<Rightarrow> bytes \<Rightarrow> int \<Rightarrow> distributorClient \<Rightarrow> (distributorClient \<times> bool) option" where
  "observe_response lib frame version c =
     map_option (\<lambda>(acked, observed). (c\<lparr>dc_partitions := foldl (\<lambda>m p. AList.update p True m) (dc_partitions c) acked\<rparr>, observed))
       (observeProduceResponse lib frame version)"

text \<open>\<open>Close\<close> runs the clean-up functions once, the last one first.\<close>

definition distributor_Close :: "distributorClient \<Rightarrow> distributorClient \<times> mimir_resource list" where
  "distributor_Close c = (if dc_once c then (c, []) else (c\<lparr>dc_once := True\<rparr>, rev (dc_cleanup c)))"

section \<open>Starting the process\<close>

text \<open>\<open>net.SplitHostPort\<close> and \<open>strconv.Atoi\<close>; \<open>None\<close> is an error.\<close>

definition split_last :: "char \<Rightarrow> string \<Rightarrow> (string \<times> string) option" where
  "split_last c s = (if c \<in> set s then Some (rev (tl (dropWhile (\<lambda>x. x \<noteq> c) (rev s))), rev (takeWhile (\<lambda>x. x \<noteq> c) (rev s))) else None)"

definition SplitHostPort :: "string \<Rightarrow> (string \<times> string) option" where
  "SplitHostPort hostport =
     Option.bind (split_last CHR '':'' hostport) (\<lambda>(host, port).
       case host of
         CHR ''['' # rest \<Rightarrow>
           (if rest \<noteq> [] \<and> last rest = CHR '']'' \<and> CHR '']'' \<notin> set (butlast rest) \<and> CHR ''['' \<notin> set rest \<and>
               CHR ''['' \<notin> set port \<and> CHR '']'' \<notin> set port
            then Some (butlast rest, port) else None)
       | _ \<Rightarrow>
           (if CHR '':'' \<in> set host \<or> CHR ''['' \<in> set hostport \<or> CHR '']'' \<in> set hostport then None else Some (host, port)))"

definition is_digit :: "char \<Rightarrow> bool" where
  "is_digit c \<longleftrightarrow> 48 \<le> (of_char c :: nat) \<and> (of_char c :: nat) \<le> 57"

definition unsigned :: "string \<Rightarrow> int option" where
  "unsigned s = (if s \<noteq> [] \<and> list_all is_digit s then Some (foldl (\<lambda>n c. 10 * n + (of_char c - 48)) 0 s) else None)"

definition Atoi :: "string \<Rightarrow> int option" where
  "Atoi s =
     Option.bind (case s of
         CHR ''-'' # r \<Rightarrow> map_option uminus (unsigned r)
       | CHR ''+'' # r \<Rightarrow> unsigned r
       | _ \<Rightarrow> unsigned s) (\<lambda>n. if - (2 ^ 63) \<le> n \<and> n < 2 ^ 63 then Some n else None)"

text \<open>
  \<open>json\<close> decodes a line of the log: its message, and the address, which some versions log as a string and others as a
  structure.
\<close>

definition line_address :: "(string \<Rightarrow> (string \<times> string option) option) \<Rightarrow> string \<Rightarrow> string option" where
  "line_address json line =
     (case json line of
        Some (msg, Some address) \<Rightarrow>
          (if msg \<noteq> ''server listening on addresses'' then None
           else case SplitHostPort address of
             Some (host, port) \<Rightarrow>
               (case Atoi port of
                  Some n \<Rightarrow> (if host = ''127.0.0.1'' \<and> 0 < n \<and> n \<le> 65535 then Some address else None)
                | None \<Rightarrow> None)
           | None \<Rightarrow> None)
      | _ \<Rightarrow> None)"

definition httpAddressFromLog :: "(string \<Rightarrow> (string \<times> string option) option) \<Rightarrow> string \<Rightarrow> string" where
  "httpAddressFromLog json data =
     (case List.map_filter (line_address json) (Split (CHR 0x0A) data) of [] \<Rightarrow> [] | a # _ \<Rightarrow> a)"

text \<open>
  The waiting loop of the constructor. A turn has the log, or the error of reading it, whether the process answers
  \<open>/ready\<close> with status 200, and what the select at its end receives.
\<close>

datatype ready_wait = ProcessDone | ReadyDeadline goerror | Tick

record ready_turn =
  rt_log :: "goerror + string"
  rt_ready :: bool
  rt_wait :: ready_wait

definition base_of :: "(string \<Rightarrow> (string \<times> string option) option) \<Rightarrow> string \<Rightarrow> ready_turn \<Rightarrow> goerror + string" where
  "base_of json base t =
     (if base \<noteq> [] then Inr base
      else map_sum id (\<lambda>data. case httpAddressFromLog json data of [] \<Rightarrow> [] | a \<Rightarrow> ''http://'' @ a) (rt_log t))"

fun await_ready :: "(string \<Rightarrow> (string \<times> string option) option) \<Rightarrow> string \<Rightarrow> ready_turn list \<Rightarrow> (goerror + string) option" where
  "await_ready json base [] = None"
| "await_ready json base (t # ts) =
     (case base_of json base t of
        Inl err \<Rightarrow> Some (Inl err)
      | Inr base \<Rightarrow>
          if base \<noteq> [] \<and> rt_ready t then Some (Inr base)
          else (case rt_wait t of
              ProcessDone \<Rightarrow> Some (Inl (GoError ''mimir exited during startup''))
            | ReadyDeadline err \<Rightarrow> Some (Inl (Errorf ''mimir readiness: '' err []))
            | Tick \<Rightarrow> await_ready json base ts))"

text \<open>The answers of the operating system to the constructor, in its order; the overlay is asked with the proxy's address.\<close>

record start_world =
  sw_address :: "goerror + string"
  sw_fixture :: "goerror option"
  sw_mkdirAll :: "goerror option"
  sw_mkdirTemp :: "goerror option"
  sw_overlay :: "string \<Rightarrow> goerror option"
  sw_writeFile :: "goerror option"
  sw_createLog :: "goerror option"
  sw_start :: "goerror option"
  sw_json :: "string \<Rightarrow> (string \<times> string option) option"
  sw_turns :: "ready_turn list"

text \<open>
  Steps of a constructor: each may fail, and one that succeeds may add a resource. The result has the resources in
  the order in which they were acquired, and the error that ended the steps.
\<close>

fun run_steps :: "(goerror option \<times> 'r option) list \<Rightarrow> 'r list \<Rightarrow> 'r list \<times> goerror option" where
  "run_steps [] held = (held, None)"
| "run_steps ((Some err, r) # steps) held = (held, Some err)"
| "run_steps ((None, r) # steps) held = run_steps steps (held @ (case r of Some r \<Rightarrow> [r] | None \<Rightarrow> []))"

text \<open>The directory is removed at the end only if no log directory is given (\<open>keepLogs\<close>).\<close>

definition start_steps :: "start_world \<Rightarrow> bool \<Rightarrow> (goerror option \<times> mimir_resource option) list" where
  "start_steps w keepLogs =
     [(None, Some ProxyListener), (case sw_address w of Inl err \<Rightarrow> Some err | Inr a \<Rightarrow> None, None),
      (sw_fixture w, Some PartitionFixture), (if keepLogs then sw_mkdirAll w else None, None),
      (sw_mkdirTemp w, if keepLogs then None else Some WorkDirectory),
      (case sw_address w of Inl err \<Rightarrow> None | Inr a \<Rightarrow> sw_overlay w a, None),
      (sw_writeFile w, None), (sw_createLog w, Some LogFile), (sw_start w, Some MimirProcess)]"

text \<open>
  The constructor; on an error the deferred \<open>Close\<close> releases what was acquired. The result has the resources that
  were acquired and those that were released; \<open>None\<close> if the turns run out before the loop ends.
\<close>

definition newDistributorWithOptions ::
  "start_world \<Rightarrow> bool \<Rightarrow> WorkloadConfig \<Rightarrow> (mimir_resource list \<times> mimir_resource list \<times> (goerror + distributorClient)) option" where
  "newDistributorWithOptions w keepLogs cfg =
     (case run_steps (start_steps w keepLogs) [] of
        (held, ended) \<Rightarrow> let c = (new_client cfg)\<lparr>dc_cleanup := held\<rparr>; freed = snd (distributor_Close c)
          in case ended of
            Some err \<Rightarrow> Some (held, freed, Inl err)
          | None \<Rightarrow> map_option (\<lambda>r. case r of
                Inl err \<Rightarrow> (held, freed, Inl err)
              | Inr base \<Rightarrow> (held, [], Inr (c\<lparr>dc_base := base\<rparr>))) (await_ready (sw_json w) [] (sw_turns w)))"

section \<open>Requests\<close>

definition series_name :: "(string \<Rightarrow> string) \<Rightarrow> int \<Rightarrow> string" where
  "series_name sum256 k = ''simulation_'' @ sum256 (decimal k)"

text \<open>The metric names of one event; a fixed number of series per request makes every half second use new ones.\<close>

definition event_offset :: "distributorClient \<Rightarrow> duration \<Rightarrow> int" where
  "event_offset c due =
     (if 0 < wc_SeriesPerRequest (dc_config c) then i64 (go_div due (500 * millisecond) * dc_series c) else 0)"

definition event_series :: "(string \<Rightarrow> string) \<Rightarrow> distributorClient \<Rightarrow> duration \<Rightarrow> string list" where
  "event_series sum256 c due = map (\<lambda>k. series_name sum256 (i64 (k + event_offset c due))) (map int [0 ..< nat (dc_series c)])"

text \<open>The sole record of an event: \<open>encode\<close> is the marshalled and compressed write request.\<close>

definition EventRecords ::
  "(string list \<Rightarrow> int \<Rightarrow> 'v) \<Rightarrow> (string \<Rightarrow> string) \<Rightarrow> int \<Rightarrow> distributorClient \<Rightarrow> topic \<Rightarrow> duration \<Rightarrow> (topic \<times> 'v) list" where
  "EventRecords encode sum256 timestamp c tpc due = [(tpc, encode (event_series sum256 c due) timestamp)]"

text \<open>\<open>push\<close>: the answer of the HTTP client is an error, or a status and the body or the error of reading it.\<close>

definition push :: "goerror + int \<times> (goerror + string) \<Rightarrow> goerror option" where
  "push answer =
     (case answer of
        Inl err \<Rightarrow> Some err
      | Inr (status, Inl err) \<Rightarrow> Some err
      | Inr (status, Inr body) \<Rightarrow>
          if status < 200 \<or> 300 \<le> status then Some (GoErrorf ''mimir HTTP %d: %s'' [FInt status, FStr body]) else None)"

definition distributor_Produce :: "goerror + int \<times> (goerror + string) \<Rightarrow> distributorClient \<Rightarrow> distributorClient \<times> goerror option" where
  "distributor_Produce answer c =
     (case push answer of
        Some err \<Rightarrow> (c\<lparr>dc_lastWriteError := Some err\<rparr>, Some err)
      | None \<Rightarrow> (c, None))"

section \<open>Metrics\<close>

text \<open>The decoder returns families until it fails or reaches the end.\<close>

fun decode_families :: "(goerror + metric_family) list \<Rightarrow> (string, gathered_metric list) gomap \<Rightarrow> goerror + metric_family list" where
  "decode_families [] parsed = Inr parsed"
| "decode_families (Inl err # fs) parsed = Inl err"
| "decode_families (Inr (name, ms) # fs) parsed = decode_families fs (AList.update name ms parsed)"

abbreviation (input) MetricsPrefix :: string where "MetricsPrefix \<equiv> ''cortex_ingest_storage_writer_''"

definition required_counters :: "string list" where
  "required_counters = map (\<lambda>counter. MetricsPrefix @ ''warpstream_produce_requests_'' @ counter @ ''_total'') [''primary'', ''hedge'']"

definition scrape :: "goerror + int \<times> (goerror + metric_family) list \<Rightarrow> distributorClient \<Rightarrow> goerror + metric_family list" where
  "scrape answer c =
     (case answer of
        Inl err \<Rightarrow> Inl err
      | Inr (status, fs) \<Rightarrow>
          if status \<noteq> 200 then Inl (GoErrorf ''mimir metrics HTTP %d'' [FInt status])
          else (case decode_families fs [] of
              Inl err \<Rightarrow> Inl err
            | Inr parsed \<Rightarrow>
                (case (if dc_backend c = ''warpstream'' then find (\<lambda>n. map_of parsed n = None) required_counters else None) of
                   Some name \<Rightarrow> Inl (GoErrorf ''mimir metrics missing %q'' [FStr name])
                 | None \<Rightarrow> Inr parsed)))"

text \<open>\<open>Gather\<close> never fails: it remembers the first failure and returns the last metrics it has.\<close>

definition distributor_Gather ::
  "goerror + int \<times> (goerror + metric_family) list \<Rightarrow> distributorClient \<Rightarrow> distributorClient \<times> metric_family list" where
  "distributor_Gather answer c =
     (let c = (case scrape answer c of
                 Inl err \<Rightarrow> (if dc_failure c = None then c\<lparr>dc_failure := Some err\<rparr> else c)
               | Inr families \<Rightarrow> c\<lparr>dc_metrics := families\<rparr>)
      in (c, dc_metrics c))"

definition distributor_WarmupComplete :: "distributorClient \<Rightarrow> bool" where
  "distributor_WarmupComplete c \<longleftrightarrow> int (length (dc_partitions c)) = dc_expectedPartitions c"

text \<open>\<open>exited\<close>: whether the process has ended.\<close>

definition distributor_Validate ::
  "goerror + int \<times> (goerror + metric_family) list \<Rightarrow> bool \<Rightarrow> distributorClient \<Rightarrow> distributorClient \<times> goerror option" where
  "distributor_Validate answer exited c =
     (let c = fst (distributor_Gather answer c)
      in (c,
          if dc_failure c \<noteq> None then dc_failure c
          else if int (length (dc_partitions c)) \<noteq> dc_expectedPartitions c
          then Some (GoErrorf ''mimir %s successful writes reached %d/%d ingest partitions''
                 [FStr (dc_backend c), FInt (int (length (dc_partitions c))), FInt (dc_expectedPartitions c)])
          else if exited then Some (GoError ''mimir exited before scenario completion'') else None))"

section \<open>Independent writers\<close>

text \<open>The two configurations of a pair of writers.\<close>

definition writer_configs :: "WorkloadConfig \<Rightarrow> WorkloadConfig list" where
  "writer_configs cfg =
     [cfg, cfg\<lparr>wc_Topic := wc_SecondaryTopic cfg,
        wc_Partitions := (if 0 < wc_SecondaryPartitions cfg then wc_SecondaryPartitions cfg else wc_Partitions cfg),
        wc_RemoteTimeout := wc_WriteTimeout cfg\<rparr>]"

text \<open>Constructing them in order; the first failure closes the ones before it, the last one first.\<close>

fun new_writers :: "(WorkloadConfig \<Rightarrow> goerror + distributorClient) \<Rightarrow> WorkloadConfig list \<Rightarrow> distributorClient list \<Rightarrow>
    goerror \<times> distributorClient list + distributorClient list" where
  "new_writers mk [] clients = Inr clients"
| "new_writers mk (cfg # cfgs) clients =
     (case mk cfg of Inl err \<Rightarrow> Inl (err, rev clients) | Inr c \<Rightarrow> new_writers mk cfgs (clients @ [c]))"

datatype mimir_producer = OneDistributor distributorClient | WriterGroup "distributorClient list"

text \<open>\<open>Inl\<close> has the error and the clients that were closed, in order.\<close>

definition newDistributorWriters ::
  "(WorkloadConfig \<Rightarrow> goerror + distributorClient) \<Rightarrow> WorkloadConfig \<Rightarrow> int \<Rightarrow> goerror \<times> distributorClient list + mimir_producer" where
  "newDistributorWriters mk cfg writers =
     (let writers = (if writers = 0 then (if wc_SecondaryTopic cfg \<noteq> [] then 2 else 1) else writers)
      in if writers < 1 \<or> 2 < writers then Inl (GoError ''mimir-writers must be 1 or 2'', [])
         else if writers = 1 then map_sum (\<lambda>err. (err, [])) OneDistributor (mk cfg)
         else if wc_SecondaryTopic cfg = [] then Inl (GoError ''two independent writers require -profile=mimir-investigation'', [])
         else map_sum id WriterGroup (new_writers mk (writer_configs cfg) []))"

definition writers_EventRecords ::
  "(string list \<Rightarrow> int \<Rightarrow> 'v) \<Rightarrow> (string \<Rightarrow> string) \<Rightarrow> int \<Rightarrow> distributorClient list \<Rightarrow> duration \<Rightarrow> (topic \<times> 'v) list" where
  "writers_EventRecords encode sum256 timestamp clients due =
     concat (map (\<lambda>c. EventRecords encode sum256 timestamp c (wc_Topic (dc_config c)) due) clients)"

text \<open>\<open>Produce\<close> uses the first writer of the record's topic; the result has its index, if any, and the error.\<close>

fun writers_Produce ::
  "(nat \<Rightarrow> goerror + int \<times> (goerror + string)) \<Rightarrow> nat \<Rightarrow> distributorClient list \<Rightarrow> topic \<Rightarrow>
    distributorClient list \<times> nat option \<times> goerror option" where
  "writers_Produce answer i [] tpc = ([], None, Some (GoErrorf ''no writer for topic %q'' [FStr tpc]))"
| "writers_Produce answer i (c # cs) tpc =
     (if wc_Topic (dc_config c) \<noteq> tpc
      then (case writers_Produce answer (Suc i) cs tpc of (cs, r) \<Rightarrow> (c # cs, r))
      else (case distributor_Produce (answer i) c of
          (c, err) \<Rightarrow> (c # cs, Some i, map_option (\<lambda>e. Errorf (''writer '' @ tpc @ '': '') e []) err)))"

definition label_writer :: "distributorClient \<Rightarrow> gathered_metric \<Rightarrow> gathered_metric" where
  "label_writer c m = m\<lparr>gm_labels := gm_labels m @ [(''simulation_writer'', wc_Topic (dc_config c))]\<rparr>"

definition merge_family :: "distributorClient \<Rightarrow> (string, gathered_metric list) gomap \<Rightarrow> metric_family \<Rightarrow> (string, gathered_metric list) gomap" where
  "merge_family c merged f = AList.update (fst f) (get_or [] merged (fst f) @ map (label_writer c) (snd f)) merged"

fun writers_Gather ::
  "(nat \<Rightarrow> goerror + int \<times> (goerror + metric_family) list) \<Rightarrow> nat \<Rightarrow> distributorClient list \<Rightarrow>
    (string, gathered_metric list) gomap \<Rightarrow> distributorClient list \<times> metric_family list" where
  "writers_Gather answer i [] merged = ([], merged)"
| "writers_Gather answer i (c # cs) merged =
     (case distributor_Gather (answer i) c of
        (c, families) \<Rightarrow> (case writers_Gather answer (Suc i) cs (foldl (merge_family c) merged families) of (cs, out) \<Rightarrow> (c # cs, out)))"

definition writers_WarmupComplete :: "distributorClient list \<Rightarrow> bool" where
  "writers_WarmupComplete clients \<longleftrightarrow> list_all distributor_WarmupComplete clients"

fun writers_Validate ::
  "(nat \<Rightarrow> (goerror + int \<times> (goerror + metric_family) list) \<times> bool) \<Rightarrow> nat \<Rightarrow> distributorClient list \<Rightarrow> distributorClient list \<times> goerror option" where
  "writers_Validate world i [] = ([], None)"
| "writers_Validate world i (c # cs) =
     (case distributor_Validate (fst (world i)) (snd (world i)) c of
        (c, Some err) \<Rightarrow> (c # cs, Some (Errorf (''writer '' @ wc_Topic (dc_config c) @ '': '') err []))
      | (c, None) \<Rightarrow> (case writers_Validate world (Suc i) cs of (cs, r) \<Rightarrow> (c # cs, r)))"

definition writers_Close :: "distributorClient list \<Rightarrow> (distributorClient \<times> mimir_resource list) list" where
  "writers_Close clients = map distributor_Close (rev clients)"

section \<open>Properties\<close>

lemma map_filter_snd_Cons: "List.map_filter snd (x # xs) = (case snd x of Some r \<Rightarrow> [r] | None \<Rightarrow> []) @ List.map_filter snd xs"
  by (simp add: List.map_filter_def split: option.split)

lemma run_steps_held:
  "run_steps steps held = (held', r) \<Longrightarrow>
    \<exists>rs rest. held' = held @ rs \<and> List.map_filter snd steps = rs @ rest \<and> (r = None \<longrightarrow> rest = [])"
proof (induction steps held arbitrary: held' r rule: run_steps.induct)
  case (3 q steps held)
  then obtain rs rest where IH: "held' = (held @ (case q of Some r \<Rightarrow> [r] | None \<Rightarrow> [])) @ rs"
    "List.map_filter snd steps = rs @ rest" "r = None \<longrightarrow> rest = []" by fastforce
  then have "held' = held @ ((case q of Some r \<Rightarrow> [r] | None \<Rightarrow> []) @ rs) \<and>
      List.map_filter snd ((None, q) # steps) = ((case q of Some r \<Rightarrow> [r] | None \<Rightarrow> []) @ rs) @ rest \<and> (r = None \<longrightarrow> rest = [])"
    by (simp only: map_filter_snd_Cons) simp
  then show ?case by blast
qed (auto simp: List.map_filter_def)

lemma await_ready_base: "await_ready json b ts = Some (Inr b') \<Longrightarrow> b' \<noteq> []"
  by (induction json b ts rule: await_ready.induct) (auto split: sum.split_asm if_split_asm ready_wait.split_asm)

text \<open>
  The constructor leaks nothing: if it fails, it has released all that it acquired, each once, the last
  first; if it succeeds, it has released nothing, and the first \<open>Close\<close> releases everything and further ones nothing.
\<close>

theorem distributor_start_releases:
  assumes "newDistributorWithOptions w keepLogs cfg = Some (acquired, freed, r)"
  shows "distinct acquired"
    and "isl r \<Longrightarrow> freed = rev acquired"
    and "r = Inr c \<Longrightarrow> freed = [] \<and> snd (distributor_Close c) = rev acquired \<and> snd (distributor_Close (fst (distributor_Close c))) = [] \<and>
      MimirProcess \<in> set acquired \<and> dc_base c \<noteq> []"
proof -
  obtain held e where start: "run_steps (start_steps w keepLogs) [] = (held, e)" by fastforce
  let ?all = "[ProxyListener, PartitionFixture] @ (if keepLogs then [] else [WorkDirectory]) @ [LogFile, MimirProcess]"
    and ?c = "(new_client cfg)\<lparr>dc_cleanup := held\<rparr>"
  have "List.map_filter snd (start_steps w keepLogs) = ?all" by (simp add: start_steps_def map_filter_snd_Cons List.map_filter_def)
  then have held: "\<exists>rest. ?all = held @ rest" "e = None \<longrightarrow> held = ?all" using run_steps_held [OF start] by auto
  have once: "\<not> dc_once ?c" by (simp add: new_client_def)
  have outcome: "acquired = held \<and> ((\<exists>err. r = Inl err \<and> freed = snd (distributor_Close ?c)) \<or>
      (\<exists>b. r = Inr (?c\<lparr>dc_base := b\<rparr>) \<and> freed = [] \<and> e = None \<and> b \<noteq> []))"
  proof (cases e)
    case None
    then obtain q where q: "await_ready (sw_json w) [] (sw_turns w) = Some q"
      using assms start by (auto simp: newDistributorWithOptions_def Let_def)
    show ?thesis
    proof (cases q)
      case (Inr b)
      then show ?thesis using assms start None q await_ready_base [of "sw_json w" "[]" "sw_turns w" b]
        by (simp add: newDistributorWithOptions_def Let_def) blast
    qed (use assms start None q in \<open>auto simp: newDistributorWithOptions_def Let_def\<close>)
  qed (use assms start in \<open>auto simp: newDistributorWithOptions_def Let_def\<close>)
  have "distinct ?all" by simp
  then show "distinct acquired" using held(1) outcome by (metis distinct_append)
  show "isl r \<Longrightarrow> freed = rev acquired" using outcome once by (auto simp: distributor_Close_def)
  show "r = Inr c \<Longrightarrow> freed = [] \<and> snd (distributor_Close c) = rev acquired \<and> snd (distributor_Close (fst (distributor_Close c))) = [] \<and>
      MimirProcess \<in> set acquired \<and> dc_base c \<noteq> []"
    using outcome held(2) once by (auto simp: distributor_Close_def)
qed

text \<open>With a fixed number of series per request, no two events of different half seconds share the number of a series.\<close>

lemma event_series_fresh:
  assumes "0 < wc_SeriesPerRequest (dc_config c)" "0 \<le> t" "0 \<le> u" "t div (500 * millisecond) \<noteq> u div (500 * millisecond)"
    and "t div (500 * millisecond) * dc_series c < 2 ^ 63" "u div (500 * millisecond) * dc_series c < 2 ^ 63"
    and "0 \<le> j" "j < dc_series c" "0 \<le> k" "k < dc_series c"
  shows "j + event_offset c t \<noteq> k + event_offset c u"
proof -
  let ?s = "dc_series c" and ?h = "500 * millisecond"
  have s: "0 < ?s" using assms(7,8) by simp
  have offset: "event_offset c x = x div ?h * ?s" if "0 \<le> x" "x div ?h * ?s < 2 ^ 63" for x
  proof -
    have "0 \<le> x div ?h * ?s" using that(1) s by (simp add: pos_imp_zdiv_nonneg_iff)
    then show ?thesis using that assms(1) by (cases "x = 0") (simp_all add: event_offset_def go_div_def i64_id sgn_if)
  qed
  have "(j + x * ?s) div ?s = x" "(k + x * ?s) div ?s = x" for x using s assms(7-10) by (simp_all add: div_pos_pos_trivial)
  then show ?thesis using offset assms(2-6) by metis
qed

lemma merge_family_entries:
  "get_or [] (foldl (merge_family c) merged fs) name =
     get_or [] merged name @ map (label_writer c) (concat (map snd (filter (\<lambda>f. fst f = name) fs)))"
  by (induction fs arbitrary: merged) (auto simp: merge_family_def)

lemma label_writer_Gather: "label_writer (fst (distributor_Gather answer c)) = label_writer c"
  by (auto simp: distributor_Gather_def label_writer_def fun_eq_iff Let_def split: sum.split)

text \<open>Every metric of every writer is gathered once, under its name, with the topic of the writer as a label.\<close>

lemma writers_Gather_metrics:
  "get_or [] (snd (writers_Gather answer i cs merged)) name = get_or [] merged name @ concat (map (\<lambda>(k, c). map (label_writer c)
     (concat (map snd (filter (\<lambda>f. fst f = name) (snd (distributor_Gather (answer k) c)))))) (enumerate i cs))"
proof (induction cs arbitrary: i merged)
  case (Cons c cs)
  obtain c' fs where g: "distributor_Gather (answer i) c = (c', fs)" by fastforce
  then have "label_writer c' = label_writer c" using label_writer_Gather [of "answer i" c] by simp
  moreover have "snd (writers_Gather answer i (c # cs) merged) = snd (writers_Gather answer (Suc i) cs (foldl (merge_family c') merged fs))"
    using g by (simp split: prod.split)
  ultimately show ?case using g by (simp add: Cons.IH merge_family_entries)
qed simp

text \<open>Validation succeeds only if every writer reached all its partitions, still runs and was never unreadable.\<close>

lemma distributor_Validate_sound:
  "distributor_Validate answer exited c = (c', None) \<Longrightarrow>
    distributor_WarmupComplete c \<and> \<not> exited \<and> dc_failure c = None \<and> (\<exists>fs. scrape answer c = Inr fs \<and> dc_metrics c' = fs)"
  by (cases "scrape answer c")
    (auto simp: distributor_Validate_def distributor_Gather_def distributor_WarmupComplete_def Let_def split: if_split_asm)

end
