(* ===== verification/Sim_Prometheus.thy ===== *)
theory Sim_Prometheus
  imports Sim_Mimir
begin

text \<open>
  The Prometheus workload: \<open>prometheus.go\<close> and \<open>main.go\<close> under \<open>pkg/internal/simulation/mimir\<close>. A sender is what the
  harness knows about one Prometheus process: the remote-write requests that are under way at its receiver and the
  attempts that have ended. The processes, HTTP, the decoders and the text parser are arguments.
\<close>

section \<open>The receiver\<close>

record prometheusSender =
  ps_client :: distributorClient
  ps_address :: string
  ps_lastScrape :: int
  ps_attempts :: "ApplicationObservation list"
  ps_active :: "(nat, instant) gomap"
  ps_measurementErr :: "goerror option"

text \<open>\<open>decode\<close> is the decompression, \<open>unmarshal\<close> yields the number of samples of each series.\<close>

definition remoteWriteSamples ::
  "('b \<Rightarrow> goerror + 'c) \<Rightarrow> ('c \<Rightarrow> goerror + nat list) \<Rightarrow> goerror + 'b \<Rightarrow> int \<times> goerror option" where
  "remoteWriteSamples decode unmarshal body =
     (case body of
        Inl err \<Rightarrow> (0, Some err)
      | Inr b \<Rightarrow> (case decode b of
            Inl err \<Rightarrow> (0, Some err)
          | Inr decoded \<Rightarrow> (case unmarshal decoded of
                Inl err \<Rightarrow> (0, Some err)
              | Inr series \<Rightarrow> (foldl (\<lambda>n k. i64 (n + int k)) 0 series, None))))"

text \<open>
  The handler of the receiver: it reads the clock, enters the request, counts its samples, forwards it and records
  the attempt. The two critical sections are \<open>receive\<close> and \<open>finish\<close>.
\<close>

definition receive :: "nat \<Rightarrow> instant \<Rightarrow> prometheusSender \<Rightarrow> prometheusSender" where
  "receive r start s = s\<lparr>ps_active := AList.update r start (ps_active s)\<rparr>"

definition finish ::
  "nat \<Rightarrow> instant \<Rightarrow> instant \<Rightarrow> int \<Rightarrow> int \<times> goerror option \<Rightarrow> prometheusSender \<Rightarrow> prometheusSender" where
  "finish r start now status measured s =
     s\<lparr>ps_measurementErr := (if snd measured \<noteq> None then snd measured else ps_measurementErr s),
       ps_attempts := ps_attempts s @ [\<lparr>ao_Started = start, ao_Duration = time_sub now start,
         ao_Error = (if status < 200 \<or> 300 \<le> status then Some (GoErrorf ''mimir HTTP %d'' [FInt status]) else None),
         ao_Samples = fst measured\<rparr>],
       ps_active := AList.delete r (ps_active s)\<rparr>"

section \<open>Observation\<close>

definition in_window :: "instant \<Rightarrow> instant \<Rightarrow> instant \<Rightarrow> bool" where
  "in_window start stop t \<longleftrightarrow> \<not> t < start \<and> t < stop"

text \<open>One pass over the senders, each with whether its process has ended.\<close>

fun poll_senders ::
  "instant \<Rightarrow> instant \<Rightarrow> (bool \<times> prometheusSender) list \<Rightarrow> ApplicationObservation list \<times> bool \<Rightarrow> goerror + ApplicationObservation list \<times> bool" where
  "poll_senders start stop [] acc = Inr acc"
| "poll_senders start stop ((exited, s) # senders) (attempts, busy) =
     (if exited then Inl (GoError ''prometheus exited during observation'')
      else poll_senders start stop senders
        (attempts @ filter (\<lambda>a. in_window start stop (ao_Started a)) (ps_attempts s),
         busy \<or> list_ex (\<lambda>(r, t). in_window start stop t) (ps_active s)))"

datatype poll_wait = PollCanceled goerror | DrainDeadline | PollAgain

definition accepted_samples :: "ApplicationObservation list \<Rightarrow> int" where
  "accepted_samples attempts = foldl (\<lambda>n a. if ao_Error a = None then i64 (n + ao_Samples a) else n) 0 attempts"

text \<open>The polling loop; the result has the attempts and the samples that they delivered.\<close>

fun observe_loop ::
  "instant \<Rightarrow> instant \<Rightarrow> ((bool \<times> prometheusSender) list \<times> poll_wait) list \<Rightarrow> (goerror + ApplicationObservation list \<times> int) option" where
  "observe_loop start stop [] = None"
| "observe_loop start stop ((senders, wait) # polls) =
     (case poll_senders start stop senders ([], False) of
        Inl err \<Rightarrow> Some (Inl err)
      | Inr (attempts, False) \<Rightarrow>
          Some (if attempts = [] then Inl (GoError ''prometheus issued no remote-write attempts'')
                else Inr (attempts, accepted_samples attempts))
      | Inr (attempts, True) \<Rightarrow>
          (case wait of
             PollCanceled err \<Rightarrow> Some (Inl err)
           | DrainDeadline \<Rightarrow> Some (Inl (GoError ''remote-write attempts did not drain''))
           | PollAgain \<Rightarrow> observe_loop start stop polls))"

definition Observe ::
  "instant \<Rightarrow> duration \<Rightarrow> goerror option \<Rightarrow> ((bool \<times> prometheusSender) list \<times> poll_wait) list \<Rightarrow>
    (goerror + ApplicationObservation list \<times> int) option" where
  "Observe start len canceled polls =
     (case canceled of Some err \<Rightarrow> Some (Inl err) | None \<Rightarrow> observe_loop start (start + len) polls)"

section \<open>Evidence and validation\<close>

record text_metric =
  tm_counter :: rat
  tm_gauge :: rat

text \<open>The answer of a process to \<open>/metrics\<close>: a status and the families, by name, or the error of the parser.\<close>

type_synonym metrics_answer = "goerror + int \<times> (goerror + (string \<times> text_metric list) list)"

definition sample_counters :: "(string \<times> string) list" where
  "sample_counters = map (\<lambda>n. (''prometheus_remote_storage_'' @ n, n))
     [''samples_total'', ''samples_failed_total'', ''samples_retried_total'', ''samples_dropped_total'']"

definition evidence_metric ::
  "string \<Rightarrow> (string, rat) gomap \<times> rat \<times> rat \<Rightarrow> text_metric \<Rightarrow> (string, rat) gomap \<times> rat \<times> rat" where
  "evidence_metric name acc m =
     (case acc of (out, highest, sent) \<Rightarrow>
        case map_of sample_counters name of
          Some key \<Rightarrow> (AList.update key (f64 (get_or 0 out key + tm_counter m)) out, highest, sent)
        | None \<Rightarrow>
            if name = ''prometheus_remote_storage_samples_pending''
            then (AList.update ''samples_pending'' (f64 (get_or 0 out ''samples_pending'' + tm_gauge m)) out, highest, sent)
            else if name = ''prometheus_remote_storage_queue_highest_timestamp_seconds'' then (out, max highest (tm_gauge m), sent)
            else if name = ''prometheus_remote_storage_queue_highest_sent_timestamp_seconds'' then (out, highest, max sent (tm_gauge m))
            else acc)"

definition evidence_of_sender :: "(string \<times> text_metric list) list \<Rightarrow> int \<Rightarrow> (string, rat) gomap \<Rightarrow> (string, rat) gomap" where
  "evidence_of_sender families lastScrape out =
     (case foldl (\<lambda>acc (name, ms). foldl (evidence_metric name) acc ms) (out, 0, 0) families of
        (out, highest, sent) \<Rightarrow>
          (let out = AList.update ''max_enqueue_lag_seconds'' (max (get_or 0 out ''max_enqueue_lag_seconds'') (f64 (highest - sent))) out
           in AList.update ''max_source_lag_seconds''
                (max (get_or 0 out ''max_source_lag_seconds'') (f64 (f64_div (f64_of_int lastScrape) 1000 - sent))) out))"

fun evidence_loop :: "(metrics_answer \<times> prometheusSender) list \<Rightarrow> (string, rat) gomap \<Rightarrow> goerror + (string, rat) gomap" where
  "evidence_loop [] out = Inr out"
| "evidence_loop ((answer, s) # senders) out =
     (case answer of
        Inl err \<Rightarrow> Inl err
      | Inr (status, parsed) \<Rightarrow>
          if status \<noteq> 200 then Inl (GoErrorf ''prometheus metrics %s: HTTP %d'' [FStr (ps_address s), FInt status])
          else (case parsed of
              Inl err \<Rightarrow> Inl err
            | Inr families \<Rightarrow> evidence_loop senders (evidence_of_sender families (ps_lastScrape s) out)))"

definition SenderEvidence :: "int \<Rightarrow> (metrics_answer \<times> prometheusSender) list \<Rightarrow> goerror + (string, rat) gomap" where
  "SenderEvidence observedSamples senders =
     evidence_loop senders
       (map (\<lambda>k. (k, 0)) [''samples_total'', ''samples_failed_total'', ''samples_retried_total'', ''samples_dropped_total'', ''samples_pending''] @
        [(''samples_accepted_observed_total'', f64_of_int observedSamples)])"

fun senders_Validate :: "(bool \<times> prometheusSender) list \<Rightarrow> goerror option" where
  "senders_Validate [] = None"
| "senders_Validate ((exited, s) # senders) =
     (case ps_measurementErr s of
        Some err \<Rightarrow> Some (Errorf ''count remote-write samples: '' err [])
      | None \<Rightarrow> if exited then Some (GoError ''prometheus exited before completion'') else senders_Validate senders)"

definition prometheus_Validate ::
  "(nat \<Rightarrow> (goerror + int \<times> (goerror + metric_family) list) \<times> bool) \<Rightarrow> distributorClient list \<Rightarrow> (bool \<times> prometheusSender) list \<Rightarrow>
    distributorClient list \<times> goerror option" where
  "prometheus_Validate world clients senders =
     (case writers_Validate world 0 clients of
        (clients, Some err) \<Rightarrow> (clients, Some err)
      | (clients, None) \<Rightarrow> (clients, senders_Validate senders))"

section \<open>Start and close\<close>

datatype sender_resource = SenderDirectory | SourceServer | SenderTransport | ReceiverServer | SenderLog | PrometheusProcess

text \<open>A turn of the waiting loop has the addresses that the log announces, in order; the last one counts.\<close>

record sender_turn =
  sn_addresses :: "string list"
  sn_ready :: bool
  sn_wait :: ready_wait

fun await_sender :: "string \<Rightarrow> sender_turn list \<Rightarrow> (goerror + string) option" where
  "await_sender address [] = None"
| "await_sender address (t # ts) =
     (let address = foldl (\<lambda>_ a. ''http://'' @ a) address (sn_addresses t)
      in if address \<noteq> [] \<and> sn_ready t then Some (Inr address)
         else (case sn_wait t of
             ProcessDone \<Rightarrow> Some (Inl (GoError ''prometheus exited''))
           | ReadyDeadline err \<Rightarrow> Some (Inl (Errorf ''prometheus readiness: '' err []))
           | Tick \<Rightarrow> await_sender address ts))"

record sender_world =
  nw_mkdirTemp :: "goerror option"
  nw_parse :: "goerror option"
  nw_writeFile :: "goerror option"
  nw_createLog :: "goerror option"
  nw_start :: "goerror option"
  nw_turns :: "sender_turn list"

definition sender_steps :: "sender_world \<Rightarrow> (goerror option \<times> sender_resource option) list" where
  "sender_steps w =
     [(nw_mkdirTemp w, Some SenderDirectory), (None, Some SourceServer), (nw_parse w, None), (None, Some SenderTransport),
      (None, Some ReceiverServer), (nw_writeFile w, None), (nw_createLog w, Some SenderLog), (nw_start w, Some PrometheusProcess)]"

text \<open>\<open>Close\<close> of a sender: what is there, in this order; the directory stays if the logs are kept.\<close>

definition sender_Close :: "bool \<Rightarrow> sender_resource list \<Rightarrow> sender_resource list" where
  "sender_Close keepFiles held =
     filter (\<lambda>r. r \<in> set held)
       ([PrometheusProcess, ReceiverServer, SenderTransport, SourceServer, SenderLog] @ (if keepFiles then [] else [SenderDirectory]))"

definition newPrometheusSender ::
  "sender_world \<Rightarrow> bool \<Rightarrow> distributorClient \<Rightarrow> (sender_resource list \<times> sender_resource list \<times> (goerror + prometheusSender)) option" where
  "newPrometheusSender w keepFiles client =
     (case run_steps (sender_steps w) [] of
        (held, Some err) \<Rightarrow> Some (held, sender_Close keepFiles held, Inl err)
      | (held, None) \<Rightarrow> map_option (\<lambda>r. case r of
            Inl err \<Rightarrow> (held, sender_Close keepFiles held, Inl err)
          | Inr address \<Rightarrow> (held, [], Inr \<lparr>ps_client = client, ps_address = address, ps_lastScrape = 0, ps_attempts = [],
              ps_active = [], ps_measurementErr = None\<rparr>)) (await_sender [] (nw_turns w)))"

text \<open>
  The workload: two distributors and a sender for each. If a sender fails, the senders before it are closed in
  order, then the distributors, the last one first; \<open>Inl\<close> has the error and both lists. \<open>None\<close> is the panic of the
  type assertion on a producer that is not a group.
\<close>

fun new_senders ::
  "(distributorClient \<Rightarrow> goerror + prometheusSender) \<Rightarrow> distributorClient list \<Rightarrow> prometheusSender list \<Rightarrow>
    goerror \<times> prometheusSender list + prometheusSender list" where
  "new_senders mk [] senders = Inr senders"
| "new_senders mk (c # cs) senders =
     (case mk c of Inl err \<Rightarrow> Inl (err, senders) | Inr s \<Rightarrow> new_senders mk cs (senders @ [s]))"

definition newPrometheusWorkload ::
  "(WorkloadConfig \<Rightarrow> goerror + distributorClient) \<Rightarrow> (distributorClient \<Rightarrow> goerror + prometheusSender) \<Rightarrow> WorkloadConfig \<Rightarrow>
    (goerror \<times> prometheusSender list \<times> distributorClient list + distributorClient list \<times> prometheusSender list) option" where
  "newPrometheusWorkload start mk cfg =
     (case newDistributorWriters start cfg 2 of
        Inl (err, freed) \<Rightarrow> Some (Inl (err, [], freed))
      | Inr (OneDistributor c) \<Rightarrow> None
      | Inr (WriterGroup clients) \<Rightarrow>
          Some (case new_senders mk clients [] of
             Inl (err, senders) \<Rightarrow> Inl (err, senders, rev clients)
           | Inr senders \<Rightarrow> Inr (clients, senders)))"

lemma newPrometheusWorkload_total: "newPrometheusWorkload mkc mks cfg \<noteq> None"
  by (cases "new_writers mkc (writer_configs cfg) []")
    (auto simp: newPrometheusWorkload_def newDistributorWriters_def Let_def split: sum.split)

text \<open>A sender that does not start leaves nothing behind, except the directory if its logs are kept.\<close>

theorem sender_start_releases:
  assumes "newPrometheusSender w keepFiles client = Some (acquired, freed, r)"
  shows "isl r \<Longrightarrow> distinct freed \<and> set freed = set acquired - (if keepFiles then {SenderDirectory} else {})"
    and "r = Inr s \<Longrightarrow> freed = [] \<and> PrometheusProcess \<in> set acquired \<and> ps_address s \<noteq> []"
proof -
  obtain held e where start: "run_steps (sender_steps w) [] = (held, e)" by fastforce
  let ?all = "[SenderDirectory, SourceServer, SenderTransport, ReceiverServer, SenderLog, PrometheusProcess]"
  have "List.map_filter snd (sender_steps w) = ?all" by (simp add: sender_steps_def map_filter_snd_Cons List.map_filter_def)
  then have "\<exists>rest. ?all = held @ rest" and all: "e = None \<longrightarrow> held = ?all" using run_steps_held [OF start] by auto
  then have "set held \<subseteq> set ?all" by (metis set_append sup_ge1)
  then have freed: "distinct (sender_Close keepFiles held) \<and> set (sender_Close keepFiles held) = set held - (if keepFiles then {SenderDirectory} else {})"
    by (auto simp: sender_Close_def)
  have address: "await_sender a ts = Some (Inr b) \<Longrightarrow> b \<noteq> []" for a b ts
  proof (induction ts arbitrary: a)
    case (Cons t ts)
    then show ?case by (cases "sn_wait t") (auto simp: Let_def split: if_split_asm)
  qed simp
  have outcome: "acquired = held \<and> (isl r \<and> freed = sender_Close keepFiles held \<or> (\<exists>s. r = Inr s \<and> freed = [] \<and> e = None \<and> ps_address s \<noteq> []))"
  proof (cases e)
    case None
    then obtain q where q: "await_sender [] (nw_turns w) = Some q" using assms start by (auto simp: newPrometheusSender_def)
    show ?thesis
    proof (cases q)
      case (Inr b)
      then show ?thesis using assms start None q address [of "[]" "nw_turns w" b] by (auto simp: newPrometheusSender_def)
    qed (use assms start None q in \<open>auto simp: newPrometheusSender_def\<close>)
  qed (use assms start in \<open>auto simp: newPrometheusSender_def\<close>)
  show "isl r \<Longrightarrow> distinct freed \<and> set freed = set acquired - (if keepFiles then {SenderDirectory} else {})"
    using outcome freed by (metis sum.disc(2))
  show "r = Inr s \<Longrightarrow> freed = [] \<and> PrometheusProcess \<in> set acquired \<and> ps_address s \<noteq> []" using outcome all by auto
qed

section \<open>What an observation contains\<close>

text \<open>
  The life of one sender, with its clock and all the requests that ever entered. The handler reads the clock before it
  enters the request, so that a request may enter some time after its start.
\<close>

record sender_system =
  sy_sender :: prometheusSender
  sy_now :: instant
  sy_entered :: "(nat \<times> instant) list"

inductive sender_step :: "sender_system \<Rightarrow> sender_system \<Rightarrow> bool" where
  enter: "r \<notin> fst ` set (sy_entered y) \<Longrightarrow> start \<le> now \<Longrightarrow> sy_now y \<le> now \<Longrightarrow>
    sender_step y (y\<lparr>sy_sender := receive r start (sy_sender y), sy_now := now, sy_entered := sy_entered y @ [(r, start)]\<rparr>)"
| leave: "map_of (ps_active (sy_sender y)) r = Some start \<Longrightarrow> sy_now y \<le> now \<Longrightarrow>
    sender_step y (y\<lparr>sy_sender := finish r start now status measured (sy_sender y), sy_now := now\<rparr>)"
| scraped: "sy_now y \<le> now \<Longrightarrow>
    sender_step y (y\<lparr>sy_sender := (sy_sender y)\<lparr>ps_lastScrape := now div millisecond\<rparr>, sy_now := now\<rparr>)"

definition sender_inv :: "sender_system \<Rightarrow> bool" where
  "sender_inv y \<longleftrightarrow>
     distinct (map fst (sy_entered y)) \<and> distinct (map fst (ps_active (sy_sender y))) \<and>
     set (ps_active (sy_sender y)) \<subseteq> set (sy_entered y) \<and>
     mset (map ao_Started (ps_attempts (sy_sender y))) + mset (map snd (ps_active (sy_sender y))) = mset (map snd (sy_entered y))"

lemma mset_update_new: "k \<notin> fst ` set m \<Longrightarrow> image_mset snd (mset (AList.update k v m)) = add_mset v (image_mset snd (mset m))"
  by (induction m) auto

lemma mset_delete: "distinct (map fst m) \<Longrightarrow> map_of m k = Some v \<Longrightarrow> add_mset v (image_mset snd (mset (AList.delete k m))) = image_mset snd (mset m)"
proof (induction m)
  case (Cons e m)
  show ?case
  proof (cases "fst e = k")
    case True
    then have "AList.delete k m = m" using Cons.prems(1) by (auto intro: AList.delete_idem)
    then show ?thesis using True Cons.prems(2) by (cases e) auto
  next
    case False
    then show ?thesis using Cons by (cases e) auto
  qed
qed simp

lemma sender_step_inv: "sender_step y y' \<Longrightarrow> sender_inv y \<Longrightarrow> sender_inv y'"
proof (induction rule: sender_step.induct)
  case (enter r y start now)
  then have "r \<notin> fst ` set (ps_active (sy_sender y))" by (auto simp: sender_inv_def)
  then show ?case using enter set_update_subset [of r start "ps_active (sy_sender y)"]
    by (auto simp: sender_inv_def receive_def mset_update_new)
next
  case (leave y r start now status measured)
  then show ?case using mset_delete [of "ps_active (sy_sender y)" r start, symmetric] set_delete_subset [of r "ps_active (sy_sender y)"]
    by (auto simp: sender_inv_def finish_def)
qed (auto simp: sender_inv_def)

definition new_system :: "distributorClient \<Rightarrow> string \<Rightarrow> instant \<Rightarrow> sender_system" where
  "new_system client address now = \<lparr>sy_sender = \<lparr>ps_client = client, ps_address = address, ps_lastScrape = 0, ps_attempts = [],
     ps_active = [], ps_measurementErr = None\<rparr>, sy_now = now, sy_entered = []\<rparr>"

definition sender_reachable :: "sender_system \<Rightarrow> bool" where
  "sender_reachable y \<longleftrightarrow> (\<exists>client address now. sender_step\<^sup>*\<^sup>* (new_system client address now) y)"

lemma sender_reachable_inv: "sender_reachable y \<Longrightarrow> sender_inv y"
proof -
  have "sender_step\<^sup>*\<^sup>* x y \<Longrightarrow> sender_inv x \<Longrightarrow> sender_inv y" for x y
    by (induction rule: rtranclp_induct) (auto dest: sender_step_inv)
  then show "sender_reachable y \<Longrightarrow> sender_inv y" by (fastforce simp: sender_reachable_def new_system_def sender_inv_def)
qed

abbreviation window_attempts :: "instant \<Rightarrow> instant \<Rightarrow> prometheusSender \<Rightarrow> ApplicationObservation list" where
  "window_attempts start stop s \<equiv> filter (\<lambda>a. in_window start stop (ao_Started a)) (ps_attempts s)"

lemma poll_senders_result:
  "poll_senders start stop senders (acc, busy) = Inr (attempts, busy') \<Longrightarrow>
    attempts = acc @ concat (map (window_attempts start stop \<circ> snd) senders) \<and> list_all (Not \<circ> fst) senders \<and>
    busy' = (busy \<or> list_ex (\<lambda>(e, s). list_ex (\<lambda>(r, t). in_window start stop t) (ps_active s)) senders)"
  by (induction start stop senders "(acc, busy)" arbitrary: acc busy rule: poll_senders.induct) (auto split: if_split_asm)

lemma observe_loop_result:
  "observe_loop start stop polls = Some (Inr (attempts, samples)) \<Longrightarrow>
    \<exists>senders wait. (senders, wait) \<in> set polls \<and> poll_senders start stop senders ([], False) = Inr (attempts, False) \<and>
      attempts \<noteq> [] \<and> samples = accepted_samples attempts"
proof (induction start stop polls rule: observe_loop.induct)
  case (2 start stop senders wait polls)
  show ?case
  proof (cases "poll_senders start stop senders ([], False)")
    case (Inr q)
    then show ?thesis using 2 by (cases q; cases "snd q"; cases wait) (fastforce split: if_split_asm)+
  qed (use 2 in simp)
qed simp

lemma window_starts:
  assumes "sender_inv y" "\<not> list_ex (\<lambda>(r, t). in_window start stop t) (ps_active (sy_sender y))"
  shows "mset (map ao_Started (window_attempts start stop (sy_sender y))) = mset (filter (in_window start stop) (map snd (sy_entered y)))"
proof -
  have "filter_mset (in_window start stop) (mset (map snd (ps_active (sy_sender y)))) = {#}"
    using assms(2) by (auto simp: list_ex_iff filter_mset_eq_conv filter_empty_conv)
  moreover have "filter_mset (in_window start stop) (mset (map ao_Started (ps_attempts (sy_sender y)))) +
      filter_mset (in_window start stop) (mset (map snd (ps_active (sy_sender y)))) = filter_mset (in_window start stop) (mset (map snd (sy_entered y)))"
    using assms(1) unfolding sender_inv_def by (metis filter_union_mset)
  ultimately show ?thesis by (simp add: filter_map comp_def flip: mset_filter mset_map)
qed

lemma i64_add: "i64 (i64 a + b) = i64 (a + b)"
proof -
  have "i64 a + b + 2 ^ 63 = (a + 2 ^ 63) mod 2 ^ 64 + b" by (simp add: i64_def)
  then show ?thesis by (simp add: i64_def mod_simps ac_simps)
qed

lemma accepted_samples_sum:
  "accepted_samples attempts = i64 (sum_list (map ao_Samples (filter (\<lambda>a. ao_Error a = None) attempts)))"
proof -
  have "foldl (\<lambda>n a. if ao_Error a = None then i64 (n + ao_Samples a) else n) (i64 n) as =
      i64 (n + sum_list (map ao_Samples (filter (\<lambda>a. ao_Error a = None) as)))" for n as
    by (induction as arbitrary: n) (simp_all add: i64_add add.assoc)
  from this [of 0 attempts] show ?thesis by (simp add: accepted_samples_def i64_id)
qed


text \<open>A request that started at 10, entered at 12 and ended at 20, in the window from 0 to 15.\<close>

definition example_system :: sender_system where
  "example_system = (let y = new_system (new_client (workloadConfig ''kafka'' ''a:1'')) ''http://p'' 0 in
     y\<lparr>sy_sender := finish 1 10 20 200 (5, None) (receive 1 10 (sy_sender y)), sy_now := 20, sy_entered := [(1, 10)]\<rparr>)"

lemma example_system_reachable: "sender_reachable example_system"
proof -
  let ?y = "new_system (new_client (workloadConfig ''kafka'' ''a:1'')) ''http://p'' 0"
  let ?y1 = "?y\<lparr>sy_sender := receive 1 10 (sy_sender ?y), sy_now := 12, sy_entered := sy_entered ?y @ [(1, 10)]\<rparr>"
  let ?y2 = "?y1\<lparr>sy_sender := finish 1 10 20 200 (5, None) (sy_sender ?y1), sy_now := 20\<rparr>"
  have 1: "sender_step ?y ?y1" by (rule sender_step.enter) (simp_all add: new_system_def)
  have 2: "sender_step ?y1 ?y2" by (rule sender_step.leave) (simp_all add: receive_def new_system_def)
  have "sender_step\<^sup>*\<^sup>* ?y ?y2" using rtranclp.rtrancl_into_rtrancl [of sender_step ?y ?y ?y1] 1 2 rtranclp.rtrancl_into_rtrancl [of sender_step ?y ?y1 ?y2] by blast
  moreover have "?y2 = example_system" by (simp add: example_system_def Let_def new_system_def)
  ultimately have "sender_step\<^sup>*\<^sup>* ?y example_system" by (simp only:)
  then show ?thesis unfolding sender_reachable_def by blast
qed


end
