(* ===== verification/Spec2Isabelle.thy ===== *)
theory Spec2Isabelle
  imports Direct_Producer Sim_Main Sim_Prometheus
begin

text \<open>
  \<^bold>\<open>Verification of wgo, a Go client that produces records to WarpStream.\<close>

  \<^bold>\<open>The program.\<close> \<open>pkg/wgo\<close> sends records to a cluster of interchangeable agents through franz-go. A produce
  call routes every record by topic and partition to a preferred agent (\<open>client.go\<close>,
  \<open>partition_assignment.go\<close>, \<open>agentpool.go\<close>), around agents that the recent request statistics show to be
  unhealthy (\<open>demoter.go\<close>, \<open>agent_stats_tracker.go\<close>). The records wait in one buffer per agent
  (\<open>cluster_record_buffer.go\<close>, \<open>agent_record_buffer.go\<close>) until a batch is full or its linger time is over; a
  flush encodes the batch once (\<open>encoded_topic_partition.go\<close>, \<open>produce.go\<close>) and hands it to the hedger
  (\<open>hedger.go\<close>), which sends it to the primary and, when the primary is slow or failing, to further agents in
  waves, each attempt through \<open>direct_producer.go\<close>. The responses are merged into one outcome per partition
  (\<open>produce_result.go\<close>), which travels back through the completion callbacks of the items
  (\<open>routed_batch.go\<close>, \<open>routed_topic_partition.go\<close>) to the caller. A background goroutine refreshes the agent
  pool from Kafka Metadata, periodically and on demand. \<open>pkg/internal/simulation\<close> judges the client: it runs it
  beside franz-go's own client on fake clusters behind a network that it can break, in scenarios with faults and
  moving Metadata, measures both, and checks the measurements against what each scenario expects; a second
  workload drives real Mimir and Prometheus processes through a TCP proxy.

  \<^bold>\<open>Theories and sources.\<close> In the order of their imports:

  \<^item> \<open>Wgo_Prelude\<close>: Go integers with their wrap-around, durations and instants, Go maps as association lists,
    grouping by key, and the list facts that the components share. \<open>Go_Float\<close>: binary64 rounding, executable
    on rationals, and its monotonicity. \<open>Go_Errors\<close>: error values, \<open>errors.Is\<close> and \<open>errors.As\<close>, and the code
    table of the vendored package \<open>kerr\<close>.
  \<^item> \<open>Partition_Assignment\<close> (\<open>partition_assignment.go\<close>): agents, the default and the lazy strategy, candidates
    and route outcomes. \<open>Agent_Pool\<close> (\<open>agentpool.go\<close>): the snapshot that a Metadata response becomes.
  \<^item> \<open>Agent_Stats\<close> (\<open>agent_stats_tracker.go\<close>): the ring of buckets, one agent's view and the cluster view.
    \<open>Cached_Stats\<close> (\<open>cached_agent_stats_tracker.go\<close>, \<open>observed_agent_stats_tracker.go\<close>): the cache with the
    interleavings of its readers, and the gauges.
  \<^item> \<open>Client_Config\<close> (\<open>config.go\<close>, \<open>health_check.go\<close>): settings, options, defaults, validation.
    \<open>Demoter_Policy\<close> (\<open>demoter.go\<close>): classification with hysteresis, suppression, probes, and the rewritten
    candidate lists.
  \<^item> \<open>Kbin\<close> (vendored \<open>kbin\<close>): the wire primitives. \<open>Record_Batch\<close> (\<open>produce.go\<close> and vendored \<open>kmsg\<close>): size
    estimates, \<open>encodeBatch\<close>, \<open>decodeBatch\<close>. \<open>Produce_Request\<close> (\<open>encoded_topic_partition.go\<close>, \<open>produce.go\<close>):
    encoded partitions and the request. \<open>Produce_Result\<close> (\<open>produce_result.go\<close>, \<open>produce.go\<close>): error
    classification, scoping, and the accumulator that merges attempts.
  \<^item> \<open>Routed_Batch\<close> (\<open>routed_batch.go\<close>, \<open>routed_topic_partition.go\<close>, \<open>encoded_topic_partition.go\<close>): the two item
    types, split and merge, and the \<open>done\<close> closures as values in a store. \<open>Completion\<close>: an abstract token game
    that counts who still owes a call of which closure. \<open>Agent_Buffer\<close> (\<open>agent_record_buffer.go\<close>) and
    \<open>Cluster_Buffer\<close> (\<open>cluster_record_buffer.go\<close>): the buffers, each critical section one atomic event.
  \<^item> \<open>Hedged_Produce\<close> (\<open>hedger.go\<close>): the hedge decision, a wave, the cascade, the race and \<open>ProduceSync\<close>.
  \<^item> \<open>Metadata_Refresh\<close> (\<open>client.go\<close>, \<open>metrics.go\<close>): the client's state, the backoff, one refresh, start-up, and
    the refresh goroutine as the step relation \<open>refresh_step\<close>. \<open>Client_Routing\<close> (\<open>client.go\<close>): \<open>routeRecords\<close>
    and \<open>routeRecord\<close>. \<open>Client_Produce\<close> (\<open>client.go\<close>, \<open>produce_hooks.go\<close>): \<open>Produce\<close>, \<open>ProduceSync\<close>, the
    flush function, \<open>Close\<close>. \<open>Direct_Producer\<close> (\<open>direct_producer.go\<close>, \<open>tracking_producer.go\<close>): one attempt.
  \<^item> \<open>Sim_Transport\<close> (\<open>runner/transport.go\<close>): the network with its interleavings. \<open>Sim_Behaviour\<close>
    (\<open>broker_behaviour.go\<close>): delays and errors per broker. \<open>Sim_Metadata\<close> (\<open>metadata.go\<close>, \<open>transport_phases.go\<close>): the
    published view. \<open>Sim_Observations\<close> (\<open>observations.go\<close>, \<open>windows.go\<close>, \<open>sampler.go\<close>): measurements.
    \<open>Sim_Results\<close> (\<open>scenario.go\<close>, \<open>scenario_results.go\<close>): schedules and the check of a result. \<open>Sim_Scenarios\<close>
    (\<open>scenario.go\<close>, \<open>investigation.go\<close>, \<open>storage_pressure.go\<close>): the scenarios that ship.
    \<open>Sim_Environment\<close> (\<open>environment.go\<close>, \<open>workload.go\<close>, \<open>testkafka/cluster.go\<close>): set-up and tear-down. \<open>Sim_Runner\<close>
    (\<open>scenario_runner.go\<close>, \<open>external_observations.go\<close>, \<open>client_evidence.go\<close>, \<open>stale_fallback.go\<close>): a run.
    \<open>Sim_Main\<close> (\<open>main.go\<close>): selection, the pool of scenarios, the exit status.
  \<^item> Under \<open>pkg/internal/simulation/mimir\<close>: \<open>Sim_Proxy\<close> (\<open>proxy.go\<close>, \<open>observer.go\<close>): Kafka frames and what the proxy
    does with them, where \<open>None\<close> is a panic. \<open>Sim_Overlay\<close> (\<open>configuration.go\<close>): merged configurations.
    \<open>Sim_Mimir\<close> (\<open>distributor.go\<close>, \<open>writers.go\<close>) and \<open>Sim_Prometheus\<close> (\<open>prometheus.go\<close>): what the harness keeps about
    the processes.
  \<^item> This theory: the path of a flush through the client.

  \<^bold>\<open>How code becomes definitions.\<close> A struct is a \<open>record\<close> with the names of its fields, an enumeration a
  \<open>datatype\<close>, a method a function that returns the updated receiver. A Go error result is a sum or an option,
  so every early return is a branch. A loop is a structural recursion or a fold over the data that it ranges
  over. A Go map is an association list, since its iteration order is visible in some of the code; where the
  code must not depend on the order, that is proved. The sections under a mutex are single steps of a state
  machine; a theorem on a buffer, on the cache or on the refresh goroutine holds for every sequence of steps.
  Record pointers that a caller may repeat are addresses of an explicit heap.

  \<^bold>\<open>What the theorems show.\<close>

  \<^item> \<^emph>\<open>Outcomes are true.\<close> The merged response has one entry for each requested partition, an entry without
    error exactly when an attempt was answered so; hedging adds no false success and loses no true one; a
    flush that reads as success was acknowledged by a broker; a synchronous produce reports for every
    position the outcome of that record.
  \<^item> \<^emph>\<open>Nothing is lost or done twice.\<close> Under every interleaving each buffered item completes exactly once and
    the counters return to zero; split and merge keep the records and their order; chunks fit the limit; a
    closed buffer drains.
  \<^item> \<^emph>\<open>Routing.\<close> Leader first, then the hash-chosen cyclic walk; demotion never empties a list; the retrying
    look-up of the demoter equals a closed form; a call's records are grouped by partition and counted exactly.
  \<^item> \<^emph>\<open>Health.\<close> The ring refines an exact sliding window; the cluster fractions count exactly the agents they
    mean, independently of map order; purged agents never reappear in the cache; probes are rate-limited.
  \<^item> \<^emph>\<open>Wire format.\<close> Decoding inverts encoding; estimates equal encoded sizes; a request carries every batch once.
  \<^item> \<^emph>\<open>Refresh.\<close> Fetches on demand back off without overflow; demotion state stays within the pool.
  \<^item> \<^emph>\<open>The simulation measures what it says.\<close> A fault reaches every connection to its broker, under every
    interleaving; the published Metadata follow the membership; a completed run has an outcome for every
    scheduled event; buckets and windows account for every observation; the scenarios that ship are well formed;
    the pool finishes; the exit status is the verdict. Set-ups and constructors release what they acquire.
    The proxy never panics on malformed frames, frames survive any sequence of short writes, and a late answer is an
    error to the client. An overlay changes only what it names; an observation of the Prometheus workload has
    every request that entered.

  \<^bold>\<open>Interfaces.\<close> Five locales state what a client of an interface relies on, and each is interpreted on the
  definitions of the program: \<open>assignment_strategy\<close> (by the default strategy), \<open>agent_stats_tracker\<close> (by the
  plain, the observed and the cached tracker), \<open>candidate_source\<close> (by the demoter, for the hedger),
  \<open>routed_batch\<close> (by both item types, for the buffers) and \<open>capped_doubling\<close> (by the refresh backoff).

  \<^bold>\<open>Parameters.\<close> Code outside the repository's own logic is an argument: the xxhash digest, the Snappy codec and
  the CRC, the texts of errors, a broker's answer to a request, the Metadata response, the clock; in the simulation the
  random generator and the latency distributions, the fake cluster, the gathered metrics, the codec of \<open>kmsg\<close>,
  YAML and templates, files, HTTP and processes. So is what
  the scheduler decides: the order in which legs of a wave deliver, whether a timer or the primary comes
  first, what a context shows when it is read. The hypotheses on them are documented behaviour (the codec
  decodes what it encoded, the clock does not run backwards), and every theorem with a
  hypothesis is followed by a concrete instance.

  \<^bold>\<open>Bounds and fuel.\<close> The cascade is the only loop whose recursion is not on its data. It takes fuel and returns
  an option; \<open>cascade_ends_within_budget\<close> proves that as much fuel as \<open>MaxHedgeAgents\<close> always gives a result, so
  no theorem on it is vacuous. Durations are 64-bit and conversions to \<open>float64\<close> round; the theorems on the
  backoff and on the hedge delay state the ranges in which nothing wraps.

  Loops of the simulation that wait (readiness, warmup, polling, copying) recurse on the list of the
  turns that they meet, and \<open>None\<close> says that the turns ran out; the counts of tags in a frame are data of the frame.

  \<^bold>\<open>Not modelled.\<close> The construction and registration of Prometheus collectors in \<open>metrics.go\<close>, the options passed
  to franz-go by \<open>newKgoClient\<close> and by the simulation's baseline client, and the log lines: calls of libraries with no
  state of this program. Of the simulation: the two triangular latency distributions, which need a square root,
  the rendering of the report (\<open>results_report.go\<close>), accepting and closing sockets in the proxy, the YAML text
  and the partition fixture handed to Mimir, descriptions and command-line flags. Of the vendored packages only what
  the client's encoder and error classification use is modelled. Goroutine stacks, memory reuse in buffer
  pools and real time below the granularity of the steps have no counterpart.
\<close>

section \<open>From a flush to a broker\<close>

text \<open>The responses that reach the hedger are those of a given set of attempts.\<close>

definition delivered_by ::
  "err_env \<Rightarrow> KafkaDirectProducer \<Rightarrow> (attempt_world \<times> Agent \<times> encodedTopicPartitionRecords list) set \<Rightarrow> ProduceResult \<Rightarrow> bool" where
  "delivered_by env dp A res \<longleftrightarrow>
     pr_resp res = None \<or> (\<exists>(aw, target, ps)\<in>A. \<exists>m. res = snd (direct_ProduceSync env dp aw m target ps))"

definition acknowledged_by ::
  "KafkaDirectProducer \<Rightarrow> topicPartition \<Rightarrow> attempt_world \<times> Agent \<times> encodedTopicPartitionRecords list \<Rightarrow> bool" where
  "acknowledged_by dp tp a \<longleftrightarrow>
     (case a of (aw, target, ps) \<Rightarrow> \<exists>req st pr e. buildMultiTopicProduceRequestFromEncoded (dp_version dp) (dp_topicID dp) ps = Inr (req, st) \<and>
        aw_answer aw (NodeID target) (req\<lparr>q_TimeoutMillis := i32 (go_div (ProduceRequestTimeout (dp_cfg dp)) millisecond)\<rparr>) = Answer pr \<and>
        (tp, e) \<in> set (entries pr) \<and> rp_ErrorCode e = 0)"

lemma delivered_acknowledgement:
  assumes "delivered_by env dp A res" "acknowledges res tp"
  shows "\<exists>a\<in>A. acknowledged_by dp tp a"
proof -
  obtain pr e where pr: "pr_resp res = Some pr" "(tp, e) \<in> set (entries pr)" "rp_ErrorCode e = 0"
    using assms(2) by (auto simp: acknowledges_def split: option.splits)
  then obtain aw target ps m where a: "(aw, target, ps) \<in> A" "res = snd (direct_ProduceSync env dp aw m target ps)"
    using assms(1) by (auto simp: delivered_by_def)
  have "acknowledged_by dp tp (aw, target, ps)"
    using attempt_response [of env dp aw m target ps pr] pr a(2) by (auto simp: acknowledged_by_def)
  then show ?thesis using a(1) by blast
qed

lemma encode_partitions_eq:
  "encode_partitions cdc ps = map (\<lambda>p. \<lparr>re_part = newEncodedTopicPartitionRecords cdc (w_topic p) (w_partition p) (w_records p),
     re_nodeID = w_nodeID p, re_nodeState = w_nodeState p\<rparr>) (filter (\<lambda>p. w_records p \<noteq> []) ps)"
  unfolding encode_partitions_def by (induction ps rule: rev_induct) simp_all

text \<open>
  C1: No false acknowledgement, end to end. If a flush reads as success for a partition that has records,
  then one of the produce attempts that delivered to the hedger was a request, built from its batches, that a
  broker answered with an error-free entry for that partition: the buffer's flush function, the hedger's
  race and cascade, the merging of responses and the direct producer together never turn a missing,
  failed or partial answer into an acknowledgement.
\<close>

theorem flush_success_was_acknowledged:
  assumes "flushBatch cdc env tracker cfg fuel w nodeID parts = Some out" and "p \<in> set parts" and "w_records p \<noteq> []"
    and "recordErrFromResult (hp_result out) (w_topic p, w_partition p) = None"
    and "delivered_by env dp A (pw_primary w)"
    and "\<And>k agent res. LegDone agent res \<in> set (ww_events (pw_waves w k)) \<Longrightarrow> delivered_by env dp A res"
  shows "\<exists>a\<in>A. acknowledged_by dp (w_topic p, w_partition p) a"
proof -
  let ?e = "\<lparr>re_part = newEncodedTopicPartitionRecords cdc (w_topic p) (w_partition p) (w_records p),
     re_nodeID = w_nodeID p, re_nodeState = w_nodeState p\<rparr>"
  have mem: "?e \<in> set (encode_partitions cdc parts)" using assms(2,3) by (auto simp: encode_partitions_eq)
  have key: "e_key (re_part ?e) = (w_topic p, w_partition p)"
    by (simp add: newEncodedTopicPartitionRecords_def case_prod_unfold Let_def)
  have "acknowledges (pw_primary w) (w_topic p, w_partition p) \<or>
      (\<exists>k agent res. LegDone agent res \<in> set (ww_events (pw_waves w k)) \<and> acknowledges res (w_topic p, w_partition p))"
    using hedged_acknowledges [OF assms(1) [unfolded flushBatch_def] mem] assms(4) unfolding key by blast
  then show ?thesis using delivered_acknowledgement assms(5,6) by blast
qed

definition example_direct :: KafkaDirectProducer where
  "example_direct = \<lparr>dp_topicID = (\<lambda>t. Some 7), dp_version = 11, dp_cfg = DirectProducer DefaultConfig, dp_hasResponseHook = False\<rparr>"

definition example_attempt :: "attempt_world \<times> Agent \<times> encodedTopicPartitionRecords list" where
  "example_attempt = (\<lparr>aw_answer = (\<lambda>n req. Answer (example_response [(''t'', 0, 0)])), aw_ctxErrAfterHook = None, aw_latency = 0\<rparr>,
     \<lparr>NodeID = 1, State = AgentStateHealthy\<rparr>, [example_encoded ''t'' 0 [1]])"

definition example_direct_metrics :: direct_metrics where
  "example_direct_metrics = \<lparr>produceDirectRequestsTotal = [], produceDirectRequestsFailedTotal = [], requestLatencySuccess = [],
     requestLatencyFailure = [], produceWireStats = zero_stats\<rparr>"

definition example_flush_world :: "unit produce_world" where
  "example_flush_world = example_world\<lparr>
     pw_primary := (case example_attempt of (aw, target, ps) \<Rightarrow> snd (direct_ProduceSync example_env example_direct aw example_direct_metrics target ps)),
     pw_waves := (\<lambda>k. \<lparr>ww_ctxErr = None, ww_events = []\<rparr>)\<rparr>"

definition example_flush_item :: routedTopicPartitionRecords where
  "example_flush_item = \<lparr>w_topic = ''t'', w_partition = 0, w_records = [example_heap 0], w_nodeID = 1, w_nodeState = AgentStateHealthy\<rparr>"

theorem flush_success_was_acknowledged_witness:
  "\<exists>a\<in>{example_attempt}. acknowledged_by example_direct (''t'', 0) a"
proof -
  let ?run = "flushBatch example_codec example_env example_no_stats DefaultConfig 3 example_flush_world 1 [example_flush_item]"
  have "case ?run of None \<Rightarrow> False | Some out \<Rightarrow> recordErrFromResult (hp_result out) (''t'', 0) = None" by code_simp
  then obtain out where out: "?run = Some out" "recordErrFromResult (hp_result out) (''t'', 0) = None" by (auto split: option.splits)
  have key: "(w_topic example_flush_item, w_partition example_flush_item) = (''t'', 0)" "w_records example_flush_item \<noteq> []"
    by (simp_all add: example_flush_item_def)
  have "delivered_by example_env example_direct {example_attempt} (pw_primary example_flush_world)"
    by (auto simp: delivered_by_def example_flush_world_def example_attempt_def)
  moreover have "delivered_by example_env example_direct {example_attempt} res"
    if "LegDone agent res \<in> set (ww_events (pw_waves example_flush_world k))" for k agent res
    using that by (simp add: example_flush_world_def)
  ultimately show ?thesis
    using flush_success_was_acknowledged [OF out(1) _ key(2), of example_direct "{example_attempt}"] out(2) unfolding key by simp
qed

end
